(* ===== verification/Prelude.thy ===== *)
theory Prelude
  imports Main "HOL-Library.Word" "HOL-Library.Monad_Syntax"
begin

text \<open>
  Shared vocabulary of the development.
  \<^item> The machine word and pointer types of the 64-bit configuration and the bit macros of
    \<^verbatim>\<open>src/kernel/include/util.h\<close>.
  \<^item> Doubly linked lists threaded through a heap: \<open>path f p xs q\<close> follows the link \<open>f\<close> from
    \<open>p\<close> through the cells \<open>xs\<close> to \<open>q\<close>; \<open>dlist\<close> is a NULL-terminated list linked both ways.
  \<^item> The locale \<open>dlinks\<close>: the interface of a heap with a forward and a backward link per
    cell. Its lemmas (unlink, link at either end, link in the middle) are proved once and used
    for the scheduler queues, the endpoint queues and the capability derivation list.
\<close>

unbundle bit_operations_syntax

type_synonym word64 = "64 word"
type_synonym ptr = "64 word"
type_synonym ticks = "64 word"
type_synonym reg = nat

abbreviation (input) NULL :: ptr where
  "NULL \<equiv> 0"

named_theorems link_simps \<open>how field updates act on the link functions of the heap\<close>

section \<open>Bit macros\<close>

definition BIT :: "word64 \<Rightarrow> word64" where
  "BIT n = push_bit (unat n) 1"

definition MASK :: "word64 \<Rightarrow> word64" where
  "MASK n = BIT n - 1"

definition IS_ALIGNED :: "word64 \<Rightarrow> word64 \<Rightarrow> bool" where
  "IS_ALIGNED n b \<longleftrightarrow> n AND MASK b = 0"

definition ROUND_DOWN :: "word64 \<Rightarrow> word64 \<Rightarrow> word64" where
  "ROUND_DOWN n b = push_bit (unat b) (drop_bit (unat b) n)"

definition ROUND_UP :: "word64 \<Rightarrow> word64 \<Rightarrow> word64" where
  "ROUND_UP n b = push_bit (unat b) (drop_bit (unat b) (n - 1) + 1)"

abbreviation (input) wordBits :: word64 where
  "wordBits \<equiv> 64"

abbreviation (input) wordRadix :: word64 where
  "wordRadix \<equiv> 6"

section \<open>Paths through a heap\<close>

primrec path :: "(ptr \<Rightarrow> ptr) \<Rightarrow> ptr \<Rightarrow> ptr list \<Rightarrow> ptr \<Rightarrow> bool" where
  "path f p [] q \<longleftrightarrow> p = q"
| "path f p (x # xs) q \<longleftrightarrow> p = x \<and> x \<noteq> NULL \<and> path f (f x) xs q"

lemma path_append [simp]:
  "path f p (xs @ ys) q \<longleftrightarrow> (\<exists>m. path f p xs m \<and> path f m ys q)"
  by (induction xs arbitrary: p) auto

lemma path_upd [simp]: "u \<notin> set xs \<Longrightarrow> path (f(u := v)) p xs q = path f p xs q"
  by (induction xs arbitrary: p) auto

lemma path_NULL [simp]: "path f NULL xs q \<longleftrightarrow> xs = [] \<and> q = NULL"
  by (cases xs) auto

lemma path_not_NULL: "path f p xs q \<Longrightarrow> x \<in> set xs \<Longrightarrow> x \<noteq> NULL"
  by (induction xs arbitrary: p) auto

lemma path_fun: "path f p xs NULL \<Longrightarrow> path f p ys NULL \<Longrightarrow> xs = ys"
proof (induction xs arbitrary: p ys)
  case Nil
  then show ?case by simp
next
  case (Cons x xs)
  then show ?case by (cases ys) auto
qed

lemma path_hd: "path f p xs NULL \<Longrightarrow> p = (case xs of [] \<Rightarrow> NULL | x # _ \<Rightarrow> x)"
  by (cases xs) auto

lemma path_start: "path f p xs q \<Longrightarrow> p = (case xs of [] \<Rightarrow> q | x # _ \<Rightarrow> x)"
  by (cases xs) auto

lemma path_snoc_last: "path f p (xs @ [x]) q \<Longrightarrow> f x = q"
  by auto

text \<open>A list linked forwards by \<open>nx\<close> and backwards by \<open>pv\<close>, with its two ends.\<close>

definition dlist ::
  "(ptr \<Rightarrow> ptr) \<Rightarrow> (ptr \<Rightarrow> ptr) \<Rightarrow> ptr \<Rightarrow> ptr \<Rightarrow> ptr list \<Rightarrow> bool" where
  "dlist nx pv h e xs \<longleftrightarrow> distinct xs \<and> path nx h xs NULL \<and> path pv e (rev xs) NULL"

lemma dlist_distinct: "dlist nx pv h e xs \<Longrightarrow> distinct xs"
  by (simp add: dlist_def)

lemma dlist_not_NULL: "dlist nx pv h e xs \<Longrightarrow> x \<in> set xs \<Longrightarrow> x \<noteq> NULL"
  by (auto simp: dlist_def dest: path_not_NULL)

lemma dlist_head: "dlist nx pv h e xs \<Longrightarrow> h = (case xs of [] \<Rightarrow> NULL | x # _ \<Rightarrow> x)"
  by (auto simp: dlist_def dest: path_hd)

lemma dlist_end: "dlist nx pv h e xs \<Longrightarrow> e = (if xs = [] then NULL else last xs)"
  by (cases xs rule: rev_cases) (auto simp: dlist_def)

lemma dlist_fun: "dlist nx pv h e xs \<Longrightarrow> dlist nx pv h e' ys \<Longrightarrow> xs = ys"
  by (auto simp: dlist_def dest: path_fun)

lemma dlist_Nil [simp]: "dlist nx pv h e [] \<longleftrightarrow> h = NULL \<and> e = NULL"
  by (auto simp: dlist_def)

lemma dlist_empty_iff: "dlist nx pv h e xs \<Longrightarrow> h = NULL \<longleftrightarrow> xs = []"
  by (cases xs) (auto simp: dlist_def)

lemma dlist_end_empty_iff: "dlist nx pv h e xs \<Longrightarrow> e = NULL \<longleftrightarrow> xs = []"
  by (cases xs rule: rev_cases) (auto simp: dlist_def)

text \<open>The neighbours of a cell in the middle of a list.\<close>

lemma dlist_mid:
  assumes "dlist nx pv h e (xs @ x # ys)"
  shows "nx x = (case ys of [] \<Rightarrow> NULL | y # _ \<Rightarrow> y)"
    and "pv x = (if xs = [] then NULL else last xs)"
  using assms
  by (auto simp: dlist_def split: list.splits)
    (cases xs rule: rev_cases; auto)+

lemma dlist_frame:
  assumes "\<And>x. x \<in> set xs \<Longrightarrow> nx' x = nx x" "\<And>x. x \<in> set xs \<Longrightarrow> pv' x = pv x"
    and "dlist nx pv h e xs"
  shows "dlist nx' pv' h e xs"
proof -
  have *: "path f' p zs q"
    if "path f p zs q" "\<And>x. x \<in> set zs \<Longrightarrow> f' x = f x" for f f' :: "ptr \<Rightarrow> ptr" and p zs q
    using that by (induction zs arbitrary: p) auto
  from assms show ?thesis
    unfolding dlist_def
    by (auto intro!: *[of nx _ xs _ nx'] *[of pv _ "rev xs" _ pv'])
qed

section \<open>The interface of a doubly linked heap\<close>

locale dlinks =
  fixes nxt :: "'s \<Rightarrow> ptr \<Rightarrow> ptr"
    and prv :: "'s \<Rightarrow> ptr \<Rightarrow> ptr"
    and set_nxt :: "ptr \<Rightarrow> ptr \<Rightarrow> 's \<Rightarrow> 's"
    and set_prv :: "ptr \<Rightarrow> ptr \<Rightarrow> 's \<Rightarrow> 's"
  assumes nxt_set_nxt: "nxt (set_nxt p v s) = (nxt s)(p := v)"
    and prv_set_nxt: "prv (set_nxt p v s) = prv s"
    and prv_set_prv: "prv (set_prv p v s) = (prv s)(p := v)"
    and nxt_set_prv: "nxt (set_prv p v s) = nxt s"
begin

lemmas links = nxt_set_nxt prv_set_nxt prv_set_prv nxt_set_prv

text \<open>Link a fresh cell in front of, behind, and into the middle of a list.\<close>

lemma link_front:
  assumes "dlist (nxt s) (prv s) h e xs" "x \<notin> set xs" "x \<noteq> NULL" "xs \<noteq> []" "prv s x = NULL"
  shows "dlist (nxt (set_prv h x (set_nxt x h s))) (prv (set_prv h x (set_nxt x h s))) x e (x # xs)"
  using assms by (cases xs) (auto simp: dlist_def links)

lemma link_back:
  assumes "dlist (nxt s) (prv s) h e xs" "x \<notin> set xs" "x \<noteq> NULL" "xs \<noteq> []" "nxt s x = NULL"
  shows "dlist (nxt (set_nxt e x (set_prv x e s))) (prv (set_nxt e x (set_prv x e s))) h x (xs @ [x])"
  using assms by (cases xs rule: rev_cases) (auto simp: dlist_def links)

lemma link_single:
  assumes "x \<noteq> NULL" "nxt s x = NULL" "prv s x = NULL"
  shows "dlist (nxt s) (prv s) x x [x]"
  using assms by (simp add: dlist_def)

lemma link_middle:
  assumes "dlist (nxt s) (prv s) h e (xs @ b # a # ys)"
    and "x \<notin> set (xs @ b # a # ys)" "x \<noteq> NULL"
    and "s' = set_nxt b x (set_prv a x (set_nxt x a (set_prv x b s)))"
  shows "dlist (nxt s') (prv s') h e (xs @ b # x # a # ys)"
  using assms by (auto simp: dlist_def links)

text \<open>Unlink the only cell, the first, the last and an inner one.\<close>

lemma unlink_first:
  assumes "dlist (nxt s) (prv s) h e (x # y # ys)"
    and "s' = set_nxt x NULL (set_prv y NULL s)"
  shows "dlist (nxt s') (prv s') y e (y # ys)"
  using assms by (auto simp: dlist_def links)

lemma unlink_last:
  assumes "dlist (nxt s) (prv s) h e (xs @ [y, x])"
    and "s' = set_prv x NULL (set_nxt y NULL s)"
  shows "dlist (nxt s') (prv s') h y (xs @ [y])"
  using assms by (auto simp: dlist_def links)

lemma unlink_middle:
  assumes "dlist (nxt s) (prv s) h e (xs @ b # x # a # ys)"
    and "s' = set_prv a b (set_nxt b a s)"
  shows "dlist (nxt s') (prv s') h e (xs @ b # a # ys)"
  using assms by (auto simp: dlist_def links)

end

section \<open>Generic facts\<close>

lemma fun_upd_same: "f p = v \<Longrightarrow> f(p := v) = f"
  by auto

lemma map_fun_upd_notin: "p \<notin> set xs \<Longrightarrow> map (f(p := v)) xs = map f xs"
  by simp

lemma split_list_unique:
  "xs @ x # ys = us @ x # vs \<Longrightarrow> distinct (xs @ x # ys) \<Longrightarrow> xs = us \<and> ys = vs"
proof (induction xs arbitrary: us)
  case Nil
  then show ?case by (cases us) auto
next
  case (Cons a xs)
  then show ?case by (cases us) auto
qed

lemma unat_add_nowrap:
  fixes x y :: word64
  shows "unat x + unat y < 2 ^ 64 \<Longrightarrow> unat (x + y) = unat x + unat y"
  by (simp add: unat_word_ariths)

lemma unat_lt_64: "unat (x :: word64) < 2 ^ 64"
  using unsigned_less [of x] by simp

lemma unat_suc_nowrap:
  fixes x :: word64
  shows "unat x < unat (y :: word64) \<Longrightarrow> unat (x + 1) = unat x + 1"
  using unat_lt_64 [of y] unat_add_nowrap [of x 1] by simp

lemma unat_sub_nowrap:
  fixes x y :: word64
  shows "y \<le> x \<Longrightarrow> unat (x - y) = unat x - unat y"
  by (simp add: unat_sub)

lemma of_nat_unat_64: "n < unat (x :: word64) \<Longrightarrow> unat (of_nat n :: word64) = n"
  using unat_lt_64 [of x] by (simp add: unat_of_nat)

lemma of_nat_unat_id: "of_nat (unat (x :: word64)) = x"
  by simp

lemma mod_window:
  fixes a h m :: nat
  assumes "a < m"
  shows "(h + a) mod m = (if h mod m + a < m then h mod m + a else h mod m + a - m)"
proof -
  have r: "h mod m < m" using assms by simp
  have "(h + a) mod m = (h mod m + a) mod m" by (simp add: mod_add_left_eq)
  also have "\<dots> = (if h mod m + a < m then h mod m + a else (h mod m + a - m) mod m)"
    by (simp add: le_mod_geq)
  finally show ?thesis using assms r by (cases "h mod m + a < m") simp_all
qed

lemma mod_inj_window:
  fixes a b h m :: nat
  assumes "a < m" "b < m" "(h + a) mod m = (h + b) mod m"
  shows "a = b"
  using assms by (auto simp: mod_window split: if_splits)

end
