(* ===== verification/Structures.thy ===== *)
theory Structures
  imports Prelude
begin

text \<open>
  The data of the kernel, from \<^verbatim>\<open>src/kernel/include/object/structures.h\<close>, the bitfield
  descriptions \<^verbatim>\<open>structures_64.bf\<close> (common) and
  \<^verbatim>\<open>include/arch/riscv/arch/64/mode/object/structures.bf\<close>, and
  \<^verbatim>\<open>include/model/statedata.h\<close>.

  Configuration: the MCS kernel that the SDK builder selects (\<^verbatim>\<open>KernelIsMCS\<close>), 64-bit RISC-V,
  one core, no FPU, release build (\<^verbatim>\<open>assert\<close> expands to nothing, \<^verbatim>\<open>fail\<close> halts).

  Memory is one heap per object type (a function from addresses to objects); a C pointer
  dereference reads the heap of its type. A tagged union of the bitfield description is a
  datatype with one constructor per tag and the fields as arguments; a block is a record, and
  the generated accessors are the record's selectors and updates. Fields hold values that fit
  their bitfield width (pointers are aligned), as the generated constructors require.
\<close>

section \<open>Capabilities\<close>

datatype cap =
    NullCap
  | UntypedCap (capFreeIndex: word64) (capIsDevice: bool) (capBlockSize: word64) (capUtPtr: ptr)
  | EndpointCap (capEPBadge: word64) (capCanGrantReply: bool) (capCanGrant: bool)
      (capCanSend: bool) (capCanReceive: bool) (capEPPtr: ptr)
  | NotificationCap (capNtfnBadge: word64) (capNtfnCanReceive: bool) (capNtfnCanSend: bool)
      (capNtfnPtr: ptr)
  | ReplyCap (capReplyPtr: ptr) (capReplyCanGrant: bool)
  | CNodeCap (capCNodeRadix: word64) (capCNodeGuardSize: word64) (capCNodeGuard: word64)
      (capCNodePtr: ptr)
  | ThreadCap (capTCBPtr: ptr)
  | IRQControlCap
  | IRQHandlerCap (capIRQ: word64)
  | ZombieCap (capZombieID: word64) (capZombieType: word64)
  | DomainCap
  | SchedContextCap (capSCPtr: ptr) (capSCSizeBits: word64)
  | SchedControlCap (core: word64)
  | FrameCap (capFMappedASID: word64) (capFBasePtr: ptr) (capFSize: word64)
      (capFVMRights: word64) (capFIsDevice: bool) (capFMappedAddress: word64)
  | PageTableCap (capPTMappedASID: word64) (capPTBasePtr: ptr) (capPTIsMapped: bool)
      (capPTMappedAddress: word64)
  | ASIDControlCap
  | ASIDPoolCap (capASIDBase: word64) (capASIDPool: ptr)

text \<open>Capability table entry with its node of the mapping database.\<close>

record cte =
  cteCap :: cap
  mdbNext :: ptr
  mdbPrev :: ptr
  mdbRevocable :: bool
  mdbFirstBadged :: bool

definition nullMDBNode :: "cap \<Rightarrow> cte" where
  "nullMDBNode c = \<lparr>cteCap = c, mdbNext = NULL, mdbPrev = NULL, mdbRevocable = False, mdbFirstBadged = False\<rparr>"

section \<open>Faults\<close>

datatype lookup_fault =
    InvalidRoot
  | MissingCapability (mc_bitsLeft: word64)
  | DepthMismatch (dm_bitsFound: word64) (dm_bitsLeft: word64)
  | GuardMismatch (gm_guardFound: word64) (gm_bitsLeft: word64) (gm_bitsFound: word64)

datatype fault =
    NullFault
  | CapFault (cf_address: word64) (cf_inReceivePhase: bool)
  | UnknownSyscall (us_syscallNumber: word64)
  | UserException (ue_number: word64) (ue_code: word64)
  | TimeoutFault (to_badge: word64)
  | VMFault (vf_address: word64) (vf_FSR: word64) (vf_instructionFault: bool)

section \<open>Threads\<close>

datatype tstate =
    ThreadState_Inactive
  | ThreadState_Running
  | ThreadState_Restart
  | ThreadState_BlockedOnReceive
  | ThreadState_BlockedOnSend
  | ThreadState_BlockedOnReply
  | ThreadState_BlockedOnNotification
  | ThreadState_IdleThreadState

record thread_state =
  blockingIPCBadge :: word64
  blockingIPCCanGrant :: bool
  blockingIPCCanGrantReply :: bool
  blockingIPCIsCall :: bool
  tcbQueued :: bool
  tsType :: tstate
  tcbInReleaseQueue :: bool
  blockingObject :: ptr
  replyObject :: ptr

record tcb =
  tcbContext :: "reg \<Rightarrow> word64"
  tcbState :: thread_state
  tcbFlags :: word64
  tcbBoundNotification :: ptr
  tcbFault :: fault
  tcbLookupFailure :: lookup_fault
  tcbDomain :: word64
  tcbMCP :: word64
  tcbPriority :: word64
  tcbSchedContext :: ptr
  tcbYieldTo :: ptr
  tcbIPCBuffer :: word64
  tcbSchedNext :: ptr
  tcbSchedPrev :: ptr
  tcbEPNext :: ptr
  tcbEPPrev :: ptr

record tcb_queue =
  head :: ptr
  qend :: ptr

section \<open>Scheduling contexts and replies\<close>

record refill =
  rTime :: ticks
  rAmount :: ticks

record sched_context =
  scPeriod :: ticks
  scConsumed :: ticks
  scCore :: word64
  scTcb :: ptr
  scReply :: ptr
  scNotification :: ptr
  scBadge :: word64
  scYieldFrom :: ptr
  scRefillMax :: word64
  scRefillHead :: word64
  scRefillTail :: word64
  scSporadic :: bool

record call_stack =
  callStackPtr :: ptr
  isHead :: bool

definition call_stack_new :: "ptr \<Rightarrow> bool \<Rightarrow> call_stack" where
  "call_stack_new p h = \<lparr>callStackPtr = p, isHead = h\<rparr>"

record reply =
  replyTCB :: ptr
  replyPrev :: call_stack
  replyNext :: call_stack

section \<open>Endpoints and notifications\<close>

datatype ep_state = EPState_Idle | EPState_Send | EPState_Recv

record endpoint =
  epQueue_head :: ptr
  epQueue_tail :: ptr
  epState :: ep_state

datatype ntfn_state = NtfnState_Idle | NtfnState_Waiting | NtfnState_Active

record notification =
  ntfnSchedContext :: ptr
  ntfnBoundTCB :: ptr
  ntfnMsgIdentifier :: word64
  ntfnQueue_head :: ptr
  ntfnQueue_tail :: ptr
  ntfnState :: ntfn_state

datatype irq_state = IRQInactive | IRQSignal | IRQTimer | IRQReserved

section \<open>The kernel state\<close>

text \<open>
  Constants of the platform and of the build configuration: timer ticks per microsecond, the
  kernel's worst-case execution time and its scale, the longest period, the number of domains and of
  entries of the domain schedule, the highest interrupt number, the limits
  \<^verbatim>\<open>CONFIG_RETYPE_FAN_OUT_LIMIT\<close>, \<^verbatim>\<open>CONFIG_RESET_CHUNK_BITS\<close> and
  \<^verbatim>\<open>CONFIG_MAX_NUM_WORK_UNITS_PER_PREEMPTION\<close>, the interrupt of the kernel's timer, and the address of the
  kernel's page table with the offset of the kernel image from physical memory.
\<close>

record platform =
  pTicksInUs :: ticks
  pKernelWcetUs :: ticks
  pKernelWcetScale :: ticks
  pMaxPeriodUs :: ticks
  pNumDomains :: word64
  pDomScheduleLength :: word64
  pMaxIRQ :: word64
  pRetypeFanOutLimit :: word64
  pResetChunkBits :: word64
  pMaxWorkUnits :: word64
  pKernelTimerIRQ :: word64
  pKernelRootPT :: ptr
  pKernelELFOffset :: word64

text \<open>\<^verbatim>\<open>getKernelWcetTicks\<close>, \<^verbatim>\<open>usToTicks(MAX_PERIOD_US)\<close> and \<^verbatim>\<open>getTimerPrecision\<close>.\<close>

abbreviation pKernelWcetTicks :: "platform \<Rightarrow> ticks" where
  "pKernelWcetTicks p \<equiv> pKernelWcetUs p * pTicksInUs p"

abbreviation pMaxPeriodTicks :: "platform \<Rightarrow> ticks" where
  "pMaxPeriodTicks p \<equiv> pMaxPeriodUs p * pTicksInUs p"

abbreviation pTimerPrecision :: "platform \<Rightarrow> ticks" where
  "pTimerPrecision p \<equiv> 1 * pTicksInUs p"

text \<open>An entry of a hardware page table.\<close>

record pte =
  pte_ppn :: word64
  pte_sw :: word64
  pte_dirty :: bool
  pte_accessed :: bool
  pte_global :: bool
  pte_user :: bool
  pte_execute :: bool
  pte_write :: bool
  pte_read :: bool
  pte_valid :: bool

text \<open>
  The fields \<open>hw...\<close> are the hardware the kernel talks to: the deadline of the timer, the masked interrupts, the translation
  register, the interrupt claim register and the faulting address. What the hardware answers is
  given by \<open>hwTime\<close>, \<open>hwSIP\<close> and \<open>hwClaim\<close>, the results of successive reads of the clock, of the pending bits and of the
  interrupt controller, with \<open>hwReads\<close> the number of reads so far; theorems hold for every such answer.
\<close>

record kstate =
  plat :: platform
  tcbs :: "ptr \<Rightarrow> tcb"
  scs :: "ptr \<Rightarrow> sched_context"
  refills :: "ptr \<Rightarrow> word64 \<Rightarrow> refill"
  replies :: "ptr \<Rightarrow> reply"
  eps :: "ptr \<Rightarrow> endpoint"
  ntfns :: "ptr \<Rightarrow> notification"
  ctes :: "ptr \<Rightarrow> cte"
  mem :: "ptr \<Rightarrow> word64"
  ptes :: "ptr \<Rightarrow> pte"
  asid_pools :: "ptr \<Rightarrow> word64 \<Rightarrow> ptr"
  riscvKSASIDTable :: "word64 \<Rightarrow> ptr"
  ksReadyQueues :: "word64 \<Rightarrow> tcb_queue"
  ksReadyQueuesL1Bitmap :: "word64 \<Rightarrow> word64"
  ksReadyQueuesL2Bitmap :: "word64 \<Rightarrow> word64 \<Rightarrow> word64"
  ksCurThread :: ptr
  ksIdleThread :: ptr
  ksSchedulerAction :: ptr
  ksReleaseQueue :: tcb_queue
  ksConsumed :: ticks
  ksCurTime :: ticks
  ksReprogram :: bool
  ksCurSC :: ptr
  ksIdleSC :: ptr
  ksWorkUnitsCompleted :: word64
  intStateIRQTable :: "word64 \<Rightarrow> irq_state"
  intStateIRQNode :: ptr
  ksDomScheduleIdx :: word64
  ksDomScheduleStart :: word64
  ksDomSchedule :: "word64 \<Rightarrow> word64"
  ksCurDomain :: word64
  ksDomainTime :: ticks
  current_lookup_fault :: lookup_fault
  current_fault :: fault
  current_extra_caps :: "nat \<Rightarrow> ptr"
  hwDeadline :: ticks
  hwIRQMask :: "word64 \<Rightarrow> bool"
  active_irq :: word64
  hwSATP :: word64
  hwClaimReg :: word64
  hwSTVAL :: word64
  hwReads :: nat
  hwTime :: "nat \<Rightarrow> ticks"
  hwSIP :: "nat \<Rightarrow> word64"
  hwClaim :: "nat \<Rightarrow> word64"

definition SchedulerAction_ResumeCurrentThread :: ptr where
  "SchedulerAction_ResumeCurrentThread = 0"

definition SchedulerAction_ChooseNewThread :: ptr where
  "SchedulerAction_ChooseNewThread = 1"

abbreviation numDomains :: "kstate \<Rightarrow> word64" where
  "numDomains s \<equiv> pNumDomains (plat s)"

abbreviation domScheduleLength :: "kstate \<Rightarrow> word64" where
  "domScheduleLength s \<equiv> pDomScheduleLength (plat s)"

abbreviation (input) CONFIG_NUM_PRIORITIES :: word64 where
  "CONFIG_NUM_PRIORITIES \<equiv> 256"

abbreviation (input) L2_BITMAP_SIZE :: word64 where
  "L2_BITMAP_SIZE \<equiv> 4"

section \<open>A concrete state\<close>

text \<open>
  The kernel's memory as it is before boot writes to it: all zero, with a platform of
  10-tick worst-case execution time. Concrete examples start from it.
\<close>

definition tcb0 :: tcb where
  "tcb0 = \<lparr>tcbContext = (\<lambda>_. 0),
     tcbState = \<lparr>blockingIPCBadge = 0, blockingIPCCanGrant = False, blockingIPCCanGrantReply = False,
       blockingIPCIsCall = False, tcbQueued = False, tsType = ThreadState_Inactive,
       tcbInReleaseQueue = False, blockingObject = NULL, replyObject = NULL\<rparr>,
     tcbFlags = 0, tcbBoundNotification = NULL, tcbFault = NullFault, tcbLookupFailure = InvalidRoot,
     tcbDomain = 0, tcbMCP = 0, tcbPriority = 0, tcbSchedContext = NULL, tcbYieldTo = NULL,
     tcbIPCBuffer = 0, tcbSchedNext = NULL, tcbSchedPrev = NULL, tcbEPNext = NULL, tcbEPPrev = NULL\<rparr>"

definition sc0 :: sched_context where
  "sc0 = \<lparr>scPeriod = 0, scConsumed = 0, scCore = 0, scTcb = NULL, scReply = NULL,
     scNotification = NULL, scBadge = 0, scYieldFrom = NULL, scRefillMax = 0, scRefillHead = 0,
     scRefillTail = 0, scSporadic = False\<rparr>"

definition pte0 :: pte where
  "pte0 = \<lparr>pte_ppn = 0, pte_sw = 0, pte_dirty = False, pte_accessed = False, pte_global = False, pte_user = False,
     pte_execute = False, pte_write = False, pte_read = False, pte_valid = False\<rparr>"

definition kstate0 :: kstate where
  "kstate0 = \<lparr>
     plat = \<lparr>pTicksInUs = 1, pKernelWcetUs = 10, pKernelWcetScale = 1, pMaxPeriodUs = 1000000,
       pNumDomains = 1, pDomScheduleLength = 2, pMaxIRQ = 127, pRetypeFanOutLimit = 256,
       pResetChunkBits = 8, pMaxWorkUnits = 100,
       pKernelTimerIRQ = 127, pKernelRootPT = 0xFFFFFFFF84020000, pKernelELFOffset = 0xFFFFFFFF00000000\<rparr>,
     tcbs = (\<lambda>_. tcb0), scs = (\<lambda>_. sc0), refills = (\<lambda>_ _. \<lparr>rTime = 0, rAmount = 0\<rparr>),
     replies = (\<lambda>_. \<lparr>replyTCB = NULL, replyPrev = call_stack_new NULL False,
       replyNext = call_stack_new NULL False\<rparr>),
     eps = (\<lambda>_. \<lparr>epQueue_head = NULL, epQueue_tail = NULL, epState = EPState_Idle\<rparr>),
     ntfns = (\<lambda>_. \<lparr>ntfnSchedContext = NULL, ntfnBoundTCB = NULL, ntfnMsgIdentifier = 0,
       ntfnQueue_head = NULL, ntfnQueue_tail = NULL, ntfnState = NtfnState_Idle\<rparr>),
     ctes = (\<lambda>_. nullMDBNode NullCap), mem = (\<lambda>_. 0),
     ptes = (\<lambda>_. pte0), asid_pools = (\<lambda>_ _. NULL), riscvKSASIDTable = (\<lambda>_. NULL),
     ksReadyQueues = (\<lambda>_. \<lparr>head = NULL, qend = NULL\<rparr>),
     ksReadyQueuesL1Bitmap = (\<lambda>_. 0), ksReadyQueuesL2Bitmap = (\<lambda>_ _. 0),
     ksCurThread = NULL, ksIdleThread = NULL, ksSchedulerAction = NULL,
     ksReleaseQueue = \<lparr>head = NULL, qend = NULL\<rparr>,
     ksConsumed = 0, ksCurTime = 0, ksReprogram = False, ksCurSC = NULL, ksIdleSC = NULL,
     ksWorkUnitsCompleted = 0, intStateIRQTable = (\<lambda>_. IRQInactive), intStateIRQNode = NULL,
     ksDomScheduleIdx = 0, ksDomScheduleStart = 0, ksDomSchedule = (\<lambda>_. 0), ksCurDomain = 0,
     ksDomainTime = 0, current_lookup_fault = InvalidRoot, current_fault = NullFault,
     current_extra_caps = (\<lambda>_. NULL), hwDeadline = 0,
     hwIRQMask = (\<lambda>_. True), active_irq = 0, hwSATP = 0, hwClaimReg = 0, hwSTVAL = 0, hwReads = 0,
     hwTime = (\<lambda>n. of_nat n), hwSIP = (\<lambda>_. 0), hwClaim = (\<lambda>_. 0)\<rparr>"

section \<open>Stores through a pointer\<close>

definition upd_tcb :: "ptr \<Rightarrow> (tcb \<Rightarrow> tcb) \<Rightarrow> kstate \<Rightarrow> kstate" where
  "upd_tcb p f s = s\<lparr>tcbs := (tcbs s)(p := f (tcbs s p))\<rparr>"

definition upd_ts :: "ptr \<Rightarrow> (thread_state \<Rightarrow> thread_state) \<Rightarrow> kstate \<Rightarrow> kstate" where
  "upd_ts p f s = upd_tcb p (tcbState_update f) s"

definition upd_sc :: "ptr \<Rightarrow> (sched_context \<Rightarrow> sched_context) \<Rightarrow> kstate \<Rightarrow> kstate" where
  "upd_sc p f s = s\<lparr>scs := (scs s)(p := f (scs s p))\<rparr>"

definition upd_refill :: "ptr \<Rightarrow> word64 \<Rightarrow> (refill \<Rightarrow> refill) \<Rightarrow> kstate \<Rightarrow> kstate" where
  "upd_refill p i f s = s\<lparr>refills := (refills s)(p := (refills s p)(i := f (refills s p i)))\<rparr>"

definition upd_reply :: "ptr \<Rightarrow> (reply \<Rightarrow> reply) \<Rightarrow> kstate \<Rightarrow> kstate" where
  "upd_reply p f s = s\<lparr>replies := (replies s)(p := f (replies s p))\<rparr>"

definition upd_ep :: "ptr \<Rightarrow> (endpoint \<Rightarrow> endpoint) \<Rightarrow> kstate \<Rightarrow> kstate" where
  "upd_ep p f s = s\<lparr>eps := (eps s)(p := f (eps s p))\<rparr>"

definition upd_ntfn :: "ptr \<Rightarrow> (notification \<Rightarrow> notification) \<Rightarrow> kstate \<Rightarrow> kstate" where
  "upd_ntfn p f s = s\<lparr>ntfns := (ntfns s)(p := f (ntfns s p))\<rparr>"

definition upd_cte :: "ptr \<Rightarrow> (cte \<Rightarrow> cte) \<Rightarrow> kstate \<Rightarrow> kstate" where
  "upd_cte p f s = s\<lparr>ctes := (ctes s)(p := f (ctes s p))\<rparr>"

lemmas upd_defs = upd_tcb_def upd_ts_def upd_sc_def upd_refill_def upd_reply_def upd_ep_def
  upd_ntfn_def upd_cte_def

text \<open>What a store leaves alone: the heaps of other types and every global.\<close>

lemma upd_tcb_frame [simp]:
  "plat (upd_tcb p f s) = plat s" "scs (upd_tcb p f s) = scs s"
  "refills (upd_tcb p f s) = refills s" "replies (upd_tcb p f s) = replies s"
  "eps (upd_tcb p f s) = eps s" "ntfns (upd_tcb p f s) = ntfns s"
  "ctes (upd_tcb p f s) = ctes s" "mem (upd_tcb p f s) = mem s"
  "ksReadyQueues (upd_tcb p f s) = ksReadyQueues s"
  "ksReadyQueuesL1Bitmap (upd_tcb p f s) = ksReadyQueuesL1Bitmap s"
  "ksReadyQueuesL2Bitmap (upd_tcb p f s) = ksReadyQueuesL2Bitmap s"
  "ksCurThread (upd_tcb p f s) = ksCurThread s" "ksIdleThread (upd_tcb p f s) = ksIdleThread s"
  "ksSchedulerAction (upd_tcb p f s) = ksSchedulerAction s"
  "ksReleaseQueue (upd_tcb p f s) = ksReleaseQueue s" "ksCurTime (upd_tcb p f s) = ksCurTime s"
  "ksConsumed (upd_tcb p f s) = ksConsumed s" "ksReprogram (upd_tcb p f s) = ksReprogram s"
  "ksCurSC (upd_tcb p f s) = ksCurSC s" "ksIdleSC (upd_tcb p f s) = ksIdleSC s"
  "ksCurDomain (upd_tcb p f s) = ksCurDomain s" "ksDomainTime (upd_tcb p f s) = ksDomainTime s"
  by (simp_all add: upd_tcb_def)

lemma tcbs_upd_tcb [simp]: "tcbs (upd_tcb p f s) = (tcbs s)(p := f (tcbs s p))"
  by (simp add: upd_tcb_def)

lemma upd_sc_frame [simp]:
  "plat (upd_sc p f s) = plat s" "tcbs (upd_sc p f s) = tcbs s"
  "refills (upd_sc p f s) = refills s" "replies (upd_sc p f s) = replies s"
  "eps (upd_sc p f s) = eps s" "ntfns (upd_sc p f s) = ntfns s" "ctes (upd_sc p f s) = ctes s"
  "ksReadyQueues (upd_sc p f s) = ksReadyQueues s"
  "ksReadyQueuesL1Bitmap (upd_sc p f s) = ksReadyQueuesL1Bitmap s"
  "ksReadyQueuesL2Bitmap (upd_sc p f s) = ksReadyQueuesL2Bitmap s"
  "ksCurThread (upd_sc p f s) = ksCurThread s" "ksCurSC (upd_sc p f s) = ksCurSC s"
  "ksSchedulerAction (upd_sc p f s) = ksSchedulerAction s"
  "ksReleaseQueue (upd_sc p f s) = ksReleaseQueue s" "ksCurTime (upd_sc p f s) = ksCurTime s"
  by (simp_all add: upd_sc_def)

lemma scs_upd_sc [simp]: "scs (upd_sc p f s) = (scs s)(p := f (scs s p))"
  by (simp add: upd_sc_def)

lemma upd_refill_frame [simp]:
  "plat (upd_refill p i f s) = plat s" "tcbs (upd_refill p i f s) = tcbs s"
  "scs (upd_refill p i f s) = scs s" "ksCurTime (upd_refill p i f s) = ksCurTime s"
  "ksCurSC (upd_refill p i f s) = ksCurSC s"
  "ksReadyQueues (upd_refill p i f s) = ksReadyQueues s"
  "ksReleaseQueue (upd_refill p i f s) = ksReleaseQueue s"
  by (simp_all add: upd_refill_def)

lemma refills_upd_refill [simp]:
  "refills (upd_refill p i f s) = (refills s)(p := (refills s p)(i := f (refills s p i)))"
  by (simp add: upd_refill_def)

section \<open>The links of the queues\<close>

definition schedNext :: "kstate \<Rightarrow> ptr \<Rightarrow> ptr" where
  "schedNext s p = tcbSchedNext (tcbs s p)"

definition schedPrev :: "kstate \<Rightarrow> ptr \<Rightarrow> ptr" where
  "schedPrev s p = tcbSchedPrev (tcbs s p)"

definition set_schedNext :: "ptr \<Rightarrow> ptr \<Rightarrow> kstate \<Rightarrow> kstate" where
  "set_schedNext p v s = upd_tcb p (tcbSchedNext_update (\<lambda>_. v)) s"

definition set_schedPrev :: "ptr \<Rightarrow> ptr \<Rightarrow> kstate \<Rightarrow> kstate" where
  "set_schedPrev p v s = upd_tcb p (tcbSchedPrev_update (\<lambda>_. v)) s"

definition epNext :: "kstate \<Rightarrow> ptr \<Rightarrow> ptr" where
  "epNext s p = tcbEPNext (tcbs s p)"

definition epPrev :: "kstate \<Rightarrow> ptr \<Rightarrow> ptr" where
  "epPrev s p = tcbEPPrev (tcbs s p)"

definition set_epNext :: "ptr \<Rightarrow> ptr \<Rightarrow> kstate \<Rightarrow> kstate" where
  "set_epNext p v s = upd_tcb p (tcbEPNext_update (\<lambda>_. v)) s"

definition set_epPrev :: "ptr \<Rightarrow> ptr \<Rightarrow> kstate \<Rightarrow> kstate" where
  "set_epPrev p v s = upd_tcb p (tcbEPPrev_update (\<lambda>_. v)) s"

definition cteNext :: "kstate \<Rightarrow> ptr \<Rightarrow> ptr" where
  "cteNext s p = mdbNext (ctes s p)"

definition ctePrev :: "kstate \<Rightarrow> ptr \<Rightarrow> ptr" where
  "ctePrev s p = mdbPrev (ctes s p)"

definition set_cteNext :: "ptr \<Rightarrow> ptr \<Rightarrow> kstate \<Rightarrow> kstate" where
  "set_cteNext p v s = upd_cte p (mdbNext_update (\<lambda>_. v)) s"

definition set_ctePrev :: "ptr \<Rightarrow> ptr \<Rightarrow> kstate \<Rightarrow> kstate" where
  "set_ctePrev p v s = upd_cte p (mdbPrev_update (\<lambda>_. v)) s"

text \<open>The three link pairs satisfy the interface of a doubly linked heap.\<close>

interpretation sched: dlinks schedNext schedPrev set_schedNext set_schedPrev
  by unfold_locales
    (auto simp: fun_eq_iff schedNext_def schedPrev_def set_schedNext_def set_schedPrev_def)

interpretation ep: dlinks epNext epPrev set_epNext set_epPrev
  by unfold_locales
    (auto simp: fun_eq_iff epNext_def epPrev_def set_epNext_def set_epPrev_def)

interpretation mdb: dlinks cteNext ctePrev set_cteNext set_ctePrev
  by unfold_locales
    (auto simp: fun_eq_iff cteNext_def ctePrev_def set_cteNext_def set_ctePrev_def upd_cte_def)

end
