(* ===== verification/Util.thy ===== *)
theory Util
  imports Prelude
begin

text \<open>
  The kernel's own library: \<^verbatim>\<open>src/kernel/util.c\<close> (bit counting, memory and string helpers),
  \<^verbatim>\<open>src/kernel/string.c\<close> and the inline wrappers of \<^verbatim>\<open>include/util.h\<close>. Byte memory is a function
  from addresses to bytes, and stores return the new memory. A C \<^verbatim>\<open>unsigned\<close> is a 32-bit word.
\<close>

type_synonym uint = "32 word"
type_synonym byte = "8 word"
type_synonym bytes = "word64 \<Rightarrow> byte"

section \<open>Counting leading and trailing zeros\<close>

text \<open>
  One \<^verbatim>\<open>if (1)\<close> block of the unrolled binary search: iteration \<open>i\<close> halves the msk to \<open>2 ^ i\<close> bits
  and conditionally shifts by \<open>2 ^ i\<close>.
\<close>

definition clz_iter :: "nat \<Rightarrow> 'a::len word \<times> 'a word \<times> uint \<Rightarrow> 'a word \<times> 'a word \<times> uint" where
  "clz_iter i = (\<lambda>(msk, x, count).
     let msk = drop_bit (2 ^ i) msk;
         bits = (if msk < x then 2 ^ i else 0);
         x = drop_bit bits x;
         count = count - of_nat bits
     in (msk, x, count))"

definition clz32 :: "32 word \<Rightarrow> uint" where
  "clz32 x = (case fold clz_iter [4, 3, 2, 1, 0] (- 1, x, 32) of (msk, x, count) \<Rightarrow> count - ucast x)"

definition clz64 :: "64 word \<Rightarrow> uint" where
  "clz64 x = (case fold clz_iter [5, 4, 3, 2, 1, 0] (- 1, x, 64) of (msk, x, count) \<Rightarrow> count - ucast x)"

definition ctz_iter :: "nat \<Rightarrow> 'a::len word \<times> 'a word \<times> uint \<Rightarrow> 'a word \<times> 'a word \<times> uint" where
  "ctz_iter i = (\<lambda>(msk, x, count).
     let msk = drop_bit (2 ^ i) msk;
         bits = (if x AND msk = 0 then 2 ^ i else 0);
         x = drop_bit bits x;
         count = count + of_nat bits
     in (msk, x, count))"

definition ctz32 :: "32 word \<Rightarrow> uint" where
  "ctz32 x = (case fold ctz_iter [4, 3, 2, 1, 0] (- 1, x, if x = 0 then 1 else 0) of
     (msk, x, count) \<Rightarrow> count)"

definition ctz64 :: "64 word \<Rightarrow> uint" where
  "ctz64 x = (case fold ctz_iter [5, 4, 3, 2, 1, 0] (- 1, x, if x = 0 then 1 else 0) of
     (msk, x, count) \<Rightarrow> count)"

text \<open>The wrapper used by the scheduler; its result is converted to a 64-bit word.\<close>

definition clzl :: "word64 \<Rightarrow> word64" where
  "clzl x = ucast (clz64 x)"

function popcountl_loop :: "word64 \<Rightarrow> uint \<Rightarrow> uint" where
  "popcountl_loop msk count =
     (if msk \<noteq> 0 then popcountl_loop (msk AND (msk - 1)) (count + 1) else count)"
  by pat_completeness auto
termination
proof (relation "measure (\<lambda>(m, c). unat m)")
  fix msk :: word64 and count :: uint
  assume nz: "msk \<noteq> 0"
  have "unat (msk AND (msk - 1)) \<le> unat (msk - 1)"
    using word_and_le1 [of msk "msk - 1"] by (simp add: word_le_nat_alt)
  also have "\<dots> < unat msk"
    using nz by (subst unat_sub_nowrap) (auto simp: word_le_nat_alt Suc_le_eq unat_gt_0)
  finally show "((msk AND (msk - 1), count + 1), (msk, count)) \<in> measure (\<lambda>(m, c). unat m)"
    by simp
qed simp

definition popcountl :: "word64 \<Rightarrow> uint" where
  "popcountl msk = popcountl_loop msk 0"

section \<open>Memory\<close>

lemma unat_minus_one_less: "n \<noteq> 0 \<Longrightarrow> unat (n - 1 :: word64) < unat n"
  by (subst unat_sub_nowrap) (auto simp: word_le_nat_alt Suc_le_eq unat_gt_0)

lemma unat_Suc_window: "len + 1 < sz \<Longrightarrow> unat sz - unat (len + 1 + 1) < unat sz - unat (len + 1 :: word64)"
  using unat_suc_nowrap [of "len + 1" sz] by (simp add: word_less_nat_alt)

function memzero :: "word64 \<Rightarrow> word64 \<Rightarrow> bytes \<Rightarrow> bytes option" where
  "memzero p n m =
     (if n = 0 then Some m
      else if n < 8 then None
      else memzero (p + 8) (n - 8) (\<lambda>a. if a - p < 8 then 0 else m a))"
  by pat_completeness auto
termination
  by (relation "measure (\<lambda>(p, n, m). unat n)") (auto simp: unat_sub_nowrap word_le_nat_alt not_less)

function memset_loop :: "word64 \<Rightarrow> byte \<Rightarrow> word64 \<Rightarrow> bytes \<Rightarrow> bytes" where
  "memset_loop p c n m = (if n > 0 then memset_loop (p + 1) c (n - 1) (m(p := c)) else m)"
  by pat_completeness auto
termination
  by (relation "measure (\<lambda>(p, c, n, m). unat n)")
    (auto simp: unat_sub_nowrap word_le_nat_alt word_less_nat_alt)

definition memset :: "word64 \<Rightarrow> word64 \<Rightarrow> word64 \<Rightarrow> bytes \<Rightarrow> bytes option" where
  "memset p c n m =
     (if c = 0 \<and> p mod 8 = 0 \<and> n mod 8 = 0 then memzero p n m
      else Some (memset_loop p (ucast c) n m))"

function memcpy :: "word64 \<Rightarrow> word64 \<Rightarrow> word64 \<Rightarrow> bytes \<Rightarrow> bytes" where
  "memcpy p q n m = (if n \<noteq> 0 then memcpy (p + 1) (q + 1) (n - 1) (m(p := m q)) else m)"
  by pat_completeness auto
termination
  by (relation "measure (\<lambda>(p, q, n, m). unat n)")
    (auto simp: unat_minus_one_less)

section \<open>Strings\<close>

function strncmp_loop :: "word64 \<Rightarrow> word64 \<Rightarrow> word64 \<Rightarrow> word64 \<Rightarrow> bytes \<Rightarrow> int" where
  "strncmp_loop s1 s2 i n m =
     (if i < n
      then let diff = uint (m (s1 + i)) - uint (m (s2 + i))
           in if diff \<noteq> 0 \<or> m (s1 + i) = 0 then diff else strncmp_loop s1 s2 (i + 1) n m
      else 0)"
  by pat_completeness auto
termination
  by (relation "measure (\<lambda>(s1, s2, i, n, m). unat n - unat i)")
    (auto simp: word_less_nat_alt unat_suc_nowrap)

definition strncmp :: "word64 \<Rightarrow> word64 \<Rightarrow> int \<Rightarrow> bytes \<Rightarrow> int" where
  "strncmp s1 s2 n m = strncmp_loop s1 s2 0 (word_of_int n) m"

definition char_to_long :: "byte \<Rightarrow> int" where
  "char_to_long c =
     (if c \<ge> 48 \<and> c \<le> 57 then uint c - 48
      else if c \<ge> 65 \<and> c \<le> 70 then uint c - 65 + 10
      else if c \<ge> 97 \<and> c \<le> 102 then uint c - 97 + 10
      else - 1)"

text \<open>
  A string argument is the list of its bytes before the terminator. The result is \<open>None\<close> where the
  signed multiplication or addition overflows, which C leaves undefined.
\<close>

definition LONG_MAX :: int where
  "LONG_MAX = 2 ^ 63 - 1"

fun str_to_long_loop :: "int \<Rightarrow> int \<Rightarrow> byte list \<Rightarrow> int option" where
  "str_to_long_loop base val [] = Some val"
| "str_to_long_loop base val (c # str) =
     (let res = char_to_long c in
      if res = - 1 \<or> res \<ge> base then Some (- 1)
      else if val * base + res > LONG_MAX then None
      else str_to_long_loop base (val * base + res) str)"

fun str_to_long :: "byte list \<Rightarrow> int option" where
  "str_to_long [] = Some (- 1)"
| "str_to_long (c # str) =
     (if c = 48 \<and> str \<noteq> [] \<and> (hd str = 120 \<or> hd str = 88)
      then if tl str = [] then Some (- 1) else str_to_long_loop 16 0 (tl str)
      else str_to_long_loop 10 0 (c # str))"

function strnlen_loop :: "word64 \<Rightarrow> word64 \<Rightarrow> word64 \<Rightarrow> bytes \<Rightarrow> word64" where
  "strnlen_loop s len maxlen m =
     (if len < maxlen \<and> m (s + len) \<noteq> 0 then strnlen_loop s (len + 1) maxlen m else len)"
  by pat_completeness auto
termination
  by (relation "measure (\<lambda>(s, len, maxlen, m). unat maxlen - unat len)")
    (auto simp: word_less_nat_alt unat_suc_nowrap)

definition strnlen :: "word64 \<Rightarrow> word64 \<Rightarrow> bytes \<Rightarrow> word64" where
  "strnlen s maxlen m = strnlen_loop s 0 maxlen m"

function strlcpy_loop :: "word64 \<Rightarrow> word64 \<Rightarrow> word64 \<Rightarrow> word64 \<Rightarrow> bytes \<Rightarrow> word64 \<times> bytes" where
  "strlcpy_loop dest src len sz m =
     (if len + 1 < sz \<and> m (src + len) \<noteq> 0
      then strlcpy_loop dest src (len + 1) sz (m(dest + len := m (src + len)))
      else (len, m))"
  by pat_completeness auto
termination
  by (relation "measure (\<lambda>(dest, src, len, sz, m). unat sz - unat (len + 1))")
    (auto dest: unat_Suc_window simp: add.assoc)

definition strlcpy :: "word64 \<Rightarrow> word64 \<Rightarrow> word64 \<Rightarrow> bytes \<Rightarrow> word64 \<times> bytes" where
  "strlcpy dest src sz m =
     (let (len, m) = strlcpy_loop dest src 0 sz m in (len, m(dest + len := 0)))"

function strlcat_loop :: "word64 \<Rightarrow> word64 \<Rightarrow> word64 \<Rightarrow> word64 \<Rightarrow> bytes \<Rightarrow> word64 \<times> bytes" where
  "strlcat_loop dest src len sz m =
     (if len + 1 < sz \<and> m src \<noteq> 0
      then strlcat_loop dest (src + 1) (len + 1) sz (m(dest + len := m src))
      else (len, m))"
  by pat_completeness auto
termination
  by (relation "measure (\<lambda>(dest, src, len, sz, m). unat sz - unat (len + 1))")
    (auto dest: unat_Suc_window simp: add.assoc)

definition strlcat :: "word64 \<Rightarrow> word64 \<Rightarrow> word64 \<Rightarrow> bytes \<Rightarrow> word64 \<times> bytes" where
  "strlcat dest src sz m =
     (let len = strnlen_loop dest 0 sz m in
      if len < sz
      then let (len, m) = strlcat_loop dest src len sz m in (len, m(dest + len := 0))
      else (len, m))"

declare popcountl_loop.simps [simp del] memzero.simps [simp del] memset_loop.simps [simp del]
  memcpy.simps [simp del] strncmp_loop.simps [simp del] strnlen_loop.simps [simp del]
  strlcpy_loop.simps [simp del] strlcat_loop.simps [simp del]

section \<open>clz and ctz compute the position of a set bit\<close>

text \<open>Invariant of the binary search after the iterations down to width \<open>2 ^ i\<close>.\<close>

definition clz_inv :: "'a::len word \<Rightarrow> nat \<Rightarrow> 'a word \<times> 'a word \<times> uint \<Rightarrow> bool" where
  "clz_inv x0 i = (\<lambda>(msk, x, count). unat msk = 2 ^ 2 ^ i - 1 \<and> unat x < 2 ^ 2 ^ i \<and>
     (\<exists>sh. count = of_nat (LENGTH('a)) - of_nat sh \<and> x = drop_bit sh x0 \<and> (x0 \<noteq> 0 \<longrightarrow> x \<noteq> 0)))"

lemma pow_pow_Suc: "(2::nat) ^ (2 * 2 ^ i) = 2 ^ 2 ^ i * 2 ^ 2 ^ i"
  by (simp only: mult_2 power_add)

lemma square_pred_div: "(0::nat) < n \<Longrightarrow> (n * n - 1) div n = n - 1"
  by (cases n) (auto simp: algebra_simps div_nat_eqI)

lemma unat_drop_bit_div: "unat (drop_bit k (x :: 'a::len word)) = unat x div 2 ^ k"
  by (metis drop_bit_eq_div unat_drop_bit_eq)

lemma clz_iter_inv:
  fixes x0 :: "'a::len word"
  assumes "clz_inv x0 (Suc i) st"
  shows "clz_inv x0 i (clz_iter i st)"
proof -
  obtain msk x count where st: "st = (msk, x, count)" by (cases st)
  let ?n = "(2::nat) ^ 2 ^ i"
  from assms obtain sh where m: "unat msk = ?n * ?n - 1" and x: "unat x < ?n * ?n"
    and c: "count = of_nat LENGTH('a) - of_nat sh" and xs: "x = drop_bit sh x0" and nz: "x0 \<noteq> 0 \<longrightarrow> x \<noteq> 0"
    by (auto simp: st clz_inv_def pow_pow_Suc)
  have m': "unat (drop_bit (2 ^ i) msk) = ?n - 1"
    by (simp only: unat_drop_bit_div m square_pred_div zero_less_power zero_less_numeral)
  show ?thesis
  proof (cases "unat x < ?n")
    case True
    then show ?thesis
      using m' c xs nz by (auto simp: st clz_iter_def clz_inv_def word_less_nat_alt Let_def)
  next
    case False
    have lt: "unat (drop_bit (2 ^ i) x) < ?n"
      using x by (simp add: unat_drop_bit_div less_mult_imp_div_less)
    have "0 < unat x div ?n" using False by (simp add: div_greater_zero_iff)
    then have nz': "drop_bit (2 ^ i) x \<noteq> 0"
      by (metis unat_drop_bit_div unat_0 less_numeral_extra(3))
    have g: "drop_bit (2 ^ i) msk < x"
      unfolding word_less_nat_alt m' using False by (simp add: not_less Suc_le_eq [symmetric])
    show ?thesis
      using m' lt nz' g
      by (auto simp: st clz_iter_def clz_inv_def Let_def c xs intro!: exI [of _ "2 ^ i + sh"])
  qed
qed

lemma clz_inv_0:
  fixes x0 :: "'a::len word"
  assumes "clz_inv x0 0 (msk, x, count)" "x0 \<noteq> 0"
  shows "\<exists>sh. count - ucast x = of_nat LENGTH('a) - of_nat sh - 1 \<and> unat x0 div 2 ^ sh = 1"
proof -
  from assms obtain sh where sh: "unat x < 2" "x \<noteq> 0" "x = drop_bit sh x0"
      "count = of_nat LENGTH('a) - of_nat sh"
    by (auto simp: clz_inv_def)
  then have one: "unat x = 1" by (metis less_2_cases unat_eq_zero One_nat_def)
  then have "x = 1" by (metis unat_1 word_unat_eq_iff)
  moreover have "unat x0 div 2 ^ sh = 1" using one sh(3) by (simp only: unat_drop_bit_div)
  ultimately show ?thesis using sh(4) by auto
qed

lemma log_bound: "n div 2 ^ k = 1 \<Longrightarrow> 2 ^ k \<le> n \<and> n < 2 ^ (k + 1)" for n k :: nat
  by (metis div_less_dividend dividend_less_div_times less_2_cases_iff mult_2 mult.commute
     one_less_numeral_iff add.commute power_add power_one_right semiring_norm(76) times_div_less_eq_dividend
     mult_1 mult.right_neutral zero_less_numeral zero_less_power)

lemma clz64_of_pos:
  assumes "x0 \<noteq> 0"
  shows "\<exists>k < 64. clz64 x0 = of_nat (63 - k) \<and> unat x0 div 2 ^ k = 1"
proof -
  obtain msk x count where f: "fold clz_iter [5, 4, 3, 2, 1, 0] (- 1, x0, 64) = (msk, x, count)"
    by (metis prod_cases3)
  have "clz_inv x0 6 (- 1, x0, 64)"
    using unat_lt_64 [of x0]
    by (auto simp: clz_inv_def unsigned_minus_1_eq_mask mask_eq_exp_minus_1 intro!: exI [of _ 0])
  then have "clz_inv x0 0 (fold clz_iter [5, 4, 3, 2, 1, 0] (- 1, x0, 64))"
    by (auto intro!: clz_iter_inv simp: eval_nat_numeral)
  then obtain sh where sh: "clz64 x0 = 64 - of_nat sh - 1" "unat x0 div 2 ^ sh = 1"
    using clz_inv_0 [of x0 msk x count] f assms by (auto simp: clz64_def)
  have "2 ^ sh \<le> unat x0" using log_bound [OF sh(2)] by simp
  then have "(2::nat) ^ sh < 2 ^ 64" using unat_lt_64 [of x0] by linarith
  then have lt: "sh < 64" using power_less_imp_less_exp [of "2::nat" sh 64] by simp
  then have "clz64 x0 = of_nat (63 - sh)" by (simp add: sh(1) of_nat_diff)
  with sh(2) lt show ?thesis by blast
qed

definition ctz_inv :: "'a::len word \<Rightarrow> nat \<Rightarrow> 'a word \<times> 'a word \<times> uint \<Rightarrow> bool" where
  "ctz_inv x0 i = (\<lambda>(msk, x, count). unat msk = 2 ^ 2 ^ i - 1 \<and> unat x mod 2 ^ 2 ^ i \<noteq> 0 \<and>
     (\<exists>sh. count = of_nat sh \<and> unat x0 = unat x * 2 ^ sh))"

lemma and_msk_mod:
  fixes x msk :: "'a::len word"
  assumes "unat msk = 2 ^ k - 1"
  shows "x AND msk = 0 \<longleftrightarrow> unat x mod 2 ^ k = 0"
proof -
  have "unat (x AND msk) = unat x AND mask k"
    using assms by (simp add: unsigned_and_eq mask_eq_exp_minus_1)
  also have "\<dots> = unat x mod 2 ^ k" by (simp add: take_bit_eq_mod flip: take_bit_eq_mask)
  finally show ?thesis by (metis unat_eq_zero)
qed

lemma ctz_iter_inv:
  fixes x0 :: "'a::len word"
  assumes "ctz_inv x0 (Suc i) st"
  shows "ctz_inv x0 i (ctz_iter i st)"
proof -
  obtain msk x count where st: "st = (msk, x, count)" by (cases st)
  let ?n = "(2::nat) ^ 2 ^ i"
  from assms obtain sh where m: "unat msk = ?n * ?n - 1" and x: "unat x mod (?n * ?n) \<noteq> 0"
    and c: "count = of_nat sh" and xs: "unat x0 = unat x * 2 ^ sh"
    by (auto simp: st ctz_inv_def pow_pow_Suc)
  have m': "unat (drop_bit (2 ^ i) msk) = ?n - 1"
    by (simp only: unat_drop_bit_div m square_pred_div zero_less_power zero_less_numeral)
  show ?thesis
  proof (cases "unat x mod ?n = 0")
    case False
    then show ?thesis
      using m' c xs by (auto simp: st ctz_iter_def ctz_inv_def Let_def and_msk_mod [OF m'])
  next
    case True
    have "unat x div ?n mod ?n \<noteq> 0"
      using x True by (metis mod_mult2_eq add_0 mult_0_right add.right_neutral)
    moreover have "unat x0 = unat x div ?n * 2 ^ (sh + 2 ^ i)"
      using xs True by (simp add: power_add) (metis mult.assoc mult.commute mod_0_imp_dvd dvd_div_mult_self)
    ultimately show ?thesis
      using m' True c
      by (auto simp: st ctz_iter_def ctz_inv_def Let_def and_msk_mod [OF m'] unat_drop_bit_div
          simp del: unat_drop_bit_eq intro!: exI [of _ "sh + 2 ^ i"])
  qed
qed

lemma ctz64_of_pos:
  assumes "x0 \<noteq> 0"
  shows "\<exists>k < 64. ctz64 x0 = of_nat k \<and> 2 ^ k dvd unat x0 \<and> odd (unat x0 div 2 ^ k)"
proof -
  obtain msk x count where f: "fold ctz_iter [5, 4, 3, 2, 1, 0] (- 1, x0, 0) = (msk, x, count)"
    by (metis prod_cases3)
  have "ctz_inv x0 6 (- 1, x0, 0)"
    using unat_lt_64 [of x0] assms
    by (auto simp: ctz_inv_def unsigned_minus_1_eq_mask mask_eq_exp_minus_1 unat_gt_0 intro!: exI [of _ 0])
  then have "ctz_inv x0 0 (fold ctz_iter [5, 4, 3, 2, 1, 0] (- 1, x0, 0))"
    by (auto intro!: ctz_iter_inv simp: eval_nat_numeral)
  then have "ctz_inv x0 0 (msk, x, ctz64 x0)" unfolding f using f assms by (simp add: ctz64_def)
  then obtain sh where sh: "ctz64 x0 = of_nat sh" "unat x0 = unat x * 2 ^ sh" "odd (unat x)"
    by (auto simp: ctz_inv_def odd_iff_mod_2_eq_one)
  have "2 ^ sh \<le> unat x0" using sh assms by (cases "unat x") (auto simp: )
  then have "(2::nat) ^ sh < 2 ^ 64" using unat_lt_64 [of x0] by linarith
  then have lt: "sh < 64" using power_less_imp_less_exp [of "2::nat" sh 64] by simp
  with sh show ?thesis by (intro exI [of _ sh]) simp
qed


section \<open>Memory routines\<close>

lemma word_shift_window:
  fixes a p n :: word64
  assumes "n \<noteq> 0"
  shows "a - p < n \<longleftrightarrow> a = p \<or> a - (p + 1) < n - 1"
proof (cases "a = p")
  case True
  then show ?thesis using assms by (simp add: word_neq_0_conv)
next
  case False
  then have nz: "a - p \<noteq> 0" by simp
  have "unat (a - p - 1) = unat (a - p) - 1" "unat (n - 1) = unat n - 1"
    using nz assms by (auto simp: unat_sub_nowrap word_le_nat_alt Suc_le_eq unat_gt_0)
  moreover have "0 < unat (a - p)" "0 < unat n" using nz assms unat_gt_0 by blast+
  ultimately show ?thesis using False by (auto simp: word_less_nat_alt diff_diff_eq)
qed

lemma memset_loop_eq: "memset_loop p c n m = (\<lambda>a. if a - p < n then c else m a)"
proof (induction p c n m rule: memset_loop.induct)
  case (1 p c n m)
  show ?case
  proof (cases "n = 0")
    case False
    then have "n > 0" by (simp add: word_neq_0_conv)
    then have "memset_loop p c n m = memset_loop (p + 1) c (n - 1) (m(p := c))"
      by (subst memset_loop.simps) simp
    also have "\<dots> = (\<lambda>a. if a - (p + 1) < n - 1 then c else (m(p := c)) a)"
      using 1 \<open>n > 0\<close> by (simp add: fun_upd_def)
    finally show ?thesis by (auto simp: word_shift_window [OF False] intro!: ext)
  qed (simp add: memset_loop.simps)
qed

lemma memcpy_eq:
  assumes "\<And>i j. i < n \<Longrightarrow> j < n \<Longrightarrow> p + i \<noteq> q + j"
  shows "memcpy p q n m = (\<lambda>a. if a - p < n then m (q + (a - p)) else m a)"
  using assms
proof (induction p q n m rule: memcpy.induct)
  case (1 p q n m)
  show ?case
  proof (cases "n = 0")
    case False
    have disj: "p + 1 + i \<noteq> q + 1 + j" if "i < n - 1" "j < n - 1" for i j
      using "1.prems" [of "i + 1" "j + 1"] that word_shift_window [OF False, of "i + 1" 0]
        word_shift_window [OF False, of "j + 1" 0] by (simp add: add.commute add.left_commute)
    have nq: "q + 1 + (a - (p + 1)) \<noteq> p" if "a - (p + 1) < n - 1" for a
      using "1.prems" [of 0 "a - p"] that word_shift_window [OF False, of a p] False
      by (auto simp: word_neq_0_conv algebra_simps)
    have "memcpy p q n m = memcpy (p + 1) (q + 1) (n - 1) (m(p := m q))"
      using False by (subst memcpy.simps) simp
    also have "\<dots> = (\<lambda>a. if a - (p + 1) < n - 1 then (m(p := m q)) (q + 1 + (a - (p + 1)))
        else (m(p := m q)) a)"
      using 1(1) [OF False disj] by (simp add: fun_upd_def)
    finally show ?thesis using nq by (auto simp: word_shift_window [OF False] intro!: ext)
  qed (simp add: memcpy.simps)
qed

lemma word_shift_window8:
  fixes a p n :: word64
  assumes "8 \<le> n"
  shows "a - p < n \<longleftrightarrow> a - p < 8 \<or> a - (p + 8) < n - 8"
proof (cases "a - p < 8")
  case True
  then show ?thesis using assms by simp
next
  case False
  then have "unat (a - p - 8) = unat (a - p) - 8" "unat (n - 8) = unat n - 8"
    using assms by (auto simp: unat_sub_nowrap not_less)
  moreover have "8 \<le> unat (a - p)" "8 \<le> unat n" using False assms by (simp_all add: word_less_nat_alt word_le_nat_alt)
  ultimately show ?thesis using False by (auto simp: word_less_nat_alt diff_diff_eq)
qed

lemma memzero_eq: "unat n mod 8 = 0 \<Longrightarrow> memzero p n m = Some (\<lambda>a. if a - p < n then 0 else m a)"
proof (induction p n m rule: memzero.induct)
  case (1 p n m)
  show ?case
  proof (cases "n = 0")
    case False
    then have "0 < unat n" using unat_gt_0 by blast
    with "1.prems" have ge: "8 \<le> unat n" by presburger
    then have le: "8 \<le> n" by (simp add: word_le_nat_alt)
    have "unat (n - 8) mod 8 = 0" using ge "1.prems" le by (simp add: unat_sub_nowrap mod_if)
    then show ?thesis
      using 1(1) [of] False le
      by (subst memzero.simps) (auto simp: fun_eq_iff word_shift_window8 [OF le] not_less)
  qed (simp add: memzero.simps)
qed

text \<open>
  \<open>memset\<close> always finishes and stores the low byte of \<open>c\<close> in exactly the \<open>n\<close> bytes from \<open>p\<close>
  (addresses wrap), whether it takes the word-by-word path through \<open>memzero\<close> for aligned zeroing or
  the byte loop.
\<close>

theorem memset_fills:
  "memset p c n m = Some (\<lambda>a. if a - p < n then ucast c else m a)"
proof (cases "c = 0 \<and> p mod 8 = 0 \<and> n mod 8 = 0")
  case True
  then have "unat n mod 8 = 0"
    using unat_mod [of n 8] by simp
  then show ?thesis using True by (auto simp: memset_def memzero_eq)
next
  case False
  show ?thesis unfolding memset_def if_not_P [OF False] memset_loop_eq by (rule refl)
qed

section \<open>Bounded string copies stay in their buffer\<close>

lemma strlcpy_loop_bounds:
  assumes "strlcpy_loop dest src len sz m = (len', m')" "len < sz"
  shows "len' < sz \<and> (\<forall>a. m' a \<noteq> m a \<longrightarrow> a - dest < sz)"
  using assms
proof (induction dest src len sz m rule: strlcpy_loop.induct)
  case (1 dest src len sz m)
  show ?case
  proof (cases "len + 1 < sz \<and> m (src + len) \<noteq> 0")
    case True
    have "strlcpy_loop dest src (len + 1) sz (m(dest + len := m (src + len))) = (len', m')"
      using "1.prems"(1) True by (subst (asm) strlcpy_loop.simps) simp
    with 1(1) [OF True] True
    have "len' < sz" "\<forall>a. m' a \<noteq> (m(dest + len := m (src + len))) a \<longrightarrow> a - dest < sz"
      by (auto simp: fun_upd_def)
    then show ?thesis using "1.prems"(2) by (auto split: if_splits) (metis add_diff_cancel_left')
  next
    case False
    then show ?thesis using "1.prems" by (subst (asm) strlcpy_loop.simps) auto
  qed
qed

lemma strlcat_loop_bounds:
  assumes "strlcat_loop dest src len sz m = (len', m')" "len < sz"
  shows "len' < sz \<and> (\<forall>a. m' a \<noteq> m a \<longrightarrow> a - dest < sz)"
  using assms
proof (induction dest src len sz m rule: strlcat_loop.induct)
  case (1 dest src len sz m)
  show ?case
  proof (cases "len + 1 < sz \<and> m src \<noteq> 0")
    case True
    have "strlcat_loop dest (src + 1) (len + 1) sz (m(dest + len := m src)) = (len', m')"
      using "1.prems"(1) True by (subst (asm) strlcat_loop.simps) simp
    with 1(1) [OF True] True
    have "len' < sz" "\<forall>a. m' a \<noteq> (m(dest + len := m src)) a \<longrightarrow> a - dest < sz"
      by (auto simp: fun_upd_def)
    then show ?thesis using "1.prems"(2) by (auto split: if_splits) (metis add_diff_cancel_left')
  next
    case False
    then show ?thesis using "1.prems" by (subst (asm) strlcat_loop.simps) auto
  qed
qed

lemma strnlen_loop_le: "len \<le> maxlen \<Longrightarrow> strnlen_loop s len maxlen m \<le> maxlen"
proof (induction s len maxlen m rule: strnlen_loop.induct)
  case (1 s len maxlen m)
  show ?case
  proof (cases "len < maxlen \<and> m (s + len) \<noteq> 0")
    case True
    then have "len + 1 \<le> maxlen" by (simp add: inc_le)
    then show ?thesis using 1(1) [OF True] True by (subst strnlen_loop.simps) simp
  next
    case False
    then show ?thesis using "1.prems" by (subst strnlen_loop.simps) (simp only: if_False)
  qed
qed

text \<open>
  The bounded string copies never store outside the \<open>size\<close> bytes of their destination, for any
  contents and overlap of the buffers: a \<open>strlcpy\<close> into a non-empty buffer returns a length below
  \<open>size\<close> with the terminator stored there, and a \<open>strlcat\<close> into a terminated buffer does the same,
  while into a buffer with no terminator it changes nothing and returns \<open>size\<close>.
\<close>

theorem strl_bounds:
  assumes "sz \<noteq> 0"
    and "strlcpy dest src sz m = (len, m')" "strlcat dest src sz m = (lenc, mc)"
  shows "len < sz \<and> m' (dest + len) = 0 \<and> (\<forall>a. m' a \<noteq> m a \<longrightarrow> a - dest < sz) \<and>
    (if strnlen dest sz m < sz
     then lenc < sz \<and> mc (dest + lenc) = 0 \<and> (\<forall>a. mc a \<noteq> m a \<longrightarrow> a - dest < sz)
     else lenc = sz \<and> mc = m)"
proof -
  have pos: "0 < sz" using assms(1) by (simp add: word_neq_0_conv)
  obtain m1 where l1: "strlcpy_loop dest src 0 sz m = (len, m1)" and m': "m' = m1(dest + len := 0)"
    using assms(2) by (auto simp: strlcpy_def split: prod.splits)
  have cpy: "len < sz \<and> m' (dest + len) = 0 \<and> (\<forall>a. m' a \<noteq> m a \<longrightarrow> a - dest < sz)"
    using strlcpy_loop_bounds [OF l1 pos] by (auto simp: m' split: if_splits)
  have cat: "if strnlen dest sz m < sz
    then lenc < sz \<and> mc (dest + lenc) = 0 \<and> (\<forall>a. mc a \<noteq> m a \<longrightarrow> a - dest < sz)
    else lenc = sz \<and> mc = m"
  proof (cases "strnlen dest sz m < sz")
    case True
    then obtain m2 where "strlcat_loop dest src (strnlen_loop dest 0 sz m) sz m = (lenc, m2)"
      "mc = m2(dest + lenc := 0)"
      using assms(3) by (auto simp: strlcat_def strnlen_def Let_def split: prod.splits)
    with True strlcat_loop_bounds [OF this(1)] show ?thesis by (auto simp: strnlen_def)
  next
    case False
    then have "strnlen_loop dest 0 sz m = sz"
      using strnlen_loop_le [of 0 sz dest m] by (auto simp: strnlen_def not_less)
    then show ?thesis using False assms(3) by (auto simp: strlcat_def Let_def)
  qed
  from cpy cat show ?thesis by blast
qed

text \<open>Two one-byte strings at addresses 16 and 32.\<close>

definition example_strings :: bytes where
  "example_strings = (\<lambda>a. if a = 16 \<or> a = 32 then 65 else 0)"

theorem strl_bounds_witness:
  "snd (strlcpy 16 32 8 example_strings) 17 = 0 \<and> fst (strlcpy 16 32 8 example_strings) < 8"
proof -
  have "strlcpy_loop 16 32 0 8 example_strings = (1, example_strings)"
    by (simp add: strlcpy_loop.simps example_strings_def fun_eq_iff)
  then have e: "strlcpy 16 32 8 example_strings = (1, example_strings)"
    by (simp add: strlcpy_def example_strings_def fun_eq_iff)
  show ?thesis
    using strl_bounds [of 8 16 32 example_strings 1 example_strings
        "fst (strlcat 16 32 8 example_strings)" "snd (strlcat 16 32 8 example_strings)"]
    by (simp add: e)
qed

end
