(* ===== verification/Sporadic.thy ===== *)
theory Sporadic
  imports Structures
begin

text \<open>
  Sporadic-server budgets: the circular buffer of refills of a scheduling context
  (\<^verbatim>\<open>src/kernel/include/kernel/sporadic.h\<close> and \<^verbatim>\<open>src/kernel/kernel/sporadic.c\<close>). The buffer is
  abstracted to the list of its refills from head to tail by \<open>refill_queue\<close>; every operation is
  shown to act on that list, and the budget (the sum of the amounts) is shown to be conserved.
  A \<^verbatim>\<open>while\<close> loop is a \<^theory_text>\<open>partial_function\<close> in the option type: \<open>None\<close> means that it
  does not return.
\<close>

section \<open>Accessors (sporadic.h)\<close>

definition MIN_BUDGET :: "kstate \<Rightarrow> ticks" where
  "MIN_BUDGET s = 2 * pKernelWcetTicks (plat s) * pKernelWcetScale (plat s)"

definition MAX_RELEASE_TIME :: "kstate \<Rightarrow> ticks" where
  "MAX_RELEASE_TIME s = - 1 - 5 * pMaxPeriodTicks (plat s)"

abbreviation (input) MIN_REFILLS :: word64 where
  "MIN_REFILLS \<equiv> 2"

definition refill_index :: "ptr \<Rightarrow> word64 \<Rightarrow> kstate \<Rightarrow> refill" where
  "refill_index sc i s = refills s sc i"

definition refill_head :: "ptr \<Rightarrow> kstate \<Rightarrow> refill" where
  "refill_head sc s = refill_index sc (scRefillHead (scs s sc)) s"

definition refill_tail :: "ptr \<Rightarrow> kstate \<Rightarrow> refill" where
  "refill_tail sc s = refill_index sc (scRefillTail (scs s sc)) s"

definition upd_refill_head :: "ptr \<Rightarrow> (refill \<Rightarrow> refill) \<Rightarrow> kstate \<Rightarrow> kstate" where
  "upd_refill_head sc f s = upd_refill sc (scRefillHead (scs s sc)) f s"

definition upd_refill_tail :: "ptr \<Rightarrow> (refill \<Rightarrow> refill) \<Rightarrow> kstate \<Rightarrow> kstate" where
  "upd_refill_tail sc f s = upd_refill sc (scRefillTail (scs s sc)) f s"

definition sizeof_sched_context :: word64 where
  "sizeof_sched_context = 96"

definition sizeof_refill :: word64 where
  "sizeof_refill = 16"

definition refill_absolute_max :: "cap \<Rightarrow> word64" where
  "refill_absolute_max sc_cap =
     (BIT (capSCSizeBits sc_cap) - sizeof_sched_context) div sizeof_refill"

definition refill_size :: "ptr \<Rightarrow> kstate \<Rightarrow> word64" where
  "refill_size sc s =
     (if scRefillHead (scs s sc) \<le> scRefillTail (scs s sc)
      then scRefillTail (scs s sc) - scRefillHead (scs s sc) + 1
      else scRefillTail (scs s sc) + 1 + (scRefillMax (scs s sc) - scRefillHead (scs s sc)))"

definition refill_full :: "ptr \<Rightarrow> kstate \<Rightarrow> bool" where
  "refill_full sc s \<longleftrightarrow> refill_size sc s = scRefillMax (scs s sc)"

definition refill_single :: "ptr \<Rightarrow> kstate \<Rightarrow> bool" where
  "refill_single sc s \<longleftrightarrow> scRefillHead (scs s sc) = scRefillTail (scs s sc)"

definition refill_capacity :: "ptr \<Rightarrow> ticks \<Rightarrow> kstate \<Rightarrow> ticks" where
  "refill_capacity sc usage s =
     (let head_amount = rAmount (refill_head sc s)
      in if usage > head_amount then 0 else head_amount - usage)"

definition refill_sufficient :: "ptr \<Rightarrow> ticks \<Rightarrow> kstate \<Rightarrow> bool" where
  "refill_sufficient sc usage s \<longleftrightarrow> refill_capacity sc usage s \<ge> MIN_BUDGET s"

definition refill_ready :: "ptr \<Rightarrow> kstate \<Rightarrow> bool" where
  "refill_ready sc s \<longleftrightarrow> rTime (refill_head sc s) \<le> ksCurTime s"

definition sc_active :: "ptr \<Rightarrow> kstate \<Rightarrow> bool" where
  "sc_active sc s \<longleftrightarrow> scRefillMax (scs s sc) > 0"

definition sc_released :: "ptr \<Rightarrow> kstate \<Rightarrow> bool" where
  "sc_released sc s = (if sc_active sc s then refill_ready sc s else False)"

definition sc_sporadic :: "ptr \<Rightarrow> kstate \<Rightarrow> bool" where
  "sc_sporadic sc s \<longleftrightarrow> sc \<noteq> NULL \<and> scSporadic (scs s sc)"

definition sc_constant_bandwidth :: "ptr \<Rightarrow> kstate \<Rightarrow> bool" where
  "sc_constant_bandwidth sc s \<longleftrightarrow> \<not> scSporadic (scs s sc)"

definition isRoundRobin :: "ptr \<Rightarrow> kstate \<Rightarrow> bool" where
  "isRoundRobin sc s \<longleftrightarrow> scPeriod (scs s sc) = 0"

section \<open>The circular buffer (sporadic.c)\<close>

definition refill_next :: "ptr \<Rightarrow> word64 \<Rightarrow> kstate \<Rightarrow> word64" where
  "refill_next sc index s = (if index = scRefillMax (scs s sc) - 1 then 0 else index + 1)"

partial_function (option) refill_ordered_loop :: "ptr \<Rightarrow> word64 \<Rightarrow> word64 \<Rightarrow> kstate \<Rightarrow> bool option" where
  "refill_ordered_loop sc current nxt s =
     (if current \<noteq> scRefillTail (scs s sc) then
        if \<not> rTime (refill_index sc current s) + rAmount (refill_index sc current s)
               \<le> rTime (refill_index sc nxt s)
        then Some False
        else refill_ordered_loop sc nxt (refill_next sc nxt s) s
      else Some True)"

definition refill_ordered :: "ptr \<Rightarrow> kstate \<Rightarrow> bool option" where
  "refill_ordered sc s =
     (if isRoundRobin sc s then Some True
      else refill_ordered_loop sc (scRefillHead (scs s sc))
             (refill_next sc (scRefillHead (scs s sc)) s) s)"

partial_function (option) refill_sum_loop :: "ptr \<Rightarrow> word64 \<Rightarrow> ticks \<Rightarrow> kstate \<Rightarrow> ticks option" where
  "refill_sum_loop sc current acc s =
     (if current \<noteq> scRefillTail (scs s sc)
      then refill_sum_loop sc (refill_next sc current s)
             (acc + rAmount (refill_index sc (refill_next sc current s) s)) s
      else Some acc)"

definition refill_sum :: "ptr \<Rightarrow> kstate \<Rightarrow> ticks option" where
  "refill_sum sc s =
     refill_sum_loop sc (scRefillHead (scs s sc)) (rAmount (refill_head sc s)) s"

definition refill_pop_head :: "ptr \<Rightarrow> kstate \<Rightarrow> refill \<times> kstate" where
  "refill_pop_head sc s =
     (let refill = refill_head sc s;
          s = upd_sc sc (scRefillHead_update (\<lambda>_. refill_next sc (scRefillHead (scs s sc)) s)) s
      in (refill, s))"

definition refill_add_tail :: "ptr \<Rightarrow> refill \<Rightarrow> kstate \<Rightarrow> kstate" where
  "refill_add_tail sc refill s =
     (let new_tail = refill_next sc (scRefillTail (scs s sc)) s;
          s = upd_sc sc (scRefillTail_update (\<lambda>_. new_tail)) s
      in upd_refill_tail sc (\<lambda>_. refill) s)"

definition maybe_add_empty_tail :: "ptr \<Rightarrow> kstate \<Rightarrow> kstate" where
  "maybe_add_empty_tail sc s =
     (if isRoundRobin sc s
      then let empty_tail = \<lparr>rTime = rTime (refill_head sc s), rAmount = 0\<rparr>
           in refill_add_tail sc empty_tail s
      else s)"

definition refill_new :: "ptr \<Rightarrow> word64 \<Rightarrow> ticks \<Rightarrow> ticks \<Rightarrow> kstate \<Rightarrow> kstate" where
  "refill_new sc max_refills budget period s =
     (let s = upd_sc sc (scPeriod_update (\<lambda>_. period)) s;
          s = upd_sc sc (scRefillHead_update (\<lambda>_. 0)) s;
          s = upd_sc sc (scRefillTail_update (\<lambda>_. 0)) s;
          s = upd_sc sc (scRefillMax_update (\<lambda>_. max_refills)) s;
          s = upd_refill_head sc (rAmount_update (\<lambda>_. budget)) s;
          s = upd_refill_head sc (rTime_update (\<lambda>_. ksCurTime s)) s
      in maybe_add_empty_tail sc s)"

definition refill_update :: "ptr \<Rightarrow> ticks \<Rightarrow> ticks \<Rightarrow> word64 \<Rightarrow> kstate \<Rightarrow> kstate" where
  "refill_update sc new_period new_budget new_max_refills s =
     (let s = upd_refill sc 0 (\<lambda>_. refill_head sc s) s;
          s = upd_sc sc (scRefillHead_update (\<lambda>_. 0)) s;
          s = upd_sc sc (scRefillTail_update (\<lambda>_. scRefillHead (scs s sc))) s;
          s = upd_sc sc (scRefillMax_update (\<lambda>_. new_max_refills)) s;
          s = upd_sc sc (scPeriod_update (\<lambda>_. new_period)) s;
          s = (if refill_ready sc s
               then upd_refill_head sc (rTime_update (\<lambda>_. ksCurTime s)) s else s)
      in if rAmount (refill_head sc s) \<ge> new_budget
         then let s = upd_refill_head sc (rAmount_update (\<lambda>_. new_budget)) s
              in maybe_add_empty_tail sc s
         else let new = \<lparr>rTime = rTime (refill_head sc s) + new_period,
                         rAmount = new_budget - rAmount (refill_head sc s)\<rparr>
              in refill_add_tail sc new s)"

definition schedule_used :: "ptr \<Rightarrow> refill \<Rightarrow> kstate \<Rightarrow> kstate" where
  "schedule_used sc new s =
     (let tail = refill_tail sc s in
      if rTime tail + rAmount tail \<ge> rTime new
      then upd_refill_tail sc (rAmount_update (\<lambda>_. rAmount tail + rAmount new)) s
      else if \<not> refill_full sc s then refill_add_tail sc new s
      else let s = upd_refill_tail sc (rTime_update (\<lambda>_. rTime new - rAmount tail)) s
           in upd_refill_tail sc (rAmount_update (\<lambda>_. rAmount tail + rAmount new)) s)"

definition refill_head_overlapping :: "ptr \<Rightarrow> kstate \<Rightarrow> bool" where
  "refill_head_overlapping sc s =
     (if \<not> refill_single sc s
      then let head = refill_head sc s; tail = rTime head + rAmount head
           in rTime (refill_index sc (refill_next sc (scRefillHead (scs s sc)) s) s) \<le> tail
      else False)"

definition head_refill_overrun :: "ptr \<Rightarrow> ticks \<Rightarrow> kstate \<Rightarrow> bool" where
  "head_refill_overrun sc usage s \<longleftrightarrow>
     (let head = refill_head sc s in rAmount head \<le> usage \<and> rTime head < MAX_RELEASE_TIME s)"

definition charge_entire_head_refill :: "ptr \<Rightarrow> ticks \<Rightarrow> kstate \<Rightarrow> ticks \<times> kstate" where
  "charge_entire_head_refill sc usage s =
     (let head = refill_head sc s;
          s = (if refill_single sc s
               then upd_refill_head sc (rTime_update (\<lambda>_. rTime head + scPeriod (scs s sc))) s
               else let (old_head, s) = refill_pop_head sc s;
                        old_head = old_head\<lparr>rTime := rTime old_head + scPeriod (scs s sc)\<rparr>
                    in schedule_used sc old_head s)
      in (usage - rAmount head, s))"

partial_function (option) handle_overrun :: "ptr \<Rightarrow> ticks \<Rightarrow> kstate \<Rightarrow> (ticks \<times> kstate) option" where
  "handle_overrun sc current_usage s =
     (if head_refill_overrun sc current_usage s
      then case charge_entire_head_refill sc current_usage s of
             (current_usage', s') \<Rightarrow> handle_overrun sc current_usage' s'
      else Some (current_usage, s))"

definition head_refill_insufficient :: "ptr \<Rightarrow> kstate \<Rightarrow> bool" where
  "head_refill_insufficient sc s \<longleftrightarrow> rAmount (refill_head sc s) < MIN_BUDGET s"

definition merge_nonoverlapping_head_refill :: "ptr \<Rightarrow> kstate \<Rightarrow> kstate" where
  "merge_nonoverlapping_head_refill sc s =
     (let (head, s) = refill_pop_head sc s;
          s = upd_refill_head sc (\<lambda>r. r\<lparr>rAmount := rAmount r + rAmount head\<rparr>) s
      in upd_refill_head sc (\<lambda>r. r\<lparr>rTime := rTime r - rAmount head\<rparr>) s)"

partial_function (option) merge_insufficient_loop :: "ptr \<Rightarrow> kstate \<Rightarrow> kstate option" where
  "merge_insufficient_loop sc s =
     (if head_refill_insufficient sc s
      then merge_insufficient_loop sc (merge_nonoverlapping_head_refill sc s)
      else Some s)"

definition refill_budget_check :: "ticks \<Rightarrow> kstate \<Rightarrow> kstate option" where
  "refill_budget_check usage s =
     (let sc = ksCurSC s in
      do {
        (usage, s) \<leftarrow> handle_overrun sc usage s;
        let head = refill_head sc s;
        let s = (if usage > 0 \<and> rTime head < MAX_RELEASE_TIME s
                 then let used = \<lparr>rTime = rTime head + scPeriod (scs s sc), rAmount = usage\<rparr>;
                          s = upd_refill_head sc (rAmount_update (\<lambda>_. rAmount head - usage)) s;
                          s = upd_refill_head sc (rTime_update (\<lambda>_. rTime head + usage)) s
                      in schedule_used sc used s
                 else s);
        merge_insufficient_loop sc s
      })"

definition merge_overlapping_head_refill :: "ptr \<Rightarrow> kstate \<Rightarrow> kstate" where
  "merge_overlapping_head_refill sc s =
     (let (old_head, s) = refill_pop_head sc s;
          s = upd_refill_head sc (rTime_update (\<lambda>_. rTime old_head)) s
      in upd_refill_head sc (\<lambda>r. r\<lparr>rAmount := rAmount r + rAmount old_head\<rparr>) s)"

partial_function (option) merge_overlapping_loop :: "ptr \<Rightarrow> kstate \<Rightarrow> kstate option" where
  "merge_overlapping_loop sc s =
     (if refill_head_overlapping sc s
      then merge_overlapping_loop sc (merge_overlapping_head_refill sc s)
      else Some s)"

definition refill_unblock_check :: "ptr \<Rightarrow> kstate \<Rightarrow> kstate option" where
  "refill_unblock_check sc s =
     (if isRoundRobin sc s then Some s
      else if refill_ready sc s
      then let s = upd_refill_head sc (rTime_update (\<lambda>_. ksCurTime s)) s;
               s = s\<lparr>ksReprogram := True\<rparr>
           in merge_overlapping_loop sc s
      else Some s)"

section \<open>Abstraction: the list of refills\<close>

text \<open>
  \<open>rslot\<close> is the index of the \<open>i\<close>-th refill counted from the head, \<open>refill_queue sc rs s\<close> says
  that the ring of \<open>sc\<close> holds exactly the refills \<open>rs\<close>. \<open>used_spec\<close>, \<open>charge_spec\<close> and the two
  merge functions are the list versions of the operations; \<open>refill_frame\<close> says that nothing but
  the ring of one scheduling context changed.
\<close>

definition rslot :: "ptr \<Rightarrow> kstate \<Rightarrow> nat \<Rightarrow> word64" where
  "rslot sc s i = of_nat ((unat (scRefillHead (scs s sc)) + i) mod unat (scRefillMax (scs s sc)))"

definition refill_queue :: "ptr \<Rightarrow> refill list \<Rightarrow> kstate \<Rightarrow> bool" where
  "refill_queue sc rs s \<longleftrightarrow>
     rs \<noteq> [] \<and> length rs \<le> unat (scRefillMax (scs s sc)) \<and>
     unat (scRefillHead (scs s sc)) < unat (scRefillMax (scs s sc)) \<and>
     scRefillTail (scs s sc) = rslot sc s (length rs - 1) \<and>
     (\<forall>i < length rs. refills s sc (rslot sc s i) = rs ! i)"

definition refill_frame :: "ptr \<Rightarrow> kstate \<Rightarrow> kstate \<Rightarrow> bool" where
  "refill_frame sc s s' \<longleftrightarrow> (\<exists>h t R. s' = s\<lparr>
     scs := (scs s)(sc := (scs s sc)\<lparr>scRefillHead := h, scRefillTail := t\<rparr>),
     refills := (refills s)(sc := R)\<rparr>)"

definition used_spec :: "nat \<Rightarrow> refill \<Rightarrow> refill list \<Rightarrow> refill list" where
  "used_spec m new rs =
     (let t = last rs in
      if rTime t + rAmount t \<ge> rTime new
      then butlast rs @ [t\<lparr>rAmount := rAmount t + rAmount new\<rparr>]
      else if length rs < m then rs @ [new]
      else butlast rs @ [\<lparr>rTime = rTime new - rAmount t, rAmount = rAmount t + rAmount new\<rparr>])"

fun charge_spec :: "nat \<Rightarrow> ticks \<Rightarrow> refill list \<Rightarrow> refill list" where
  "charge_spec m p [] = []"
| "charge_spec m p [r] = [r\<lparr>rTime := rTime r + p\<rparr>]"
| "charge_spec m p (r # rs) = used_spec m (r\<lparr>rTime := rTime r + p\<rparr>) rs"

fun merge_after_spec :: "refill list \<Rightarrow> refill list" where
  "merge_after_spec (a # b # rs) =
     \<lparr>rTime = rTime b - rAmount a, rAmount = rAmount b + rAmount a\<rparr> # rs"
| "merge_after_spec rs = rs"

fun merge_before_spec :: "refill list \<Rightarrow> refill list" where
  "merge_before_spec (a # b # rs) =
     \<lparr>rTime = rTime a, rAmount = rAmount b + rAmount a\<rparr> # rs"
| "merge_before_spec rs = rs"

abbreviation ring_max :: "ptr \<Rightarrow> kstate \<Rightarrow> nat" where
  "ring_max sc s \<equiv> unat (scRefillMax (scs s sc))"

definition budget :: "refill list \<Rightarrow> nat" where
  "budget rs = sum_list (map (\<lambda>r. unat (rAmount r)) rs)"

text \<open>Refills are worth something and their sum fits a machine word.\<close>

definition good_refills :: "refill list \<Rightarrow> bool" where
  "good_refills rs \<longleftrightarrow> rs \<noteq> [] \<and> (\<forall>r \<in> set rs. 0 < unat (rAmount r)) \<and> budget rs < 2 ^ 64"

definition update_spec :: "ticks \<Rightarrow> ticks \<Rightarrow> ticks \<Rightarrow> refill \<Rightarrow> refill list" where
  "update_spec now period b r =
     (let t = (if rTime r \<le> now then now else rTime r) in
      if b \<le> rAmount r
      then \<lparr>rTime = t, rAmount = b\<rparr> # (if period = 0 then [\<lparr>rTime = t, rAmount = 0\<rparr>] else [])
      else [\<lparr>rTime = t, rAmount = rAmount r\<rparr>,
            \<lparr>rTime = t + period, rAmount = b - rAmount r\<rparr>])"

lemma unat_refill_next:
  assumes "unat i < unat (scRefillMax (scs s sc))"
  shows "unat (refill_next sc i s) = (unat i + 1) mod unat (scRefillMax (scs s sc))"
proof -
  let ?m = "scRefillMax (scs s sc)"
  have m1: "unat (?m - 1) = unat ?m - 1"
    using assms by (subst unat_sub_nowrap) (auto simp: word_le_nat_alt)
  show ?thesis
  proof (cases "i = ?m - 1")
    case True
    with m1 assms show ?thesis by (simp add: refill_next_def)
  next
    case False
    then have "unat i \<noteq> unat ?m - 1"
      using m1 by (metis word_unat_eq_iff)
    with assms have "unat i + 1 < unat ?m" by simp
    with False unat_suc_nowrap [OF assms] show ?thesis by (simp add: refill_next_def)
  qed
qed

lemma refill_queueD:
  assumes "refill_queue sc rs s"
  shows "rs \<noteq> []" "length rs \<le> unat (scRefillMax (scs s sc))"
    and "unat (scRefillHead (scs s sc)) < unat (scRefillMax (scs s sc))"
    and "scRefillTail (scs s sc) = rslot sc s (length rs - 1)"
    and "\<And>i. i < length rs \<Longrightarrow> refills s sc (rslot sc s i) = rs ! i"
    and "length rs = length rs - 1 + 1" "length rs - 1 < unat (scRefillMax (scs s sc))"
  using assms by (auto simp: refill_queue_def Suc_le_eq)

lemma unat_rslot:
  assumes "unat (scRefillHead (scs s sc)) < unat (scRefillMax (scs s sc))"
  shows "unat (rslot sc s i) = (unat (scRefillHead (scs s sc)) + i) mod unat (scRefillMax (scs s sc))"
  unfolding rslot_def using assms by (intro of_nat_unat_64 [of _ "scRefillMax (scs s sc)"]) simp

lemma rslot_0: "unat (scRefillHead (scs s sc)) < unat (scRefillMax (scs s sc)) \<Longrightarrow>
  rslot sc s 0 = scRefillHead (scs s sc)"
  by (simp add: rslot_def)

lemma rslot_inj:
  assumes "unat (scRefillHead (scs s sc)) < unat (scRefillMax (scs s sc))"
    and "i < unat (scRefillMax (scs s sc))" "j < unat (scRefillMax (scs s sc))"
  shows "rslot sc s i = rslot sc s j \<longleftrightarrow> i = j"
  using assms mod_inj_window [of i _ j] by (auto simp: word_unat_eq_iff unat_rslot)

lemma refill_next_rslot:
  assumes "unat (scRefillHead (scs s sc)) < unat (scRefillMax (scs s sc))"
  shows "refill_next sc (rslot sc s i) s = rslot sc s (Suc i)"
  using assms
  by (simp add: word_unat_eq_iff unat_refill_next unat_rslot mod_Suc_eq)

lemma refill_queue_head: "refill_queue sc rs s \<Longrightarrow> refill_head sc s = hd rs"
  using refill_queueD(5) [of sc rs s 0] refill_queueD(1,3) [of sc rs s]
  by (simp add: refill_head_def refill_index_def hd_conv_nth rslot_0)

lemma refill_queue_tail: "refill_queue sc rs s \<Longrightarrow> refill_tail sc s = last rs"
  using refill_queueD(5) [of sc rs s "length rs - 1"] refill_queueD(1,4) [of sc rs s]
  by (simp add: refill_tail_def refill_index_def last_conv_nth)

lemma refill_queue_single:
  assumes q: "refill_queue sc rs s"
  shows "refill_single sc s \<longleftrightarrow> length rs = 1"
proof -
  note D = refill_queueD [OF q]
  have "refill_single sc s \<longleftrightarrow> rslot sc s 0 = rslot sc s (length rs - 1)"
    by (simp add: refill_single_def D(3,4) rslot_0)
  also have "\<dots> \<longleftrightarrow> 0 = length rs - 1"
    using D(3,7) by (intro rslot_inj) simp_all
  finally show ?thesis using D(6) by linarith
qed

lemma refill_queue_size:
  assumes q: "refill_queue sc rs s"
  shows "unat (refill_size sc s) = length rs"
proof -
  let ?M = "scRefillMax (scs s sc)" and ?H = "scRefillHead (scs s sc)" and ?T = "scRefillTail (scs s sc)"
  define n where "n = length rs - 1"
  note D = refill_queueD [OF q, folded n_def]
  have len: "length rs = n + 1" by (rule D(6))
  have t': "unat ?T = (if unat ?H + n < unat ?M then unat ?H + n else unat ?H + n - unat ?M)"
    using D(3,4,7) by (simp add: unat_rslot mod_window)
  show ?thesis
  proof (cases "?H \<le> ?T")
    case True
    then have "unat ?H + n < unat ?M" using t' D(3,7) by (auto simp: word_le_nat_alt split: if_splits)
    with t' have n: "unat (?T - ?H) = n" using True by (simp add: unat_sub_nowrap)
    moreover have "unat (?T - ?H + 1) = unat (?T - ?H) + 1"
      using D(7) n by (intro unat_suc_nowrap [of _ ?M]) simp
    ultimately show ?thesis using True len by (simp add: refill_size_def)
  next
    case False
    then have tt: "unat ?T = unat ?H + n - unat ?M" "\<not> unat ?H + n < unat ?M"
      using t' by (auto simp: word_le_nat_alt split: if_splits)
    have a: "unat (?M - ?H) = unat ?M - unat ?H" using D(3) by (simp add: unat_sub_nowrap word_le_nat_alt)
    have b: "unat (?T + 1) = unat ?T + 1" using tt D(3,7) by (intro unat_suc_nowrap [of _ ?M]) simp
    have "unat (?T + 1 + (?M - ?H)) = unat (?T + 1) + unat (?M - ?H)"
      using a b tt D(3,7) unat_lt_64 [of ?M] by (intro unat_add_nowrap) simp
    then show ?thesis using False len a b tt D(3,7) by (simp add: refill_size_def)
  qed
qed

lemma refill_queue_full: "refill_queue sc rs s \<Longrightarrow>
  refill_full sc s \<longleftrightarrow> length rs = unat (scRefillMax (scs s sc))"
  by (simp add: refill_full_def word_unat_eq_iff refill_queue_size)

text \<open>How the buffer changes: a slot is overwritten, the head leaves, a tail arrives.\<close>

lemma refill_queue_upd:
  assumes q: "refill_queue sc rs s" and k: "k < length rs"
  shows "refill_queue sc (rs[k := f (rs ! k)]) (upd_refill sc (rslot sc s k) f s)"
proof -
  note D = refill_queueD [OF q]
  have sl: "rslot sc (upd_refill sc (rslot sc s k) f s) = rslot sc s"
    by (simp add: rslot_def fun_eq_iff)
  have "rslot sc s i = rslot sc s k \<longleftrightarrow> i = k" if "i < length rs" for i
    using D(2,3) that k by (intro rslot_inj) simp_all
  then show ?thesis
    using D(1-4) D(5) k by (auto simp: refill_queue_def sl nth_list_update)
qed

lemma refill_queue_upd_head:
  "refill_queue sc (r # rs) s \<Longrightarrow> refill_queue sc (f r # rs) (upd_refill_head sc f s)"
  using refill_queue_upd [of sc "r # rs" s 0 f] refill_queueD(3) [of sc "r # rs" s]
  by (simp add: upd_refill_head_def rslot_0)

lemma refill_queue_upd_tail:
  "refill_queue sc (rs @ [r]) s \<Longrightarrow> refill_queue sc (rs @ [f r]) (upd_refill_tail sc f s)"
  using refill_queue_upd [of sc "rs @ [r]" s "length rs" f] refill_queueD(4) [of sc "rs @ [r]" s]
  by (simp add: upd_refill_tail_def)

lemma refill_queue_pop:
  assumes q: "refill_queue sc (r # rs) s" and ne: "rs \<noteq> []"
  shows "\<exists>s'. refill_pop_head sc s = (r, s') \<and> refill_queue sc rs s'
    \<and> scPeriod (scs s' sc) = scPeriod (scs s sc) \<and> scRefillMax (scs s' sc) = scRefillMax (scs s sc)"
proof -
  note D = refill_queueD [OF q]
  define s' where "s' = upd_sc sc (scRefillHead_update (\<lambda>_. refill_next sc (scRefillHead (scs s sc)) s)) s"
  have nx: "scRefillHead (scs s' sc) = rslot sc s 1"
    using D(3) refill_next_rslot [of s sc 0] by (simp add: s'_def rslot_0)
  have sl: "rslot sc s' i = rslot sc s (Suc i)" for i
    using D(3) by (simp add: rslot_def [of sc s'] nx unat_rslot)
      (simp add: s'_def rslot_def mod_simps)
  have "refill_queue sc rs s'"
    unfolding refill_queue_def sl nx
    using D ne unat_rslot [OF D(3), of 1] D(5) [of "Suc _"]
    by (auto simp: s'_def neq_Nil_conv)
  moreover have "refill_pop_head sc s = (r, s')"
    using refill_queue_head [OF q] by (simp add: refill_pop_head_def s'_def Let_def)
  ultimately show ?thesis by (simp add: s'_def)
qed

lemma refill_queue_add:
  assumes q: "refill_queue sc rs s" and room: "length rs < unat (scRefillMax (scs s sc))"
  shows "refill_queue sc (rs @ [r]) (refill_add_tail sc r s)"
proof -
  note D = refill_queueD [OF q]
  have nx: "refill_next sc (scRefillTail (scs s sc)) s = rslot sc s (length rs)"
    using D(1,3,4,6) refill_next_rslot [of s sc "length rs - 1"] by simp
  have ne: "rslot sc s i \<noteq> rslot sc s (length rs)" if "i < length rs" for i
    using rslot_inj [OF D(3), of i "length rs"] that room by simp
  have sl: "rslot sc (refill_add_tail sc r s) = rslot sc s"
    by (simp add: fun_eq_iff rslot_def refill_add_tail_def upd_refill_tail_def Let_def)
  show ?thesis
    unfolding refill_queue_def sl
    using D(1,2,3,5) room ne
    by (auto simp: refill_add_tail_def upd_refill_tail_def Let_def nx nth_append less_Suc_eq)
qed

text \<open>Everything but the ring indices and slots of one scheduling context is left alone.\<close>

lemma refill_frame_refl [simp]: "refill_frame sc s s"
  unfolding refill_frame_def
  by (rule exI [of _ "scRefillHead (scs s sc)"], rule exI [of _ "scRefillTail (scs s sc)"],
      rule exI [of _ "refills s sc"]) simp

lemma refill_frame_trans [trans]:
  "refill_frame sc s s' \<Longrightarrow> refill_frame sc s' s'' \<Longrightarrow> refill_frame sc s s''"
  unfolding refill_frame_def by fastforce

lemma refill_frameD:
  assumes "refill_frame sc s s'"
  shows "plat s' = plat s" "ksCurTime s' = ksCurTime s" "ksCurSC s' = ksCurSC s" "tcbs s' = tcbs s"
    "scPeriod (scs s' sc) = scPeriod (scs s sc)" "scRefillMax (scs s' sc) = scRefillMax (scs s sc)"
    "MIN_BUDGET s' = MIN_BUDGET s" "MAX_RELEASE_TIME s' = MAX_RELEASE_TIME s"
    "isRoundRobin sc s' = isRoundRobin sc s"
  using assms
  by (auto simp: refill_frame_def MIN_BUDGET_def MAX_RELEASE_TIME_def isRoundRobin_def)

lemma refill_frame_upd_refill [simp]: "refill_frame sc s (upd_refill sc i f s)"
  unfolding refill_frame_def upd_refill_def
  by (rule exI [of _ "scRefillHead (scs s sc)"], rule exI [of _ "scRefillTail (scs s sc)"]) auto

lemma refill_frame_upd_head [simp]: "refill_frame sc s (upd_refill_head sc f s)"
  by (simp add: upd_refill_head_def)

lemma refill_frame_upd_tail [simp]: "refill_frame sc s (upd_refill_tail sc f s)"
  by (simp add: upd_refill_tail_def)

lemma refill_frame_pop: "refill_pop_head sc s = (r, s') \<Longrightarrow> refill_frame sc s s'"
  unfolding refill_frame_def refill_pop_head_def Let_def upd_sc_def
  by (rule exI [of _ "refill_next sc (scRefillHead (scs s sc)) s"],
      rule exI [of _ "scRefillTail (scs s sc)"], rule exI [of _ "refills s sc"]) auto

lemma refill_frame_upd_sc_tail: "refill_frame sc s (upd_sc sc (scRefillTail_update (\<lambda>_. t)) s)"
  unfolding refill_frame_def upd_sc_def
  by (rule exI [of _ "scRefillHead (scs s sc)"], rule exI [of _ t],
      rule exI [of _ "refills s sc"]) simp

lemma refill_frame_add [simp]: "refill_frame sc s (refill_add_tail sc r s)"
  unfolding refill_add_tail_def Let_def
  by (rule refill_frame_trans [OF refill_frame_upd_sc_tail refill_frame_upd_tail])

section \<open>The list specification\<close>

lemma schedule_used_refines:
  assumes q: "refill_queue sc rs s"
  shows "refill_queue sc (used_spec (ring_max sc s) new rs) (schedule_used sc new s)"
    and "refill_frame sc s (schedule_used sc new s)"
proof -
  obtain ys t where rs: "rs = ys @ [t]"
    using refill_queueD(1) [OF q] by (cases rs rule: rev_cases) auto
  note q' = q [unfolded rs]
  have tl: "refill_tail sc s = t" using refill_queue_tail [OF q'] by simp
  have full: "refill_full sc s \<longleftrightarrow> length rs = ring_max sc s" by (rule refill_queue_full [OF q])
  show "refill_frame sc s (schedule_used sc new s)"
    by (auto simp: schedule_used_def Let_def intro: refill_frame_trans [OF refill_frame_upd_tail refill_frame_upd_tail])
  consider (over) "rTime new \<le> rTime t + rAmount t"
    | (room) "\<not> rTime new \<le> rTime t + rAmount t" "length rs < ring_max sc s"
    | (full) "\<not> rTime new \<le> rTime t + rAmount t" "length rs = ring_max sc s"
    using refill_queueD(2) [OF q] by linarith
  then show "refill_queue sc (used_spec (ring_max sc s) new rs) (schedule_used sc new s)"
  proof cases
    case over
    with refill_queue_upd_tail [OF q', of "rAmount_update (\<lambda>_. rAmount t + rAmount new)"] show ?thesis
      by (simp add: schedule_used_def used_spec_def tl rs)
  next
    case room
    with refill_queue_add [OF q room(2), of new] full show ?thesis
      by (simp add: schedule_used_def used_spec_def tl rs)
  next
    case full: full
    from refill_queue_upd_tail [OF refill_queue_upd_tail [OF q', of "rTime_update (\<lambda>_. rTime new - rAmount t)"],
        of "rAmount_update (\<lambda>_. rAmount t + rAmount new)"] full \<open>refill_full sc s \<longleftrightarrow> _\<close>
    show ?thesis by (cases t) (simp add: schedule_used_def used_spec_def tl rs)
  qed
qed

lemma charge_refines:
  assumes q: "refill_queue sc rs s"
  shows "\<exists>s'. charge_entire_head_refill sc usage s = (usage - rAmount (hd rs), s')
    \<and> refill_queue sc (charge_spec (ring_max sc s) (scPeriod (scs s sc)) rs) s' \<and> refill_frame sc s s'"
proof (cases rs rule: remdups_adj.cases)
  case 1
  with refill_queueD(1) [OF q] show ?thesis by simp
next
  case (2 r)
  then have rs: "rs = [r]" by simp
  from refill_queue_upd_head [OF q [unfolded rs], of "rTime_update (\<lambda>_. rTime r + scPeriod (scs s sc))"]
    refill_queue_single [OF q] refill_queue_head [OF q]
  show ?thesis by (simp add: rs charge_entire_head_refill_def Let_def)
next
  case (3 r r' rs')
  then have rs: "rs = r # r' # rs'" by simp
  from refill_queue_pop [OF q [unfolded rs]] obtain s1 where
    pop: "refill_pop_head sc s = (r, s1)" and q1: "refill_queue sc (r' # rs') s1" by auto
  note fr = refill_frame_pop [OF pop]
  define old where "old = r\<lparr>rTime := rTime r + scPeriod (scs s sc)\<rparr>"
  from schedule_used_refines [OF q1, of old] refill_frame_trans [OF fr]
  have "refill_queue sc (used_spec (ring_max sc s) old (r' # rs')) (schedule_used sc old s1)"
    "refill_frame sc s (schedule_used sc old s1)"
    by (simp_all add: refill_frameD [OF fr])
  with refill_queue_single [OF q] refill_queue_head [OF q] pop show ?thesis
    by (simp add: rs charge_entire_head_refill_def Let_def old_def refill_frameD [OF fr])
qed

lemma merge_after_refines:
  assumes q: "refill_queue sc rs s" and two: "2 \<le> length rs"
  shows "refill_queue sc (merge_after_spec rs) (merge_nonoverlapping_head_refill sc s)"
    and "refill_frame sc s (merge_nonoverlapping_head_refill sc s)"
proof -
  obtain a b rs' where rs: "rs = a # b # rs'" using two by (cases rs rule: merge_after_spec.cases) auto
  from refill_queue_pop [OF q [unfolded rs]] obtain s1 where
    pop: "refill_pop_head sc s = (a, s1)" and q1: "refill_queue sc (b # rs') s1" by auto
  note u = refill_queue_upd_head [OF refill_queue_upd_head [OF q1]]
  show "refill_queue sc (merge_after_spec rs) (merge_nonoverlapping_head_refill sc s)"
    using u [of "\<lambda>r. r\<lparr>rTime := rTime r - rAmount a\<rparr>" "\<lambda>r. r\<lparr>rAmount := rAmount r + rAmount a\<rparr>"]
    by (cases b) (simp add: merge_nonoverlapping_head_refill_def pop rs)
  show "refill_frame sc s (merge_nonoverlapping_head_refill sc s)"
    using refill_frame_trans [OF refill_frame_pop [OF pop]
        refill_frame_trans [OF refill_frame_upd_head refill_frame_upd_head]]
    by (simp add: merge_nonoverlapping_head_refill_def pop)
qed

lemma merge_before_refines:
  assumes q: "refill_queue sc rs s" and two: "2 \<le> length rs"
  shows "refill_queue sc (merge_before_spec rs) (merge_overlapping_head_refill sc s)"
    and "refill_frame sc s (merge_overlapping_head_refill sc s)"
proof -
  obtain a b rs' where rs: "rs = a # b # rs'" using two by (cases rs rule: merge_before_spec.cases) auto
  from refill_queue_pop [OF q [unfolded rs]] obtain s1 where
    pop: "refill_pop_head sc s = (a, s1)" and q1: "refill_queue sc (b # rs') s1" by auto
  note u = refill_queue_upd_head [OF refill_queue_upd_head [OF q1]]
  show "refill_queue sc (merge_before_spec rs) (merge_overlapping_head_refill sc s)"
    using u [of "\<lambda>r. r\<lparr>rAmount := rAmount r + rAmount a\<rparr>" "rTime_update (\<lambda>_. rTime a)"]
    by (cases b) (simp add: merge_overlapping_head_refill_def pop rs)
  show "refill_frame sc s (merge_overlapping_head_refill sc s)"
    using refill_frame_trans [OF refill_frame_pop [OF pop]
        refill_frame_trans [OF refill_frame_upd_head refill_frame_upd_head]]
    by (simp add: merge_overlapping_head_refill_def pop)
qed

section \<open>Budget\<close>

lemma budget_simps [simp]:
  "budget [] = 0" "budget (r # rs) = unat (rAmount r) + budget rs"
  "budget (rs @ rs') = budget rs + budget rs'"
  by (simp_all add: budget_def)

lemma used_spec_good:
  assumes "good_refills rs" "0 < unat (rAmount new)" "budget rs + unat (rAmount new) < 2 ^ 64"
  shows "good_refills (used_spec m new rs)"
    and "budget (used_spec m new rs) = budget rs + unat (rAmount new)"
proof -
  obtain ys t where rs: "rs = ys @ [t]" using assms(1) by (cases rs rule: rev_cases) (auto simp: good_refills_def)
  have sum: "unat (rAmount t + rAmount new) = unat (rAmount t) + unat (rAmount new)"
    using assms(3) by (intro unat_add_nowrap) (simp add: rs)
  show "budget (used_spec m new rs) = budget rs + unat (rAmount new)"
    by (simp add: used_spec_def rs sum Let_def)
  then show "good_refills (used_spec m new rs)"
    using assms by (auto simp: good_refills_def used_spec_def rs sum Let_def)
qed

lemma charge_spec_good:
  assumes "good_refills rs"
  shows "good_refills (charge_spec m p rs) \<and> budget (charge_spec m p rs) = budget rs"
proof (cases rs rule: remdups_adj.cases)
  case 1
  with assms show ?thesis by (simp add: good_refills_def)
next
  case 2
  with assms show ?thesis by (auto simp: good_refills_def)
next
  case (3 r r' rs')
  with assms used_spec_good [of "r' # rs'" "r\<lparr>rTime := rTime r + p\<rparr>" m] show ?thesis
    by (auto simp: good_refills_def)
qed

lemma merge_after_good:
  assumes "good_refills rs" "2 \<le> length rs"
  shows "good_refills (merge_after_spec rs) \<and> budget (merge_after_spec rs) = budget rs
    \<and> length (merge_after_spec rs) = length rs - 1"
  using assms by (cases rs rule: merge_after_spec.cases) (auto simp: good_refills_def unat_add_nowrap)

lemma merge_before_good:
  assumes "good_refills rs" "2 \<le> length rs"
  shows "good_refills (merge_before_spec rs) \<and> budget (merge_before_spec rs) = budget rs
    \<and> length (merge_before_spec rs) = length rs - 1"
  using assms by (cases rs rule: merge_before_spec.cases) (auto simp: good_refills_def unat_add_nowrap)

section \<open>The loops return\<close>

lemma handle_overrun_total:
  assumes "refill_queue sc rs s" "good_refills rs"
  shows "\<exists>u' s' rs'. handle_overrun sc u s = Some (u', s') \<and> refill_queue sc rs' s' \<and> good_refills rs'
    \<and> budget rs' = budget rs \<and> refill_frame sc s s' \<and> \<not> head_refill_overrun sc u' s'"
  using assms
proof (induction "unat u" arbitrary: u s rs rule: less_induct)
  case less
  show ?case
  proof (cases "head_refill_overrun sc u s")
    case False
    with less.prems show ?thesis
      by (subst handle_overrun.simps) (auto intro!: exI [of _ rs])
  next
    case True
    from charge_refines [OF less.prems(1)] obtain s1 where
      ch: "charge_entire_head_refill sc u s = (u - rAmount (hd rs), s1)"
      and q1: "refill_queue sc (charge_spec (ring_max sc s) (scPeriod (scs s sc)) rs) s1"
      and f1: "refill_frame sc s s1" by blast
    let ?rs = "charge_spec (ring_max sc s) (scPeriod (scs s sc)) rs"
    have g: "good_refills ?rs" "budget ?rs = budget rs"
      using charge_spec_good [OF less.prems(2)] by simp_all
    have le: "rAmount (hd rs) \<le> u"
      using True refill_queue_head [OF less.prems(1)] by (simp add: head_refill_overrun_def Let_def)
    have pos: "0 < unat (rAmount (hd rs))"
      using less.prems(2) by (simp add: good_refills_def)
    have "unat (u - rAmount (hd rs)) < unat u"
      using le pos by (simp add: unat_sub_nowrap word_le_nat_alt)
    from less.hyps [OF this q1 g(1)] g(2) refill_frame_trans [OF f1] True show ?thesis
      by (subst handle_overrun.simps) (fastforce simp: ch)
  qed
qed

lemma merge_insufficient_total:
  assumes "refill_queue sc rs s" "good_refills rs" "unat (MIN_BUDGET s) \<le> budget rs"
  shows "\<exists>s' rs'. merge_insufficient_loop sc s = Some s' \<and> refill_queue sc rs' s' \<and> good_refills rs'
    \<and> budget rs' = budget rs \<and> refill_frame sc s s' \<and> MIN_BUDGET s' \<le> rAmount (hd rs')"
  using assms
proof (induction "length rs" arbitrary: s rs rule: less_induct)
  case less
  note hd = refill_queue_head [OF less.prems(1)]
  show ?case
  proof (cases "head_refill_insufficient sc s")
    case False
    with less.prems hd show ?thesis
      by (subst merge_insufficient_loop.simps)
        (auto simp: head_refill_insufficient_def not_less intro!: exI [of _ rs])
  next
    case True
    then have "unat (rAmount (hd rs)) < budget rs"
      using hd less.prems(3) by (simp add: head_refill_insufficient_def word_less_nat_alt)
    then have two: "2 \<le> length rs"
      using less.prems(2) by (cases rs rule: remdups_adj.cases) (auto simp: good_refills_def)
    note m = merge_after_refines [OF less.prems(1) two] and g = merge_after_good [OF less.prems(2) two]
    have "length (merge_after_spec rs) < length rs" using g two by simp
    from less.hyps [OF this m(1)] g less.prems(3) refill_frame_trans [OF m(2)] True show ?thesis
      by (subst merge_insufficient_loop.simps) (fastforce simp: refill_frameD [OF m(2)])
  qed
qed

lemma refill_head_overlapping_two:
  "refill_queue sc rs s \<Longrightarrow> refill_head_overlapping sc s \<Longrightarrow> 2 \<le> length rs"
  using refill_queue_single [of sc rs s] refill_queueD(1) [of sc rs s]
  by (cases rs rule: remdups_adj.cases) (auto simp: refill_head_overlapping_def split: if_splits)

lemma merge_overlapping_total:
  assumes "refill_queue sc rs s" "good_refills rs"
  shows "\<exists>s' rs'. merge_overlapping_loop sc s = Some s' \<and> refill_queue sc rs' s' \<and> good_refills rs'
    \<and> budget rs' = budget rs \<and> refill_frame sc s s' \<and> rTime (hd rs') = rTime (hd rs)
    \<and> \<not> refill_head_overlapping sc s'"
  using assms
proof (induction "length rs" arbitrary: s rs rule: less_induct)
  case less
  show ?case
  proof (cases "refill_head_overlapping sc s")
    case False
    with less.prems show ?thesis
      by (subst merge_overlapping_loop.simps) (auto intro!: exI [of _ rs])
  next
    case True
    have two: "2 \<le> length rs" by (rule refill_head_overlapping_two [OF less.prems(1) True])
    note m = merge_before_refines [OF less.prems(1) two] and g = merge_before_good [OF less.prems(2) two]
    have "length (merge_before_spec rs) < length rs" using g two by simp
    moreover have "rTime (hd (merge_before_spec rs)) = rTime (hd rs)"
      using two by (cases rs rule: remdups_adj.cases) auto
    ultimately show ?thesis
      using less.hyps [of "merge_before_spec rs", OF _ m(1)] g refill_frame_trans [OF m(2)] True
      by (subst merge_overlapping_loop.simps) fastforce
  qed
qed

section \<open>The operations on the budget\<close>

lemma refill_queue_fun:
  assumes "refill_queue sc rs s" "refill_queue sc rs' s"
  shows "rs = rs'"
proof (rule nth_equalityI)
  show "length rs = length rs'"
    using refill_queue_size [OF assms(1)] refill_queue_size [OF assms(2)] by simp
  then show "rs ! i = rs' ! i" if "i < length rs" for i
    using refill_queueD(5) [OF assms(1), of i] refill_queueD(5) [OF assms(2), of i] that by simp
qed

lemma maybe_add_empty_tail_queue:
  assumes "refill_queue sc [r] s" "isRoundRobin sc s \<longrightarrow> 2 \<le> ring_max sc s"
  shows "refill_queue sc (r # (if isRoundRobin sc s then [\<lparr>rTime = rTime r, rAmount = 0\<rparr>] else []))
    (maybe_add_empty_tail sc s)"
  using assms refill_queue_add [of sc "[r]" s "\<lparr>rTime = rTime r, rAmount = 0\<rparr>"]
    refill_queue_head [OF assms(1)]
  by (auto simp: maybe_add_empty_tail_def Let_def)

lemma refill_queue_one:
  assumes "scRefillHead (scs s sc) = 0" "scRefillTail (scs s sc) = 0" "0 < scRefillMax (scs s sc)"
  shows "refill_queue sc [refills s sc 0] s"
  using assms by (simp add: refill_queue_def rslot_def word_less_nat_alt Suc_le_eq)

text \<open>
  \<open>refill_new\<close> configures a scheduling context with its full budget in one refill that is usable
  from now on, whatever the ring held before; a round-robin context (period 0) gets a second,
  empty refill in which consumed time is tracked.
\<close>

theorem refill_new_budget:
  assumes "0 < max_refills" "period = 0 \<longrightarrow> 2 \<le> max_refills"
  shows "refill_queue sc
    (\<lparr>rTime = ksCurTime s, rAmount = b\<rparr> #
       (if period = 0 then [\<lparr>rTime = ksCurTime s, rAmount = 0\<rparr>] else []))
    (refill_new sc max_refills b period s)"
proof -
  define s1 where "s1 = upd_sc sc (scRefillMax_update (\<lambda>_. max_refills))
    (upd_sc sc (scRefillTail_update (\<lambda>_. 0)) (upd_sc sc (scRefillHead_update (\<lambda>_. 0))
      (upd_sc sc (scPeriod_update (\<lambda>_. period)) s)))"
  have "refill_queue sc [refills s1 sc 0] s1"
    using assms(1) by (intro refill_queue_one) (simp_all add: s1_def)
  then have "refill_queue sc
      [rTime_update (\<lambda>_. ksCurTime s) (rAmount_update (\<lambda>_. b) (refills s1 sc 0))]
      (upd_refill_head sc (rTime_update (\<lambda>_. ksCurTime s)) (upd_refill_head sc (rAmount_update (\<lambda>_. b)) s1))"
    by (intro refill_queue_upd_head)
  moreover have "rTime_update (\<lambda>_. t) (rAmount_update (\<lambda>_. b) r) = \<lparr>rTime = t, rAmount = b\<rparr>" for t r
    by (cases r) simp
  ultimately show ?thesis
    using assms(2) maybe_add_empty_tail_queue [of sc "\<lparr>rTime = ksCurTime s, rAmount = b\<rparr>"
        "upd_refill_head sc (rTime_update (\<lambda>_. ksCurTime s)) (upd_refill_head sc (rAmount_update (\<lambda>_. b)) s1)"]
    by (cases "period = 0")
      (simp_all add: refill_new_def Let_def s1_def isRoundRobin_def upd_refill_head_def word_le_nat_alt)
qed

text \<open>
  \<open>refill_update\<close> truncates an active ring to its head refill and leaves a ring whose amounts sum to
  the new budget: a head that exceeds the new budget is trimmed, otherwise the missing amount
  is scheduled one new period after the head.
\<close>

theorem refill_update_budget:
  assumes q: "refill_queue sc (r # rs) s" and two: "2 \<le> max_refills"
  shows "refill_queue sc (update_spec (ksCurTime s) period b r) (refill_update sc period b max_refills s)
    \<and> budget (update_spec (ksCurTime s) period b r) = unat b"
proof
  define s1 where "s1 = upd_sc sc (scPeriod_update (\<lambda>_. period)) (upd_sc sc (scRefillMax_update (\<lambda>_. max_refills))
    (upd_sc sc (scRefillTail_update (\<lambda>_. 0)) (upd_sc sc (scRefillHead_update (\<lambda>_. 0))
      (upd_refill sc 0 (\<lambda>_. r) s))))"
  define s2 where "s2 = (if rTime r \<le> ksCurTime s then upd_refill_head sc (rTime_update (\<lambda>_. ksCurTime s)) s1 else s1)"
  define t where "t = (if rTime r \<le> ksCurTime s then ksCurTime s else rTime r)"
  have "0 < max_refills" using two by (simp add: word_le_nat_alt word_less_nat_alt)
  then have q1: "refill_queue sc [r] s1"
    using refill_queue_one [of s1 sc] by (simp add: s1_def)
  have hd1: "refill_head sc s1 = r" using refill_queue_head [OF q1] by simp
  have q2: "refill_queue sc [\<lparr>rTime = t, rAmount = rAmount r\<rparr>] s2"
    using q1 refill_queue_upd_head [OF q1, of "rTime_update (\<lambda>_. ksCurTime s)"]
    by (cases r) (simp add: s2_def t_def)
  have fr: "refill_frame sc s1 s2" by (simp add: s2_def)
  have max: "ring_max sc s2 = unat max_refills" "isRoundRobin sc s2 \<longleftrightarrow> period = 0"
    by (simp_all add: refill_frameD [OF fr]) (simp_all add: s1_def isRoundRobin_def)
  define body where "body s' = (if rAmount (refill_head sc s') \<ge> b
      then maybe_add_empty_tail sc (upd_refill_head sc (rAmount_update (\<lambda>_. b)) s')
      else refill_add_tail sc \<lparr>rTime = rTime (refill_head sc s') + period,
        rAmount = b - rAmount (refill_head sc s')\<rparr> s')" for s'
  have "refill_update sc period b max_refills s =
      body (if refill_ready sc s1 then upd_refill_head sc (rTime_update (\<lambda>_. ksCurTime s1)) s1 else s1)"
    using refill_queue_head [OF q] by (simp add: refill_update_def body_def s1_def Let_def)
  also have "(if refill_ready sc s1 then upd_refill_head sc (rTime_update (\<lambda>_. ksCurTime s1)) s1 else s1) = s2"
    by (simp add: s2_def refill_ready_def hd1) (simp add: s1_def)
  finally have eq: "refill_update sc period b max_refills s =
     (if b \<le> rAmount r
      then maybe_add_empty_tail sc (upd_refill_head sc (rAmount_update (\<lambda>_. b)) s2)
      else refill_add_tail sc \<lparr>rTime = t + period, rAmount = b - rAmount r\<rparr> s2)"
    using refill_queue_head [OF q2] by (simp add: body_def)
  have spec: "update_spec (ksCurTime s) period b r = (if b \<le> rAmount r
      then \<lparr>rTime = t, rAmount = b\<rparr> # (if period = 0 then [\<lparr>rTime = t, rAmount = 0\<rparr>] else [])
      else [\<lparr>rTime = t, rAmount = rAmount r\<rparr>, \<lparr>rTime = t + period, rAmount = b - rAmount r\<rparr>])"
    by (simp add: update_spec_def t_def Let_def)
  have two': "2 \<le> unat max_refills" using two by (simp add: word_le_nat_alt)
  show "refill_queue sc (update_spec (ksCurTime s) period b r) (refill_update sc period b max_refills s)"
  proof (cases "b \<le> rAmount r")
    case True
    from refill_queue_upd_head [OF q2, of "rAmount_update (\<lambda>_. b)"]
    have "refill_queue sc [\<lparr>rTime = t, rAmount = b\<rparr>] (upd_refill_head sc (rAmount_update (\<lambda>_. b)) s2)" by simp
    from maybe_add_empty_tail_queue [OF this] two' max refill_frameD(6,9) [OF refill_frame_upd_head] True
    show ?thesis unfolding eq spec by (simp split: if_splits)
  next
    case False
    with refill_queue_add [OF q2] max two' show ?thesis
      by (simp add: eq spec)
  qed
  show "budget (update_spec (ksCurTime s) period b r) = unat b"
    by (auto simp: update_spec_def Let_def unat_sub_nowrap word_le_nat_alt)
qed

lemma partial_charge_good:
  assumes "good_refills (r # rs)" "0 < u" "u < rAmount r"
  shows "good_refills (r\<lparr>rTime := t, rAmount := rAmount r - u\<rparr> # rs)"
    and "budget (r\<lparr>rTime := t, rAmount := rAmount r - u\<rparr> # rs) + unat u = budget (r # rs)"
  using assms by (auto simp: good_refills_def unat_sub_nowrap word_less_nat_alt word_le_nat_alt)

lemma refill_budget_check_total:
  assumes q: "refill_queue (ksCurSC s) rs s" and g: "good_refills rs"
    and min: "unat (MIN_BUDGET s) \<le> budget rs"
  shows "\<exists>s' rs'. refill_budget_check usage s = Some s' \<and> refill_queue (ksCurSC s) rs' s'
    \<and> good_refills rs' \<and> budget rs' = budget rs \<and> MIN_BUDGET s \<le> rAmount (hd rs')
    \<and> refill_frame (ksCurSC s) s s'"
proof -
  let ?sc = "ksCurSC s"
  from handle_overrun_total [OF q g, of usage] obtain u s1 rs1 where
    h: "handle_overrun ?sc usage s = Some (u, s1)" and q1: "refill_queue ?sc rs1 s1"
    and g1: "good_refills rs1" "budget rs1 = budget rs" and f1: "refill_frame ?sc s s1"
    and no: "\<not> head_refill_overrun ?sc u s1" by blast
  obtain r rs2 where rs1: "rs1 = r # rs2" using g1 by (cases rs1) (auto simp: good_refills_def)
  have hd: "refill_head ?sc s1 = r" using refill_queue_head [OF q1] rs1 by simp
  define s2 where "s2 = (if u > 0 \<and> rTime r < MAX_RELEASE_TIME s1
    then schedule_used ?sc \<lparr>rTime = rTime r + scPeriod (scs s1 ?sc), rAmount = u\<rparr>
      (upd_refill_head ?sc (rTime_update (\<lambda>_. rTime r + u))
        (upd_refill_head ?sc (rAmount_update (\<lambda>_. rAmount r - u)) s1)) else s1)"
  have eq: "refill_budget_check usage s = merge_insufficient_loop ?sc s2"
    using h hd by (simp add: refill_budget_check_def Let_def s2_def)
  have "\<exists>rs3. refill_queue ?sc rs3 s2 \<and> good_refills rs3 \<and> budget rs3 = budget rs \<and> refill_frame ?sc s s2"
  proof (cases "u > 0 \<and> rTime r < MAX_RELEASE_TIME s1")
    case False
    with q1 g1 f1 show ?thesis by (auto simp: s2_def)
  next
    case True
    with no hd have lt: "u < rAmount r" by (auto simp: head_refill_overrun_def Let_def)
    define s3 where "s3 = upd_refill_head ?sc (rTime_update (\<lambda>_. rTime r + u))
        (upd_refill_head ?sc (rAmount_update (\<lambda>_. rAmount r - u)) s1)"
    have q3: "refill_queue ?sc (r\<lparr>rTime := rTime r + u, rAmount := rAmount r - u\<rparr> # rs2) s3"
      using refill_queue_upd_head [OF refill_queue_upd_head [OF q1 [unfolded rs1]],
          of "rTime_update (\<lambda>_. rTime r + u)" "rAmount_update (\<lambda>_. rAmount r - u)"]
      by (cases r) (simp add: s3_def)
    have f3: "refill_frame ?sc s1 s3"
      unfolding s3_def by (rule refill_frame_trans [OF refill_frame_upd_head refill_frame_upd_head])
    note pc = partial_charge_good [OF g1(1) [unfolded rs1] _ lt, of "rTime r + u"]
    have b64: "budget rs1 < 2 ^ 64" using g1 by (simp add: good_refills_def)
    let ?used = "\<lparr>rTime = rTime r + scPeriod (scs s1 ?sc), rAmount = u\<rparr>"
    note us = used_spec_good [OF pc(1), of ?used]
    show ?thesis
      using schedule_used_refines [OF q3, of ?used] us pc True b64 g1(2) rs1
        refill_frame_trans [OF f1 refill_frame_trans [OF f3]]
      by (auto simp: s2_def s3_def [symmetric] word_less_nat_alt intro!: exI)
  qed
  then obtain rs3 where q3: "refill_queue ?sc rs3 s2" "good_refills rs3" "budget rs3 = budget rs"
    "refill_frame ?sc s s2" by blast
  with merge_insufficient_total [OF q3(1,2)] min refill_frameD(7) [OF q3(4)] refill_frame_trans [OF q3(4)]
  show ?thesis by (fastforce simp: eq refill_frameD)
qed


text \<open>
  \<open>refill_unblock_check\<close> terminates and conserves the budget; a ready head refill is moved to the
  current time, all refills that overlap it are merged into it and the timer is marked for
  reprogramming; a context whose head is not ready is left untouched.
\<close>

theorem refill_unblock_check_conserves:
  assumes q: "refill_queue sc rs s" and g: "good_refills rs" and nrr: "\<not> isRoundRobin sc s"
  shows "\<exists>s' rs'. refill_unblock_check sc s = Some s' \<and> refill_queue sc rs' s' \<and> good_refills rs'
    \<and> budget rs' = budget rs
    \<and> (if refill_ready sc s
        then rTime (hd rs') = ksCurTime s \<and> \<not> refill_head_overlapping sc s' \<and> ksReprogram s'
        else s' = s)"
proof (cases "refill_ready sc s")
  case False
  with assms show ?thesis by (auto simp: refill_unblock_check_def intro!: exI [of _ rs])
next
  case True
  obtain r rs1 where rs: "rs = r # rs1" using g by (cases rs) (auto simp: good_refills_def)
  define s1 where "s1 = (upd_refill_head sc (rTime_update (\<lambda>_. ksCurTime s)) s)\<lparr>ksReprogram := True\<rparr>"
  have "refill_queue sc (r\<lparr>rTime := ksCurTime s\<rparr> # rs1) s1"
    using refill_queue_upd_head [OF q [unfolded rs], of "rTime_update (\<lambda>_. ksCurTime s)"]
    by (simp add: s1_def refill_queue_def rslot_def)
  moreover have "good_refills (r\<lparr>rTime := ksCurTime s\<rparr> # rs1)" "budget (r\<lparr>rTime := ksCurTime s\<rparr> # rs1) = budget rs"
    using g by (simp_all add: rs good_refills_def)
  ultimately obtain s' rs' where "merge_overlapping_loop sc s1 = Some s'" "refill_queue sc rs' s'"
    "good_refills rs'" "budget rs' = budget rs" "rTime (hd rs') = ksCurTime s"
    "\<not> refill_head_overlapping sc s'" "refill_frame sc s1 s'"
    using merge_overlapping_total [of sc "r\<lparr>rTime := ksCurTime s\<rparr> # rs1" s1] by fastforce
  moreover from this(7) have "ksReprogram s'" by (auto simp: refill_frame_def s1_def)
  ultimately show ?thesis
    using True nrr by (auto simp: refill_unblock_check_def Let_def s1_def)
qed

text \<open>The debugging sum walks the ring and adds up exactly the refills of the list.\<close>

lemma refill_sum_loop_total:
  assumes q: "refill_queue sc rs s" and k: "k < length rs"
  shows "refill_sum_loop sc (rslot sc s k) acc s = Some (acc + sum_list (map rAmount (drop (Suc k) rs)))"
  using k
proof (induction "length rs - k" arbitrary: k acc rule: less_induct)
  case less
  note D = refill_queueD [OF q]
  have at_end: "rslot sc s k = scRefillTail (scs s sc) \<longleftrightarrow> k = length rs - 1"
    unfolding D(4) using less.prems D(2,3,7) by (intro rslot_inj) simp_all
  show ?case
  proof (cases "k = length rs - 1")
    case True
    with at_end less.prems show ?thesis by (subst refill_sum_loop.simps) simp
  next
    case False
    then have k': "Suc k < length rs" using less.prems by simp
    then have "drop (Suc k) rs = rs ! Suc k # drop (Suc (Suc k)) rs" by (simp add: Cons_nth_drop_Suc)
    moreover have "refill_next sc (rslot sc s k) s = rslot sc s (Suc k)"
      by (rule refill_next_rslot [OF D(3)])
    ultimately show ?thesis
      using less.hyps [of "Suc k"] k' at_end False D(5) [OF k']
      by (subst refill_sum_loop.simps) (simp add: refill_index_def add.assoc)
  qed
qed

text \<open>
  The loop of \<open>refill_sum\<close> walks the ring from head to tail, wrap-around included, terminates and
  returns the budget of the abstract list of refills.
\<close>

theorem refill_sum_is_budget:
  assumes q: "refill_queue sc rs s"
  shows "refill_sum sc s = Some (of_nat (budget rs))"
proof -
  note D = refill_queueD [OF q]
  have *: "of_nat (budget xs) = (sum_list (map rAmount xs) :: word64)" for xs
    by (induction xs) simp_all
  have "refill_sum sc s = Some (rAmount (hd rs) + sum_list (map rAmount (drop 1 rs)))"
    using refill_sum_loop_total [OF q, of 0 "rAmount (hd rs)"] D(1,3) refill_queue_head [OF q]
    by (simp add: refill_sum_def rslot_0)
  then show ?thesis using D(1) by (cases rs) (simp_all add: *)
qed

section \<open>Examples\<close>

definition example_sc :: ptr where
  "example_sc = 0x8000"

definition example_budget :: kstate where
  "example_budget = refill_new example_sc 4 100 50 (kstate0\<lparr>ksCurSC := example_sc, ksCurTime := 7\<rparr>)"

lemma example_budget_queue: "refill_queue example_sc [\<lparr>rTime = 7, rAmount = 100\<rparr>] example_budget"
  by (simp add: example_budget_def refill_new_def Let_def upd_defs kstate0_def sc0_def
      upd_refill_head_def maybe_add_empty_tail_def isRoundRobin_def refill_queue_def rslot_def)

lemma example_budget_facts:
  "ksCurSC example_budget = example_sc" "MIN_BUDGET example_budget = 20"
  "refill_ready example_sc example_budget" "\<not> isRoundRobin example_sc example_budget"
  "ksCurTime example_budget = 7"
  by (simp_all add: example_budget_def refill_new_def Let_def upd_defs kstate0_def sc0_def
      upd_refill_head_def maybe_add_empty_tail_def isRoundRobin_def MIN_BUDGET_def
      refill_ready_def refill_head_def refill_index_def)

theorem refill_new_budget_witness:
  "refill_queue example_sc [\<lparr>rTime = 0, rAmount = 30\<rparr>, \<lparr>rTime = 0, rAmount = 0\<rparr>]
     (refill_new example_sc 2 30 0 kstate0)"
  using refill_new_budget [of 2 0 example_sc kstate0 30] by (simp add: kstate0_def)

theorem refill_update_budget_witness:
  "refill_queue example_sc [\<lparr>rTime = 7, rAmount = 100\<rparr>, \<lparr>rTime = 67, rAmount = 20\<rparr>]
     (refill_update example_sc 60 120 2 example_budget)"
  using refill_update_budget [OF example_budget_queue, of 2 60 120]
  by (simp add: update_spec_def example_budget_facts)


theorem refill_unblock_check_conserves_witness:
  "\<exists>s' rs'. refill_unblock_check example_sc example_budget = Some s'
    \<and> refill_queue example_sc rs' s' \<and> budget rs' = 100 \<and> rTime (hd rs') = 7"
  using refill_unblock_check_conserves [OF example_budget_queue]
  by (auto simp: example_budget_facts good_refills_def)

theorem refill_sum_is_budget_witness: "refill_sum example_sc example_budget = Some 100"
  using refill_sum_is_budget [OF example_budget_queue] by simp

end
