(* ===== verification/TcbQueue.thy ===== *)
theory TcbQueue
  imports Sporadic Util
begin

text \<open>
  The thread queues: \<^verbatim>\<open>src/kernel/include/object/tcb.h\<close> and the queue part of
  \<^verbatim>\<open>src/kernel/object/tcb.c\<close> (scheduler queues with their two-level priority bitmap, the release
  queue ordered by wake-up time, the priority-ordered endpoint queues), with the priority helpers
  of \<^verbatim>\<open>include/kernel/thread.h\<close>.

  The abstraction of a queue is the list of its threads (\<open>dlist\<close>); \<open>valid_sched s Q R\<close> says that the
  ready queues are the lists \<open>Q dm prio\<close>, the release queue is \<open>R\<close>, the flags in the thread states
  agree with membership, and the bitmaps with non-emptiness. Every queue operation is shown to be
  the list operation it implements and to keep the invariant.
\<close>

section \<open>Priorities and thread states\<close>

definition ready_queues_index :: "word64 \<Rightarrow> word64 \<Rightarrow> kstate \<Rightarrow> word64" where
  "ready_queues_index dm prio s =
     (if numDomains s > 1 then dm * CONFIG_NUM_PRIORITIES + prio else prio)"

definition prio_to_l1index :: "word64 \<Rightarrow> word64" where
  "prio_to_l1index prio = drop_bit (unat wordRadix) prio"

definition l1index_to_prio :: "word64 \<Rightarrow> word64" where
  "l1index_to_prio l1index = push_bit (unat wordRadix) l1index"

definition isRunnable :: "ptr \<Rightarrow> kstate \<Rightarrow> bool" where
  "isRunnable thread s = (case tsType (tcbState (tcbs s thread)) of
       ThreadState_Running \<Rightarrow> True
     | ThreadState_Restart \<Rightarrow> True
     | _ \<Rightarrow> False)"

definition invert_l1index :: "word64 \<Rightarrow> word64" where
  "invert_l1index l1index = L2_BITMAP_SIZE - 1 - l1index"

definition getHighestPrio :: "word64 \<Rightarrow> kstate \<Rightarrow> word64" where
  "getHighestPrio dm s =
     (let l1index = wordBits - 1 - clzl (ksReadyQueuesL1Bitmap s dm);
          l1index_inverted = invert_l1index l1index;
          l2index = wordBits - 1 - clzl (ksReadyQueuesL2Bitmap s dm l1index_inverted)
      in l1index_to_prio l1index OR l2index)"

definition isHighestPrio :: "word64 \<Rightarrow> word64 \<Rightarrow> kstate \<Rightarrow> bool" where
  "isHighestPrio dm prio s \<longleftrightarrow> ksReadyQueuesL1Bitmap s dm = 0 \<or> prio \<ge> getHighestPrio dm s"

definition isBlocked :: "ptr \<Rightarrow> kstate \<Rightarrow> bool" where
  "isBlocked thread s = (case tsType (tcbState (tcbs s thread)) of
       ThreadState_BlockedOnReceive \<Rightarrow> True
     | ThreadState_BlockedOnSend \<Rightarrow> True
     | ThreadState_BlockedOnNotification \<Rightarrow> True
     | ThreadState_BlockedOnReply \<Rightarrow> True
     | _ \<Rightarrow> False)"

definition isStopped :: "ptr \<Rightarrow> kstate \<Rightarrow> bool" where
  "isStopped thread s = (case tsType (tcbState (tcbs s thread)) of
       ThreadState_Inactive \<Rightarrow> True
     | ThreadState_BlockedOnReceive \<Rightarrow> True
     | ThreadState_BlockedOnSend \<Rightarrow> True
     | ThreadState_BlockedOnNotification \<Rightarrow> True
     | ThreadState_BlockedOnReply \<Rightarrow> True
     | _ \<Rightarrow> False)"

definition isSchedulable :: "ptr \<Rightarrow> kstate \<Rightarrow> bool" where
  "isSchedulable thread s \<longleftrightarrow>
     isRunnable thread s \<and>
     tcbSchedContext (tcbs s thread) \<noteq> NULL \<and>
     sc_active (tcbSchedContext (tcbs s thread)) s \<and>
     \<not> tcbInReleaseQueue (tcbState (tcbs s thread))"

section \<open>The priority bitmap\<close>

definition addToBitmap :: "word64 \<Rightarrow> word64 \<Rightarrow> kstate \<Rightarrow> kstate" where
  "addToBitmap dm prio s =
     (let l1index = prio_to_l1index prio;
          l1index_inverted = invert_l1index l1index;
          s = s\<lparr>ksReadyQueuesL1Bitmap := (ksReadyQueuesL1Bitmap s)
                 (dm := ksReadyQueuesL1Bitmap s dm OR BIT l1index)\<rparr>
      in s\<lparr>ksReadyQueuesL2Bitmap := (ksReadyQueuesL2Bitmap s)
             (dm := (ksReadyQueuesL2Bitmap s dm)
               (l1index_inverted := ksReadyQueuesL2Bitmap s dm l1index_inverted
                                    OR BIT (prio AND MASK wordRadix)))\<rparr>)"

definition removeFromBitmap :: "word64 \<Rightarrow> word64 \<Rightarrow> kstate \<Rightarrow> kstate" where
  "removeFromBitmap dm prio s =
     (let l1index = prio_to_l1index prio;
          l1index_inverted = invert_l1index l1index;
          s = s\<lparr>ksReadyQueuesL2Bitmap := (ksReadyQueuesL2Bitmap s)
                 (dm := (ksReadyQueuesL2Bitmap s dm)
                   (l1index_inverted := ksReadyQueuesL2Bitmap s dm l1index_inverted
                                        AND NOT (BIT (prio AND MASK wordRadix))))\<rparr>
      in if ksReadyQueuesL2Bitmap s dm l1index_inverted = 0
         then s\<lparr>ksReadyQueuesL1Bitmap := (ksReadyQueuesL1Bitmap s)
                  (dm := ksReadyQueuesL1Bitmap s dm AND NOT (BIT l1index))\<rparr>
         else s)"

section \<open>Scheduler queues\<close>

definition tcb_queue_empty :: "tcb_queue \<Rightarrow> bool" where
  "tcb_queue_empty queue \<longleftrightarrow> head queue = NULL"

definition tcb_queue_prepend :: "tcb_queue \<Rightarrow> ptr \<Rightarrow> kstate \<Rightarrow> tcb_queue \<times> kstate" where
  "tcb_queue_prepend queue tcb s =
     (let (queue, s) =
        (if tcb_queue_empty queue then (queue\<lparr>qend := tcb\<rparr>, s)
         else (queue, set_schedPrev (head queue) tcb (set_schedNext tcb (head queue) s)))
      in (queue\<lparr>head := tcb\<rparr>, s))"

definition tcb_queue_append :: "tcb_queue \<Rightarrow> ptr \<Rightarrow> kstate \<Rightarrow> tcb_queue \<times> kstate" where
  "tcb_queue_append queue tcb s =
     (let (queue, s) =
        (if tcb_queue_empty queue then (queue\<lparr>head := tcb\<rparr>, s)
         else (queue, set_schedNext (qend queue) tcb (set_schedPrev tcb (qend queue) s)))
      in (queue\<lparr>qend := tcb\<rparr>, s))"

definition tcb_queue_insert :: "ptr \<Rightarrow> ptr \<Rightarrow> kstate \<Rightarrow> kstate" where
  "tcb_queue_insert tcb after s =
     (let before = schedPrev s after;
          s = set_schedPrev tcb before s;
          s = set_schedNext tcb after s;
          s = set_schedPrev after tcb s
      in set_schedNext before tcb s)"

definition tcb_queue_remove :: "tcb_queue \<Rightarrow> ptr \<Rightarrow> kstate \<Rightarrow> tcb_queue \<times> kstate" where
  "tcb_queue_remove queue tcb s =
     (let before = schedPrev s tcb;
          after = schedNext s tcb
      in if head queue = tcb \<and> qend queue = tcb then (queue\<lparr>head := NULL, qend := NULL\<rparr>, s)
         else if head queue = tcb
         then let s = set_schedPrev after NULL s;
                  s = set_schedNext tcb NULL s
              in (queue\<lparr>head := after\<rparr>, s)
         else if qend queue = tcb
         then let s = set_schedNext before NULL s;
                  s = set_schedPrev tcb NULL s
              in (queue\<lparr>qend := before\<rparr>, s)
         else let s = set_schedNext before after s;
                  s = set_schedPrev after before s;
                  s = set_schedPrev tcb NULL s;
                  s = set_schedNext tcb NULL s
              in (queue, s))"

definition set_ready_queue :: "word64 \<Rightarrow> tcb_queue \<Rightarrow> kstate \<Rightarrow> kstate" where
  "set_ready_queue idx queue s = s\<lparr>ksReadyQueues := (ksReadyQueues s)(idx := queue)\<rparr>"

definition tcbSchedEnqueue :: "ptr \<Rightarrow> kstate \<Rightarrow> kstate" where
  "tcbSchedEnqueue tcb s =
     (if \<not> tcbQueued (tcbState (tcbs s tcb))
      then let dm = tcbDomain (tcbs s tcb);
               prio = tcbPriority (tcbs s tcb);
               idx = ready_queues_index dm prio s;
               queue = ksReadyQueues s idx;
               s = (if tcb_queue_empty queue then addToBitmap dm prio s else s);
               (queue, s) = tcb_queue_prepend queue tcb s;
               s = set_ready_queue idx queue s
           in upd_ts tcb (tcbQueued_update (\<lambda>_. True)) s
      else s)"

definition tcbSchedAppend :: "ptr \<Rightarrow> kstate \<Rightarrow> kstate" where
  "tcbSchedAppend tcb s =
     (if \<not> tcbQueued (tcbState (tcbs s tcb))
      then let dm = tcbDomain (tcbs s tcb);
               prio = tcbPriority (tcbs s tcb);
               idx = ready_queues_index dm prio s;
               queue = ksReadyQueues s idx;
               s = (if tcb_queue_empty queue then addToBitmap dm prio s else s);
               (queue, s) = tcb_queue_append queue tcb s;
               s = set_ready_queue idx queue s
           in upd_ts tcb (tcbQueued_update (\<lambda>_. True)) s
      else s)"

definition tcbSchedDequeue :: "ptr \<Rightarrow> kstate \<Rightarrow> kstate" where
  "tcbSchedDequeue tcb s =
     (if tcbQueued (tcbState (tcbs s tcb))
      then let dm = tcbDomain (tcbs s tcb);
               prio = tcbPriority (tcbs s tcb);
               idx = ready_queues_index dm prio s;
               queue = ksReadyQueues s idx;
               (new_queue, s) = tcb_queue_remove queue tcb s;
               s = set_ready_queue idx new_queue s;
               s = upd_ts tcb (tcbQueued_update (\<lambda>_. False)) s
           in if tcb_queue_empty new_queue then removeFromBitmap dm prio s else s
      else s)"

section \<open>Endpoint queues\<close>

partial_function (option) tcbEPAppend_find ::
  "ptr \<Rightarrow> ptr \<Rightarrow> ptr \<Rightarrow> kstate \<Rightarrow> (ptr \<times> ptr) option" where
  [code]: "tcbEPAppend_find tcb before after s =
     (if before \<noteq> NULL \<and> tcbPriority (tcbs s tcb) > tcbPriority (tcbs s before)
      then tcbEPAppend_find tcb (epPrev s before) before s
      else Some (before, after))"

definition tcbEPAppend :: "ptr \<Rightarrow> tcb_queue \<Rightarrow> kstate \<Rightarrow> (tcb_queue \<times> kstate) option" where
  "tcbEPAppend tcb queue s = do {
     (before, after) \<leftarrow> tcbEPAppend_find tcb (qend queue) NULL s;
     let (queue, s) = (if before = NULL then (queue\<lparr>head := tcb\<rparr>, s)
                       else (queue, set_epNext before tcb s));
     let (queue, s) = (if after = NULL then (queue\<lparr>qend := tcb\<rparr>, s)
                       else (queue, set_epPrev after tcb s));
     let s = set_epNext tcb after s;
     let s = set_epPrev tcb before s;
     Some (queue, s)
   }"

definition tcbEPDequeue :: "ptr \<Rightarrow> tcb_queue \<Rightarrow> kstate \<Rightarrow> tcb_queue \<times> kstate" where
  "tcbEPDequeue tcb queue s =
     (let (queue, s) =
        (if epPrev s tcb \<noteq> NULL then (queue, set_epNext (epPrev s tcb) (epNext s tcb) s)
         else (queue\<lparr>head := epNext s tcb\<rparr>, s))
      in if epNext s tcb \<noteq> NULL then (queue, set_epPrev (epNext s tcb) (epPrev s tcb) s)
         else (queue\<lparr>qend := epPrev s tcb\<rparr>, s))"

section \<open>The release queue\<close>

definition tcbReleaseRemove :: "ptr \<Rightarrow> kstate \<Rightarrow> kstate" where
  "tcbReleaseRemove tcb s =
     (if tcbInReleaseQueue (tcbState (tcbs s tcb))
      then let queue = ksReleaseQueue s;
               s = (if head queue = tcb then s\<lparr>ksReprogram := True\<rparr> else s);
               (queue, s) = tcb_queue_remove queue tcb s;
               s = s\<lparr>ksReleaseQueue := queue\<rparr>
           in upd_ts tcb (tcbInReleaseQueue_update (\<lambda>_. False)) s
      else s)"

definition tcbReadyTime :: "ptr \<Rightarrow> kstate \<Rightarrow> ticks" where
  "tcbReadyTime tcb s = rTime (refill_head (tcbSchedContext (tcbs s tcb)) s)"

definition time_after :: "ptr \<Rightarrow> ticks \<Rightarrow> kstate \<Rightarrow> bool" where
  "time_after tcb new_time s \<longleftrightarrow> tcb \<noteq> NULL \<and> new_time \<ge> tcbReadyTime tcb s"

partial_function (option) find_time_after :: "ptr \<Rightarrow> ticks \<Rightarrow> kstate \<Rightarrow> ptr option" where
  [code]: "find_time_after after new_time s =
     (if time_after after new_time s then find_time_after (schedNext s after) new_time s
      else Some after)"

definition tcbReleaseEnqueue :: "ptr \<Rightarrow> kstate \<Rightarrow> kstate option" where
  "tcbReleaseEnqueue tcb s = do {
     let queue = ksReleaseQueue s;
     let new_time = tcbReadyTime tcb s;
     s \<leftarrow> (if tcb_queue_empty queue \<or> new_time < tcbReadyTime (head queue) s
           then let (q, s) = tcb_queue_prepend queue tcb s in Some (s\<lparr>ksReleaseQueue := q\<rparr>)
           else if tcbReadyTime (qend queue) s \<le> new_time
           then let (q, s) = tcb_queue_append queue tcb s in Some (s\<lparr>ksReleaseQueue := q\<rparr>)
           else do {
             after \<leftarrow> find_time_after (head queue) new_time s;
             Some (tcb_queue_insert tcb after s)
           });
     let s = upd_ts tcb (tcbInReleaseQueue_update (\<lambda>_. True)) s;
     Some (if head queue \<noteq> head (ksReleaseQueue s) then s\<lparr>ksReprogram := True\<rparr> else s)
   }"

section \<open>The bitmap and the highest ready priority\<close>

text \<open>
  The second-level word of a group of 64 priorities has a bit per non-empty queue, and the
  first-level word a bit per non-zero second-level word (which are stored in inverse order).
\<close>

definition bitmap_ok :: "(word64 \<Rightarrow> word64 \<Rightarrow> 'a list) \<Rightarrow> kstate \<Rightarrow> bool" where
  "bitmap_ok Q s \<longleftrightarrow> (\<forall>d. d < numDomains s \<longrightarrow>
     (\<forall>p < 256. bit (ksReadyQueuesL2Bitmap s d (invert_l1index (prio_to_l1index p))) (unat p mod 64)
        \<longleftrightarrow> Q d p \<noteq> []) \<and>
     (\<forall>i. bit (ksReadyQueuesL1Bitmap s d) i \<longleftrightarrow>
        i < 4 \<and> ksReadyQueuesL2Bitmap s d (invert_l1index (of_nat i)) \<noteq> 0))"

lemma unat_prio_index:
  assumes "p < 256"
  shows "unat (prio_to_l1index p) = unat p div 64" "unat (prio_to_l1index p) < 4"
    "unat (p AND MASK 6) = unat p mod 64" "prio_to_l1index p = of_nat (unat p div 64)"
proof -
  show *: "unat (prio_to_l1index p) = unat p div 64"
    by (simp add: prio_to_l1index_def unat_drop_bit_div)
  have "unat p < 256" using assms by (simp add: word_less_nat_alt)
  then show "unat (prio_to_l1index p) < 4" unfolding * by (simp add: less_mult_imp_div_less)
  have m: "MASK 6 = mask 6" by (simp add: MASK_def BIT_def mask_eq_exp_minus_1)
  show "unat (p AND MASK 6) = unat p mod 64"
    unfolding m by (simp add: take_bit_eq_mod unat_mod flip: take_bit_eq_mask)
  show "prio_to_l1index p = of_nat (unat p div 64)" by (simp flip: *)
qed

lemma invert_inj: "i < 4 \<Longrightarrow> j < 4 \<Longrightarrow> invert_l1index (of_nat i) = invert_l1index (of_nat j) \<longleftrightarrow> i = j"
  by (auto simp: invert_l1index_def word_of_nat_eq_iff take_bit_nat_eq_self)

lemma bit_BIT: "bit (BIT n) i \<longleftrightarrow> i < 64 \<and> i = unat n"
  by (auto simp: BIT_def bit_exp_iff)

lemma prio_split_eq: "p < 256 \<Longrightarrow> p' < 256 \<Longrightarrow>
    unat p div 64 = unat p' div 64 \<Longrightarrow> unat p mod 64 = unat p' mod 64 \<Longrightarrow> p = (p' :: word64)"
  by (metis div_mult_mod_eq word_unat_eq_iff)

lemma addToBitmap_frame [simp]:
  "tcbs (addToBitmap d p s) = tcbs s" "ksReadyQueues (addToBitmap d p s) = ksReadyQueues s"
  "ksReleaseQueue (addToBitmap d p s) = ksReleaseQueue s" "plat (addToBitmap d p s) = plat s"
  "scs (addToBitmap d p s) = scs s" "refills (addToBitmap d p s) = refills s"
  by (simp_all add: addToBitmap_def Let_def)

lemma removeFromBitmap_frame [simp]:
  "tcbs (removeFromBitmap d p s) = tcbs s" "ksReadyQueues (removeFromBitmap d p s) = ksReadyQueues s"
  "ksReleaseQueue (removeFromBitmap d p s) = ksReleaseQueue s" "plat (removeFromBitmap d p s) = plat s"
  "scs (removeFromBitmap d p s) = scs s" "refills (removeFromBitmap d p s) = refills s"
  by (simp_all add: removeFromBitmap_def Let_def)

lemma addToBitmap_ok:
  assumes "bitmap_ok Q s" "p < 256" "xs \<noteq> []"
  shows "bitmap_ok (Q(d := (Q d)(p := xs))) (addToBitmap d p s)"
proof -
  let ?i = "unat p div 64" and ?j = "unat p mod 64"
  let ?L1 = "ksReadyQueuesL1Bitmap s" and ?L2 = "ksReadyQueuesL2Bitmap s"
  have i: "?i < 4" using unat_prio_index [OF assms(2)] by simp
  have l1: "ksReadyQueuesL1Bitmap (addToBitmap d p s) = ?L1(d := ?L1 d OR BIT (of_nat ?i))"
    and l2: "ksReadyQueuesL2Bitmap (addToBitmap d p s) = ?L2(d := (?L2 d)
        (invert_l1index (of_nat ?i) := ?L2 d (invert_l1index (of_nat ?i)) OR BIT (p AND MASK 6)))"
    by (simp_all add: addToBitmap_def Let_def unat_prio_index(4) [OF assms(2)])
  have bi: "bit (BIT (of_nat ?i)) k \<longleftrightarrow> k = ?i" for k
    using i by (auto simp: bit_BIT unat_of_nat)
  have bj: "bit (BIT (p AND MASK 6)) k \<longleftrightarrow> k = ?j" for k
    by (auto simp: bit_BIT unat_prio_index(3) [OF assms(2)])
  have nz: "?L2 d (invert_l1index (of_nat ?i)) OR BIT (p AND MASK 6) \<noteq> 0"
    using bj [of ?j] by (metis bit_0_eq bit_or_iff bot_apply bot_bool_def)
  show ?thesis
    unfolding bitmap_ok_def l1 l2
  proof (intro allI impI conjI)
    fix e p' :: word64
    assume e: "e < numDomains (addToBitmap d p s)" and p': "p' < 256"
    have i': "unat p' div 64 < 4" using unat_prio_index [OF p'] by simp
    from assms(1) e p'
    have "bit (?L2 e (invert_l1index (prio_to_l1index p'))) (unat p' mod 64) \<longleftrightarrow> Q e p' \<noteq> []"
      by (simp add: bitmap_ok_def)
    note old = this [unfolded unat_prio_index(4) [OF p']]
    show "bit ((?L2(d := (?L2 d)(invert_l1index (of_nat ?i) :=
        ?L2 d (invert_l1index (of_nat ?i)) OR BIT (p AND MASK 6)))) e
        (invert_l1index (prio_to_l1index p'))) (unat p' mod 64) \<longleftrightarrow> (Q(d := (Q d)(p := xs))) e p' \<noteq> []"
      using old invert_inj [OF i' i] prio_split_eq [OF p' assms(2)] assms(3)
      unfolding unat_prio_index(4) [OF p']
      by (auto simp: bit_or_iff bj)
  next
    fix e i'
    assume e: "e < numDomains (addToBitmap d p s)"
    from assms(1) e have old: "bit (?L1 e) i' \<longleftrightarrow> i' < 4 \<and> ?L2 e (invert_l1index (of_nat i')) \<noteq> 0"
      by (simp add: bitmap_ok_def)
    show "bit ((?L1(d := ?L1 d OR BIT (of_nat ?i))) e) i' \<longleftrightarrow> i' < 4 \<and>
      (?L2(d := (?L2 d)(invert_l1index (of_nat ?i) :=
        ?L2 d (invert_l1index (of_nat ?i)) OR BIT (p AND MASK 6)))) e (invert_l1index (of_nat i')) \<noteq> 0"
      using old invert_inj [OF _ i, of i'] nz i
      by (cases "i' = ?i"; cases "e = d") (auto simp: bit_or_iff bi)
  qed
qed

lemma removeFromBitmap_ok:
  assumes "bitmap_ok Q s" "p < 256"
  shows "bitmap_ok (Q(d := (Q d)(p := []))) (removeFromBitmap d p s)"
proof -
  let ?i = "unat p div 64" and ?j = "unat p mod 64"
  let ?L1 = "ksReadyQueuesL1Bitmap s" and ?L2 = "ksReadyQueuesL2Bitmap s"
  let ?w = "?L2 d (invert_l1index (of_nat ?i)) AND NOT (BIT (p AND MASK 6))"
  have i: "?i < 4" using unat_prio_index [OF assms(2)] by simp
  have l1: "ksReadyQueuesL1Bitmap (removeFromBitmap d p s) =
      (if ?w = 0 then ?L1(d := ?L1 d AND NOT (BIT (of_nat ?i))) else ?L1)"
    and l2: "ksReadyQueuesL2Bitmap (removeFromBitmap d p s) = ?L2(d := (?L2 d)
        (invert_l1index (of_nat ?i) := ?w))"
    by (simp_all add: removeFromBitmap_def Let_def unat_prio_index(4) [OF assms(2)])
  have bi: "bit (NOT (BIT (of_nat ?i))) k \<longleftrightarrow> k < 64 \<and> k \<noteq> ?i" for k
    using i by (auto simp: bit_not_iff bit_BIT unat_of_nat)
  have bj: "bit (NOT (BIT (p AND MASK 6))) k \<longleftrightarrow> k < 64 \<and> k \<noteq> ?j" for k
    by (auto simp: bit_not_iff bit_BIT unat_prio_index(3) [OF assms(2)])
  show ?thesis
    unfolding bitmap_ok_def l1 l2
  proof (intro allI impI conjI)
    fix e p' :: word64
    assume e: "e < numDomains (removeFromBitmap d p s)" and p': "p' < 256"
    have i': "unat p' div 64 < 4" using unat_prio_index [OF p'] by simp
    from assms(1) e p'
    have "bit (?L2 e (invert_l1index (prio_to_l1index p'))) (unat p' mod 64) \<longleftrightarrow> Q e p' \<noteq> []"
      by (simp add: bitmap_ok_def)
    note old = this [unfolded unat_prio_index(4) [OF p']]
    show "bit ((?L2(d := (?L2 d)(invert_l1index (of_nat ?i) := ?w))) e
        (invert_l1index (prio_to_l1index p'))) (unat p' mod 64) \<longleftrightarrow> (Q(d := (Q d)(p := []))) e p' \<noteq> []"
      using old invert_inj [OF i' i] prio_split_eq [OF p' assms(2)]
      unfolding unat_prio_index(4) [OF p']
      by (auto simp: bit_and_iff bj)
  next
    fix e i'
    assume e: "e < numDomains (removeFromBitmap d p s)"
    from assms(1) e have old: "bit (?L1 e) i' \<longleftrightarrow> i' < 4 \<and> ?L2 e (invert_l1index (of_nat i')) \<noteq> 0"
      by (simp add: bitmap_ok_def)
    have nz: "?w \<noteq> 0 \<Longrightarrow> ?L2 d (invert_l1index (of_nat ?i)) \<noteq> 0" by auto
    show "bit ((if ?w = 0 then ?L1(d := ?L1 d AND NOT (BIT (of_nat ?i))) else ?L1) e) i' \<longleftrightarrow> i' < 4 \<and>
      (?L2(d := (?L2 d)(invert_l1index (of_nat ?i) := ?w))) e (invert_l1index (of_nat i')) \<noteq> 0"
      using old invert_inj [OF _ i, of i'] nz i
      by (cases "i' = ?i"; cases "e = d"; cases "?w = 0") (auto simp: bit_and_iff bi)
  qed
qed

lemma bit_unat_div: "bit (x :: word64) k \<longleftrightarrow> odd (unat x div 2 ^ k)"
  using bit_unsigned_iff [where 'a = nat, of x k] unfolding bit_iff_odd [of "unat x" k] by simp

lemma highest_bit:
  assumes "(x :: word64) \<noteq> 0"
  obtains k where "k < 64" "wordBits - 1 - clzl x = of_nat k" "bit x k" "\<And>j. bit x j \<Longrightarrow> j \<le> k"
proof -
  obtain k where k: "k < 64" "clz64 x = of_nat (63 - k)" "unat x div 2 ^ k = 1"
    using clz64_of_pos [OF assms] by blast
  have "clzl x = of_nat (63 - k)"
    unfolding clzl_def k(2) by (simp add: word_unat_eq_iff unsigned_ucast_eq unat_of_nat take_bit_nat_eq_self del: of_nat_diff)
  then have c: "wordBits - 1 - clzl x = of_nat k" using k(1) by (simp add: of_nat_diff)
  have "bit x k" by (simp add: bit_unat_div k(3))
  moreover have "j \<le> k" if "bit x j" for j
  proof (rule ccontr)
    assume "\<not> j \<le> k"
    then have "(2::nat) ^ (k + 1) \<le> 2 ^ j" by (intro power_increasing) auto
    then have "unat x < 2 ^ j" using log_bound [OF k(3)] by linarith
    then show False using that by (simp add: bit_unat_div)
  qed
  ultimately show thesis using that k(1) c by blast
qed

lemma prio_of_indices:
  assumes "k < 4" "j < 64"
  shows "unat (l1index_to_prio (of_nat k) OR of_nat j) = 64 * k + j"
proof -
  have "l1index_to_prio (of_nat k) OR of_nat j = l1index_to_prio (of_nat k) + (of_nat j :: word64)"
  proof (rule disjunctive_add [symmetric])
    fix n
    have "n < 6" if "bit j n"
    proof (rule ccontr)
      assume "\<not> n < 6"
      then have "(2::nat) ^ 6 \<le> 2 ^ n" by (intro power_increasing) auto
      then show False using that assms(2) by (simp add: bit_iff_odd)
    qed
    then show "\<not> bit (l1index_to_prio (of_nat k)) n \<or> \<not> bit (of_nat j :: word64) n"
      by (auto simp: l1index_to_prio_def bit_push_bit_iff bit_of_nat_iff)
  qed
  also have "\<dots> = of_nat (64 * k + j)" by (simp add: l1index_to_prio_def push_bit_eq_mult)
  finally show ?thesis using assms by (simp add: unat_of_nat del: of_nat_add of_nat_mult)
qed

lemma getHighestPrio_max:
  assumes ok: "bitmap_ok Q s" and d: "d < numDomains s" and nz: "ksReadyQueuesL1Bitmap s d \<noteq> 0"
  shows "getHighestPrio d s < 256" "Q d (getHighestPrio d s) \<noteq> []"
    "\<And>p. p < 256 \<Longrightarrow> Q d p \<noteq> [] \<Longrightarrow> p \<le> getHighestPrio d s"
proof -
  let ?L1 = "ksReadyQueuesL1Bitmap s d" and ?L2 = "ksReadyQueuesL2Bitmap s d"
  obtain k where k: "k < 64" "wordBits - 1 - clzl ?L1 = of_nat k" "bit ?L1 k" "\<And>j. bit ?L1 j \<Longrightarrow> j \<le> k"
    using highest_bit [OF nz] by blast
  then have k4: "k < 4" and l2: "?L2 (invert_l1index (of_nat k)) \<noteq> 0"
    using ok d unfolding bitmap_ok_def by blast+
  obtain j where j: "j < 64" "wordBits - 1 - clzl (?L2 (invert_l1index (of_nat k))) = of_nat j"
    "bit (?L2 (invert_l1index (of_nat k))) j" "\<And>i. bit (?L2 (invert_l1index (of_nat k))) i \<Longrightarrow> i \<le> j"
    using highest_bit [OF l2] by blast
  let ?p = "getHighestPrio d s"
  have p: "unat ?p = 64 * k + j"
    unfolding getHighestPrio_def Let_def k(2) j(2) by (rule prio_of_indices [OF k4 j(1)])
  then show p256: "?p < 256" using k4 j(1) by (simp add: word_less_nat_alt)
  have "prio_to_l1index ?p = of_nat k" "unat ?p mod 64 = j"
    using unat_prio_index(4) [OF p256] p j(1) by simp_all
  then show "Q d ?p \<noteq> []" using ok d p256 j(3) unfolding bitmap_ok_def by metis
  fix p' assume p': "p' < 256" "Q d p' \<noteq> []"
  let ?i = "unat p' div 64"
  have b: "bit (?L2 (invert_l1index (of_nat ?i))) (unat p' mod 64)" and i4: "?i < 4"
    using ok d p' unat_prio_index [OF p'(1)] unfolding bitmap_ok_def by metis+
  then have "?L2 (invert_l1index (of_nat ?i)) \<noteq> 0" by auto
  then have "bit ?L1 ?i" using ok d i4 unfolding bitmap_ok_def by blast
  then have "?i \<le> k" using k(4) by blast
  moreover have "unat p' mod 64 \<le> j" if "?i = k" using b j(4) that by blast
  ultimately have "unat p' \<le> 64 * k + j"
    using j(1) div_mult_mod_eq [of "unat p'" 64] by (cases "?i = k") auto
  then show "p' \<le> ?p" by (simp add: word_le_nat_alt p)
qed

lemma bitmap_empty:
  assumes ok: "bitmap_ok Q s" and d: "d < numDomains s"
  shows "ksReadyQueuesL1Bitmap s d = 0 \<longleftrightarrow> (\<forall>p < 256. Q d p = [])"
proof
  assume z: "ksReadyQueuesL1Bitmap s d = 0"
  show "\<forall>p < 256. Q d p = []"
  proof (intro allI impI, rule ccontr)
    fix p :: word64 assume p: "p < 256" "Q d p \<noteq> []"
    have "bit (ksReadyQueuesL2Bitmap s d (invert_l1index (of_nat (unat p div 64)))) (unat p mod 64)"
      using ok d p unat_prio_index [OF p(1)] unfolding bitmap_ok_def by metis
    then have "bit (ksReadyQueuesL1Bitmap s d) (unat p div 64)"
      using ok d unat_prio_index(1,2) [OF p(1)] unfolding bitmap_ok_def by auto
    then show False using z by simp
  qed
next
  assume "\<forall>p < 256. Q d p = []"
  then show "ksReadyQueuesL1Bitmap s d = 0"
    using getHighestPrio_max(1,2) [OF ok d] by blast
qed

section \<open>The queue operations are list operations\<close>

abbreviation sched_list :: "kstate \<Rightarrow> tcb_queue \<Rightarrow> ptr list \<Rightarrow> bool" where
  "sched_list s q xs \<equiv> dlist (schedNext s) (schedPrev s) (head q) (qend q) xs"

abbreviation ep_list :: "kstate \<Rightarrow> tcb_queue \<Rightarrow> ptr list \<Rightarrow> bool" where
  "ep_list s q xs \<equiv> dlist (epNext s) (epPrev s) (head q) (qend q) xs"

text \<open>Only the scheduler links of the threads in \<open>A\<close> differ between two states.\<close>

definition sched_frame :: "ptr set \<Rightarrow> kstate \<Rightarrow> kstate \<Rightarrow> bool" where
  "sched_frame A s s' \<longleftrightarrow> (\<exists>n v. s' = s\<lparr>tcbs := \<lambda>p. if p \<in> A
     then (tcbs s p)\<lparr>tcbSchedNext := n p, tcbSchedPrev := v p\<rparr> else tcbs s p\<rparr>)"

lemma sched_frameI:
  assumes "s' = s\<lparr>tcbs := F\<rparr>"
    and "\<And>p. p \<in> A \<Longrightarrow> F p = (tcbs s p)\<lparr>tcbSchedNext := n p, tcbSchedPrev := v p\<rparr>"
    and "\<And>p. p \<notin> A \<Longrightarrow> F p = tcbs s p"
  shows "sched_frame A s s'"
proof -
  have "F = (\<lambda>p. if p \<in> A then (tcbs s p)\<lparr>tcbSchedNext := n p, tcbSchedPrev := v p\<rparr> else tcbs s p)"
    using assms(2,3) by (intro ext) simp
  then show ?thesis unfolding sched_frame_def assms(1) by blast
qed

lemma sched_frame_set [simp]:
  assumes "p \<in> A"
  shows "sched_frame A s (set_schedNext p v s)" "sched_frame A s (set_schedPrev p v s)"
proof -
  show "sched_frame A s (set_schedNext p v s)"
    by (rule sched_frameI [where F = "(tcbs s)(p := tcbSchedNext_update (\<lambda>_. v) (tcbs s p))"
          and n = "(schedNext s)(p := v)" and v = "schedPrev s"])
      (use assms in \<open>auto simp: set_schedNext_def upd_tcb_def schedNext_def schedPrev_def\<close>)
  show "sched_frame A s (set_schedPrev p v s)"
    by (rule sched_frameI [where F = "(tcbs s)(p := tcbSchedPrev_update (\<lambda>_. v) (tcbs s p))"
          and n = "schedNext s" and v = "(schedPrev s)(p := v)"])
      (use assms in \<open>auto simp: set_schedPrev_def upd_tcb_def schedNext_def schedPrev_def\<close>)
qed

lemma sched_frame_refl [simp]: "sched_frame A s s"
  by (rule sched_frameI [where F = "tcbs s" and n = "schedNext s" and v = "schedPrev s"])
    (auto simp: schedNext_def schedPrev_def)

lemma kstate_tcbs_cong: "(\<And>p. f p = g p) \<Longrightarrow> s\<lparr>tcbs := f\<rparr> = s\<lparr>tcbs := g\<rparr>" for s :: kstate
  by (rule arg_cong [of f g "\<lambda>h. s\<lparr>tcbs := h\<rparr>"]) (rule ext)

lemma sched_frame_trans [trans]:
  "sched_frame A s s' \<Longrightarrow> sched_frame A s' s'' \<Longrightarrow> sched_frame A s s''"
  unfolding sched_frame_def
proof (elim exE)
  fix n v n' v'
  assume "s' = s\<lparr>tcbs := \<lambda>p. if p \<in> A then (tcbs s p)\<lparr>tcbSchedNext := n p, tcbSchedPrev := v p\<rparr> else tcbs s p\<rparr>"
    "s'' = s'\<lparr>tcbs := \<lambda>p. if p \<in> A then (tcbs s' p)\<lparr>tcbSchedNext := n' p, tcbSchedPrev := v' p\<rparr> else tcbs s' p\<rparr>"
  then show "\<exists>n v. s'' = s\<lparr>tcbs := \<lambda>p. if p \<in> A then (tcbs s p)\<lparr>tcbSchedNext := n p, tcbSchedPrev := v p\<rparr> else tcbs s p\<rparr>"
    by (intro exI [of _ n'] exI [of _ v']) (simp, rule kstate_tcbs_cong, auto)
qed

lemma sched_frame_mono: "sched_frame A s s' \<Longrightarrow> A \<subseteq> B \<Longrightarrow> sched_frame B s s'"
  unfolding sched_frame_def
proof (elim exE)
  fix n v
  assume sub: "A \<subseteq> B" and e: "s' = s\<lparr>tcbs := \<lambda>p. if p \<in> A then (tcbs s p)\<lparr>tcbSchedNext := n p, tcbSchedPrev := v p\<rparr> else tcbs s p\<rparr>"
  show "\<exists>n v. s' = s\<lparr>tcbs := \<lambda>p. if p \<in> B then (tcbs s p)\<lparr>tcbSchedNext := n p, tcbSchedPrev := v p\<rparr> else tcbs s p\<rparr>"
    unfolding e
  proof (rule exI [of _ "\<lambda>p. if p \<in> A then n p else schedNext s p"],
      rule exI [of _ "\<lambda>p. if p \<in> A then v p else schedPrev s p"], rule kstate_tcbs_cong)
    fix p
    show "(if p \<in> A then (tcbs s p)\<lparr>tcbSchedNext := n p, tcbSchedPrev := v p\<rparr> else tcbs s p) =
      (if p \<in> B then (tcbs s p)\<lparr>tcbSchedNext := if p \<in> A then n p else schedNext s p,
         tcbSchedPrev := if p \<in> A then v p else schedPrev s p\<rparr> else tcbs s p)"
      using sub by (cases "p \<in> A") (simp_all add: subsetD schedNext_def schedPrev_def)
  qed
qed

lemma sched_frameD:
  assumes "sched_frame A s s'"
  shows "s' = s\<lparr>tcbs := tcbs s'\<rparr>" "p \<notin> A \<Longrightarrow> tcbs s' p = tcbs s p"
    "tcbState (tcbs s' p) = tcbState (tcbs s p)"
    "tcbDomain (tcbs s' p) = tcbDomain (tcbs s p)" "tcbPriority (tcbs s' p) = tcbPriority (tcbs s p)"
    "tcbSchedContext (tcbs s' p) = tcbSchedContext (tcbs s p)"
    "p \<notin> A \<Longrightarrow> schedNext s' p = schedNext s p" "p \<notin> A \<Longrightarrow> schedPrev s' p = schedPrev s p"
    "scs s' = scs s" "refills s' = refills s" "plat s' = plat s"
    "ksReadyQueues s' = ksReadyQueues s" "ksReleaseQueue s' = ksReleaseQueue s"
    "ksReadyQueuesL1Bitmap s' = ksReadyQueuesL1Bitmap s"
    "ksReadyQueuesL2Bitmap s' = ksReadyQueuesL2Bitmap s"
  using assms unfolding sched_frame_def by (auto simp: schedNext_def schedPrev_def)

lemma tcb_queue_prepend_list:
  assumes "sched_list s q xs" "t \<notin> set xs" "t \<noteq> NULL" "schedNext s t = NULL" "schedPrev s t = NULL"
    and "tcb_queue_prepend q t s = (q', s')"
  shows "sched_list s' q' (t # xs)" "sched_frame (insert t (set xs)) s s'"
proof -
  show "sched_list s' q' (t # xs)"
  proof (cases "xs = []")
    case True
    then show ?thesis
      using assms sched.link_single [of t s]
      by (auto simp: tcb_queue_prepend_def tcb_queue_empty_def)
  next
    case False
    then have "head q \<noteq> NULL" using assms dlist_empty_iff by blast
    then show ?thesis
      using assms False sched.link_front [of s "head q" "qend q" xs t]
      by (auto simp: tcb_queue_prepend_def tcb_queue_empty_def)
  qed
  have "head q \<in> set xs" if "head q \<noteq> NULL"
    using that assms(1) dlist_head [OF assms(1)] by (cases xs) auto
  then show "sched_frame (insert t (set xs)) s s'"
    using assms(6)
    by (auto simp: tcb_queue_prepend_def tcb_queue_empty_def split: if_splits
        intro!: sched_frame_trans [OF sched_frame_set(1) sched_frame_set(2)])
qed

lemma tcb_queue_append_list:
  assumes "sched_list s q xs" "t \<notin> set xs" "t \<noteq> NULL" "schedNext s t = NULL" "schedPrev s t = NULL"
    and "tcb_queue_append q t s = (q', s')"
  shows "sched_list s' q' (xs @ [t])" "sched_frame (insert t (set xs)) s s'"
proof -
  show "sched_list s' q' (xs @ [t])"
  proof (cases "xs = []")
    case True
    then show ?thesis
      using assms sched.link_single [of t s]
      by (auto simp: tcb_queue_append_def tcb_queue_empty_def)
  next
    case False
    then have "head q \<noteq> NULL" using assms dlist_empty_iff by blast
    then show ?thesis
      using assms False sched.link_back [of s "head q" "qend q" xs t]
      by (auto simp: tcb_queue_append_def tcb_queue_empty_def)
  qed
  have "qend q \<in> set xs" if "head q \<noteq> NULL"
    using that assms(1) dlist_end [OF assms(1)] dlist_empty_iff [OF assms(1)] by auto
  then show "sched_frame (insert t (set xs)) s s'"
    using assms(6)
    by (auto simp: tcb_queue_append_def tcb_queue_empty_def split: if_splits
        intro!: sched_frame_trans [OF sched_frame_set(2) sched_frame_set(1)])
qed

lemma tcb_queue_insert_list:
  assumes "sched_list s q (xs @ b # a # ys)" "t \<notin> set (xs @ b # a # ys)" "t \<noteq> NULL"
  shows "sched_list (tcb_queue_insert t a s) q (xs @ b # t # a # ys)"
    "sched_frame (insert t (set (xs @ b # a # ys))) s (tcb_queue_insert t a s)"
proof -
  have b: "schedPrev s a = b" using dlist_mid(2) [of _ _ _ _ "xs @ [b]" a ys] assms(1) by simp
  show "sched_list (tcb_queue_insert t a s) q (xs @ b # t # a # ys)"
    using assms sched.link_middle [OF assms] by (simp add: tcb_queue_insert_def b Let_def)
  show "sched_frame (insert t (set (xs @ b # a # ys))) s (tcb_queue_insert t a s)"
    unfolding tcb_queue_insert_def Let_def b
    by (intro sched_frame_trans [OF _ sched_frame_set(1)] sched_frame_trans [OF _ sched_frame_set(2)]
        sched_frame_refl) auto
qed

lemma tcb_queue_remove_list:
  assumes l: "sched_list s q (xs @ t # ys)" and r: "tcb_queue_remove q t s = (q', s')"
  shows "sched_list s' q' (xs @ ys)" "schedNext s' t = NULL" "schedPrev s' t = NULL"
    "sched_frame (set (xs @ t # ys)) s s'"
proof -
  have nx: "schedNext s t = (case ys of [] \<Rightarrow> NULL | y # _ \<Rightarrow> y)"
    and pv: "schedPrev s t = (if xs = [] then NULL else last xs)"
    using dlist_mid [OF l] by auto
  have d: "distinct (xs @ t # ys)" using dlist_distinct [OF l] .
  have h: "head q = t \<longleftrightarrow> xs = []" using dlist_head [OF l] d by (cases xs) auto
  have e: "qend q = t \<longleftrightarrow> ys = []" using dlist_end [OF l] d by (cases ys rule: rev_cases) auto
  note fr = sched_frame_trans [OF _ sched_frame_set(1)] sched_frame_trans [OF _ sched_frame_set(2)]
  have "sched_list s' q' (xs @ ys) \<and> schedNext s' t = NULL \<and> schedPrev s' t = NULL \<and>
    sched_frame (set (xs @ t # ys)) s s'"
  proof (cases xs rule: rev_cases)
    case Nil
    show ?thesis
    proof (cases ys)
      case ysN: Nil
      then show ?thesis using r Nil nx pv h e by (auto simp: tcb_queue_remove_def)
    next
      case (Cons y zs)
      then have s': "s' = set_schedNext t NULL (set_schedPrev y NULL s)" "q' = q\<lparr>head := y\<rparr>"
        using r Nil nx h e by (auto simp: tcb_queue_remove_def)
      show ?thesis
        using sched.unlink_first [of s "head q" "qend q" t y zs s'] l Nil Cons s' pv d
        by (auto simp: sched.links intro!: fr)
    qed
  next
    case (snoc us b)
    show ?thesis
    proof (cases ys)
      case ysN: Nil
      then have s': "s' = set_schedPrev t NULL (set_schedNext b NULL s)" "q' = q\<lparr>qend := b\<rparr>"
        using r snoc pv h e by (auto simp: tcb_queue_remove_def)
      show ?thesis
        using sched.unlink_last [of s "head q" "qend q" us b t s'] l snoc ysN s' nx d
        by (auto simp: sched.links intro!: fr)
    next
      case (Cons a zs)
      let ?s = "set_schedPrev a b (set_schedNext b a s)"
      have s': "s' = set_schedNext t NULL (set_schedPrev t NULL ?s)" "q' = q"
        using r snoc Cons pv nx h e by (auto simp: tcb_queue_remove_def)
      have "dlist (schedNext ?s) (schedPrev ?s) (head q) (qend q) (us @ b # a # zs)"
        using sched.unlink_middle [of s "head q" "qend q" us b t a zs ?s] l snoc Cons by simp
      then have "sched_list s' q' (xs @ ys)"
        unfolding s' snoc Cons append_assoc append.simps sched.links
        by (rule dlist_frame [rotated 2]) (use d snoc Cons in \<open>auto simp: sched.links\<close>)
      moreover have "sched_frame (set (xs @ t # ys)) s s'"
        unfolding s' by (intro fr) (auto simp: snoc Cons)
      ultimately show ?thesis by (simp add: s' sched.links)
    qed
  qed
  then show "sched_list s' q' (xs @ ys)" "schedNext s' t = NULL" "schedPrev s' t = NULL"
    "sched_frame (set (xs @ t # ys)) s s'" by auto
qed

section \<open>The invariant of the scheduler queues\<close>

definition valid_sched :: "(word64 \<Rightarrow> word64 \<Rightarrow> ptr list) \<Rightarrow> ptr list \<Rightarrow> kstate \<Rightarrow> bool" where
  "valid_sched Q R s \<longleftrightarrow>
     numDomains s \<le> 256 \<and>
     (\<forall>t. tcbDomain (tcbs s t) < numDomains s \<and> tcbPriority (tcbs s t) < 256) \<and>
     (\<forall>d p. d < numDomains s \<longrightarrow> p < 256 \<longrightarrow>
        sched_list s (ksReadyQueues s (ready_queues_index d p s)) (Q d p)) \<and>
     sched_list s (ksReleaseQueue s) R \<and>
     (\<forall>d p t. t \<in> set (Q d p) \<longleftrightarrow> tcbQueued (tcbState (tcbs s t)) \<and>
        tcbDomain (tcbs s t) = d \<and> tcbPriority (tcbs s t) = p) \<and>
     (\<forall>t. t \<in> set R \<longleftrightarrow> tcbInReleaseQueue (tcbState (tcbs s t))) \<and>
     (\<forall>t. \<not> (tcbQueued (tcbState (tcbs s t)) \<and> tcbInReleaseQueue (tcbState (tcbs s t)))) \<and>
     (\<forall>t. \<not> tcbQueued (tcbState (tcbs s t)) \<longrightarrow> \<not> tcbInReleaseQueue (tcbState (tcbs s t)) \<longrightarrow>
        schedNext s t = NULL \<and> schedPrev s t = NULL) \<and>
     bitmap_ok Q s"

lemma valid_schedD:
  assumes "valid_sched Q R s"
  shows "numDomains s \<le> 256" "tcbDomain (tcbs s t) < numDomains s" "tcbPriority (tcbs s t) < 256"
    "d < numDomains s \<Longrightarrow> p < 256 \<Longrightarrow> sched_list s (ksReadyQueues s (ready_queues_index d p s)) (Q d p)"
    "sched_list s (ksReleaseQueue s) R"
    "t \<in> set (Q d p) \<longleftrightarrow> tcbQueued (tcbState (tcbs s t)) \<and>
        tcbDomain (tcbs s t) = d \<and> tcbPriority (tcbs s t) = p"
    "t \<in> set R \<longleftrightarrow> tcbInReleaseQueue (tcbState (tcbs s t))"
    "\<not> (tcbQueued (tcbState (tcbs s t)) \<and> tcbInReleaseQueue (tcbState (tcbs s t)))"
    "\<not> tcbQueued (tcbState (tcbs s t)) \<Longrightarrow> \<not> tcbInReleaseQueue (tcbState (tcbs s t)) \<Longrightarrow> schedNext s t = NULL"
    "\<not> tcbQueued (tcbState (tcbs s t)) \<Longrightarrow> \<not> tcbInReleaseQueue (tcbState (tcbs s t)) \<Longrightarrow> schedPrev s t = NULL"
    "bitmap_ok Q s"
  using assms unfolding valid_sched_def by blast+

lemma valid_schedI:
  assumes "numDomains s \<le> 256" "\<And>t. tcbDomain (tcbs s t) < numDomains s"
    "\<And>t. tcbPriority (tcbs s t) < 256"
    "\<And>d p. d < numDomains s \<Longrightarrow> p < 256 \<Longrightarrow> sched_list s (ksReadyQueues s (ready_queues_index d p s)) (Q d p)"
    "sched_list s (ksReleaseQueue s) R"
    "\<And>t d p. t \<in> set (Q d p) \<longleftrightarrow> tcbQueued (tcbState (tcbs s t)) \<and>
        tcbDomain (tcbs s t) = d \<and> tcbPriority (tcbs s t) = p"
    "\<And>t. t \<in> set R \<longleftrightarrow> tcbInReleaseQueue (tcbState (tcbs s t))"
    "\<And>t. \<not> (tcbQueued (tcbState (tcbs s t)) \<and> tcbInReleaseQueue (tcbState (tcbs s t)))"
    "\<And>t. \<not> tcbQueued (tcbState (tcbs s t)) \<Longrightarrow> \<not> tcbInReleaseQueue (tcbState (tcbs s t)) \<Longrightarrow>
      schedNext s t = NULL \<and> schedPrev s t = NULL"
    "bitmap_ok Q s"
  shows "valid_sched Q R s"
  unfolding valid_sched_def using assms by blast

lemma ready_queues_index_cong: "plat s' = plat s \<Longrightarrow> ready_queues_index d p s' = ready_queues_index d p s"
  by (simp add: ready_queues_index_def)

lemma pair_256_inj:
  fixes a b a' b' :: nat
  assumes "a * 256 + b = a' * 256 + b'" "b < 256" "b' < 256"
  shows "a = a'" "b = b'"
proof -
  have "a = (a * 256 + b) div 256" "a' = (a' * 256 + b') div 256" using assms by simp_all
  then show "a = a'" using assms(1) by metis
  then show "b = b'" using assms(1) by simp
qed

lemma unat_ready_queues_index:
  assumes "numDomains s \<le> 256" "numDomains s > 1" "d < numDomains s" "p < 256"
  shows "unat (ready_queues_index d p s) = unat d * 256 + unat p"
proof -
  have "unat d < 256" "unat p < 256" using assms by (auto simp: word_less_nat_alt word_le_nat_alt)
  then show ?thesis using assms(2) by (simp add: ready_queues_index_def unat_word_ariths)
qed

lemma ready_queues_index_inj:
  assumes "numDomains s \<le> 256" "d < numDomains s" "p < 256" "d' < numDomains s" "p' < 256"
    and "ready_queues_index d p s = ready_queues_index d' p' s"
  shows "d = d' \<and> p = p'"
proof (cases "numDomains s > 1")
  case True
  have "unat d * 256 + unat p = unat d' * 256 + unat p'"
    using unat_ready_queues_index [OF assms(1) True assms(2,3)]
      unat_ready_queues_index [OF assms(1) True assms(4,5)] assms(6) by simp
  moreover have "unat p < 256" "unat p' < 256" using assms(3,5) by (simp_all add: word_less_nat_alt)
  ultimately show ?thesis by (metis pair_256_inj word_unat_eq_iff)
next
  case False
  then have "unat d = 0" "unat d' = 0" using assms(2,4) by (auto simp: word_less_nat_alt)
  then have "d = 0" "d' = 0" by (simp_all only: unat_eq_zero)
  then show ?thesis using False assms(6) by (simp add: ready_queues_index_def)
qed

text \<open>
  A queue operation on one list leaves the other lists alone: only the links of that list's
  threads and of the thread being moved change.
\<close>

lemma sched_frame_list:
  assumes "sched_frame A s s'" "set xs \<inter> A = {}" "sched_list s q xs"
  shows "sched_list s' q xs"
  using assms(2,3) sched_frameD(7,8) [OF assms(1)] by (intro dlist_frame [OF _ _ assms(3)]) auto

lemma links_upd_ts [simp]:
  "schedNext (upd_ts t f s) = schedNext s" "schedPrev (upd_ts t f s) = schedPrev s"
  "epNext (upd_ts t f s) = epNext s" "epPrev (upd_ts t f s) = epPrev s"
  by (auto simp: fun_eq_iff schedNext_def schedPrev_def epNext_def epPrev_def upd_ts_def)

lemma links_tcbs:
  "tcbs s' = tcbs s \<Longrightarrow> schedNext s' = schedNext s" "tcbs s' = tcbs s \<Longrightarrow> schedPrev s' = schedPrev s"
  by (auto simp: fun_eq_iff schedNext_def schedPrev_def)

lemma ready_frame:
  assumes v: "valid_sched Q R s" and s1: "tcbs s1 = tcbs s"
    and f: "sched_frame (insert t (set (Q d p))) s1 s'"
    and t: "\<not> tcbInReleaseQueue (tcbState (tcbs s t))" "tcbDomain (tcbs s t) = d" "tcbPriority (tcbs s t) = p"
  shows "sched_list s' (ksReleaseQueue s) R"
    and "d' < numDomains s \<Longrightarrow> p' < 256 \<Longrightarrow> (d', p') \<noteq> (d, p) \<Longrightarrow>
      sched_list s' (ksReadyQueues s (ready_queues_index d' p' s)) (Q d' p')"
    and "\<not> tcbQueued (tcbState (tcbs s u)) \<Longrightarrow> \<not> tcbInReleaseQueue (tcbState (tcbs s u)) \<Longrightarrow> u \<noteq> t \<Longrightarrow>
      schedNext s' u = NULL \<and> schedPrev s' u = NULL"
proof -
  note V = valid_schedD [OF v]
  note L = links_tcbs [OF s1]
  show "sched_list s' (ksReleaseQueue s) R"
    by (rule sched_frame_list [OF f _ V(5) [folded L]]) (use V(6-8) t in auto)
  show "sched_list s' (ksReadyQueues s (ready_queues_index d' p' s)) (Q d' p')"
    if "d' < numDomains s" "p' < 256" "(d', p') \<noteq> (d, p)"
    by (rule sched_frame_list [OF f _ V(4) [folded L]]) (use V(6) t that in auto)
  show "schedNext s' u = NULL \<and> schedPrev s' u = NULL"
    if "\<not> tcbQueued (tcbState (tcbs s u))" "\<not> tcbInReleaseQueue (tcbState (tcbs s u))" "u \<noteq> t"
    using sched_frameD(7,8) [OF f, of u] V(6,9,10) [of u] that L by auto
qed

lemma bitmap_ok_cong:
  assumes "bitmap_ok Q s" "plat s' = plat s" "ksReadyQueuesL1Bitmap s' = ksReadyQueuesL1Bitmap s"
    "ksReadyQueuesL2Bitmap s' = ksReadyQueuesL2Bitmap s" "\<And>d p. (Q' d p = []) = (Q d p = [])"
  shows "bitmap_ok Q' s'"
  using assms unfolding bitmap_ok_def by simp

text \<open>
  The common end of the ready queue operations: one list has changed, and with it the flag of the
  thread that was linked or unlinked.
\<close>

lemma ready_change:
  assumes v: "valid_sched Q R s" and b: "bitmap_ok (Q(d := (Q d)(p := xs))) s'"
    and s1: "tcbs s1 = tcbs s"
    and t: "\<not> tcbInReleaseQueue (tcbState (tcbs s t))" "tcbDomain (tcbs s t) = d" "tcbPriority (tcbs s t) = p"
    and f: "sched_frame (insert t (set (Q d p))) s1 s2" and l: "sched_list s2 q xs"
    and xs: "set xs = (if flag then insert t (set (Q d p)) else set (Q d p) - {t})"
    and nt: "\<not> flag \<Longrightarrow> schedNext s2 t = NULL \<and> schedPrev s2 t = NULL"
    and s': "tcbs s' = tcbs (upd_ts t (tcbQueued_update (\<lambda>_. flag)) s2)"
    and pl: "plat s' = plat s" "ksReleaseQueue s' = ksReleaseQueue s"
      "ksReadyQueues s' = (ksReadyQueues s)(ready_queues_index d p s := q)"
  shows "valid_sched (Q(d := (Q d)(p := xs))) R s'"
proof -
  note V = valid_schedD [OF v]
  note F = sched_frameD [OF f]
  note G = ready_frame [OF v s1 f t]
  have ts: "tcbState (tcbs s' u) = (if u = t then tcbState (tcbs s t)\<lparr>tcbQueued := flag\<rparr> else tcbState (tcbs s u))"
    "tcbDomain (tcbs s' u) = tcbDomain (tcbs s u)" "tcbPriority (tcbs s' u) = tcbPriority (tcbs s u)" for u
    using F(3-5) s1 by (auto simp: s' upd_ts_def)
  note ix = ready_queues_index_cong [OF pl(1)]
  have ln: "schedNext s' = schedNext s2" "schedPrev s' = schedPrev s2"
    by (simp_all add: s' schedNext_def schedPrev_def upd_ts_def fun_eq_iff)
  have dp: "d < numDomains s" "p < 256" using V(2,3) [of t] t by auto
  have q: "sched_list s' (ksReadyQueues s' (ready_queues_index d' p' s')) ((Q(d := (Q d)(p := xs))) d' p')"
    if "d' < numDomains s'" "p' < 256" for d' p'
  proof (cases "(d', p') = (d, p)")
    case True
    then show ?thesis using l by (simp add: pl ln ix)
  next
    case False
    then have "ready_queues_index d' p' s \<noteq> ready_queues_index d p s"
      using ready_queues_index_inj [OF V(1) _ _ dp] that pl(1) by auto
    then show ?thesis using G(2) [OF _ _ False] that False pl ln by (auto simp: ix)
  qed
  have fl: "u \<in> set ((Q(d := (Q d)(p := xs))) d' p') \<longleftrightarrow> tcbQueued (tcbState (tcbs s' u)) \<and>
        tcbDomain (tcbs s' u) = d' \<and> tcbPriority (tcbs s' u) = p'" for u d' p'
  proof (cases "d' = d \<and> p' = p")
    case True
    then show ?thesis using V(6) [of u d p] xs t by (cases "u = t") (simp_all add: ts)
  next
    case False
    then have "(Q(d := (Q d)(p := xs))) d' p' = Q d' p'" by auto
    then show ?thesis using V(6) [of u d' p'] False t by (cases "u = t") (auto simp: ts)
  qed
  have nl: "schedNext s' u = NULL \<and> schedPrev s' u = NULL"
    if "\<not> tcbQueued (tcbState (tcbs s' u))" "\<not> tcbInReleaseQueue (tcbState (tcbs s' u))" for u
    using G(3) [of u] nt that by (cases "u = t") (simp_all add: ts ln)
  have rl: "sched_list s' (ksReleaseQueue s') R" using G(1) by (simp add: pl ln)
  show ?thesis
  proof (rule valid_schedI [OF _ _ _ q rl fl _ _ nl b])
    show "numDomains s' \<le> 256" using V(1) by (simp add: pl)
    show "tcbDomain (tcbs s' u) < numDomains s'" "tcbPriority (tcbs s' u) < 256" for u
      using V(2,3) by (simp_all add: pl ts)
    show "u \<in> set R \<longleftrightarrow> tcbInReleaseQueue (tcbState (tcbs s' u))"
      "\<not> (tcbQueued (tcbState (tcbs s' u)) \<and> tcbInReleaseQueue (tcbState (tcbs s' u)))" for u
      using V(7,8) [of u] t(1) by (auto simp: ts)
  qed
qed

lemma ready_insert:
  assumes v: "valid_sched Q R s" and b: "bitmap_ok (Q(d := (Q d)(p := xs))) s1"
    and s1: "tcbs s1 = tcbs s" "plat s1 = plat s" "ksReadyQueues s1 = ksReadyQueues s" "ksReleaseQueue s1 = ksReleaseQueue s"
    and t: "\<not> tcbInReleaseQueue (tcbState (tcbs s t))" "tcbDomain (tcbs s t) = d" "tcbPriority (tcbs s t) = p"
    and f: "sched_frame (insert t (set (Q d p))) s1 s2" and l: "sched_list s2 q xs"
    and xs: "set xs = insert t (set (Q d p))"
  shows "valid_sched (Q(d := (Q d)(p := xs))) R
    (upd_ts t (tcbQueued_update (\<lambda>_. True)) (set_ready_queue (ready_queues_index d p s) q s2))"
  by (rule ready_change [OF v bitmap_ok_cong [OF b] s1(1) t f l, where flag = True])
    (use sched_frameD(11-15) [OF f] s1 xs in \<open>simp_all add: upd_ts_def set_ready_queue_def\<close>)

lemma ready_add_bitmap:
  assumes v: "valid_sched Q R s" and dp: "d < numDomains s" "p < 256" and ne: "xs \<noteq> []"
    and s1: "s1 = (if tcb_queue_empty (ksReadyQueues s (ready_queues_index d p s)) then addToBitmap d p s else s)"
  shows "bitmap_ok (Q(d := (Q d)(p := xs))) s1"
proof (cases "Q d p = []")
  case True
  then show ?thesis
    using addToBitmap_ok [OF valid_schedD(11) [OF v] dp(2) ne] valid_schedD(4) [OF v dp] s1
    by (auto simp: tcb_queue_empty_def)
next
  case False
  then have "\<not> tcb_queue_empty (ksReadyQueues s (ready_queues_index d p s))"
    using dlist_empty_iff [OF valid_schedD(4) [OF v dp]] by (simp add: tcb_queue_empty_def)
  then show ?thesis
    using s1 False ne by (auto split: if_splits intro!: bitmap_ok_cong [OF valid_schedD(11) [OF v]])
qed

lemma tcbSchedEnqueue_valid:
  assumes v: "valid_sched Q R s" and t: "t \<noteq> NULL" "\<not> tcbInReleaseQueue (tcbState (tcbs s t))"
    and dp: "tcbDomain (tcbs s t) = d" "tcbPriority (tcbs s t) = p"
  shows "valid_sched (Q(d := (Q d)(p := if t \<in> set (Q d p) then Q d p else t # Q d p))) R (tcbSchedEnqueue t s)"
proof (cases "tcbQueued (tcbState (tcbs s t))")
  case True
  then have "t \<in> set (Q d p)" using valid_schedD(6) [OF v] dp by simp
  then show ?thesis using v True by (simp add: tcbSchedEnqueue_def)
next
  case False
  note V = valid_schedD [OF v]
  have ni: "t \<notin> set (Q d p)" using V(6) False by simp
  have dp': "d < numDomains s" "p < 256" using V(2,3) [of t] dp by auto
  let ?q = "ksReadyQueues s (ready_queues_index d p s)"
  define s1 where s1: "s1 = (if tcb_queue_empty ?q then addToBitmap d p s else s)"
  obtain q2 s2 where pre: "tcb_queue_prepend ?q t s1 = (q2, s2)" by fastforce
  have s1f: "tcbs s1 = tcbs s" "plat s1 = plat s" "ksReadyQueues s1 = ksReadyQueues s" "ksReleaseQueue s1 = ksReleaseQueue s"
    by (auto simp: s1)
  have l: "sched_list s1 ?q (Q d p)" using V(4) [OF dp'] by (simp add: links_tcbs [OF s1f(1)])
  have nl: "schedNext s1 t = NULL" "schedPrev s1 t = NULL"
    using V(9,10) [of t] False t by (simp_all add: links_tcbs [OF s1f(1)])
  note P = tcb_queue_prepend_list [OF l ni t(1) nl pre]
  have "valid_sched (Q(d := (Q d)(p := t # Q d p))) R (upd_ts t (tcbQueued_update (\<lambda>_. True)) (set_ready_queue (ready_queues_index d p s) q2 s2))"
    by (rule ready_insert [OF v ready_add_bitmap [OF v dp' _ s1] s1f t(2) dp P(2,1)]) auto
  then show ?thesis using False ni pre dp by (simp add: tcbSchedEnqueue_def Let_def s1)
qed

lemma tcbSchedAppend_valid:
  assumes v: "valid_sched Q R s" and t: "t \<noteq> NULL" "\<not> tcbInReleaseQueue (tcbState (tcbs s t))"
    and dp: "tcbDomain (tcbs s t) = d" "tcbPriority (tcbs s t) = p"
  shows "valid_sched (Q(d := (Q d)(p := if t \<in> set (Q d p) then Q d p else Q d p @ [t]))) R (tcbSchedAppend t s)"
proof (cases "tcbQueued (tcbState (tcbs s t))")
  case True
  then have "t \<in> set (Q d p)" using valid_schedD(6) [OF v] dp by simp
  then show ?thesis using v True by (simp add: tcbSchedAppend_def)
next
  case False
  note V = valid_schedD [OF v]
  have ni: "t \<notin> set (Q d p)" using V(6) False by simp
  have dp': "d < numDomains s" "p < 256" using V(2,3) [of t] dp by auto
  let ?q = "ksReadyQueues s (ready_queues_index d p s)"
  define s1 where s1: "s1 = (if tcb_queue_empty ?q then addToBitmap d p s else s)"
  obtain q2 s2 where pre: "tcb_queue_append ?q t s1 = (q2, s2)" by fastforce
  have s1f: "tcbs s1 = tcbs s" "plat s1 = plat s" "ksReadyQueues s1 = ksReadyQueues s" "ksReleaseQueue s1 = ksReleaseQueue s"
    by (auto simp: s1)
  have l: "sched_list s1 ?q (Q d p)" using V(4) [OF dp'] by (simp add: links_tcbs [OF s1f(1)])
  have nl: "schedNext s1 t = NULL" "schedPrev s1 t = NULL"
    using V(9,10) [of t] False t by (simp_all add: links_tcbs [OF s1f(1)])
  note P = tcb_queue_append_list [OF l ni t(1) nl pre]
  have "valid_sched (Q(d := (Q d)(p := Q d p @ [t]))) R (upd_ts t (tcbQueued_update (\<lambda>_. True)) (set_ready_queue (ready_queues_index d p s) q2 s2))"
    by (rule ready_insert [OF v ready_add_bitmap [OF v dp' _ s1] s1f t(2) dp P(2,1)]) auto
  then show ?thesis using False ni pre dp by (simp add: tcbSchedAppend_def Let_def s1)
qed

lemma tcbSchedDequeue_valid:
  assumes v: "valid_sched Q R s" and dp: "tcbDomain (tcbs s t) = d" "tcbPriority (tcbs s t) = p"
  shows "valid_sched (Q(d := (Q d)(p := remove1 t (Q d p)))) R (tcbSchedDequeue t s)"
proof (cases "tcbQueued (tcbState (tcbs s t))")
  case False
  then have "t \<notin> set (Q d p)" using valid_schedD(6) [OF v] dp by simp
  then show ?thesis using v False by (simp add: tcbSchedDequeue_def remove1_idem)
next
  case True
  note V = valid_schedD [OF v]
  have nr: "\<not> tcbInReleaseQueue (tcbState (tcbs s t))" using V(8) True by blast
  have dp': "d < numDomains s" "p < 256" using V(2,3) [of t] dp by auto
  let ?q = "ksReadyQueues s (ready_queues_index d p s)"
  have "t \<in> set (Q d p)" using V(6) True dp by simp
  then obtain xs ys where xy: "Q d p = xs @ t # ys" by (metis split_list)
  have l: "sched_list s ?q (xs @ t # ys)" using V(4) [OF dp'] xy by simp
  obtain q2 s2 where rm: "tcb_queue_remove ?q t s = (q2, s2)" by fastforce
  note P = tcb_queue_remove_list [OF l rm]
  note F = sched_frameD [OF P(4)]
  have ni: "t \<notin> set xs" "t \<notin> set ys" using dlist_distinct [OF l] by auto
  then have r1: "remove1 t (Q d p) = xs @ ys" by (simp add: xy remove1_append)
  have e: "tcb_queue_empty q2 \<longleftrightarrow> xs @ ys = []" using dlist_empty_iff [OF P(1)] by (simp add: tcb_queue_empty_def)
  let ?s3 = "upd_ts t (tcbQueued_update (\<lambda>_. False)) (set_ready_queue (ready_queues_index d p s) q2 s2)"
  have s': "tcbSchedDequeue t s = (if xs @ ys = [] then removeFromBitmap d p ?s3 else ?s3)"
    using True rm dp e by (simp add: tcbSchedDequeue_def Let_def)
  have b3: "bitmap_ok Q ?s3"
    by (rule bitmap_ok_cong [OF V(11)]) (use F in \<open>simp_all add: upd_ts_def set_ready_queue_def\<close>)
  have bm: "bitmap_ok (Q(d := (Q d)(p := xs @ ys))) (tcbSchedDequeue t s)"
  proof (cases "xs @ ys = []")
    case True
    then show ?thesis unfolding s' using removeFromBitmap_ok [OF b3 dp'(2), of d] by auto
  next
    case False
    then show ?thesis
      unfolding s' if_not_P [OF False] by (intro bitmap_ok_cong [OF b3]) (auto simp: xy split: if_splits)
  qed
  have "valid_sched (Q(d := (Q d)(p := xs @ ys))) R (tcbSchedDequeue t s)"
  proof (rule ready_change [OF v bm refl nr dp _ P(1), where flag = False])
    show "sched_frame (insert t (set (Q d p))) s s2" by (rule sched_frame_mono [OF P(4)]) (auto simp: xy)
    show "set (xs @ ys) = (if False then insert t (set (Q d p)) else set (Q d p) - {t})" using ni by (auto simp: xy)
  qed (use P(2,3) F(11-13) in \<open>simp_all add: s' upd_ts_def set_ready_queue_def\<close>)
  then show ?thesis by (simp only: r1)
qed

section \<open>The release queue is kept in wake-up order\<close>

text \<open>Insertion behind every thread that wakes up no later.\<close>

definition insert_after_le :: "('a \<Rightarrow> 'k::linorder) \<Rightarrow> 'a \<Rightarrow> 'a list \<Rightarrow> 'a list" where
  "insert_after_le f t xs = takeWhile (\<lambda>x. f x \<le> f t) xs @ t # dropWhile (\<lambda>x. f x \<le> f t) xs"

lemma set_insert_after_le [simp]: "set (insert_after_le f t xs) = insert t (set xs)"
  unfolding insert_after_le_def by (metis Un_insert_right list.set(2) set_append takeWhile_dropWhile_id)

lemma sorted_insert_after_le:
  assumes "sorted (map f xs)"
  shows "sorted (map f (insert_after_le f t xs))"
proof -
  let ?P = "\<lambda>x. f x \<le> f t"
  define us vs where u: "us = takeWhile ?P xs" and v: "vs = dropWhile ?P xs"
  have s: "sorted (map f (us @ vs))" using assms by (simp add: u v)
  have le: "\<forall>x\<in>set us. f x \<le> f t" by (auto simp: u dest: set_takeWhileD)
  have "\<not> ?P (hd vs)" if "vs \<noteq> []" using that unfolding v by (rule hd_dropWhile)
  then have "vs = [] \<or> f t \<le> f (hd vs)" using linear by blast
  then have "\<forall>x\<in>set vs. f t \<le> f x" using s by (cases vs) (auto simp: sorted_append)
  then have "sorted (map f (us @ t # vs))" using s le by (simp add: sorted_append)
  then show ?thesis by (simp add: insert_after_le_def u v)
qed

lemma find_time_after_list:
  "path (schedNext s) h xs NULL \<Longrightarrow> find_time_after h n s =
     Some (case dropWhile (\<lambda>x. tcbReadyTime x s \<le> n) xs of [] \<Rightarrow> NULL | y # _ \<Rightarrow> y)"
proof (induction xs arbitrary: h)
  case Nil
  then show ?case by (subst find_time_after.simps) (simp add: time_after_def)
next
  case (Cons x xs)
  then show ?case by (subst find_time_after.simps) (auto simp: time_after_def)
qed

lemma insert_hd: "xs = [] \<or> f t < f (hd xs) \<Longrightarrow> insert_after_le f t xs = t # xs"
  by (cases xs) (auto simp: insert_after_le_def)

lemma insert_last:
  assumes "sorted (map f xs)" "xs \<noteq> []" "f (last xs) \<le> f t"
  shows "insert_after_le f t xs = xs @ [t]"
proof -
  have "f x \<le> f t" if "x \<in> set xs" for x
    using assms that by (cases xs rule: rev_cases) (auto simp: sorted_append intro: order_trans)
  then show ?thesis by (simp add: insert_after_le_def)
qed

lemma valid_sched_cong:
  assumes "valid_sched Q R s" "tcbs s' = tcbs s" "plat s' = plat s" "ksReadyQueues s' = ksReadyQueues s"
    "ksReleaseQueue s' = ksReleaseQueue s" "ksReadyQueuesL1Bitmap s' = ksReadyQueuesL1Bitmap s"
    "ksReadyQueuesL2Bitmap s' = ksReadyQueuesL2Bitmap s"
  shows "valid_sched Q R s'"
  using assms(1) unfolding valid_sched_def bitmap_ok_def assms(2-7)
    ready_queues_index_cong [OF assms(3)] links_tcbs [OF assms(2)] .

text \<open>The common end of the release queue operations.\<close>

lemma release_change:
  assumes v: "valid_sched Q R s"
    and t: "\<not> tcbQueued (tcbState (tcbs s t))"
    and f: "sched_frame (insert t (set R)) s s2" and l: "sched_list s2 q R'"
    and xs: "set R' = (if flag then insert t (set R) else set R - {t})"
    and nt: "\<not> flag \<Longrightarrow> schedNext s2 t = NULL \<and> schedPrev s2 t = NULL"
    and s': "tcbs s' = tcbs (upd_ts t (tcbInReleaseQueue_update (\<lambda>_. flag)) s2)"
    and pl: "plat s' = plat s" "ksReleaseQueue s' = q" "ksReadyQueues s' = ksReadyQueues s"
      "ksReadyQueuesL1Bitmap s' = ksReadyQueuesL1Bitmap s" "ksReadyQueuesL2Bitmap s' = ksReadyQueuesL2Bitmap s"
  shows "valid_sched Q R' s'"
proof -
  note V = valid_schedD [OF v]
  note F = sched_frameD [OF f]
  have ts: "tcbState (tcbs s' u) = (if u = t then tcbState (tcbs s t)\<lparr>tcbInReleaseQueue := flag\<rparr> else tcbState (tcbs s u))"
    "tcbDomain (tcbs s' u) = tcbDomain (tcbs s u)" "tcbPriority (tcbs s' u) = tcbPriority (tcbs s u)" for u
    using F(3-5) by (auto simp: s' upd_ts_def)
  note ix = ready_queues_index_cong [OF pl(1)]
  have ln: "schedNext s' = schedNext s2" "schedPrev s' = schedPrev s2"
    by (simp_all add: s' schedNext_def schedPrev_def upd_ts_def fun_eq_iff)
  have q: "sched_list s' (ksReadyQueues s' (ready_queues_index d p s')) (Q d p)"
    if "d < numDomains s'" "p < 256" for d p
    unfolding ix pl ln
    by (rule sched_frame_list [OF f _ V(4)]) (use V(6-8) t that pl(1) in auto)
  have nl: "schedNext s' u = NULL \<and> schedPrev s' u = NULL"
    if "\<not> tcbQueued (tcbState (tcbs s' u))" "\<not> tcbInReleaseQueue (tcbState (tcbs s' u))" for u
  proof (cases "u = t")
    case True
    then show ?thesis using nt that by (simp add: ts ln)
  next
    case False
    then show ?thesis using F(7,8) [of u] V(7,9,10) [of u] that by (simp add: ts ln)
  qed
  show ?thesis
  proof (rule valid_schedI [OF _ _ _ q _ _ _ _ nl])
    show "numDomains s' \<le> 256" using V(1) by (simp add: pl)
    show "tcbDomain (tcbs s' u) < numDomains s'" "tcbPriority (tcbs s' u) < 256" for u
      using V(2,3) by (simp_all add: pl ts)
    show "sched_list s' (ksReleaseQueue s') R'" using l by (simp add: pl ln)
    show "u \<in> set (Q d p) \<longleftrightarrow> tcbQueued (tcbState (tcbs s' u)) \<and>
        tcbDomain (tcbs s' u) = d \<and> tcbPriority (tcbs s' u) = p" for u d p
      using V(6) [of u d p] by (simp add: ts)
    show "u \<in> set R' \<longleftrightarrow> tcbInReleaseQueue (tcbState (tcbs s' u))"
      "\<not> (tcbQueued (tcbState (tcbs s' u)) \<and> tcbInReleaseQueue (tcbState (tcbs s' u)))" for u
      using V(7,8) [of u] t xs by (auto simp: ts)
    show "bitmap_ok Q s'" by (rule bitmap_ok_cong [OF V(11)]) (simp_all add: pl)
  qed
qed

lemma tcbReleaseRemove_valid:
  assumes v: "valid_sched Q R s"
  shows "valid_sched Q (remove1 t R) (tcbReleaseRemove t s)"
proof (cases "tcbInReleaseQueue (tcbState (tcbs s t))")
  case False
  then have "t \<notin> set R" using valid_schedD(7) [OF v] by simp
  then show ?thesis using v False by (simp add: tcbReleaseRemove_def remove1_idem)
next
  case True
  note V = valid_schedD [OF v]
  have nq: "\<not> tcbQueued (tcbState (tcbs s t))" using V(8) True by blast
  obtain xs ys where xy: "R = xs @ t # ys" using V(7) True by (metis split_list)
  let ?s1 = "if head (ksReleaseQueue s) = t then s\<lparr>ksReprogram := True\<rparr> else s"
  have v1: "valid_sched Q R ?s1"
    using v by (rule valid_sched_cong) auto
  have l: "sched_list ?s1 (ksReleaseQueue s) (xs @ t # ys)" using valid_schedD(5) [OF v1] xy by auto
  obtain q2 s2 where rm: "tcb_queue_remove (ksReleaseQueue s) t ?s1 = (q2, s2)" by fastforce
  note P = tcb_queue_remove_list [OF l rm]
  note F = sched_frameD [OF P(4)]
  have ni: "t \<notin> set xs" "t \<notin> set ys" using dlist_distinct [OF l] by auto
  then have r1: "remove1 t R = xs @ ys" by (simp add: xy remove1_append)
  have s': "tcbReleaseRemove t s = upd_ts t (tcbInReleaseQueue_update (\<lambda>_. False)) (s2\<lparr>ksReleaseQueue := q2\<rparr>)"
    using True rm by (simp add: tcbReleaseRemove_def Let_def)
  show ?thesis
    unfolding r1
  proof (rule release_change [OF v1 _ _ P(1), where flag = False])
    show "sched_frame (insert t (set R)) ?s1 s2" by (rule sched_frame_mono [OF P(4)]) (auto simp: xy)
    show "set (xs @ ys) = (if False then insert t (set R) else set R - {t})" using ni by (auto simp: xy)
  qed (use P(2,3) F(11-15) nq in \<open>auto simp: s' upd_ts_def\<close>)
qed

lemma tcbReadyTime_frame:
  assumes "sched_frame A s s'"
  shows "tcbReadyTime t s' = tcbReadyTime t s"
  using sched_frameD(6,9,10) [OF assms] by (simp add: tcbReadyTime_def refill_head_def refill_index_def)

lemma tcbReleaseEnqueue_link:
  assumes l: "sched_list s (ksReleaseQueue s) R" and t: "t \<notin> set R" "t \<noteq> NULL"
    "schedNext s t = NULL" "schedPrev s t = NULL"
    and so: "sorted (map (\<lambda>t. tcbReadyTime t s) R)"
  shows "\<exists>q s2. sched_list s2 q (insert_after_le (\<lambda>t. tcbReadyTime t s) t R) \<and>
    sched_frame (insert t (set R)) s s2 \<and>
    tcbReleaseEnqueue t s = Some (let s' = upd_ts t (tcbInReleaseQueue_update (\<lambda>_. True)) (s2\<lparr>ksReleaseQueue := q\<rparr>)
      in if head (ksReleaseQueue s) \<noteq> head q then s'\<lparr>ksReprogram := True\<rparr> else s')"
proof -
  let ?f = "\<lambda>t. tcbReadyTime t s" and ?q = "ksReleaseQueue s"
  have hd: "head ?q = (case R of [] \<Rightarrow> NULL | x # _ \<Rightarrow> x)" and en: "qend ?q = (if R = [] then NULL else last R)"
    using dlist_head [OF l] dlist_end [OF l] by auto
  have em: "tcb_queue_empty ?q \<longleftrightarrow> R = []" using dlist_empty_iff [OF l] by (simp add: tcb_queue_empty_def)
  consider (front) "R = [] \<or> ?f t < ?f (hd R)" | (rear) "R \<noteq> []" "\<not> ?f t < ?f (hd R)" "?f (last R) \<le> ?f t"
    | (mid) "R \<noteq> []" "\<not> ?f t < ?f (hd R)" "\<not> ?f (last R) \<le> ?f t" by blast
  then show ?thesis
  proof cases
    case front
    obtain q s2 where p: "tcb_queue_prepend ?q t s = (q, s2)" by fastforce
    note P = tcb_queue_prepend_list [OF l t p]
    have "tcb_queue_empty ?q \<or> ?f t < ?f (head ?q)" using front em hd by (cases R) auto
    then show ?thesis
      using P insert_hd [of R ?f t] front p
      by (intro exI [of _ q] exI [of _ s2]) (auto simp: tcbReleaseEnqueue_def Let_def upd_ts_def)
  next
    case rear
    obtain q s2 where p: "tcb_queue_append ?q t s = (q, s2)" by fastforce
    note P = tcb_queue_append_list [OF l t p]
    have "\<not> (tcb_queue_empty ?q \<or> ?f t < ?f (head ?q))" using rear em hd by (cases R) auto
    then show ?thesis
      using P insert_last [OF so rear(1,3)] rear(3) p en rear(1)
      by (intro exI [of _ q] exI [of _ s2]) (auto simp: tcbReleaseEnqueue_def Let_def upd_ts_def)
  next
    case mid
    let ?P = "\<lambda>x. ?f x \<le> ?f t"
    have c: "\<not> (tcb_queue_empty ?q \<or> ?f t < ?f (head ?q))" using mid em hd by (cases R) auto
    have "takeWhile ?P R \<noteq> []" using mid(1,2) by (cases R) auto
    then obtain us b where u: "takeWhile ?P R = us @ [b]" by (metis rev_exhaust)
    have "last R \<in> set R" using mid(1) by simp
    then have "dropWhile ?P R \<noteq> []" using mid(3) by (auto simp: dropWhile_eq_Nil_conv)
    then obtain a ys where a: "dropWhile ?P R = a # ys" by (cases "dropWhile ?P R") auto
    have R: "R = us @ b # a # ys" using u a takeWhile_dropWhile_id [of ?P R] by simp
    have ft: "find_time_after (head ?q) (?f t) s = Some a"
      using find_time_after_list [of s "head ?q" R "?f t"] l a by (simp add: dlist_def)
    note P = tcb_queue_insert_list [OF l [unfolded R] t(1) [unfolded R] t(2)]
    have i: "insert_after_le ?f t R = us @ b # t # a # ys" by (simp add: insert_after_le_def u a)
    have rq: "ksReleaseQueue (tcb_queue_insert t a s) = ?q" using sched_frameD(13) [OF P(2)] .
    have "tcbReleaseEnqueue t s = Some (upd_ts t (tcbInReleaseQueue_update (\<lambda>_. True)) (tcb_queue_insert t a s))"
      using c mid(3) en mid(1) ft by (simp add: tcbReleaseEnqueue_def upd_ts_def rq)
    moreover have "(tcb_queue_insert t a s)\<lparr>ksReleaseQueue := ?q\<rparr> = tcb_queue_insert t a s"
      by (subst rq [symmetric]) simp
    ultimately show ?thesis
      using P i R by (intro exI [of _ ?q] exI [of _ "tcb_queue_insert t a s"]) simp
  qed
qed

lemma tcbReleaseEnqueue_valid:
  assumes v: "valid_sched Q R s" and t: "t \<noteq> NULL" "\<not> tcbQueued (tcbState (tcbs s t))"
    "\<not> tcbInReleaseQueue (tcbState (tcbs s t))"
    and so: "sorted (map (\<lambda>t. tcbReadyTime t s) R)"
  shows "\<exists>s'. tcbReleaseEnqueue t s = Some s' \<and>
    valid_sched Q (insert_after_le (\<lambda>t. tcbReadyTime t s) t R) s' \<and>
    (\<forall>u. tcbReadyTime u s' = tcbReadyTime u s) \<and>
    (ksReprogram s' \<longleftrightarrow> ksReprogram s \<or> head (ksReleaseQueue s') \<noteq> head (ksReleaseQueue s))"
proof -
  note V = valid_schedD [OF v]
  let ?R = "insert_after_le (\<lambda>t. tcbReadyTime t s) t R"
  have ni: "t \<notin> set R" using V(7) t(3) by simp
  obtain q s2 where l: "sched_list s2 q ?R" and f: "sched_frame (insert t (set R)) s s2"
    and e: "tcbReleaseEnqueue t s = Some (let s' = upd_ts t (tcbInReleaseQueue_update (\<lambda>_. True)) (s2\<lparr>ksReleaseQueue := q\<rparr>)
      in if head (ksReleaseQueue s) \<noteq> head q then s'\<lparr>ksReprogram := True\<rparr> else s')"
    using tcbReleaseEnqueue_link [OF V(5) ni t(1) V(9,10) [OF t(2,3)] so] by blast
  define s' where s': "s' = (let s' = upd_ts t (tcbInReleaseQueue_update (\<lambda>_. True)) (s2\<lparr>ksReleaseQueue := q\<rparr>)
      in if head (ksReleaseQueue s) \<noteq> head q then s'\<lparr>ksReprogram := True\<rparr> else s')"
  note F = sched_frameD [OF f]
  have "valid_sched Q ?R s'"
    by (rule release_change [OF v t(2) f l, where flag = True])
      (use F(11-15) in \<open>simp_all add: s' upd_ts_def Let_def\<close>)
  moreover have "tcbReadyTime u s' = tcbReadyTime u s" for u
    using F(6,9,10) by (simp add: s' tcbReadyTime_def refill_head_def refill_index_def upd_ts_def Let_def)
  moreover have "ksReprogram s2 = ksReprogram s" by (subst F(1)) simp
  then have "ksReprogram s' \<longleftrightarrow> ksReprogram s \<or> head (ksReleaseQueue s') \<noteq> head (ksReleaseQueue s)"
    by (auto simp: s' Let_def upd_ts_def)
  ultimately show ?thesis using e s' by blast
qed

section \<open>Endpoint queues are kept in priority order\<close>

text \<open>
  Insertion from the back: behind the last thread whose priority is not lower. In a list of
  non-increasing priorities this is behind every thread of at least the same priority.
\<close>

definition insert_by_prio :: "('a \<Rightarrow> 'k::linorder) \<Rightarrow> 'a \<Rightarrow> 'a list \<Rightarrow> 'a list" where
  "insert_by_prio f t xs =
     rev (dropWhile (\<lambda>x. f x < f t) (rev xs)) @ t # rev (takeWhile (\<lambda>x. f x < f t) (rev xs))"

text \<open>Only the endpoint links of the threads in \<open>A\<close> differ between two states.\<close>

definition ep_frame :: "ptr set \<Rightarrow> kstate \<Rightarrow> kstate \<Rightarrow> bool" where
  "ep_frame A s s' \<longleftrightarrow> (\<exists>n v. s' = s\<lparr>tcbs := \<lambda>p. if p \<in> A
     then (tcbs s p)\<lparr>tcbEPNext := n p, tcbEPPrev := v p\<rparr> else tcbs s p\<rparr>)"

lemma ep_frameI:
  assumes "s' = s\<lparr>tcbs := F\<rparr>"
    and "\<And>p. p \<in> A \<Longrightarrow> F p = (tcbs s p)\<lparr>tcbEPNext := n p, tcbEPPrev := v p\<rparr>"
    and "\<And>p. p \<notin> A \<Longrightarrow> F p = tcbs s p"
  shows "ep_frame A s s'"
proof -
  have "F = (\<lambda>p. if p \<in> A then (tcbs s p)\<lparr>tcbEPNext := n p, tcbEPPrev := v p\<rparr> else tcbs s p)"
    using assms(2,3) by (intro ext) simp
  then show ?thesis unfolding ep_frame_def assms(1) by blast
qed

lemma ep_frame_set [simp]:
  assumes "p \<in> A"
  shows "ep_frame A s (set_epNext p v s)" "ep_frame A s (set_epPrev p v s)"
proof -
  show "ep_frame A s (set_epNext p v s)"
    by (rule ep_frameI [where F = "(tcbs s)(p := tcbEPNext_update (\<lambda>_. v) (tcbs s p))"
          and n = "(epNext s)(p := v)" and v = "epPrev s"])
      (use assms in \<open>auto simp: set_epNext_def upd_tcb_def epNext_def epPrev_def\<close>)
  show "ep_frame A s (set_epPrev p v s)"
    by (rule ep_frameI [where F = "(tcbs s)(p := tcbEPPrev_update (\<lambda>_. v) (tcbs s p))"
          and n = "epNext s" and v = "(epPrev s)(p := v)"])
      (use assms in \<open>auto simp: set_epPrev_def upd_tcb_def epNext_def epPrev_def\<close>)
qed

lemma ep_frame_refl [simp]: "ep_frame A s s"
  by (rule ep_frameI [where F = "tcbs s" and n = "epNext s" and v = "epPrev s"])
    (auto simp: epNext_def epPrev_def)

lemma ep_frame_trans [trans]:
  "ep_frame A s s' \<Longrightarrow> ep_frame A s' s'' \<Longrightarrow> ep_frame A s s''"
  unfolding ep_frame_def
proof (elim exE)
  fix n v n' v'
  assume "s' = s\<lparr>tcbs := \<lambda>p. if p \<in> A then (tcbs s p)\<lparr>tcbEPNext := n p, tcbEPPrev := v p\<rparr> else tcbs s p\<rparr>"
    "s'' = s'\<lparr>tcbs := \<lambda>p. if p \<in> A then (tcbs s' p)\<lparr>tcbEPNext := n' p, tcbEPPrev := v' p\<rparr> else tcbs s' p\<rparr>"
  then show "\<exists>n v. s'' = s\<lparr>tcbs := \<lambda>p. if p \<in> A then (tcbs s p)\<lparr>tcbEPNext := n p, tcbEPPrev := v p\<rparr> else tcbs s p\<rparr>"
    by (intro exI [of _ n'] exI [of _ v']) (simp, rule kstate_tcbs_cong, auto)
qed

lemma ep_frameD:
  assumes "ep_frame A s s'"
  shows "s' = s\<lparr>tcbs := tcbs s'\<rparr>" "p \<notin> A \<Longrightarrow> tcbs s' p = tcbs s p"
    "tcbState (tcbs s' p) = tcbState (tcbs s p)"
    "tcbDomain (tcbs s' p) = tcbDomain (tcbs s p)" "tcbPriority (tcbs s' p) = tcbPriority (tcbs s p)"
    "tcbSchedContext (tcbs s' p) = tcbSchedContext (tcbs s p)"
    "p \<notin> A \<Longrightarrow> epNext s' p = epNext s p" "p \<notin> A \<Longrightarrow> epPrev s' p = epPrev s p"
    "schedNext s' = schedNext s" "schedPrev s' = schedPrev s"
  using assms unfolding ep_frame_def by (auto simp: epNext_def epPrev_def schedNext_def schedPrev_def)

lemma tcbEPAppend_find_list:
  assumes "path (epPrev s) b zs NULL"
  shows "tcbEPAppend_find t b a s = Some
    (case dropWhile (\<lambda>x. tcbPriority (tcbs s x) < tcbPriority (tcbs s t)) zs of [] \<Rightarrow> NULL | y # _ \<Rightarrow> y,
     if takeWhile (\<lambda>x. tcbPriority (tcbs s x) < tcbPriority (tcbs s t)) zs = [] then a
     else last (takeWhile (\<lambda>x. tcbPriority (tcbs s x) < tcbPriority (tcbs s t)) zs))"
  using assms
proof (induction zs arbitrary: b a)
  case Nil
  then show ?case by (subst tcbEPAppend_find.simps) simp
next
  case (Cons z zs)
  then show ?case by (subst tcbEPAppend_find.simps) auto
qed

lemma ep_link_between:
  assumes "ep_list s q (us @ vs)" "t \<notin> set (us @ vs)" "t \<noteq> NULL"
    and "b = (if us = [] then NULL else last us)" "a = (case vs of [] \<Rightarrow> NULL | y # _ \<Rightarrow> y)"
    and "s1 = (if b = NULL then s else set_epNext b t s)"
    and "s2 = (if a = NULL then s1 else set_epPrev a t s1)"
    and "s3 = set_epPrev t b (set_epNext t a s2)"
  shows "dlist (epNext s3) (epPrev s3) (if b = NULL then t else head q) (if a = NULL then t else qend q)
    (us @ t # vs)"
proof -
  have nn: "x \<noteq> NULL" if "x \<in> set (us @ vs)" for x using dlist_not_NULL [OF assms(1) that] .
  show ?thesis
  proof (cases us rule: rev_cases)
    case Nil
    then show ?thesis using assms nn by (cases vs) (auto simp: dlist_def ep.links)
  next
    case (snoc us' u)
    then show ?thesis using assms nn by (cases vs) (auto simp: dlist_def ep.links)
  qed
qed

lemma tcbEPAppend_list:
  assumes l: "ep_list s q xs" and t: "t \<notin> set xs" "t \<noteq> NULL"
  shows "\<exists>q' s'. tcbEPAppend t q s = Some (q', s') \<and>
    ep_list s' q' (insert_by_prio (\<lambda>t. tcbPriority (tcbs s t)) t xs) \<and>
    ep_frame (insert t (set xs)) s s'"
proof -
  let ?P = "\<lambda>x. tcbPriority (tcbs s x) < tcbPriority (tcbs s t)"
  define us vs where u: "us = rev (dropWhile ?P (rev xs))" and v: "vs = rev (takeWhile ?P (rev xs))"
  have "us @ vs = rev (takeWhile ?P (rev xs) @ dropWhile ?P (rev xs))" unfolding u v by (simp only: rev_append)
  then have xs: "xs = us @ vs" by (simp only: takeWhile_dropWhile_id rev_rev_ident)
  define b a where b: "b = (if us = [] then NULL else last us)" and a: "a = (case vs of [] \<Rightarrow> NULL | y # _ \<Rightarrow> y)"
  have "path (epPrev s) (qend q) (rev xs) NULL" using l by (simp add: dlist_def)
  from tcbEPAppend_find_list [OF this, of t NULL]
  have find: "tcbEPAppend_find t (qend q) NULL s = Some (b, a)"
  proof -
    have "(case dropWhile ?P (rev xs) of [] \<Rightarrow> NULL | y # _ \<Rightarrow> y) = b"
      unfolding b u by (cases "dropWhile ?P (rev xs)") (simp_all only: list.case rev.simps append_is_Nil_conv list.distinct if_True if_False last_snoc simp_thms)
    moreover have "(if takeWhile ?P (rev xs) = [] then NULL else last (takeWhile ?P (rev xs))) = a"
      unfolding a v by (cases "takeWhile ?P (rev xs)" rule: rev_cases) (simp_all only: list.case rev.simps append_is_Nil_conv list.distinct if_True if_False last_snoc simp_thms rev_append append.simps)
    ultimately show ?thesis
      using tcbEPAppend_find_list [OF \<open>path (epPrev s) (qend q) (rev xs) NULL\<close>, of t NULL] by simp
  qed
  define s1 where s1: "s1 = (if b = NULL then s else set_epNext b t s)"
  define s2 where s2: "s2 = (if a = NULL then s1 else set_epPrev a t s1)"
  define s3 where s3: "s3 = set_epPrev t b (set_epNext t a s2)"
  have e: "tcbEPAppend t q s = Some (\<lparr>head = if b = NULL then t else head q, qend = if a = NULL then t else qend q\<rparr>, s3)"
    by (simp add: tcbEPAppend_def find s1 s2 s3)
  have d: "dlist (epNext s3) (epPrev s3) (if b = NULL then t else head q) (if a = NULL then t else qend q) (us @ t # vs)"
    by (rule ep_link_between [OF l [unfolded xs] t(1) [unfolded xs] t(2) b a s1 s2 s3])
  have "us @ t # vs = insert_by_prio (\<lambda>t. tcbPriority (tcbs s t)) t xs" by (simp add: insert_by_prio_def u v)
  moreover have "ep_frame (insert t (set xs)) s s3"
  proof -
    have ba: "b \<noteq> NULL \<Longrightarrow> b \<in> set xs" "a \<noteq> NULL \<Longrightarrow> a \<in> set xs"
      by (auto simp: b a xs split: if_splits list.splits)
    then have "ep_frame (insert t (set xs)) s s1" "ep_frame (insert t (set xs)) s1 s2"
      by (auto simp: s1 s2)
    moreover have "ep_frame (insert t (set xs)) s2 (set_epNext t a s2)"
       "ep_frame (insert t (set xs)) (set_epNext t a s2) s3" by (auto simp: s3)
    ultimately show ?thesis by (blast intro: ep_frame_trans)
  qed
  ultimately show ?thesis using e d by (intro exI [of _ "\<lparr>head = _, qend = _\<rparr>"] exI [of _ s3]) auto
qed

lemma tcbEPDequeue_list:
  assumes l: "ep_list s q (xs @ t # ys)" and r: "tcbEPDequeue t q s = (q', s')"
  shows "ep_list s' q' (xs @ ys)" "ep_frame (set (xs @ t # ys)) s s'"
proof -
  have nx: "epNext s t = (case ys of [] \<Rightarrow> NULL | y # _ \<Rightarrow> y)"
    and pv: "epPrev s t = (if xs = [] then NULL else last xs)"
    using dlist_mid [OF l] by auto
  have d: "distinct (xs @ t # ys)" using dlist_distinct [OF l] .
  have nn: "x \<noteq> NULL" if "x \<in> set (xs @ t # ys)" for x using dlist_not_NULL [OF l that] .
  have "ep_list s' q' (xs @ ys) \<and> ep_frame (set (xs @ t # ys)) s s'"
  proof (cases xs rule: rev_cases)
    case Nil
    then show ?thesis using r l nx pv d nn
      by (cases ys) (auto simp: tcbEPDequeue_def dlist_def ep.links)
  next
    case (snoc us b)
    then show ?thesis using r l nx pv d nn
      by (cases ys) (auto simp: tcbEPDequeue_def dlist_def ep.links intro: ep_frame_trans [OF ep_frame_set(1) ep_frame_set(2)])
  qed
  then show "ep_list s' q' (xs @ ys)" "ep_frame (set (xs @ t # ys)) s s'" by auto
qed

lemma insert_by_prio_set [simp]: "set (insert_by_prio f t xs) = insert t (set xs)"
proof -
  have "set (rev xs) = set (takeWhile (\<lambda>x. f x < f t) (rev xs)) \<union> set (dropWhile (\<lambda>x. f x < f t) (rev xs))"
    by (metis set_append takeWhile_dropWhile_id)
  then show ?thesis by (auto simp: insert_by_prio_def)
qed

lemma insert_by_prio_sorted:
  assumes "sorted_wrt (\<lambda>x y. f y \<le> f x) xs"
  shows "sorted_wrt (\<lambda>x y. f y \<le> f x) (insert_by_prio f t xs)"
proof -
  let ?P = "\<lambda>x. f x < f t"
  define us vs where u: "us = rev (dropWhile ?P (rev xs))" and v: "vs = rev (takeWhile ?P (rev xs))"
  have "us @ vs = rev (takeWhile ?P (rev xs) @ dropWhile ?P (rev xs))" unfolding u v by (simp only: rev_append)
  then have xs: "xs = us @ vs" by (simp only: takeWhile_dropWhile_id rev_rev_ident)
  have lt: "\<forall>x\<in>set vs. f x < f t" by (auto simp: v dest: set_takeWhileD)
  have s: "sorted_wrt (\<lambda>x y. f y \<le> f x) (us @ vs)" using assms xs by simp
  have "\<not> ?P (last us)" if "us \<noteq> []"
    using hd_dropWhile [of ?P "rev xs"] that unfolding u by (simp only: last_rev rev_is_Nil_conv simp_thms)
  then have "us = [] \<or> f t \<le> f (last us)" using not_le by blast
  then have "\<forall>x\<in>set us. f t \<le> f x"
    using s by (cases us rule: rev_cases) (auto simp: sorted_wrt_append intro: order_trans)
  then have "sorted_wrt (\<lambda>x y. f y \<le> f x) (us @ t # vs)"
    using s lt by (auto simp: sorted_wrt_append intro: less_imp_le)
  then show ?thesis by (simp add: insert_by_prio_def u v)
qed

section \<open>Properties of the queues\<close>

text \<open>
  C2. The ready queues are the lists they stand for. In a state that satisfies the scheduler
  invariant, \<open>tcbSchedEnqueue\<close> and \<open>tcbSchedAppend\<close> put a thread at the head or the tail of the list of
  its domain and priority (and leave a thread that is queued where it is), \<open>tcbSchedDequeue\<close> takes
  it out wherever it stands, all other queues and the release queue are untouched, and the
  invariant (links both ways, membership flags, both bitmap levels) holds again.
\<close>

theorem ready_queues_refine_lists:
  assumes "valid_sched Q R s" "t \<noteq> NULL" "\<not> tcbInReleaseQueue (tcbState (tcbs s t))"
    and "d = tcbDomain (tcbs s t)" "p = tcbPriority (tcbs s t)"
  shows "valid_sched (Q(d := (Q d)(p := if t \<in> set (Q d p) then Q d p else t # Q d p))) R (tcbSchedEnqueue t s) \<and>
    valid_sched (Q(d := (Q d)(p := if t \<in> set (Q d p) then Q d p else Q d p @ [t]))) R (tcbSchedAppend t s) \<and>
    valid_sched (Q(d := (Q d)(p := remove1 t (Q d p)))) R (tcbSchedDequeue t s)"
  using assms by (intro conjI tcbSchedEnqueue_valid tcbSchedAppend_valid tcbSchedDequeue_valid) auto

text \<open>
  Two bit scans find the thread to run. When some thread of a domain is queued, the queue at
  \<open>getHighestPrio\<close> is not empty, its head is a queued thread of that domain and that priority, no
  queued thread of the domain has a higher priority, and \<open>isHighestPrio\<close> is exact.
\<close>

theorem getHighestPrio_finds_highest:
  assumes "valid_sched Q R s" "tcbQueued (tcbState (tcbs s t))" "d = tcbDomain (tcbs s t)"
    and "h = head (ksReadyQueues s (ready_queues_index d (getHighestPrio d s) s))"
  shows "ksReadyQueuesL1Bitmap s d \<noteq> 0 \<and> h \<noteq> NULL \<and> tcbQueued (tcbState (tcbs s h)) \<and> tcbDomain (tcbs s h) = d \<and>
    tcbPriority (tcbs s h) = getHighestPrio d s \<and> tcbPriority (tcbs s t) \<le> tcbPriority (tcbs s h) \<and>
    (isHighestPrio d prio s \<longleftrightarrow> (\<forall>u. tcbQueued (tcbState (tcbs s u)) \<longrightarrow> tcbDomain (tcbs s u) = d \<longrightarrow>
       tcbPriority (tcbs s u) \<le> prio))"
proof -
  note V = valid_schedD [OF assms(1)]
  have d: "d < numDomains s" using V(2) assms(3) by simp
  have "t \<in> set (Q d (tcbPriority (tcbs s t)))" using V(6) assms(2,3) by simp
  then have nz: "ksReadyQueuesL1Bitmap s d \<noteq> 0"
    using bitmap_empty [OF V(11) d] V(3) [of t] by auto
  let ?p = "getHighestPrio d s"
  note M = getHighestPrio_max [OF V(11) d nz]
  have h: "h \<in> set (Q d ?p)" using dlist_head [OF V(4) [OF d M(1)]] M(2) assms(4) by (cases "Q d ?p") auto
  then have "h \<noteq> NULL" using dlist_not_NULL [OF V(4) [OF d M(1)]] by blast
  moreover have hp: "tcbQueued (tcbState (tcbs s h))" "tcbDomain (tcbs s h) = d" "tcbPriority (tcbs s h) = ?p"
    using h V(6) by auto
  moreover have all: "tcbPriority (tcbs s u) \<le> ?p" if "tcbQueued (tcbState (tcbs s u))" "tcbDomain (tcbs s u) = d" for u
  proof -
    have "u \<in> set (Q d (tcbPriority (tcbs s u)))" using V(6) that by simp
    then show ?thesis using M(3) V(3) [of u] by fastforce
  qed
  moreover have "isHighestPrio d prio s \<longleftrightarrow> (\<forall>u. tcbQueued (tcbState (tcbs s u)) \<longrightarrow> tcbDomain (tcbs s u) = d \<longrightarrow>
       tcbPriority (tcbs s u) \<le> prio)"
    unfolding isHighestPrio_def using nz all hp by (metis order_trans)
  ultimately show ?thesis using nz assms(2,3) by simp
qed

text \<open>
  The release queue stays in wake-up order. Inserting a thread that is in no queue terminates,
  places it behind every thread that wakes up no later (so equal times are served first come,
  first served), keeps the queue sorted by the head refill times and the scheduler invariant, and
  requests a timer update exactly when the head changes (or one was requested before).
\<close>

theorem release_queue_ordered:
  assumes "valid_sched Q R s" "t \<noteq> NULL" "\<not> tcbQueued (tcbState (tcbs s t))"
    and "\<not> tcbInReleaseQueue (tcbState (tcbs s t))" "sorted (map (\<lambda>t. tcbReadyTime t s) R)"
  shows "\<exists>s' R'. tcbReleaseEnqueue t s = Some s' \<and> R' = insert_after_le (\<lambda>t. tcbReadyTime t s) t R \<and>
    valid_sched Q R' s' \<and> sorted (map (\<lambda>t. tcbReadyTime t s') R') \<and>
    (ksReprogram s' \<longleftrightarrow> ksReprogram s \<or> head (ksReleaseQueue s') \<noteq> head (ksReleaseQueue s))"
  using tcbReleaseEnqueue_valid [OF assms] sorted_insert_after_le [OF assms(5)] by auto

text \<open>
  C35. Endpoint queues serve the highest priority first. \<open>tcbEPAppend\<close> terminates on a well-linked
  queue, and keeps a queue of non-increasing priorities in that order with the new thread behind
  the threads of its own priority; taking a thread out with \<open>tcbEPDequeue\<close> gives the queue without
  it, in particular the original queue when the thread was the one just inserted.
\<close>

theorem endpoint_queue_ordered:
  assumes "ep_list s q xs" "t \<notin> set xs" "t \<noteq> NULL"
    and "sorted_wrt (\<lambda>x y. tcbPriority (tcbs s y) \<le> tcbPriority (tcbs s x)) xs"
  shows "\<exists>q' s' us vs. tcbEPAppend t q s = Some (q', s') \<and> xs = us @ vs \<and> ep_list s' q' (us @ t # vs) \<and>
    (\<forall>u\<in>set us. tcbPriority (tcbs s t) \<le> tcbPriority (tcbs s u)) \<and>
    (\<forall>u\<in>set vs. tcbPriority (tcbs s u) < tcbPriority (tcbs s t)) \<and>
    (case tcbEPDequeue t q' s' of (q'', s'') \<Rightarrow> ep_list s'' q'' xs)"
proof -
  let ?f = "\<lambda>t. tcbPriority (tcbs s t)"
  let ?P = "\<lambda>x. ?f x < ?f t"
  define us vs where u: "us = rev (dropWhile ?P (rev xs))" and v: "vs = rev (takeWhile ?P (rev xs))"
  have "us @ vs = rev (takeWhile ?P (rev xs) @ dropWhile ?P (rev xs))" unfolding u v by (simp only: rev_append)
  then have xs: "xs = us @ vs" by (simp only: takeWhile_dropWhile_id rev_rev_ident)
  have i: "insert_by_prio ?f t xs = us @ t # vs" by (simp add: insert_by_prio_def u v)
  obtain q' s' where e: "tcbEPAppend t q s = Some (q', s')" "ep_list s' q' (us @ t # vs)"
    using tcbEPAppend_list [OF assms(1-3)] i by auto
  have "sorted_wrt (\<lambda>x y. ?f y \<le> ?f x) (us @ t # vs)" using insert_by_prio_sorted [OF assms(4), of t] i by simp
  then have "\<forall>u\<in>set us. ?f t \<le> ?f u" by (auto simp: sorted_wrt_append)
  moreover have "\<forall>u\<in>set vs. ?f u < ?f t" by (auto simp: v dest: set_takeWhileD)
  moreover have "case tcbEPDequeue t q' s' of (q'', s'') \<Rightarrow> ep_list s'' q'' xs"
    using tcbEPDequeue_list(1) [OF e(2)] xs by (auto split: prod.splits)
  ultimately show ?thesis
    using e xs by (intro exI [of _ q'] exI [of _ s'] exI [of _ us] exI [of _ vs]) simp
qed

section \<open>Concrete queues\<close>

lemma kstate0_valid: "valid_sched (\<lambda>_ _. []) [] kstate0"
  by (rule valid_schedI)
    (simp_all add: kstate0_def tcb0_def schedNext_def schedPrev_def bitmap_ok_def)

lemma kstate0_tcb: "tcbs kstate0 t = tcb0" "tcbState tcb0 = \<lparr>blockingIPCBadge = 0,
    blockingIPCCanGrant = False, blockingIPCCanGrantReply = False, blockingIPCIsCall = False,
    tcbQueued = False, tsType = ThreadState_Inactive, tcbInReleaseQueue = False,
    blockingObject = NULL, replyObject = NULL\<rparr>"
  by (simp_all add: kstate0_def tcb0_def)

definition example_tcb :: ptr where
  "example_tcb = 1024"

definition example_ready :: kstate where
  "example_ready = tcbSchedEnqueue example_tcb kstate0"

lemma example_ready_valid:
  "valid_sched ((\<lambda>_ _. [])(0 := (\<lambda>_. [])(0 := [example_tcb]))) [] example_ready"
  using tcbSchedEnqueue_valid [OF kstate0_valid, of example_tcb 0 0]
  by (simp add: example_ready_def example_tcb_def kstate0_def tcb0_def fun_upd_def)

theorem ready_queues_refine_lists_witness:
  "valid_sched ((\<lambda>_ _. [])(0 := (\<lambda>_. [])(0 := [example_tcb]))) [] (tcbSchedAppend example_tcb kstate0)"
  using ready_queues_refine_lists [OF kstate0_valid, of example_tcb 0 0]
  by (simp add: example_tcb_def kstate0_def tcb0_def fun_upd_def)

lemma example_ready_tcb:
  "tcbQueued (tcbState (tcbs example_ready example_tcb))" "tcbDomain (tcbs example_ready example_tcb) = 0"
  "tcbPriority (tcbs example_ready example_tcb) = 0"
  using valid_schedD(6) [OF example_ready_valid, of example_tcb 0 0] by simp_all

theorem getHighestPrio_finds_highest_witness:
  "tcbQueued (tcbState (tcbs example_ready
     (head (ksReadyQueues example_ready (ready_queues_index 0 (getHighestPrio 0 example_ready) example_ready)))))"
  using getHighestPrio_finds_highest [OF example_ready_valid example_ready_tcb(1) _ refl, of 0 0] example_ready_tcb(2)
  by simp

theorem release_queue_ordered_witness:
  "\<exists>s'. tcbReleaseEnqueue example_tcb kstate0 = Some s' \<and> valid_sched (\<lambda>_ _. []) [example_tcb] s'"
  using release_queue_ordered [OF kstate0_valid, of example_tcb]
  by (auto simp: example_tcb_def kstate0_tcb insert_after_le_def)

theorem endpoint_queue_ordered_witness:
  "\<exists>q' s'. tcbEPAppend example_tcb \<lparr>head = NULL, qend = NULL\<rparr> kstate0 = Some (q', s') \<and> ep_list s' q' [example_tcb]"
  using endpoint_queue_ordered [of kstate0 "\<lparr>head = NULL, qend = NULL\<rparr>" "[]" example_tcb]
  by (auto simp: example_tcb_def)

end
