(* ===== verification/Machine.thy ===== *)
theory Machine
  imports Structures
begin

text \<open>
  Registers, messages and errors: the user context of
  \<^verbatim>\<open>include/arch/riscv/arch/machine/registerset.h\<close>, the message tag and capability rights of
  \<^verbatim>\<open>libsel4\<close>'s \<^verbatim>\<open>shared_types.bf\<close> with the conversions of \<^verbatim>\<open>include/api/types.h\<close>, the system call
  arguments of \<^verbatim>\<open>include/api/syscall.h\<close>, and the error values of \<^verbatim>\<open>include/api/failures.h\<close>.

  The message tag and the rights are machine words, as in C; the accessors that the bitfield
  generator emits are written out. A C function that sets \<^verbatim>\<open>current_syscall_error\<close> and returns
  \<^verbatim>\<open>EXCEPTION_SYSCALL_ERROR\<close> returns that error as the left value of a sum.
\<close>

section \<open>Registers\<close>

definition badgeRegister :: reg where "badgeRegister = 9"
definition capRegister :: reg where "capRegister = 9"
definition msgInfoRegister :: reg where "msgInfoRegister = 10"
definition replyRegister :: reg where "replyRegister = 15"
definition nbsendRecvDest :: reg where "nbsendRecvDest = 4"
definition SP :: reg where "SP = 1"
definition LR :: reg where "LR = 0"
definition TLS_BASE :: reg where "TLS_BASE = 3"
definition SSTATUS :: reg where "SSTATUS = 32"
definition FaultIP :: reg where "FaultIP = 33"
definition NextIP :: reg where "NextIP = 34"

definition n_msgRegisters :: word64 where
  "n_msgRegisters = 4"

definition msgRegisters :: "reg list" where
  "msgRegisters = [11, 12, 13, 14]"

definition frameRegisters :: "reg list" where
  "frameRegisters = [FaultIP, 0, 1, 2, 7, 8, 17, 18, 19, 20, 21, 22, 23, 24, 25, 26]"

definition gpRegisters :: "reg list" where
  "gpRegisters = [9, 10, 11, 12, 13, 14, 15, 16, 4, 5, 6, 27, 28, 29, 30, 3]"

definition getRegister :: "ptr \<Rightarrow> reg \<Rightarrow> kstate \<Rightarrow> word64" where
  "getRegister thread r s = tcbContext (tcbs s thread) r"

definition setRegister :: "ptr \<Rightarrow> reg \<Rightarrow> word64 \<Rightarrow> kstate \<Rightarrow> kstate" where
  "setRegister thread r w s = upd_tcb thread (tcbContext_update (\<lambda>c. c(r := w))) s"

definition getRestartPC :: "ptr \<Rightarrow> kstate \<Rightarrow> word64" where
  "getRestartPC thread s = getRegister thread FaultIP s"

definition setNextPC :: "ptr \<Rightarrow> word64 \<Rightarrow> kstate \<Rightarrow> kstate" where
  "setNextPC thread v s = setRegister thread NextIP v s"

definition updateRestartPC :: "ptr \<Rightarrow> kstate \<Rightarrow> kstate" where
  "updateRestartPC tcb s = setRegister tcb FaultIP (getRegister tcb NextIP s) s"

section \<open>The message tag\<close>

definition seL4_MsgMaxLength :: word64 where
  "seL4_MsgMaxLength = 120"

definition seL4_MsgMaxExtraCaps :: word64 where
  "seL4_MsgMaxExtraCaps = 3"

definition seL4_MessageInfo_get_length :: "word64 \<Rightarrow> word64" where
  "seL4_MessageInfo_get_length mi = mi AND 0x7f"

definition seL4_MessageInfo_get_extraCaps :: "word64 \<Rightarrow> word64" where
  "seL4_MessageInfo_get_extraCaps mi = drop_bit 7 (mi AND 0x180)"

definition seL4_MessageInfo_get_capsUnwrapped :: "word64 \<Rightarrow> word64" where
  "seL4_MessageInfo_get_capsUnwrapped mi = drop_bit 9 (mi AND 0xe00)"

definition seL4_MessageInfo_get_label :: "word64 \<Rightarrow> word64" where
  "seL4_MessageInfo_get_label mi = drop_bit 12 mi"

definition seL4_MessageInfo_set_length :: "word64 \<Rightarrow> word64 \<Rightarrow> word64" where
  "seL4_MessageInfo_set_length mi v = mi AND NOT 0x7f OR v AND 0x7f"

definition seL4_MessageInfo_set_extraCaps :: "word64 \<Rightarrow> word64 \<Rightarrow> word64" where
  "seL4_MessageInfo_set_extraCaps mi v = mi AND NOT 0x180 OR push_bit 7 v AND 0x180"

definition seL4_MessageInfo_set_capsUnwrapped :: "word64 \<Rightarrow> word64 \<Rightarrow> word64" where
  "seL4_MessageInfo_set_capsUnwrapped mi v = mi AND NOT 0xe00 OR push_bit 9 v AND 0xe00"

definition seL4_MessageInfo_new :: "word64 \<Rightarrow> word64 \<Rightarrow> word64 \<Rightarrow> word64 \<Rightarrow> word64" where
  "seL4_MessageInfo_new label unwrapped extra len =
     push_bit 12 label OR push_bit 9 (unwrapped AND 7) OR push_bit 7 (extra AND 3) OR len AND 0x7f"

definition messageInfoFromWord_raw :: "word64 \<Rightarrow> word64" where
  "messageInfoFromWord_raw w = w"

definition messageInfoFromWord :: "word64 \<Rightarrow> word64" where
  "messageInfoFromWord w =
     (let mi = w;
          len = seL4_MessageInfo_get_length mi
      in if len > seL4_MsgMaxLength then seL4_MessageInfo_set_length mi seL4_MsgMaxLength else mi)"

definition wordFromMessageInfo :: "word64 \<Rightarrow> word64" where
  "wordFromMessageInfo mi = mi"

section \<open>Capability rights\<close>

definition rightsFromWord :: "word64 \<Rightarrow> word64" where
  "rightsFromWord w = w"

definition seL4_CapRights_get_capAllowWrite :: "word64 \<Rightarrow> bool" where
  "seL4_CapRights_get_capAllowWrite r = bit r 0"

definition seL4_CapRights_get_capAllowRead :: "word64 \<Rightarrow> bool" where
  "seL4_CapRights_get_capAllowRead r = bit r 1"

definition seL4_CapRights_get_capAllowGrant :: "word64 \<Rightarrow> bool" where
  "seL4_CapRights_get_capAllowGrant r = bit r 2"

definition seL4_CapRights_get_capAllowGrantReply :: "word64 \<Rightarrow> bool" where
  "seL4_CapRights_get_capAllowGrantReply r = bit r 3"

section \<open>Message words\<close>

text \<open>Word \<open>i\<close> of the array at \<open>p\<close>; an IPC buffer is such an array.\<close>

definition load :: "ptr \<Rightarrow> word64 \<Rightarrow> kstate \<Rightarrow> word64" where
  "load p i s = mem s (p + 8 * i)"

definition store :: "ptr \<Rightarrow> word64 \<Rightarrow> word64 \<Rightarrow> kstate \<Rightarrow> kstate" where
  "store p i v s = s\<lparr>mem := (mem s)(p + 8 * i := v)\<rparr>"

definition getSyscallArg :: "word64 \<Rightarrow> ptr \<Rightarrow> kstate \<Rightarrow> word64" where
  "getSyscallArg i ipc_buffer s =
     (if i < n_msgRegisters then getRegister (ksCurThread s) (msgRegisters ! unat i) s
      else load ipc_buffer (i + 1) s)"

definition mode_parseTimeArg :: "word64 \<Rightarrow> ptr \<Rightarrow> kstate \<Rightarrow> ticks" where
  "mode_parseTimeArg i buffer s = getSyscallArg i buffer s"

definition TIME_ARG_SIZE :: word64 where
  "TIME_ARG_SIZE = 1"

definition setMR :: "ptr \<Rightarrow> ptr \<Rightarrow> 32 word \<Rightarrow> word64 \<Rightarrow> kstate \<Rightarrow> 32 word \<times> kstate" where
  "setMR receiver receiveIPCBuffer offset w s =
     (if offset \<ge> ucast n_msgRegisters
      then if receiveIPCBuffer \<noteq> NULL
           then (offset + 1, store receiveIPCBuffer (ucast (offset + 1)) w s)
           else (ucast n_msgRegisters, s)
      else (offset + 1, setRegister receiver (msgRegisters ! unat offset) w s))"

definition getExtraCPtr :: "ptr \<Rightarrow> word64 \<Rightarrow> kstate \<Rightarrow> word64" where
  "getExtraCPtr bufferPtr i s = load bufferPtr (seL4_MsgMaxLength + 2 + i) s"

definition setExtraBadge :: "ptr \<Rightarrow> word64 \<Rightarrow> word64 \<Rightarrow> kstate \<Rightarrow> kstate" where
  "setExtraBadge bufferPtr badge i s = store bufferPtr (seL4_MsgMaxLength + 2 + i) badge s"

text \<open>The two loops of \<open>copyMRs\<close>: message registers, then the words of the buffers.\<close>

function copyMRs_regs :: "ptr \<Rightarrow> ptr \<Rightarrow> word64 \<Rightarrow> word64 \<Rightarrow> kstate \<Rightarrow> word64 \<times> kstate" where
  "copyMRs_regs sender receiver i n s =
     (if i < n \<and> i < n_msgRegisters
      then copyMRs_regs sender receiver (i + 1) n
             (setRegister receiver (msgRegisters ! unat i)
               (getRegister sender (msgRegisters ! unat i) s) s)
      else (i, s))"
  by pat_completeness auto
termination
  by (relation "measure (\<lambda>(sender, receiver, i, n, s). unat n - unat i)")
    (auto simp: word_less_nat_alt unat_suc_nowrap)

function copyMRs_bufs :: "ptr \<Rightarrow> ptr \<Rightarrow> word64 \<Rightarrow> word64 \<Rightarrow> kstate \<Rightarrow> word64 \<times> kstate" where
  "copyMRs_bufs sendBuf recvBuf i n s =
     (if i < n
      then copyMRs_bufs sendBuf recvBuf (i + 1) n (store recvBuf (i + 1) (load sendBuf (i + 1) s) s)
      else (i, s))"
  by pat_completeness auto
termination
  by (relation "measure (\<lambda>(sendBuf, recvBuf, i, n, s). unat n - unat i)")
    (auto simp: word_less_nat_alt unat_suc_nowrap)

declare copyMRs_regs.simps [simp del] copyMRs_bufs.simps [simp del]

definition copyMRs :: "ptr \<Rightarrow> ptr \<Rightarrow> ptr \<Rightarrow> ptr \<Rightarrow> word64 \<Rightarrow> kstate \<Rightarrow> word64 \<times> kstate" where
  "copyMRs sender sendBuf receiver recvBuf n s =
     (let (i, s) = copyMRs_regs sender receiver 0 n s
      in if recvBuf = NULL \<or> sendBuf = NULL then (i, s)
         else copyMRs_bufs sendBuf recvBuf i n s)"

section \<open>Errors\<close>

datatype syscall_error =
    seL4_InvalidArgument (invalidArgumentNumber: word64)
  | seL4_InvalidCapability (invalidCapNumber: word64)
  | seL4_IllegalOperation
  | seL4_RangeError (rangeErrorMin: word64) (rangeErrorMax: word64)
  | seL4_AlignmentError
  | seL4_FailedLookup (failedLookupWasSource: bool)
  | seL4_TruncatedMessage
  | seL4_DeleteFirst
  | seL4_RevokeFirst
  | seL4_NotEnoughMemory (memoryLeft: word64)

datatype exception =
    EXCEPTION_NONE
  | EXCEPTION_FAULT
  | EXCEPTION_LOOKUP_FAULT
  | EXCEPTION_SYSCALL_ERROR
  | EXCEPTION_PREEMPTED

end
