(* ===== verification/AddrSpace.thy ===== *)
theory AddrSpace
  imports Machine
begin

text \<open>
  Address spaces as the scheduler sees them: the layout of a thread's capability slots, the table of address space
  identifiers and the translation register, from \<^verbatim>\<open>src/kernel/arch/riscv/kernel/vspace.c\<close> and
  \<^verbatim>\<open>arch/riscv/kernel/thread.c\<close>. Page tables and their invocations are in the theory \<^verbatim>\<open>VSpace\<close>.

  \<open>vm_root\<close> is the value the translation register must have for a thread: the root page table and the identifier of
  its address space while the identifier still names that table, otherwise the kernel's own page table.
\<close>

section \<open>Sizes and slots\<close>

definition seL4_SlotBits :: word64 where "seL4_SlotBits = 5"
definition seL4_TCBBits :: word64 where "seL4_TCBBits = 10"
definition seL4_PageBits :: word64 where "seL4_PageBits = 12"
definition asidInvalid :: word64 where "asidInvalid = 0"

definition sizeof_cte :: word64 where
  "sizeof_cte = 32"

definition cte_at :: "ptr \<Rightarrow> word64 \<Rightarrow> ptr" where
  "cte_at p i = p + sizeof_cte * i"

definition TCB_PTR_CTE_PTR :: "ptr \<Rightarrow> word64 \<Rightarrow> ptr" where
  "TCB_PTR_CTE_PTR p i = cte_at (p AND NOT (MASK seL4_TCBBits)) i"

abbreviation (input) tcbCTable :: word64 where "tcbCTable \<equiv> 0"
abbreviation (input) tcbVTable :: word64 where "tcbVTable \<equiv> 1"
abbreviation (input) tcbBuffer :: word64 where "tcbBuffer \<equiv> 2"
abbreviation (input) tcbFaultHandler :: word64 where "tcbFaultHandler \<equiv> 3"
abbreviation (input) tcbTimeoutHandler :: word64 where "tcbTimeoutHandler \<equiv> 4"
abbreviation (input) tcbCNodeEntries :: word64 where "tcbCNodeEntries \<equiv> 5"

section \<open>Physical addresses\<close>

definition PPTR_BASE :: word64 where "PPTR_BASE = 0xFFFFFFC000000000"
definition PADDR_BASE :: word64 where "PADDR_BASE = 0"
definition PPTR_BASE_OFFSET :: word64 where "PPTR_BASE_OFFSET = PPTR_BASE - PADDR_BASE"

definition ptrFromPAddr :: "word64 \<Rightarrow> ptr" where
  "ptrFromPAddr paddr = paddr + PPTR_BASE_OFFSET"

definition addrFromPPtr :: "ptr \<Rightarrow> word64" where
  "addrFromPPtr pptr = pptr - PPTR_BASE_OFFSET"

definition addrFromKPPtr :: "ptr \<Rightarrow> kstate \<Rightarrow> word64" where
  "addrFromKPPtr pptr s = pptr - pKernelELFOffset (plat s)"

section \<open>Address space identifiers\<close>

definition asidHighBits :: word64 where "asidHighBits = 7"
definition asidLowBits :: word64 where "asidLowBits = 9"
definition nASIDPools :: word64 where "nASIDPools = BIT asidHighBits"

definition ASID_LOW :: "word64 \<Rightarrow> word64" where
  "ASID_LOW a = a AND MASK asidLowBits"

definition ASID_HIGH :: "word64 \<Rightarrow> word64" where
  "ASID_HIGH a = drop_bit (unat asidLowBits) a"

definition findVSpaceForASID :: "word64 \<Rightarrow> kstate \<Rightarrow> lookup_fault + ptr" where
  "findVSpaceForASID asid s =
     (let poolPtr = riscvKSASIDTable s (ASID_HIGH asid)
      in if poolPtr = NULL then Inl InvalidRoot
         else let vspace_root = asid_pools s poolPtr (ASID_LOW asid)
              in if vspace_root = NULL then Inl InvalidRoot else Inr vspace_root)"

section \<open>The translation register\<close>

definition SATP_MODE :: word64 where "SATP_MODE = 8"

definition satp_new :: "word64 \<Rightarrow> word64 \<Rightarrow> word64 \<Rightarrow> word64" where
  "satp_new mode asid ppn = push_bit 60 (mode AND 0xF) OR push_bit 44 (asid AND 0xFFFF) OR ppn AND 0xFFFFFFFFFFF"

definition setVSpaceRoot :: "word64 \<Rightarrow> word64 \<Rightarrow> kstate \<Rightarrow> kstate" where
  "setVSpaceRoot addr asid s = s\<lparr>hwSATP := satp_new SATP_MODE asid (drop_bit (unat seL4_PageBits) addr)\<rparr>"

definition setVMRoot :: "ptr \<Rightarrow> kstate \<Rightarrow> kstate" where
  "setVMRoot tcb s =
     (case cteCap (ctes s (TCB_PTR_CTE_PTR tcb tcbVTable)) of
        PageTableCap asid lvl1pt _ _ \<Rightarrow>
          if findVSpaceForASID asid s \<noteq> Inr lvl1pt
          then setVSpaceRoot (addrFromKPPtr (pKernelRootPT (plat s)) s) 0 s
          else setVSpaceRoot (addrFromPPtr lvl1pt) asid s
      | _ \<Rightarrow> setVSpaceRoot (addrFromKPPtr (pKernelRootPT (plat s)) s) 0 s)"

definition Arch_switchToThread :: "ptr \<Rightarrow> kstate \<Rightarrow> kstate" where
  "Arch_switchToThread tcb s = setVMRoot tcb s"

definition Arch_switchToIdleThread :: "kstate \<Rightarrow> kstate" where
  "Arch_switchToIdleThread s = setVMRoot (ksIdleThread s) s"

text \<open>The value that \<open>setVMRoot\<close> leaves in the translation register.\<close>

definition vm_root :: "ptr \<Rightarrow> kstate \<Rightarrow> word64" where
  "vm_root t s =
     (let kernel = satp_new SATP_MODE 0 (drop_bit (unat seL4_PageBits) (addrFromKPPtr (pKernelRootPT (plat s)) s))
      in case cteCap (ctes s (TCB_PTR_CTE_PTR t tcbVTable)) of
           PageTableCap asid lvl1pt _ _ \<Rightarrow>
             if findVSpaceForASID asid s = Inr lvl1pt
             then satp_new SATP_MODE asid (drop_bit (unat seL4_PageBits) (addrFromPPtr lvl1pt)) else kernel
         | _ \<Rightarrow> kernel)"

lemma setVMRoot_eq: "setVMRoot t s = s\<lparr>hwSATP := vm_root t s\<rparr>"
  by (cases "cteCap (ctes s (TCB_PTR_CTE_PTR t tcbVTable))")
    (auto simp: setVMRoot_def vm_root_def setVSpaceRoot_def Let_def)

lemma vm_root_cong:
  assumes "plat s' = plat s" "ctes s' = ctes s" "asid_pools s' = asid_pools s" "riscvKSASIDTable s' = riscvKSASIDTable s"
  shows "vm_root t s' = vm_root t s"
proof -
  have "findVSpaceForASID a s' = findVSpaceForASID a s" for a
    unfolding findVSpaceForASID_def assms ..
  note f = this
  show ?thesis unfolding vm_root_def addrFromKPPtr_def f assms ..
qed

lemma vm_root_updates [simp]:
  "vm_root t (s\<lparr>hwSATP := x\<rparr>) = vm_root t s" "vm_root t (s\<lparr>ksCurThread := c\<rparr>) = vm_root t s"
  by (rule vm_root_cong; simp)+

end
