(* ===== verification/Scheduler.thy ===== *)
theory Scheduler
  imports TcbQueue AddrSpace
begin

text \<open>
  The scheduler: the scheduling half of \<^verbatim>\<open>src/kernel/kernel/thread.c\<close>, the time-keeping functions
  of \<^verbatim>\<open>include/kernel/thread.h\<close> and the domain schedule of \<^verbatim>\<open>include/object/domain.h\<close>.

  Reading the clock is an argument (\<open>now\<close>), programming the timer writes \<open>hwDeadline\<close>. Switching to a
  thread writes the translation register; the other architecture hooks are empty on RISC-V.
\<close>

section \<open>The domain schedule\<close>

definition DSCHED_DOMAIN_BITS :: nat where
  "DSCHED_DOMAIN_BITS = 8"

definition DSCHED_DOMAIN_SHIFT :: nat where
  "DSCHED_DOMAIN_SHIFT = 64 - DSCHED_DOMAIN_BITS"

definition DSCHED_MAX_DURATION :: word64 where
  "DSCHED_MAX_DURATION = drop_bit DSCHED_DOMAIN_BITS (- 1)"

definition dschedule_make :: "word64 \<Rightarrow> ticks \<Rightarrow> word64" where
  "dschedule_make domain duration = push_bit DSCHED_DOMAIN_SHIFT domain OR duration"

definition dschedule_domain :: "word64 \<Rightarrow> word64" where
  "dschedule_domain sched = drop_bit DSCHED_DOMAIN_SHIFT sched"

definition dschedule_duration :: "word64 \<Rightarrow> ticks" where
  "dschedule_duration sched = sched AND DSCHED_MAX_DURATION"

definition dschedule_is_end_marker :: "word64 \<Rightarrow> kstate \<Rightarrow> bool" where
  "dschedule_is_end_marker index s \<longleftrightarrow> ksDomSchedule s index = 0"

definition nextDomain :: "kstate \<Rightarrow> kstate" where
  "nextDomain s =
     (let s = s\<lparr>ksDomScheduleIdx := ksDomScheduleIdx s + 1\<rparr>;
          s = (if dschedule_is_end_marker (ksDomScheduleIdx s) s
               then s\<lparr>ksDomScheduleIdx := ksDomScheduleStart s\<rparr> else s);
          s = s\<lparr>ksReprogram := True\<rparr>;
          s = s\<lparr>ksWorkUnitsCompleted := 0\<rparr>;
          s = s\<lparr>ksCurDomain := dschedule_domain (ksDomSchedule s (ksDomScheduleIdx s))\<rparr>
      in s\<lparr>ksDomainTime := dschedule_duration (ksDomSchedule s (ksDomScheduleIdx s))\<rparr>)"

section \<open>Scheduling decisions\<close>

definition rescheduleRequired :: "kstate \<Rightarrow> kstate" where
  "rescheduleRequired s =
     (let s = (if ksSchedulerAction s \<noteq> SchedulerAction_ResumeCurrentThread
                  \<and> ksSchedulerAction s \<noteq> SchedulerAction_ChooseNewThread
                  \<and> isSchedulable (ksSchedulerAction s) s
               then tcbSchedEnqueue (ksSchedulerAction s) s else s)
      in s\<lparr>ksSchedulerAction := SchedulerAction_ChooseNewThread\<rparr>)"

definition scheduleTCB :: "ptr \<Rightarrow> kstate \<Rightarrow> kstate" where
  "scheduleTCB tptr s =
     (if tptr = ksCurThread s \<and> ksSchedulerAction s = SchedulerAction_ResumeCurrentThread
         \<and> \<not> isSchedulable tptr s
      then s\<lparr>ksSchedulerAction := SchedulerAction_ChooseNewThread\<rparr> else s)"

definition setThreadState :: "ptr \<Rightarrow> tstate \<Rightarrow> kstate \<Rightarrow> kstate" where
  "setThreadState tptr ts s = scheduleTCB tptr (upd_ts tptr (tsType_update (\<lambda>_. ts)) s)"

definition setThreadStateBlockedOnReply :: "ptr \<Rightarrow> ptr \<Rightarrow> kstate \<Rightarrow> kstate" where
  "setThreadStateBlockedOnReply tptr rply s =
     (let s = upd_ts tptr (tsType_update (\<lambda>_. ThreadState_BlockedOnReply)) s;
          s = upd_ts tptr (replyObject_update (\<lambda>_. rply)) s
      in scheduleTCB tptr s)"

definition possibleSwitchTo :: "ptr \<Rightarrow> kstate \<Rightarrow> kstate" where
  "possibleSwitchTo target s =
     (if tcbSchedContext (tcbs s target) \<noteq> NULL \<and> \<not> tcbInReleaseQueue (tcbState (tcbs s target))
      then if ksCurDomain s \<noteq> tcbDomain (tcbs s target) then tcbSchedEnqueue target s
           else if ksSchedulerAction s \<noteq> SchedulerAction_ResumeCurrentThread
           then tcbSchedEnqueue target (rescheduleRequired s)
           else s\<lparr>ksSchedulerAction := target\<rparr>
      else s)"

definition switchToThread :: "ptr \<Rightarrow> kstate \<Rightarrow> kstate" where
  "switchToThread thread s =
     (let s = Arch_switchToThread thread s;
          s = tcbSchedDequeue thread s
      in s\<lparr>ksCurThread := thread\<rparr>)"

definition switchToIdleThread :: "kstate \<Rightarrow> kstate" where
  "switchToIdleThread s =
     (let s = Arch_switchToIdleThread s
      in s\<lparr>ksCurThread := ksIdleThread s\<rparr>)"

definition chooseThread :: "kstate \<Rightarrow> kstate" where
  "chooseThread s =
     (let dm = (if numDomains s > 1 then ksCurDomain s else 0)
      in if ksReadyQueuesL1Bitmap s dm \<noteq> 0
         then let prio = getHighestPrio dm s;
                  thread = head (ksReadyQueues s (ready_queues_index dm prio s))
              in switchToThread thread s
         else switchToIdleThread s)"

definition scheduleChooseNewThread :: "kstate \<Rightarrow> kstate" where
  "scheduleChooseNewThread s = chooseThread (if ksDomainTime s = 0 then nextDomain s else s)"

definition setDomain :: "ptr \<Rightarrow> word64 \<Rightarrow> kstate \<Rightarrow> kstate" where
  "setDomain tptr dm s =
     (let s = tcbSchedDequeue tptr s;
          s = upd_tcb tptr (tcbDomain_update (\<lambda>_. dm)) s;
          s = (if isSchedulable tptr s then tcbSchedEnqueue tptr s else s)
      in if tptr = ksCurThread s then rescheduleRequired s else s)"

definition setMCPriority :: "ptr \<Rightarrow> word64 \<Rightarrow> kstate \<Rightarrow> kstate" where
  "setMCPriority tptr mcp s = upd_tcb tptr (tcbMCP_update (\<lambda>_. mcp)) s"

section \<open>Time\<close>

definition isCurDomainExpired :: "kstate \<Rightarrow> bool" where
  "isCurDomainExpired s \<longleftrightarrow> numDomains s > 1 \<and> ksDomainTime s = 0"

definition commitTime :: "kstate \<Rightarrow> kstate option" where
  "commitTime s = do {
     let sc = ksCurSC s;
     s \<leftarrow> (if sc_active sc s \<and> sc \<noteq> ksIdleSC s
           then do {
             s \<leftarrow> (if ksConsumed s > 0
                   then if isRoundRobin sc s
                        then let s = upd_refill_head sc (rAmount_update (\<lambda>a. a - ksConsumed s)) s
                             in Some (upd_refill_tail sc (rAmount_update (\<lambda>a. a + ksConsumed s)) s)
                        else refill_budget_check (ksConsumed s) s
                   else Some s);
             Some (upd_sc sc (scConsumed_update (\<lambda>c. c + ksConsumed s)) s)
           }
           else Some s);
     Some (s\<lparr>ksConsumed := 0\<rparr>)
   }"

definition updateTimestamp :: "ticks \<Rightarrow> kstate \<Rightarrow> kstate" where
  "updateTimestamp now s =
     (let prev = ksCurTime s;
          s = s\<lparr>ksCurTime := now\<rparr>;
          consumed = ksCurTime s - prev;
          s = s\<lparr>ksConsumed := ksConsumed s + consumed\<rparr>
      in if numDomains s > 1
         then if consumed + MIN_BUDGET s \<ge> ksDomainTime s then s\<lparr>ksDomainTime := 0\<rparr>
              else s\<lparr>ksDomainTime := ksDomainTime s - consumed\<rparr>
         else s)"

definition checkDomainTime :: "kstate \<Rightarrow> kstate" where
  "checkDomainTime s =
     (if isCurDomainExpired s then rescheduleRequired (s\<lparr>ksReprogram := True\<rparr>) else s)"

definition postpone :: "ptr \<Rightarrow> kstate \<Rightarrow> kstate option" where
  "postpone sc s = do {
     let tcb = scTcb (scs s sc);
     let s = tcbSchedDequeue tcb s;
     s \<leftarrow> tcbReleaseEnqueue tcb s;
     Some (s\<lparr>ksReprogram := True\<rparr>)
   }"

definition setDeadline :: "ticks \<Rightarrow> kstate \<Rightarrow> kstate" where
  "setDeadline deadline s = s\<lparr>hwDeadline := deadline\<rparr>"

definition setNextInterrupt :: "kstate \<Rightarrow> kstate" where
  "setNextInterrupt s =
     (let ct_head_refill = refill_head (tcbSchedContext (tcbs s (ksCurThread s))) s;
          next_interrupt = ksCurTime s + rAmount ct_head_refill;
          next_interrupt = (if numDomains s > 1 then min next_interrupt (ksCurTime s + ksDomainTime s)
                            else next_interrupt);
          rlq_head = head (ksReleaseQueue s);
          next_interrupt =
            (if rlq_head \<noteq> NULL
             then min (rTime (refill_head (tcbSchedContext (tcbs s rlq_head)) s)) next_interrupt
             else next_interrupt)
      in setDeadline (next_interrupt - pTimerPrecision (plat s)) s)"

definition release_q_non_empty_and_ready :: "kstate \<Rightarrow> bool" where
  "release_q_non_empty_and_ready s \<longleftrightarrow>
     head (ksReleaseQueue s) \<noteq> NULL \<and>
     refill_ready (tcbSchedContext (tcbs s (head (ksReleaseQueue s)))) s"

definition tcbReleaseDequeue :: "kstate \<Rightarrow> kstate" where
  "tcbReleaseDequeue s =
     (let awakened = head (ksReleaseQueue s);
          s = tcbReleaseRemove awakened s
      in possibleSwitchTo awakened s)"

partial_function (option) awaken :: "kstate \<Rightarrow> kstate option" where
  [code]: "awaken s = (if release_q_non_empty_and_ready s then awaken (tcbReleaseDequeue s) else Some s)"

section \<open>The scheduler\<close>

definition switchSchedContext :: "kstate \<Rightarrow> kstate option" where
  "switchSchedContext s = do {
     let sc = tcbSchedContext (tcbs s (ksCurThread s));
     s \<leftarrow> (if ksCurSC s \<noteq> sc
           then let s = s\<lparr>ksReprogram := True\<rparr>
                in if sc_constant_bandwidth sc s then refill_unblock_check sc s else Some s
           else Some s);
     s \<leftarrow> (if ksReprogram s then commitTime s else Some s);
     Some (s\<lparr>ksCurSC := tcbSchedContext (tcbs s (ksCurThread s))\<rparr>)
   }"

definition schedule_action :: "kstate \<Rightarrow> kstate" where
  "schedule_action s =
     (if ksSchedulerAction s \<noteq> SchedulerAction_ResumeCurrentThread
      then let was_runnable = isSchedulable (ksCurThread s) s;
               s = (if was_runnable then tcbSchedEnqueue (ksCurThread s) s else s)
           in if ksSchedulerAction s = SchedulerAction_ChooseNewThread
              then scheduleChooseNewThread s
              else let candidate = ksSchedulerAction s;
                       fastfail = (ksCurThread s = ksIdleThread s \<or>
                         tcbPriority (tcbs s candidate) < tcbPriority (tcbs s (ksCurThread s)))
                   in if fastfail \<and> \<not> isHighestPrio (ksCurDomain s) (tcbPriority (tcbs s candidate)) s
                      then scheduleChooseNewThread
                             ((tcbSchedEnqueue candidate s)
                                \<lparr>ksSchedulerAction := SchedulerAction_ChooseNewThread\<rparr>)
                      else if was_runnable \<and>
                        tcbPriority (tcbs s candidate) = tcbPriority (tcbs s (ksCurThread s))
                      then scheduleChooseNewThread
                             ((tcbSchedAppend candidate s)
                                \<lparr>ksSchedulerAction := SchedulerAction_ChooseNewThread\<rparr>)
                      else switchToThread candidate s
      else s)"

definition schedule :: "kstate \<Rightarrow> kstate option" where
  "schedule s = do {
     s \<leftarrow> awaken s;
     let s = checkDomainTime s;
     let s = schedule_action s;
     let s = s\<lparr>ksSchedulerAction := SchedulerAction_ResumeCurrentThread\<rparr>;
     s \<leftarrow> switchSchedContext s;
     Some (if ksReprogram s then (setNextInterrupt s)\<lparr>ksReprogram := False\<rparr> else s)
   }"

section \<open>What scheduling operations leave alone\<close>

text \<open>
  \<open>sched_core s s'\<close>: the two states differ at most in the scheduler queues (links, membership flags,
  queue heads, bitmaps), in the scheduler's pending action and in the reprogramming flag.
\<close>

definition erase_tcb :: "tcb \<Rightarrow> tcb" where
  "erase_tcb t = t\<lparr>tcbSchedNext := NULL, tcbSchedPrev := NULL,
     tcbState := (tcbState t)\<lparr>tcbQueued := False, tcbInReleaseQueue := False\<rparr>\<rparr>"

definition erase_sched :: "kstate \<Rightarrow> kstate" where
  "erase_sched s = s\<lparr>tcbs := \<lambda>p. erase_tcb (tcbs s p), ksReadyQueues := \<lambda>_. \<lparr>head = NULL, qend = NULL\<rparr>,
     ksReadyQueuesL1Bitmap := \<lambda>_. 0, ksReadyQueuesL2Bitmap := \<lambda>_ _. 0,
     ksReleaseQueue := \<lparr>head = NULL, qend = NULL\<rparr>, ksReprogram := False, ksSchedulerAction := NULL\<rparr>"

definition sched_core :: "kstate \<Rightarrow> kstate \<Rightarrow> bool" where
  "sched_core s s' \<longleftrightarrow> erase_sched s' = erase_sched s"

lemma sched_core_refl [simp]: "sched_core s s"
  by (simp add: sched_core_def)

lemma sched_core_trans [trans]: "sched_core s s' \<Longrightarrow> sched_core s' s'' \<Longrightarrow> sched_core s s''"
  by (simp add: sched_core_def)

lemma erase_tcb_upd [simp]:
  "erase_tcb (t\<lparr>tcbSchedNext := v\<rparr>) = erase_tcb t" "erase_tcb (t\<lparr>tcbSchedPrev := v\<rparr>) = erase_tcb t"
  "erase_tcb (tcbState_update (tcbQueued_update f) t) = erase_tcb t"
  "erase_tcb (tcbState_update (tcbInReleaseQueue_update f) t) = erase_tcb t"
  by (simp_all add: erase_tcb_def)

lemma erase_sched_tcb:
  assumes "erase_tcb (f (tcbs s p)) = erase_tcb (tcbs s p)"
  shows "erase_sched (upd_tcb p f s) = erase_sched s"
proof -
  have "(\<lambda>q. erase_tcb (((tcbs s)(p := f (tcbs s p))) q)) = (\<lambda>q. erase_tcb (tcbs s q))"
    using assms by auto
  then show ?thesis unfolding erase_sched_def upd_tcb_def by simp
qed

lemma erase_sched_step [simp]:
  "erase_sched (set_schedNext p v s) = erase_sched s" "erase_sched (set_schedPrev p v s) = erase_sched s"
  "erase_sched (upd_ts p (tcbQueued_update f) s) = erase_sched s"
  "erase_sched (upd_ts p (tcbInReleaseQueue_update f) s) = erase_sched s"
  "erase_sched (s\<lparr>ksReprogram := b\<rparr>) = erase_sched s"
  "erase_sched (s\<lparr>ksSchedulerAction := a\<rparr>) = erase_sched s"
  "erase_sched (s\<lparr>ksReleaseQueue := q\<rparr>) = erase_sched s"
  "erase_sched (set_ready_queue i q s) = erase_sched s"
  "erase_sched (addToBitmap d p' s) = erase_sched s"
  "erase_sched (removeFromBitmap d p' s) = erase_sched s"
  by (simp_all add: set_schedNext_def set_schedPrev_def upd_ts_def erase_sched_tcb)
    (simp_all add: erase_sched_def set_ready_queue_def addToBitmap_def removeFromBitmap_def Let_def)

lemma erase_queue_ops:
  "erase_sched (snd (tcb_queue_prepend q t s)) = erase_sched s"
  "erase_sched (snd (tcb_queue_append q t s)) = erase_sched s"
  "erase_sched (snd (tcb_queue_remove q t s)) = erase_sched s"
  by (simp_all add: tcb_queue_prepend_def tcb_queue_append_def tcb_queue_remove_def Let_def)

lemma sched_core_ops [simp]:
  "sched_core s (tcbSchedEnqueue t s)" "sched_core s (tcbSchedAppend t s)"
  "sched_core s (tcbSchedDequeue t s)" "sched_core s (tcbReleaseRemove t s)"
  using erase_queue_ops
  by (simp_all add: sched_core_def tcbSchedEnqueue_def tcbSchedAppend_def tcbSchedDequeue_def
      tcbReleaseRemove_def Let_def split: prod.splits)
    (metis erase_sched_step(5,9) snd_conv)+

lemma sched_coreD:
  assumes "sched_core s s'"
  shows "scs s' = scs s" "refills s' = refills s" "plat s' = plat s" "ksCurTime s' = ksCurTime s"
    "ksCurThread s' = ksCurThread s" "ksIdleThread s' = ksIdleThread s" "ksCurDomain s' = ksCurDomain s"
    "ksCurSC s' = ksCurSC s" "ksDomainTime s' = ksDomainTime s" "ksConsumed s' = ksConsumed s"
    "ksDomSchedule s' = ksDomSchedule s" "ksDomScheduleIdx s' = ksDomScheduleIdx s"
    "ksDomScheduleStart s' = ksDomScheduleStart s"
    "tcbPriority (tcbs s' t) = tcbPriority (tcbs s t)" "tcbDomain (tcbs s' t) = tcbDomain (tcbs s t)"
    "tcbSchedContext (tcbs s' t) = tcbSchedContext (tcbs s t)"
    "tsType (tcbState (tcbs s' t)) = tsType (tcbState (tcbs s t))"
proof -
  from assms have e: "erase_sched s' = erase_sched s" by (simp add: sched_core_def)
  show "scs s' = scs s" "refills s' = refills s" "plat s' = plat s" "ksCurTime s' = ksCurTime s"
    "ksCurThread s' = ksCurThread s" "ksIdleThread s' = ksIdleThread s" "ksCurDomain s' = ksCurDomain s"
    "ksCurSC s' = ksCurSC s" "ksDomainTime s' = ksDomainTime s" "ksConsumed s' = ksConsumed s"
    "ksDomSchedule s' = ksDomSchedule s" "ksDomScheduleIdx s' = ksDomScheduleIdx s"
    "ksDomScheduleStart s' = ksDomScheduleStart s"
    using arg_cong [OF e, of scs] arg_cong [OF e, of refills] arg_cong [OF e, of plat]
      arg_cong [OF e, of ksCurTime] arg_cong [OF e, of ksCurThread] arg_cong [OF e, of ksIdleThread]
      arg_cong [OF e, of ksCurDomain] arg_cong [OF e, of ksCurSC] arg_cong [OF e, of ksDomainTime]
      arg_cong [OF e, of ksConsumed] arg_cong [OF e, of ksDomSchedule]
      arg_cong [OF e, of ksDomScheduleIdx] arg_cong [OF e, of ksDomScheduleStart]
    by (simp_all add: erase_sched_def)
  have "erase_tcb (tcbs s' t) = erase_tcb (tcbs s t)"
    using fun_cong [OF arg_cong [OF e, of tcbs], of t] by (simp add: erase_sched_def)
  from arg_cong [OF this, of tcbPriority] arg_cong [OF this, of tcbDomain]
    arg_cong [OF this, of tcbSchedContext] arg_cong [OF this, of "\<lambda>t. tsType (tcbState t)"]
  show "tcbPriority (tcbs s' t) = tcbPriority (tcbs s t)" "tcbDomain (tcbs s' t) = tcbDomain (tcbs s t)"
    "tcbSchedContext (tcbs s' t) = tcbSchedContext (tcbs s t)"
    "tsType (tcbState (tcbs s' t)) = tsType (tcbState (tcbs s t))"
    by (simp_all add: erase_tcb_def)
qed

text \<open>The operations change no thread state but the membership flag of their thread.\<close>

lemma state_set_links [simp]:
  "tcbState (tcbs (set_schedNext p v s) u) = tcbState (tcbs s u)"
  "tcbState (tcbs (set_schedPrev p v s) u) = tcbState (tcbs s u)"
  by (simp_all add: set_schedNext_def set_schedPrev_def)

lemma state_queue_ops [simp]:
  "tcbState (tcbs (snd (tcb_queue_prepend q t s)) u) = tcbState (tcbs s u)"
  "tcbState (tcbs (snd (tcb_queue_append q t s)) u) = tcbState (tcbs s u)"
  "tcbState (tcbs (snd (tcb_queue_remove q t s)) u) = tcbState (tcbs s u)"
  by (simp_all add: tcb_queue_prepend_def tcb_queue_append_def tcb_queue_remove_def Let_def)

lemma tcbs_set_ready_queue [simp]: "tcbs (set_ready_queue i q s) = tcbs s"
  by (simp add: set_ready_queue_def)

lemma state_enqueue:
  "tcbState (tcbs (tcbSchedEnqueue t s) u) =
     (if u = t then (tcbState (tcbs s t))\<lparr>tcbQueued := True\<rparr> else tcbState (tcbs s u))"
  by (auto simp: tcbSchedEnqueue_def Let_def upd_ts_def case_prod_unfold)

lemma state_append:
  "tcbState (tcbs (tcbSchedAppend t s) u) =
     (if u = t then (tcbState (tcbs s t))\<lparr>tcbQueued := True\<rparr> else tcbState (tcbs s u))"
  by (auto simp: tcbSchedAppend_def Let_def upd_ts_def case_prod_unfold)

lemma state_dequeue:
  "tcbState (tcbs (tcbSchedDequeue t s) u) =
     (if u = t then (tcbState (tcbs s t))\<lparr>tcbQueued := False\<rparr> else tcbState (tcbs s u))"
  by (auto simp: tcbSchedDequeue_def Let_def upd_ts_def case_prod_unfold)

lemma state_release_remove:
  "tcbState (tcbs (tcbReleaseRemove t s) u) =
     (if u = t then (tcbState (tcbs s t))\<lparr>tcbInReleaseQueue := False\<rparr> else tcbState (tcbs s u))"
  by (auto simp: tcbReleaseRemove_def Let_def upd_ts_def case_prod_unfold)

lemmas state_ops = state_enqueue state_append state_dequeue state_release_remove

lemma action_ops [simp]:
  "ksSchedulerAction (tcbSchedEnqueue t s) = ksSchedulerAction s"
  "ksSchedulerAction (tcbSchedAppend t s) = ksSchedulerAction s"
  "ksSchedulerAction (tcbSchedDequeue t s) = ksSchedulerAction s"
  "ksSchedulerAction (tcbReleaseRemove t s) = ksSchedulerAction s"
  by (simp_all add: tcbSchedEnqueue_def tcbSchedAppend_def tcbSchedDequeue_def tcbReleaseRemove_def Let_def
      case_prod_unfold tcb_queue_prepend_def tcb_queue_append_def tcb_queue_remove_def
      set_schedNext_def set_schedPrev_def upd_ts_def set_ready_queue_def addToBitmap_def removeFromBitmap_def)

section \<open>Rescheduling keeps the invariant and loses no thread\<close>

text \<open>
  \<open>waiting u s\<close>: the scheduler knows of thread \<open>u\<close>, because it is queued or is the pending candidate.
\<close>

definition waiting :: "ptr \<Rightarrow> kstate \<Rightarrow> bool" where
  "waiting u s \<longleftrightarrow> tcbQueued (tcbState (tcbs s u)) \<or>
     (ksSchedulerAction s = u \<and> u \<noteq> SchedulerAction_ResumeCurrentThread \<and> u \<noteq> SchedulerAction_ChooseNewThread)"

lemmas action_codes = SchedulerAction_ResumeCurrentThread_def SchedulerAction_ChooseNewThread_def

lemma sched_core_reschedule [simp]: "sched_core s (rescheduleRequired s)"
  using sched_core_ops(1) [of s "ksSchedulerAction s"]
  by (auto simp: rescheduleRequired_def Let_def sched_core_def)

lemma rescheduleRequired_valid:
  assumes "valid_sched Q R s"
  shows "\<exists>Q'. valid_sched Q' R (rescheduleRequired s)"
proof (cases "ksSchedulerAction s \<noteq> SchedulerAction_ResumeCurrentThread
    \<and> ksSchedulerAction s \<noteq> SchedulerAction_ChooseNewThread \<and> isSchedulable (ksSchedulerAction s) s")
  case True
  then have "\<exists>Q'. valid_sched Q' R (tcbSchedEnqueue (ksSchedulerAction s) s)"
    using tcbSchedEnqueue_valid [OF assms] by (auto simp: isSchedulable_def action_codes)
  then obtain Q' where "valid_sched Q' R (tcbSchedEnqueue (ksSchedulerAction s) s)" by blast
  then have "valid_sched Q' R (rescheduleRequired s)"
    by (rule valid_sched_cong) (simp_all add: rescheduleRequired_def True)
  then show ?thesis by blast
next
  case False
  then have "valid_sched Q R (rescheduleRequired s)"
    by (intro valid_sched_cong [OF assms]) (simp_all add: rescheduleRequired_def Let_def if_not_P [OF False])
  then show ?thesis by blast
qed

lemma reschedule_state:
  "tcbQueued (tcbState (tcbs (rescheduleRequired s) u)) \<longleftrightarrow> tcbQueued (tcbState (tcbs s u)) \<or>
     (u = ksSchedulerAction s \<and> u \<noteq> SchedulerAction_ResumeCurrentThread \<and>
      u \<noteq> SchedulerAction_ChooseNewThread \<and> isSchedulable u s)"
  "tcbInReleaseQueue (tcbState (tcbs (rescheduleRequired s) u)) \<longleftrightarrow> tcbInReleaseQueue (tcbState (tcbs s u))"
  "ksSchedulerAction (rescheduleRequired s) = SchedulerAction_ChooseNewThread"
  by (auto simp: rescheduleRequired_def Let_def state_ops)

lemma isSchedulable_core:
  "sched_core s s' \<Longrightarrow> tcbInReleaseQueue (tcbState (tcbs s' t)) = tcbInReleaseQueue (tcbState (tcbs s t)) \<Longrightarrow>
     isSchedulable t s' = isSchedulable t s"
  by (simp add: isSchedulable_def isRunnable_def sc_active_def sched_coreD)

lemma sched_core_possibleSwitchTo [simp]: "sched_core s (possibleSwitchTo t s)"
  by (auto simp: possibleSwitchTo_def intro: sched_core_trans [OF sched_core_reschedule])
    (simp add: sched_core_def)

lemma possibleSwitchTo_valid:
  assumes v: "valid_sched Q R s" and t: "t \<noteq> NULL"
  shows "\<exists>Q'. valid_sched Q' R (possibleSwitchTo t s)"
proof -
  have enq: "\<exists>Q'. valid_sched Q' R (tcbSchedEnqueue t s1)"
    if "valid_sched Q1 R s1" "\<not> tcbInReleaseQueue (tcbState (tcbs s1 t))" for Q1 s1
    using tcbSchedEnqueue_valid [OF that(1) t that(2)] by blast
  obtain Q1 where v1: "valid_sched Q1 R (rescheduleRequired s)" using rescheduleRequired_valid [OF v] by blast
  have "valid_sched Q R (s\<lparr>ksSchedulerAction := t\<rparr>)" by (rule valid_sched_cong [OF v]) simp_all
  then show ?thesis
    using enq [OF v] enq [OF v1] v by (auto simp: possibleSwitchTo_def reschedule_state)
qed

lemma possibleSwitchTo_waiting:
  assumes "t \<noteq> NULL" "t \<noteq> SchedulerAction_ChooseNewThread"
    and "u = t \<or> waiting u s" "isSchedulable u s"
  shows "waiting u (possibleSwitchTo t s)"
  using assms
  by (auto simp: possibleSwitchTo_def waiting_def state_ops reschedule_state action_codes isSchedulable_def)

lemma possibleSwitchTo_release [simp]:
  "tcbInReleaseQueue (tcbState (tcbs (possibleSwitchTo t s) u)) = tcbInReleaseQueue (tcbState (tcbs s u))"
  by (auto simp: possibleSwitchTo_def state_ops reschedule_state)

section \<open>Waking up threads\<close>

lemma sched_core_ready:
  "sched_core s s' \<Longrightarrow> refill_ready (tcbSchedContext (tcbs s' t)) s' = refill_ready (tcbSchedContext (tcbs s t)) s"
  by (simp add: refill_ready_def refill_head_def refill_index_def sched_coreD)

lemma awaken_total:
  assumes "valid_sched Q R s" "SchedulerAction_ChooseNewThread \<notin> set R"
    and "\<And>u. u \<in> W \<Longrightarrow> isSchedulable u s \<Longrightarrow> waiting u s"
  shows "\<exists>s' Q'. awaken s = Some s' \<and>
    valid_sched Q' (dropWhile (\<lambda>t. refill_ready (tcbSchedContext (tcbs s t)) s) R) s' \<and> sched_core s s' \<and>
    (\<forall>u \<in> W \<union> set (takeWhile (\<lambda>t. refill_ready (tcbSchedContext (tcbs s t)) s) R). isSchedulable u s' \<longrightarrow> waiting u s')"
  using assms
proof (induction R arbitrary: s Q W)
  case Nil
  then have "head (ksReleaseQueue s) = NULL" using valid_schedD(5) by fastforce
  then have "awaken s = Some s" by (subst awaken.simps) (simp add: release_q_non_empty_and_ready_def)
  then show ?case using Nil by auto
next
  case (Cons t R)
  note V = valid_schedD [OF Cons.prems(1)]
  let ?P = "\<lambda>t. refill_ready (tcbSchedContext (tcbs s t)) s"
  have h: "head (ksReleaseQueue s) = t" using dlist_head [OF V(5)] by simp
  have t0: "t \<noteq> NULL" using dlist_not_NULL [OF V(5)] by simp
  have nt: "t \<notin> set R" using dlist_distinct [OF V(5)] by simp
  show ?case
  proof (cases "?P t")
    case False
    then have "awaken s = Some s" by (subst awaken.simps) (simp add: release_q_non_empty_and_ready_def h)
    then show ?thesis using Cons.prems False by auto
  next
    case True
    let ?s1 = "tcbReleaseRemove t s"
    let ?s2 = "possibleSwitchTo t ?s1"
    have v1: "valid_sched Q R ?s1" using tcbReleaseRemove_valid [OF Cons.prems(1), of t] by simp
    obtain Q2 where v2: "valid_sched Q2 R ?s2" using possibleSwitchTo_valid [OF v1 t0] by blast
    have core: "sched_core s ?s2" using sched_core_trans [OF sched_core_ops(4) sched_core_possibleSwitchTo] .
    have P: "(\<lambda>t. refill_ready (tcbSchedContext (tcbs ?s2 t)) ?s2) = ?P"
      using sched_core_ready [OF core] by blast
    have w: "waiting u ?s2" if "u \<in> insert t W" "isSchedulable u ?s2" for u
    proof (rule possibleSwitchTo_waiting [OF t0])
      show "t \<noteq> SchedulerAction_ChooseNewThread" using Cons.prems(2) by auto
      show s1: "isSchedulable u ?s1"
        using that(2) isSchedulable_core [OF sched_core_possibleSwitchTo possibleSwitchTo_release] by simp
      show "u = t \<or> waiting u ?s1"
      proof (cases "u = t")
        case False
        then have "isSchedulable u s"
          using s1 isSchedulable_core [OF sched_core_ops(4), of t s u] by (simp add: state_ops)
        then have "waiting u s" using Cons.prems(3) that(1) False by auto
        then show ?thesis using False by (simp add: waiting_def state_ops)
      qed simp
    qed
    have a: "awaken s = awaken ?s2"
      by (subst awaken.simps) (simp add: release_q_non_empty_and_ready_def h t0 True tcbReleaseDequeue_def Let_def)
    obtain s' Q' where "awaken ?s2 = Some s'" "valid_sched Q' (dropWhile ?P R) s'" "sched_core ?s2 s'"
      "\<forall>u \<in> insert t W \<union> set (takeWhile ?P R). isSchedulable u s' \<longrightarrow> waiting u s'"
      using Cons.IH [of Q2 ?s2 "insert t W", OF v2 _ w, unfolded P] Cons.prems(2) by auto
    then show ?thesis using a True sched_core_trans [OF core] by auto
  qed
qed

section \<open>The domain schedule\<close>

text \<open>
  Every entry is an end marker or a slice of non-zero length for an existing domain, the last
  entry is an end marker, and the start and the current index point below it.
\<close>

definition valid_dom_schedule :: "kstate \<Rightarrow> bool" where
  "valid_dom_schedule s \<longleftrightarrow>
     (\<forall>i < domScheduleLength s. ksDomSchedule s i = 0 \<or>
        dschedule_duration (ksDomSchedule s i) \<noteq> 0 \<and> dschedule_domain (ksDomSchedule s i) < numDomains s) \<and>
     2 \<le> domScheduleLength s \<and> ksDomSchedule s (domScheduleLength s - 1) = 0 \<and>
     ksDomScheduleStart s < domScheduleLength s - 1 \<and> ksDomSchedule s (ksDomScheduleStart s) \<noteq> 0 \<and>
     ksDomScheduleIdx s < domScheduleLength s - 1 \<and> ksCurDomain s < numDomains s"

lemma word_pred_less: "2 \<le> (n :: word64) \<Longrightarrow> i < n - 1 \<Longrightarrow> i + 1 < n \<and> i < n"
proof -
  assume n: "2 \<le> n" and i: "i < n - 1"
  have "1 \<le> n" using n by (simp add: word_le_nat_alt)
  then have "unat (n - 1) = unat n - 1" by (simp add: unat_sub_nowrap)
  then have "unat i < unat n - 1" using i by (simp add: word_less_nat_alt)
  moreover from this have "unat (i + 1) = unat i + 1"
    using unat_lt_64 [of n] by (intro unat_suc_nowrap [of i n]) simp
  ultimately have "unat (i + 1) < unat n" "unat i < unat n" by linarith+
  then show ?thesis by (simp add: word_less_nat_alt)
qed

lemma word_less_pred: "i < n \<Longrightarrow> i \<noteq> n - 1 \<Longrightarrow> i < n - (1 :: word64)"
proof -
  assume i: "i < n" "i \<noteq> n - 1"
  have u: "unat i < unat n" using i(1) by (simp add: word_less_nat_alt)
  then have "1 \<le> n" by (simp add: word_le_nat_alt)
  then have "unat (n - 1) = unat n - 1" by (simp add: unat_sub_nowrap)
  moreover have "unat i \<noteq> unat (n - 1)" using i(2) word_unat_eq_iff by blast
  ultimately have "unat i < unat (n - 1)" using u by linarith
  then show ?thesis by (simp only: word_less_nat_alt)
qed

lemma nextDomain_valid:
  assumes v: "valid_dom_schedule s"
  shows "valid_dom_schedule (nextDomain s)" "ksDomainTime (nextDomain s) \<noteq> 0"
    "ksCurDomain (nextDomain s) < numDomains s"
proof -
  let ?n = "domScheduleLength s"
  define i where "i = (if ksDomSchedule s (ksDomScheduleIdx s + 1) = 0 then ksDomScheduleStart s
    else ksDomScheduleIdx s + 1)"
  have n: "2 \<le> ?n" and idx: "ksDomScheduleIdx s < ?n - 1" and st: "ksDomScheduleStart s < ?n - 1"
    "ksDomSchedule s (ksDomScheduleStart s) \<noteq> 0" and la: "ksDomSchedule s (?n - 1) = 0"
    using v unfolding valid_dom_schedule_def by blast+
  have nz: "ksDomSchedule s i \<noteq> 0" using st(2) by (simp add: i_def)
  have lt: "i < ?n" using word_pred_less [OF n idx] word_pred_less [OF n st(1)] by (simp add: i_def)
  have "i \<noteq> ?n - 1"
  proof
    assume "i = ?n - 1"
    then show False using nz la by simp
  qed
  with lt have il: "i < ?n - 1" by (rule word_less_pred)
  have e: "dschedule_duration (ksDomSchedule s i) \<noteq> 0" "dschedule_domain (ksDomSchedule s i) < numDomains s"
    using v lt nz unfolding valid_dom_schedule_def by blast+
  have f: "ksDomScheduleIdx (nextDomain s) = i" "ksCurDomain (nextDomain s) = dschedule_domain (ksDomSchedule s i)"
    "ksDomainTime (nextDomain s) = dschedule_duration (ksDomSchedule s i)" "plat (nextDomain s) = plat s"
    "ksDomSchedule (nextDomain s) = ksDomSchedule s" "ksDomScheduleStart (nextDomain s) = ksDomScheduleStart s"
    by (simp_all add: nextDomain_def Let_def dschedule_is_end_marker_def i_def)
  show "valid_dom_schedule (nextDomain s)"
    using v il e unfolding valid_dom_schedule_def f by blast
  show "ksDomainTime (nextDomain s) \<noteq> 0" "ksCurDomain (nextDomain s) < numDomains s" using e f by simp_all
qed

section \<open>The chosen thread\<close>

text \<open>\<open>queued d u s\<close>: thread \<open>u\<close> is in a ready queue of domain \<open>d\<close>.\<close>

definition queued :: "word64 \<Rightarrow> ptr \<Rightarrow> kstate \<Rightarrow> bool" where
  "queued d u s \<longleftrightarrow> tcbQueued (tcbState (tcbs s u)) \<and> tcbDomain (tcbs s u) = d"

text \<open>
  \<open>runs_best d s s'\<close>: from the threads that were queued in domain \<open>d\<close>, a thread of the highest
  priority has been made current and taken out of its queue, or the idle thread when there was none.
\<close>

definition runs_best :: "word64 \<Rightarrow> kstate \<Rightarrow> kstate \<Rightarrow> bool" where
  "runs_best d s s' \<longleftrightarrow>
     (if \<exists>u. queued d u s
      then queued d (ksCurThread s') s \<and> \<not> queued d (ksCurThread s') s' \<and>
        (\<forall>u. queued d u s \<longrightarrow> tcbPriority (tcbs s u) \<le> tcbPriority (tcbs s (ksCurThread s')))
      else ksCurThread s' = ksIdleThread s \<and> tcbs s' = tcbs s) \<and>
     (\<forall>u. u \<noteq> ksCurThread s' \<longrightarrow> tcbState (tcbs s' u) = tcbState (tcbs s u))"

lemma numDomains_one:
  assumes "d < numDomains s" "\<not> numDomains s > 1"
  shows "d = 0"
proof -
  have "unat d = 0" using assms by (auto simp: word_less_nat_alt)
  then show ?thesis by (simp only: unat_eq_zero)
qed

lemma tcbSchedDequeue_satp: "tcbSchedDequeue t (s\<lparr>hwSATP := x\<rparr>) = (tcbSchedDequeue t s)\<lparr>hwSATP := x\<rparr>"
proof -
  have r: "tcb_queue_remove q t (s\<lparr>hwSATP := x\<rparr>) = (let (q', s') = tcb_queue_remove q t s in (q', s'\<lparr>hwSATP := x\<rparr>))" for q
    by (simp add: tcb_queue_remove_def Let_def set_schedNext_def set_schedPrev_def schedNext_def schedPrev_def upd_tcb_def)
  show ?thesis
    by (simp add: tcbSchedDequeue_def Let_def r set_ready_queue_def upd_ts_def upd_tcb_def removeFromBitmap_def
        ready_queues_index_def split: prod.splits)
qed

lemma switchToThread_eq:
  "switchToThread t s = (tcbSchedDequeue t s)\<lparr>hwSATP := vm_root t s, ksCurThread := t\<rparr>"
  "switchToIdleThread s = s\<lparr>hwSATP := vm_root (ksIdleThread s) s, ksCurThread := ksIdleThread s\<rparr>"
  by (simp_all add: switchToThread_def switchToIdleThread_def Let_def Arch_switchToThread_def Arch_switchToIdleThread_def
      setVMRoot_eq tcbSchedDequeue_satp)

lemma sched_core_satp: "sched_core s s' \<Longrightarrow> hwSATP s' = hwSATP s"
  unfolding sched_core_def by (drule arg_cong [of _ _ hwSATP]) (simp add: erase_sched_def)

lemma switchToThread_valid:
  assumes "valid_sched Q R s"
  shows "\<exists>Q'. valid_sched Q' R (switchToThread t s)"
proof -
  obtain Q' where "valid_sched Q' R (tcbSchedDequeue t s)"
    using tcbSchedDequeue_valid [OF assms refl refl] by blast
  then have "valid_sched Q' R (switchToThread t s)"
    by (rule valid_sched_cong) (simp_all add: switchToThread_eq)
  then show ?thesis by blast
qed

lemma chooseThread_best:
  assumes v: "valid_sched Q R s" and d: "ksCurDomain s < numDomains s"
  shows "\<exists>Q'. valid_sched Q' R (chooseThread s)" "runs_best (ksCurDomain s) s (chooseThread s)"
proof -
  note V = valid_schedD [OF v]
  let ?d = "ksCurDomain s"
  have dm: "(if numDomains s > 1 then ?d else 0) = ?d" using numDomains_one [OF d] by auto
  have q: "queued ?d u s \<longleftrightarrow> u \<in> set (Q ?d (tcbPriority (tcbs s u)))" for u
    using V(6) by (auto simp: queued_def)
  show "\<exists>Q'. valid_sched Q' R (chooseThread s)"
  proof (cases "ksReadyQueuesL1Bitmap s ?d = 0")
    case True
    have "valid_sched Q R (chooseThread s)"
      by (rule valid_sched_cong [OF v]) (simp_all add: chooseThread_def Let_def dm True switchToThread_eq)
    then show ?thesis by blast
  next
    case False
    then show ?thesis unfolding chooseThread_def Let_def dm using switchToThread_valid [OF v] by simp
  qed
  show "runs_best ?d s (chooseThread s)"
  proof (cases "ksReadyQueuesL1Bitmap s ?d = 0")
    case True
    then have "\<not> queued ?d u s" for u using bitmap_empty [OF V(11) d] V(3) [of u] q [of u] by auto
    then show ?thesis by (simp add: runs_best_def chooseThread_def Let_def dm True switchToThread_eq)
  next
    case False
    let ?p = "getHighestPrio ?d s"
    let ?t = "head (ksReadyQueues s (ready_queues_index ?d ?p s))"
    note M = getHighestPrio_max [OF V(11) d False]
    have "?t \<in> set (Q ?d ?p)" using dlist_head [OF V(4) [OF d M(1)]] M(2) by (cases "Q ?d ?p") auto
    then have t: "queued ?d ?t s" "tcbPriority (tcbs s ?t) = ?p" using V(6) by (auto simp: queued_def)
    have best: "tcbPriority (tcbs s u) \<le> ?p" if "queued ?d u s" for u
      using M(3) [of "tcbPriority (tcbs s u)"] V(3) [of u] that q [of u] by fastforce
    have c: "chooseThread s = (tcbSchedDequeue ?t s)\<lparr>hwSATP := vm_root ?t s, ksCurThread := ?t\<rparr>"
      using False by (simp add: chooseThread_def Let_def dm switchToThread_eq)
    show ?thesis unfolding runs_best_def c using t best by (auto simp: queued_def state_ops)
  qed
qed

text \<open>
  \<open>best_current s\<close>: no queued thread of the current domain has a higher priority than the current
  thread, unless the idle thread is current and nothing is queued.
\<close>

definition best_current :: "kstate \<Rightarrow> bool" where
  "best_current s \<longleftrightarrow>
     (\<forall>u. queued (ksCurDomain s) u s \<longrightarrow> tcbPriority (tcbs s u) \<le> tcbPriority (tcbs s (ksCurThread s))) \<or>
     ksCurThread s = ksIdleThread s \<and> (\<forall>u. \<not> queued (ksCurDomain s) u s)"

lemma valid_dom_core: "sched_core s s' \<Longrightarrow> valid_dom_schedule s' = valid_dom_schedule s"
  by (simp add: valid_dom_schedule_def sched_coreD)

lemma chooseThread_core: "sched_core s ((chooseThread s)\<lparr>ksCurThread := ksCurThread s, hwSATP := hwSATP s\<rparr>)"
proof -
  have "sched_core s ((switchToThread t s)\<lparr>ksCurThread := ksCurThread s, hwSATP := hwSATP s\<rparr>)" for t
  proof -
    have "(switchToThread t s)\<lparr>ksCurThread := ksCurThread s, hwSATP := hwSATP s\<rparr> = tcbSchedDequeue t s"
      using sched_coreD(5) [OF sched_core_ops(3), of t s] sched_core_satp [OF sched_core_ops(3), of t s]
      by (simp add: switchToThread_eq flip: sched_coreD(5) [OF sched_core_ops(3), of t s] sched_core_satp [OF sched_core_ops(3), of t s])
    then show ?thesis by simp
  qed
  then show ?thesis by (simp add: chooseThread_def Let_def switchToThread_eq)
qed

lemma chooseThread_frame:
  "ksCurDomain (chooseThread s) = ksCurDomain s" "tcbPriority (tcbs (chooseThread s) u) = tcbPriority (tcbs s u)"
  "tcbDomain (tcbs (chooseThread s) u) = tcbDomain (tcbs s u)" "ksIdleThread (chooseThread s) = ksIdleThread s"
  "valid_dom_schedule (chooseThread s) = valid_dom_schedule s"
  using sched_coreD [OF chooseThread_core, of s] valid_dom_core [OF chooseThread_core, of s]
  by (auto simp: valid_dom_schedule_def)

lemma tcbs_nextDomain [simp]: "tcbs (nextDomain s) = tcbs s" "ksIdleThread (nextDomain s) = ksIdleThread s"
  by (simp_all add: nextDomain_def Let_def)

lemma valid_nextDomain:
  assumes "valid_sched Q R s"
  shows "valid_sched Q R (nextDomain s)"
  by (rule valid_sched_cong [OF assms]) (simp_all add: nextDomain_def Let_def)

lemma scheduleChooseNewThread_best:
  assumes v: "valid_sched Q R s" and d: "valid_dom_schedule s"
  defines "s' \<equiv> scheduleChooseNewThread s"
  shows "\<exists>Q'. valid_sched Q' R s'" "valid_dom_schedule s'" "best_current s'"
    "tcbQueued (tcbState (tcbs s u)) \<Longrightarrow> ksCurThread s' = u \<or> tcbQueued (tcbState (tcbs s' u))"
proof -
  define s0 where "s0 = (if ksDomainTime s = 0 then nextDomain s else s)"
  have s': "s' = chooseThread s0" by (simp add: s'_def s0_def scheduleChooseNewThread_def)
  have v0: "valid_sched Q R s0" using v valid_nextDomain by (simp add: s0_def)
  have d0: "valid_dom_schedule s0" using d nextDomain_valid(1) by (simp add: s0_def)
  then have c0: "ksCurDomain s0 < numDomains s0" by (simp add: valid_dom_schedule_def)
  have t0: "tcbs s0 = tcbs s" by (simp add: s0_def)
  show "\<exists>Q'. valid_sched Q' R s'" unfolding s' by (rule chooseThread_best(1) [OF v0 c0])
  show "valid_dom_schedule s'" using d0 by (simp add: s' chooseThread_frame)
  note B = chooseThread_best(2) [OF v0 c0, folded s', unfolded runs_best_def]
  note F = chooseThread_frame [of s0, folded s']
  show "best_current s'"
  proof (cases "\<exists>u. queued (ksCurDomain s0) u s0")
    case True
    have "tcbPriority (tcbs s' u) \<le> tcbPriority (tcbs s' (ksCurThread s'))" if q: "queued (ksCurDomain s') u s'" for u
    proof -
      have "u \<noteq> ksCurThread s'" using B True q F by auto
      then have "queued (ksCurDomain s0) u s0" using B q F by (auto simp: queued_def)
      then show ?thesis using B True F by auto
    qed
    then show ?thesis by (simp add: best_current_def)
  next
    case False
    then show ?thesis using B F by (auto simp: best_current_def queued_def)
  qed
  show "ksCurThread s' = u \<or> tcbQueued (tcbState (tcbs s' u))" if "tcbQueued (tcbState (tcbs s u))"
    using B that t0 by (cases "u = ksCurThread s'") auto
qed




text \<open>
  The next domain of the schedule always exists and has time: stepping a well-formed schedule
  wraps to its start at the end marker, selects a configured domain with a non-zero time slice, and
  leaves the schedule well formed.
\<close>

theorem nextDomain_has_time:
  assumes "valid_dom_schedule s"
  shows "valid_dom_schedule (nextDomain s) \<and> ksDomainTime (nextDomain s) \<noteq> 0 \<and>
    ksCurDomain (nextDomain s) < numDomains s \<and> tcbs (nextDomain s) = tcbs s"
  using nextDomain_valid [OF assms] by simp

section \<open>Concrete scheduling\<close>

definition example_domains :: "kstate \<Rightarrow> kstate" where
  "example_domains s = s\<lparr>ksDomSchedule := (\<lambda>_. 0)(0 := dschedule_make 0 DSCHED_MAX_DURATION), ksDomainTime := 5\<rparr>"

lemma example_domains_valid: "valid_dom_schedule (example_domains kstate0)"
proof -
  have m: "DSCHED_MAX_DURATION = 0xffffffffffffff"
    by (simp add: DSCHED_MAX_DURATION_def DSCHED_DOMAIN_BITS_def drop_bit_minus_one mask_eq_exp_minus_1)
  have "dschedule_make 0 DSCHED_MAX_DURATION = 0xffffffffffffff" by (simp add: dschedule_make_def m)
  then show ?thesis
    by (simp add: valid_dom_schedule_def example_domains_def kstate0_def dschedule_duration_def
        dschedule_domain_def DSCHED_DOMAIN_SHIFT_def DSCHED_DOMAIN_BITS_def m drop_bit_eq_div)
qed

theorem nextDomain_has_time_witness: "ksDomainTime (nextDomain (example_domains kstate0)) \<noteq> 0"
  using nextDomain_has_time [OF example_domains_valid] by simp

text \<open>A queued thread, no running thread, and a request to choose a new one.\<close>

definition example_choose :: kstate where
  "example_choose = (example_domains example_ready)\<lparr>ksCurThread := 2048, ksSchedulerAction := SchedulerAction_ChooseNewThread\<rparr>"

lemma example_choose_valid:
  "valid_sched ((\<lambda>_ _. [])(0 := (\<lambda>_. [])(0 := [example_tcb]))) [] example_choose" "valid_dom_schedule example_choose"
proof -
  show "valid_sched ((\<lambda>_ _. [])(0 := (\<lambda>_. [])(0 := [example_tcb]))) [] example_choose"
    by (rule valid_sched_cong [OF example_ready_valid]) (simp_all add: example_choose_def example_domains_def)
  show "valid_dom_schedule example_choose"
    using example_domains_valid sched_coreD [OF sched_core_ops(1), of example_tcb kstate0]
    by (simp add: valid_dom_schedule_def example_choose_def example_domains_def example_ready_def)
qed


text \<open>A thread in the release queue whose refill is due.\<close>

definition example_release :: kstate where
  "example_release = the (tcbReleaseEnqueue example_tcb kstate0)"

lemma example_release_valid: "valid_sched (\<lambda>_ _. []) [example_tcb] example_release"
  using tcbReleaseEnqueue_valid [OF kstate0_valid, of example_tcb]
  by (auto simp: example_release_def example_tcb_def kstate0_tcb insert_after_le_def)


end
