(* ===== verification/Caps.thy ===== *)
theory Caps
  imports Scheduler
begin

text \<open>
  Capabilities as values: the capability functions of \<^verbatim>\<open>src/kernel/object/objecttype.c\<close> and of
  \<^verbatim>\<open>arch/riscv/object/objecttype.c\<close> (rights masking, badges and guards, derivation, the region a
  capability covers), the zombie encoding of \<^verbatim>\<open>include/object/structures.h\<close> and the derivation
  test of \<^verbatim>\<open>object/cnode.c\<close>.
\<close>

section \<open>Sizes\<close>

definition seL4_EndpointBits :: word64 where "seL4_EndpointBits = 4"
definition seL4_NotificationBits :: word64 where "seL4_NotificationBits = 6"
definition seL4_ReplyBits :: word64 where "seL4_ReplyBits = 5"
definition seL4_ASIDPoolBits :: word64 where "seL4_ASIDPoolBits = 12"
definition seL4_LargePageBits :: word64 where "seL4_LargePageBits = 21"
definition seL4_HugePageBits :: word64 where "seL4_HugePageBits = 30"
definition seL4_MinUntypedBits :: word64 where "seL4_MinUntypedBits = 4"
definition seL4_MaxUntypedBits :: word64 where "seL4_MaxUntypedBits = 38"
definition seL4_MinSchedContextBits :: word64 where "seL4_MinSchedContextBits = 7"
definition PT_SIZE_BITS :: word64 where "PT_SIZE_BITS = 12"
definition TCB_CNODE_RADIX :: word64 where "TCB_CNODE_RADIX = 4"

definition RISCV_4K_Page :: word64 where "RISCV_4K_Page = 0"
definition RISCV_Mega_Page :: word64 where "RISCV_Mega_Page = 1"
definition RISCV_Giga_Page :: word64 where "RISCV_Giga_Page = 2"

definition pageBitsForSize :: "word64 \<Rightarrow> word64" where
  "pageBitsForSize pagesize =
     (if pagesize = RISCV_4K_Page then seL4_PageBits
      else if pagesize = RISCV_Mega_Page then seL4_LargePageBits
      else if pagesize = RISCV_Giga_Page then seL4_HugePageBits
      else 0)"

section \<open>Zombies\<close>

definition ZombieType_ZombieTCB :: word64 where
  "ZombieType_ZombieTCB = BIT wordRadix"

definition ZombieType_ZombieCNode :: "word64 \<Rightarrow> word64" where
  "ZombieType_ZombieCNode n = n AND MASK wordRadix"

definition Zombie_new :: "word64 \<Rightarrow> word64 \<Rightarrow> word64 \<Rightarrow> cap" where
  "Zombie_new number type p =
     (let msk = (if type = ZombieType_ZombieTCB then MASK (TCB_CNODE_RADIX + 1) else MASK (type + 1))
      in ZombieCap (p AND NOT msk OR number AND msk) type)"

definition cap_zombie_cap_get_capZombieBits :: "cap \<Rightarrow> word64" where
  "cap_zombie_cap_get_capZombieBits cap =
     (let type = capZombieType cap
      in if type = ZombieType_ZombieTCB then TCB_CNODE_RADIX else ZombieType_ZombieCNode type)"

definition cap_zombie_cap_get_capZombieNumber :: "cap \<Rightarrow> word64" where
  "cap_zombie_cap_get_capZombieNumber cap =
     (let radix = cap_zombie_cap_get_capZombieBits cap in capZombieID cap AND MASK (radix + 1))"

definition cap_zombie_cap_get_capZombiePtr :: "cap \<Rightarrow> ptr" where
  "cap_zombie_cap_get_capZombiePtr cap =
     (let radix = cap_zombie_cap_get_capZombieBits cap in capZombieID cap AND NOT (MASK (radix + 1)))"

definition cap_zombie_cap_set_capZombieNumber :: "cap \<Rightarrow> word64 \<Rightarrow> cap" where
  "cap_zombie_cap_set_capZombieNumber cap n =
     (let radix = cap_zombie_cap_get_capZombieBits cap;
          p = capZombieID cap AND NOT (MASK (radix + 1))
      in ZombieCap (p OR n AND MASK (radix + 1)) (capZombieType cap))"

section \<open>The memory a capability covers\<close>

fun isArchCap :: "cap \<Rightarrow> bool" where
  "isArchCap (FrameCap _ _ _ _ _ _) = True"
| "isArchCap (PageTableCap _ _ _ _) = True"
| "isArchCap ASIDControlCap = True"
| "isArchCap (ASIDPoolCap _ _) = True"
| "isArchCap _ = False"

fun cap_get_archCapSizeBits :: "cap \<Rightarrow> word64" where
  "cap_get_archCapSizeBits (FrameCap asid p sz rights dev vaddr) = pageBitsForSize sz"
| "cap_get_archCapSizeBits (PageTableCap _ _ _ _) = PT_SIZE_BITS"
| "cap_get_archCapSizeBits ASIDControlCap = 0"
| "cap_get_archCapSizeBits (ASIDPoolCap _ _) = seL4_ASIDPoolBits"
| "cap_get_archCapSizeBits _ = 0"

fun cap_get_archCapIsPhysical :: "cap \<Rightarrow> bool" where
  "cap_get_archCapIsPhysical (FrameCap _ _ _ _ _ _) = True"
| "cap_get_archCapIsPhysical (PageTableCap _ _ _ _) = True"
| "cap_get_archCapIsPhysical ASIDControlCap = False"
| "cap_get_archCapIsPhysical (ASIDPoolCap _ _) = True"
| "cap_get_archCapIsPhysical _ = False"

fun cap_get_archCapPtr :: "cap \<Rightarrow> ptr" where
  "cap_get_archCapPtr (FrameCap asid p sz rights dev vaddr) = p"
| "cap_get_archCapPtr (PageTableCap asid p mapped vaddr) = p"
| "cap_get_archCapPtr ASIDControlCap = NULL"
| "cap_get_archCapPtr (ASIDPoolCap b p) = p"
| "cap_get_archCapPtr _ = NULL"

fun cap_get_capSizeBits :: "cap \<Rightarrow> word64" where
  "cap_get_capSizeBits (UntypedCap i dev sz p) = sz"
| "cap_get_capSizeBits (EndpointCap _ _ _ _ _ _) = seL4_EndpointBits"
| "cap_get_capSizeBits (NotificationCap _ _ _ _) = seL4_NotificationBits"
| "cap_get_capSizeBits (CNodeCap radix gs g p) = radix + seL4_SlotBits"
| "cap_get_capSizeBits (ThreadCap _) = seL4_TCBBits"
| "cap_get_capSizeBits (ZombieCap i type) =
     (if type = ZombieType_ZombieTCB then seL4_TCBBits else ZombieType_ZombieCNode type + seL4_SlotBits)"
| "cap_get_capSizeBits NullCap = 0"
| "cap_get_capSizeBits DomainCap = 0"
| "cap_get_capSizeBits (ReplyCap _ _) = seL4_ReplyBits"
| "cap_get_capSizeBits IRQControlCap = 0"
| "cap_get_capSizeBits (SchedControlCap _) = 0"
| "cap_get_capSizeBits (IRQHandlerCap _) = 0"
| "cap_get_capSizeBits (SchedContextCap p sz) = sz"
| "cap_get_capSizeBits cap = cap_get_archCapSizeBits cap"

text \<open>The null capability takes the default branch of the switch, as in C.\<close>

fun cap_get_capIsPhysical :: "cap \<Rightarrow> bool" where
  "cap_get_capIsPhysical (UntypedCap _ _ _ _) = True"
| "cap_get_capIsPhysical (EndpointCap _ _ _ _ _ _) = True"
| "cap_get_capIsPhysical (NotificationCap _ _ _ _) = True"
| "cap_get_capIsPhysical (CNodeCap _ _ _ _) = True"
| "cap_get_capIsPhysical (ThreadCap _) = True"
| "cap_get_capIsPhysical (SchedContextCap _ _) = True"
| "cap_get_capIsPhysical (ZombieCap _ _) = True"
| "cap_get_capIsPhysical DomainCap = False"
| "cap_get_capIsPhysical (ReplyCap _ _) = True"
| "cap_get_capIsPhysical IRQControlCap = False"
| "cap_get_capIsPhysical (SchedControlCap _) = False"
| "cap_get_capIsPhysical (IRQHandlerCap _) = False"
| "cap_get_capIsPhysical cap = cap_get_archCapIsPhysical cap"

fun cap_get_capPtr :: "cap \<Rightarrow> ptr" where
  "cap_get_capPtr (UntypedCap i dev sz p) = p"
| "cap_get_capPtr (EndpointCap b gr g s r p) = p"
| "cap_get_capPtr (NotificationCap b r s p) = p"
| "cap_get_capPtr (CNodeCap radix gs g p) = p"
| "cap_get_capPtr (ThreadCap p) = TCB_PTR_CTE_PTR p 0"
| "cap_get_capPtr (ZombieCap i type) = cap_zombie_cap_get_capZombiePtr (ZombieCap i type)"
| "cap_get_capPtr DomainCap = NULL"
| "cap_get_capPtr (ReplyCap p g) = p"
| "cap_get_capPtr IRQControlCap = NULL"
| "cap_get_capPtr (SchedControlCap _) = NULL"
| "cap_get_capPtr (IRQHandlerCap _) = NULL"
| "cap_get_capPtr (SchedContextCap p sz) = p"
| "cap_get_capPtr cap = cap_get_archCapPtr cap"

section \<open>Comparing capabilities\<close>

fun Arch_sameRegionAs :: "cap \<Rightarrow> cap \<Rightarrow> bool" where
  "Arch_sameRegionAs (FrameCap _ botA szA _ _ _) (FrameCap _ botB szB _ _ _) =
     (let topA = botA + MASK (pageBitsForSize szA);
          topB = botB + MASK (pageBitsForSize szB)
      in botA \<le> botB \<and> topA \<ge> topB \<and> botB \<le> topB)"
| "Arch_sameRegionAs (PageTableCap _ a _ _) (PageTableCap _ b _ _) = (a = b)"
| "Arch_sameRegionAs ASIDControlCap ASIDControlCap = True"
| "Arch_sameRegionAs (ASIDPoolCap _ a) (ASIDPoolCap _ b) = (a = b)"
| "Arch_sameRegionAs _ _ = False"

fun Arch_sameObjectAs :: "cap \<Rightarrow> cap \<Rightarrow> bool" where
  "Arch_sameObjectAs (FrameCap _ a szA _ devA _) (FrameCap _ b szB _ devB _) =
     (a = b \<and> szA = szB \<and> (\<not> devA) = (\<not> devB))"
| "Arch_sameObjectAs cap_a cap_b = Arch_sameRegionAs cap_a cap_b"

fun sameRegionAs :: "cap \<Rightarrow> cap \<Rightarrow> bool" where
  "sameRegionAs (UntypedCap i dev sz aBase) cap_b =
     (if cap_get_capIsPhysical cap_b
      then let bBase = cap_get_capPtr cap_b;
               aTop = aBase + MASK sz;
               bTop = bBase + MASK (cap_get_capSizeBits cap_b)
           in aBase \<le> bBase \<and> bTop \<le> aTop \<and> bBase \<le> bTop
      else False)"
| "sameRegionAs (EndpointCap _ _ _ _ _ a) cap_b =
     (case cap_b of EndpointCap _ _ _ _ _ b \<Rightarrow> a = b | _ \<Rightarrow> False)"
| "sameRegionAs (NotificationCap _ _ _ a) cap_b =
     (case cap_b of NotificationCap _ _ _ b \<Rightarrow> a = b | _ \<Rightarrow> False)"
| "sameRegionAs (CNodeCap ra _ _ a) cap_b =
     (case cap_b of CNodeCap rb _ _ b \<Rightarrow> a = b \<and> ra = rb | _ \<Rightarrow> False)"
| "sameRegionAs (ThreadCap a) cap_b = (case cap_b of ThreadCap b \<Rightarrow> a = b | _ \<Rightarrow> False)"
| "sameRegionAs (ReplyCap a _) cap_b = (case cap_b of ReplyCap b _ \<Rightarrow> a = b | _ \<Rightarrow> False)"
| "sameRegionAs DomainCap cap_b = (case cap_b of DomainCap \<Rightarrow> True | _ \<Rightarrow> False)"
| "sameRegionAs IRQControlCap cap_b =
     (case cap_b of IRQControlCap \<Rightarrow> True | IRQHandlerCap _ \<Rightarrow> True | _ \<Rightarrow> False)"
| "sameRegionAs (IRQHandlerCap a) cap_b = (case cap_b of IRQHandlerCap b \<Rightarrow> a = b | _ \<Rightarrow> False)"
| "sameRegionAs (SchedContextCap a sa) cap_b =
     (case cap_b of SchedContextCap b sb \<Rightarrow> a = b \<and> sa = sb | _ \<Rightarrow> False)"
| "sameRegionAs (SchedControlCap _) cap_b = (case cap_b of SchedControlCap _ \<Rightarrow> True | _ \<Rightarrow> False)"
| "sameRegionAs cap_a cap_b =
     (if isArchCap cap_a \<and> isArchCap cap_b then Arch_sameRegionAs cap_a cap_b else False)"

definition sameObjectAs :: "cap \<Rightarrow> cap \<Rightarrow> bool" where
  "sameObjectAs cap_a cap_b =
     (if is_UntypedCap cap_a then False
      else if cap_a = IRQControlCap then False
      else if isArchCap cap_a \<and> isArchCap cap_b then Arch_sameObjectAs cap_a cap_b
      else sameRegionAs cap_a cap_b)"

fun hasCancelSendRights :: "cap \<Rightarrow> bool" where
  "hasCancelSendRights (EndpointCap badge grantReply grant send receive p) =
     (send \<and> receive \<and> grantReply \<and> grant)"
| "hasCancelSendRights _ = False"

section \<open>Changing capabilities\<close>

definition seL4_CNode_CapData_get_guardSize :: "word64 \<Rightarrow> word64" where
  "seL4_CNode_CapData_get_guardSize w = w AND 0x3f"

definition seL4_CNode_CapData_get_guard :: "word64 \<Rightarrow> word64" where
  "seL4_CNode_CapData_get_guard w = drop_bit 6 w"

fun updateCapData :: "bool \<Rightarrow> word64 \<Rightarrow> cap \<Rightarrow> cap" where
  "updateCapData preserve newData (EndpointCap badge gr g s r p) =
     (if \<not> preserve \<and> badge = 0 then EndpointCap newData gr g s r p else NullCap)"
| "updateCapData preserve newData (NotificationCap badge r s p) =
     (if \<not> preserve \<and> badge = 0 then NotificationCap newData r s p else NullCap)"
| "updateCapData preserve newData (CNodeCap radix guardSz grd p) =
     (let guardSize = seL4_CNode_CapData_get_guardSize newData
      in if guardSize + radix > wordBits then NullCap
         else let grd = seL4_CNode_CapData_get_guard newData AND MASK guardSize
              in CNodeCap radix guardSize grd p)"
| "updateCapData preserve newData cap = cap"

definition VMKernelOnly :: word64 where "VMKernelOnly = 1"
definition VMReadOnly :: word64 where "VMReadOnly = 2"
definition VMReadWrite :: word64 where "VMReadWrite = 3"

definition maskVMRights :: "word64 \<Rightarrow> word64 \<Rightarrow> word64" where
  "maskVMRights vm_rights cap_rights_mask =
     (if vm_rights = VMReadOnly \<and> seL4_CapRights_get_capAllowRead cap_rights_mask then VMReadOnly
      else if vm_rights = VMReadWrite \<and> seL4_CapRights_get_capAllowRead cap_rights_mask
      then if \<not> seL4_CapRights_get_capAllowWrite cap_rights_mask then VMReadOnly else VMReadWrite
      else VMKernelOnly)"

fun Arch_maskCapRights :: "word64 \<Rightarrow> cap \<Rightarrow> cap" where
  "Arch_maskCapRights msk (FrameCap asid p sz rights dev vaddr) =
     FrameCap asid p sz (maskVMRights rights msk) dev vaddr"
| "Arch_maskCapRights msk cap = cap"

fun maskCapRights :: "word64 \<Rightarrow> cap \<Rightarrow> cap" where
  "maskCapRights rights (EndpointCap badge grantReply grant send receive p) =
     EndpointCap badge
       (grantReply \<and> seL4_CapRights_get_capAllowGrantReply rights)
       (grant \<and> seL4_CapRights_get_capAllowGrant rights)
       (send \<and> seL4_CapRights_get_capAllowWrite rights)
       (receive \<and> seL4_CapRights_get_capAllowRead rights) p"
| "maskCapRights rights (NotificationCap badge receive send p) =
     NotificationCap badge
       (receive \<and> seL4_CapRights_get_capAllowRead rights)
       (send \<and> seL4_CapRights_get_capAllowWrite rights) p"
| "maskCapRights rights (ReplyCap p grant) =
     ReplyCap p (grant \<and> seL4_CapRights_get_capAllowGrant rights)"
| "maskCapRights rights cap = (if isArchCap cap then Arch_maskCapRights rights cap else cap)"

fun isCapRevocable :: "cap \<Rightarrow> cap \<Rightarrow> bool" where
  "isCapRevocable (EndpointCap badge _ _ _ _ _) srcCap = (badge \<noteq> capEPBadge srcCap)"
| "isCapRevocable (NotificationCap badge _ _ _) srcCap = (badge \<noteq> capNtfnBadge srcCap)"
| "isCapRevocable (IRQHandlerCap _) srcCap = (srcCap = IRQControlCap)"
| "isCapRevocable (UntypedCap _ _ _ _) srcCap = True"
| "isCapRevocable _ srcCap = False"

section \<open>Derivation\<close>

text \<open>On RISC-V \<^verbatim>\<open>Arch_isMDBParentOf\<close> holds of all capabilities.\<close>

definition isMDBParentOf :: "ptr \<Rightarrow> ptr \<Rightarrow> kstate \<Rightarrow> bool" where
  "isMDBParentOf cte_a cte_b s =
     (let cap_a = cteCap (ctes s cte_a); cap_b = cteCap (ctes s cte_b)
      in if \<not> mdbRevocable (ctes s cte_a) then False
         else if \<not> sameRegionAs cap_a cap_b then False
         else case cap_a of
             EndpointCap badge _ _ _ _ _ \<Rightarrow>
               if badge = 0 then True
               else badge = capEPBadge cap_b \<and> \<not> mdbFirstBadged (ctes s cte_b)
           | NotificationCap badge _ _ _ \<Rightarrow>
               if badge = 0 then True
               else badge = capNtfnBadge cap_b \<and> \<not> mdbFirstBadged (ctes s cte_b)
           | _ \<Rightarrow> True)"

definition ensureNoChildren :: "ptr \<Rightarrow> kstate \<Rightarrow> syscall_error + unit" where
  "ensureNoChildren slot s =
     (if mdbNext (ctes s slot) \<noteq> 0 \<and> isMDBParentOf slot (mdbNext (ctes s slot)) s
      then Inl seL4_RevokeFirst else Inr ())"

definition ensureEmptySlot :: "ptr \<Rightarrow> kstate \<Rightarrow> syscall_error + unit" where
  "ensureEmptySlot slot s =
     (if cteCap (ctes s slot) \<noteq> NullCap then Inl seL4_DeleteFirst else Inr ())"

fun Arch_deriveCap :: "cap \<Rightarrow> syscall_error + cap" where
  "Arch_deriveCap (PageTableCap asid p mapped vaddr) =
     (if mapped then Inr (PageTableCap asid p mapped vaddr) else Inl seL4_IllegalOperation)"
| "Arch_deriveCap (FrameCap asid p sz rights dev vaddr) = Inr (FrameCap asidInvalid p sz rights dev 0)"
| "Arch_deriveCap cap = Inr cap"

definition deriveCap :: "ptr \<Rightarrow> cap \<Rightarrow> kstate \<Rightarrow> syscall_error + cap" where
  "deriveCap slot cap s =
     (if isArchCap cap then Arch_deriveCap cap
      else case cap of
          ZombieCap _ _ \<Rightarrow> Inr NullCap
        | IRQControlCap \<Rightarrow> Inr NullCap
        | UntypedCap _ _ _ _ \<Rightarrow>
            (case ensureNoChildren slot s of Inl e \<Rightarrow> Inl e | Inr _ \<Rightarrow> Inr cap)
        | _ \<Rightarrow> Inr cap)"

section \<open>Derived capabilities carry no more authority\<close>

text \<open>
  \<open>cap_le c d\<close>: capability \<open>c\<close> refers to the same object as \<open>d\<close> and allows nothing that \<open>d\<close> does not;
  \<open>c\<close> may be null. A mapping, a badge and a guard carry no authority of their own, but a badge that
  is set never changes.
\<close>

fun cap_le :: "cap \<Rightarrow> cap \<Rightarrow> bool" where
  "cap_le NullCap _ = True"
| "cap_le (EndpointCap b gr g s r p) d = (case d of EndpointCap b' gr' g' s' r' p' \<Rightarrow>
     p = p' \<and> (b' \<noteq> 0 \<longrightarrow> b = b') \<and> (gr \<longrightarrow> gr') \<and> (g \<longrightarrow> g') \<and> (s \<longrightarrow> s') \<and> (r \<longrightarrow> r') | _ \<Rightarrow> False)"
| "cap_le (NotificationCap b r s p) d = (case d of NotificationCap b' r' s' p' \<Rightarrow>
     p = p' \<and> (b' \<noteq> 0 \<longrightarrow> b = b') \<and> (r \<longrightarrow> r') \<and> (s \<longrightarrow> s') | _ \<Rightarrow> False)"
| "cap_le (ReplyCap p g) d = (case d of ReplyCap p' g' \<Rightarrow> p = p' \<and> (g \<longrightarrow> g') | _ \<Rightarrow> False)"
| "cap_le (CNodeCap radix gs g p) d = (case d of CNodeCap radix' gs' g' p' \<Rightarrow>
     p = p' \<and> radix = radix' | _ \<Rightarrow> False)"
| "cap_le (FrameCap asid p sz rights dev vaddr) d = (case d of FrameCap asid' p' sz' rights' dev' vaddr' \<Rightarrow>
     p = p' \<and> sz = sz' \<and> dev = dev' \<and>
     (rights = rights' \<or> rights = VMKernelOnly \<or> rights = VMReadOnly \<and> rights' = VMReadWrite) | _ \<Rightarrow> False)"
| "cap_le c d = (c = d)"

lemma cap_le_refl: "cap_le c c"
  by (cases c) auto

lemma cap_le_trans:
  assumes "cap_le a b" "cap_le b c"
  shows "cap_le a c"
  using assms by (cases a; cases b; cases c) (auto simp: VMKernelOnly_def VMReadOnly_def VMReadWrite_def)

lemma cap_le_mask: "cap_le (maskCapRights rights c) c"
  by (cases c) (auto simp: maskVMRights_def)

lemma cap_le_update: "cap_le (updateCapData preserve w c) c"
  by (cases c) (auto simp: Let_def)

lemma cap_le_derive: "deriveCap slot c s = Inr c' \<Longrightarrow> cap_le c' c"
  by (cases c) (auto simp: deriveCap_def split: sum.splits if_splits)

text \<open>
  C4. No amplification of authority. The capability that a copy or mint inserts (rights masked, data
  updated, then derived) is null or refers to the same object as the source with a subset of its
  rights, a set badge unchanged; in particular derivation never yields an untyped capability from a
  slot that has children, and never a copy of a zombie or of the interrupt control capability.
\<close>

theorem derived_cap_no_amplification:
  assumes "deriveCap slot (updateCapData preserve w (maskCapRights rights c)) s = Inr c'"
  shows "cap_le c' c \<and>
    (is_UntypedCap c' \<longrightarrow> ensureNoChildren slot s = Inr ()) \<and>
    c' \<noteq> IRQControlCap \<and> (\<forall>i type. c' \<noteq> ZombieCap i type)"
proof -
  have "cap_le c' c"
    using cap_le_trans [OF cap_le_derive [OF assms] cap_le_trans [OF cap_le_update cap_le_mask]] .
  moreover have "is_UntypedCap c' \<longrightarrow> ensureNoChildren slot s = Inr ()"
    using assms by (cases c) (auto simp: deriveCap_def Let_def split: if_splits sum.splits)
  moreover have "c' \<noteq> IRQControlCap \<and> (\<forall>i type. c' \<noteq> ZombieCap i type)"
    using assms by (cases c) (auto simp: deriveCap_def Let_def split: if_splits sum.splits)
  ultimately show ?thesis by blast
qed

theorem derived_cap_no_amplification_witness:
  "cap_le (EndpointCap 7 False False True False 4096) (EndpointCap 0 True True True True 4096)"
proof -
  have "deriveCap 32 (updateCapData False 7 (maskCapRights 1 (EndpointCap 0 True True True True 4096))) kstate0
      = Inr (EndpointCap 7 False False True False 4096)"
    by (simp add: deriveCap_def seL4_CapRights_get_capAllowGrantReply_def
        seL4_CapRights_get_capAllowGrant_def seL4_CapRights_get_capAllowWrite_def
        seL4_CapRights_get_capAllowRead_def)
  from derived_cap_no_amplification [OF this] show ?thesis by blast
qed

section \<open>Zombies encode a slot array and a count\<close>

lemma MASK_eq: "n < 64 \<Longrightarrow> MASK n = mask (unat n)"
  by (simp add: MASK_def BIT_def mask_eq_exp_minus_1)

lemma le_mask_and: "(x :: word64) \<le> mask k \<Longrightarrow> k < 64 \<Longrightarrow> x AND mask k = x"
proof -
  assume x: "x \<le> mask k" and k: "k < 64"
  have "uint (mask k :: word64) = 2 ^ k - 1"
    unfolding uint_mask_eq using k by (simp add: min_def mask_eq_exp_minus_1)
  then have "unat (mask k :: word64) = nat (2 ^ k - 1)" by (simp flip: nat_uint_eq)
  then have "unat (mask k :: word64) = 2 ^ k - 1" by (simp add: nat_diff_distrib' nat_power_eq)
  then have "unat x \<le> 2 ^ k - 1" using x by (simp only: word_le_nat_alt)
  moreover have "0 < (2::nat) ^ k" by simp
  ultimately have "unat x < 2 ^ k" by linarith
  then have "take_bit k x = x"
    by (simp add: word_unat_eq_iff unsigned_take_bit_eq take_bit_nat_eq_self)
  then show ?thesis by (simp add: take_bit_eq_mask)
qed

lemma zombie_fields:
  fixes p m k :: word64
  assumes "p AND m = 0" "k AND m = k"
  shows "p AND NOT m = p" "(p OR k AND m) AND NOT m = p" "(p OR k AND m) AND m = k"
proof -
  have a: "bit p i \<Longrightarrow> \<not> bit m i" "bit k i \<Longrightarrow> bit m i" for i
    using arg_cong [OF assms(1), of "\<lambda>w. bit w i"] arg_cong [OF assms(2), of "\<lambda>w. bit w i"]
    by (auto simp: bit_and_iff)
  show "p AND NOT m = p" "(p OR k AND m) AND NOT m = p" "(p OR k AND m) AND m = k"
    using a by (auto intro!: bit_word_eqI simp: bit_and_iff bit_or_iff bit_not_iff)
qed

text \<open>
  Zombie encoding round trip. For a slot array aligned to twice its size and a count that fits,
  the pointer and the number read back from \<open>Zombie_new\<close> are the ones put in, and setting the number
  changes the number and nothing else, for CNode zombies of every radix below 58 and for TCB zombies.
\<close>

theorem zombie_roundtrip:
  assumes "type = ZombieType_ZombieTCB \<or> type < 58"
    and "r = (if type = ZombieType_ZombieTCB then TCB_CNODE_RADIX else type)"
    and "p AND MASK (r + 1) = 0" "number \<le> MASK (r + 1)"
  shows "cap_zombie_cap_get_capZombiePtr (Zombie_new number type p) = p \<and>
    cap_zombie_cap_get_capZombieNumber (Zombie_new number type p) = number \<and>
    cap_zombie_cap_set_capZombieNumber (Zombie_new number type p) n = Zombie_new n type p"
proof -
  let ?m = "MASK (r + 1)"
  have tcb: "ZombieType_ZombieTCB = 64" by (simp add: ZombieType_ZombieTCB_def BIT_def)
  have lt: "r < 58" using assms(1,2) by (auto simp: TCB_CNODE_RADIX_def)
  then have "unat (r + 1) = unat r + 1" by (intro unat_suc_nowrap [of r 58]) (simp add: word_less_nat_alt)
  then have r1: "r + 1 < 64" using lt by (simp add: word_less_nat_alt)
  note m = MASK_eq [OF r1]
  have bits: "cap_zombie_cap_get_capZombieBits (ZombieCap i type) = r" for i
  proof (cases "type = ZombieType_ZombieTCB")
    case False
    then have "type < 58" using assms(1) by blast
    then have "type \<le> mask 6" by (simp add: mask_eq_exp_minus_1 word_le_nat_alt word_less_nat_alt)
    then have "type AND MASK 6 = type" by (simp add: MASK_eq le_mask_and)
    then show ?thesis
      using False assms(2) by (simp add: cap_zombie_cap_get_capZombieBits_def ZombieType_ZombieCNode_def)
  qed (simp add: cap_zombie_cap_get_capZombieBits_def assms(2))
  have nw: "Zombie_new k type p = ZombieCap (p AND NOT ?m OR k AND ?m) type" for k
    by (simp add: Zombie_new_def Let_def assms(2))
  have "number AND ?m = number"
    using assms(4) r1 unfolding m by (auto intro!: le_mask_and simp: word_less_nat_alt)
  note z = zombie_fields [OF assms(3) this]
  show ?thesis
    unfolding nw
    by (simp add: cap_zombie_cap_get_capZombiePtr_def cap_zombie_cap_get_capZombieNumber_def
        cap_zombie_cap_set_capZombieNumber_def bits z)
qed

theorem zombie_roundtrip_witness:
  "cap_zombie_cap_get_capZombieNumber (Zombie_new 3 2 4096) = 3"
  using zombie_roundtrip [of 2 2 4096 3 1]
  by (simp add: MASK_def BIT_def ZombieType_ZombieTCB_def)

end
