(* ===== verification/CSpace.thy ===== *)
theory CSpace
  imports Caps
begin

text \<open>
  Capability lookup, \<^verbatim>\<open>src/kernel/kernel/cspace.c\<close>. The loop of \<open>resolveAddressBits\<close> decodes the
  remaining \<open>n_bits\<close> of an address one CNode at a time; it is total only where every CNode
  resolves at least one bit, so the loop is a partial function and that it returns is a theorem.
  A failed lookup returns the fault the code stores in \<^verbatim>\<open>current_lookup_fault\<close>.

  The reference is \<open>lookup_bits\<close>: an address is the list of its bits, a CNode consumes its guard and
  then the bits of an index, and lookup walks down that trie.
\<close>

definition cnode_step :: "cap \<Rightarrow> word64 \<Rightarrow> word64 \<Rightarrow> lookup_fault + ptr" where
  "cnode_step nodeCap capptr n_bits =
     (let radixBits = capCNodeRadix nodeCap;
          guardBits = capCNodeGuardSize nodeCap;
          levelBits = radixBits + guardBits;
          capGuard = capCNodeGuard nodeCap;
          grd = drop_bit (unat ((n_bits - guardBits) AND MASK wordRadix)) capptr AND MASK guardBits
      in if guardBits > n_bits \<or> grd \<noteq> capGuard
         then Inl (GuardMismatch capGuard n_bits guardBits)
         else if levelBits > n_bits then Inl (DepthMismatch levelBits n_bits)
         else let offset = drop_bit (unat (n_bits - levelBits)) capptr AND MASK radixBits
              in Inr (cte_at (capCNodePtr nodeCap) offset))"

partial_function (option) resolve_loop ::
  "cap \<Rightarrow> word64 \<Rightarrow> word64 \<Rightarrow> kstate \<Rightarrow> (lookup_fault + ptr \<times> word64) option" where
  [code]: "resolve_loop nodeCap capptr n_bits s =
     (case cnode_step nodeCap capptr n_bits of
        Inl f \<Rightarrow> Some (Inl f)
      | Inr slot \<Rightarrow>
          let levelBits = capCNodeRadix nodeCap + capCNodeGuardSize nodeCap
          in if n_bits = levelBits then Some (Inr (slot, 0))
             else let n_bits = n_bits - levelBits;
                      nodeCap = cteCap (ctes s slot)
                  in if \<not> is_CNodeCap nodeCap then Some (Inr (slot, n_bits))
                     else resolve_loop nodeCap capptr n_bits s)"

definition resolveAddressBits ::
  "cap \<Rightarrow> word64 \<Rightarrow> word64 \<Rightarrow> kstate \<Rightarrow> (lookup_fault + ptr \<times> word64) option" where
  "resolveAddressBits nodeCap capptr n_bits s =
     (if \<not> is_CNodeCap nodeCap then Some (Inl InvalidRoot)
      else resolve_loop nodeCap capptr n_bits s)"

definition lookupSlot :: "ptr \<Rightarrow> word64 \<Rightarrow> kstate \<Rightarrow> (lookup_fault + ptr) option" where
  "lookupSlot thread capptr s = do {
     let threadRoot = cteCap (ctes s (TCB_PTR_CTE_PTR thread tcbCTable));
     res_ret \<leftarrow> resolveAddressBits threadRoot capptr wordBits s;
     Some (case res_ret of Inl f \<Rightarrow> Inl f | Inr (slot, bits) \<Rightarrow> Inr slot)
   }"

definition lookupCapAndSlot :: "ptr \<Rightarrow> word64 \<Rightarrow> kstate \<Rightarrow> (lookup_fault + cap \<times> ptr) option" where
  "lookupCapAndSlot thread cPtr s = do {
     lu_ret \<leftarrow> lookupSlot thread cPtr s;
     Some (case lu_ret of Inl f \<Rightarrow> Inl f | Inr slot \<Rightarrow> Inr (cteCap (ctes s slot), slot))
   }"

definition lookupCap :: "ptr \<Rightarrow> word64 \<Rightarrow> kstate \<Rightarrow> (lookup_fault + cap) option" where
  "lookupCap thread cPtr s = do {
     lu_ret \<leftarrow> lookupSlot thread cPtr s;
     Some (case lu_ret of Inl f \<Rightarrow> Inl f | Inr slot \<Rightarrow> Inr (cteCap (ctes s slot)))
   }"

text \<open>
  The left result carries the system call error and, for a failed lookup, the fault that
  describes it.
\<close>

definition lookupSlotForCNodeOp ::
  "bool \<Rightarrow> cap \<Rightarrow> word64 \<Rightarrow> word64 \<Rightarrow> kstate \<Rightarrow> (syscall_error \<times> lookup_fault option + ptr) option" where
  "lookupSlotForCNodeOp isSource root capptr depth s =
     (if \<not> is_CNodeCap root then Some (Inl (seL4_FailedLookup isSource, Some InvalidRoot))
      else if depth < 1 \<or> depth > wordBits then Some (Inl (seL4_RangeError 1 wordBits, None))
      else do {
        res_ret \<leftarrow> resolveAddressBits root capptr depth s;
        Some (case res_ret of
            Inl f \<Rightarrow> Inl (seL4_FailedLookup isSource, Some f)
          | Inr (slot, bitsRemaining) \<Rightarrow>
              if bitsRemaining \<noteq> 0
              then Inl (seL4_FailedLookup isSource, Some (DepthMismatch 0 bitsRemaining))
              else Inr slot)
      })"

definition lookupSourceSlot ::
  "cap \<Rightarrow> word64 \<Rightarrow> word64 \<Rightarrow> kstate \<Rightarrow> (syscall_error \<times> lookup_fault option + ptr) option" where
  "lookupSourceSlot root capptr depth s = lookupSlotForCNodeOp True root capptr depth s"

definition lookupTargetSlot ::
  "cap \<Rightarrow> word64 \<Rightarrow> word64 \<Rightarrow> kstate \<Rightarrow> (syscall_error \<times> lookup_fault option + ptr) option" where
  "lookupTargetSlot root capptr depth s = lookupSlotForCNodeOp False root capptr depth s"

definition lookupPivotSlot ::
  "cap \<Rightarrow> word64 \<Rightarrow> word64 \<Rightarrow> kstate \<Rightarrow> (syscall_error \<times> lookup_fault option + ptr) option" where
  "lookupPivotSlot root capptr depth s = lookupSlotForCNodeOp True root capptr depth s"

section \<open>The reference: walking a trie of bits\<close>

text \<open>The low \<open>n\<close> bits of a word, most significant first, and the number a list of bits denotes.\<close>

definition bits_of :: "nat \<Rightarrow> word64 \<Rightarrow> bool list" where
  "bits_of n w = map (bit w) (rev [0..<n])"

fun bits_val :: "bool list \<Rightarrow> nat" where
  "bits_val [] = 0"
| "bits_val (b # bs) = of_bool b * 2 ^ length bs + bits_val bs"

function lookup_bits :: "(ptr \<Rightarrow> cte) \<Rightarrow> cap \<Rightarrow> bool list \<Rightarrow> lookup_fault + ptr \<times> bool list" where
  "lookup_bits ct cap bs =
     (let g = unat (capCNodeGuardSize cap); r = unat (capCNodeRadix cap)
      in if length bs < g \<or> take g bs \<noteq> bits_of g (capCNodeGuard cap)
         then Inl (GuardMismatch (capCNodeGuard cap) (of_nat (length bs)) (capCNodeGuardSize cap))
         else if length bs < g + r
         then Inl (DepthMismatch (capCNodeRadix cap + capCNodeGuardSize cap) (of_nat (length bs)))
         else let slot = cte_at (capCNodePtr cap) (of_nat (bits_val (take r (drop g bs))));
                  rest = drop (g + r) bs
              in if rest = [] \<or> \<not> is_CNodeCap (cteCap (ct slot)) then Inr (slot, rest)
                 else if g + r = 0 then Inr (slot, rest)
                 else lookup_bits ct (cteCap (ct slot)) rest)"
  by pat_completeness auto
termination
  by (relation "measure (\<lambda>(ct, cap, bs). length bs)") auto

declare lookup_bits.simps [simp del]

text \<open>
  A CNode capability fits its bitfields and resolves at least one bit; its guard has no more bits
  than the guard size.
\<close>

definition cnode_ok :: "cap \<Rightarrow> bool" where
  "cnode_ok cap \<longleftrightarrow> is_CNodeCap cap \<longrightarrow>
     capCNodeRadix cap < 64 \<and> capCNodeGuardSize cap < 64 \<and>
     0 < unat (capCNodeRadix cap) + unat (capCNodeGuardSize cap) \<and>
     capCNodeGuard cap AND MASK (capCNodeGuardSize cap) = capCNodeGuard cap"

section \<open>The loop computes the reference\<close>

lemma length_bits_of [simp]: "length (bits_of n w) = n"
  by (simp add: bits_of_def)

lemma nth_bits_of: "i < n \<Longrightarrow> bits_of n w ! i = bit w (n - 1 - i)"
  by (simp add: bits_of_def rev_nth)

lemma take_bits_of: "g \<le> n \<Longrightarrow> take g (bits_of n w) = bits_of g (drop_bit (n - g) w)"
  by (rule nth_equalityI) (auto simp: nth_bits_of bit_drop_bit_eq intro!: arg_cong [of _ _ "bit w"])

lemma drop_bits_of: "drop k (bits_of n w) = bits_of (n - k) w"
  by (rule nth_equalityI) (auto simp: nth_bits_of intro!: arg_cong [of _ _ "bit w"])

lemma bits_of_eq_iff: "bits_of g a = bits_of g b \<longleftrightarrow> take_bit g a = take_bit g b"
proof
  assume e: "bits_of g a = bits_of g b"
  have "bit a i = bit b i" if "i < g" for i
    using arg_cong [OF e, of "\<lambda>bs. bs ! (g - 1 - i)"] that by (simp add: nth_bits_of)
  then show "take_bit g a = take_bit g b" by (intro bit_word_eqI) (auto simp: bit_take_bit_iff)
next
  assume e: "take_bit g a = take_bit g b"
  have "bit a i = bit b i" if "i < g" for i
    using arg_cong [OF e, of "\<lambda>w. bit w i"] that by (simp add: bit_take_bit_iff)
  then show "bits_of g a = bits_of g b" by (intro nth_equalityI) (auto simp: nth_bits_of)
qed

lemma bits_val_bits_of: "r \<le> 64 \<Longrightarrow> bits_val (bits_of r w) = unat (take_bit r w)"
proof (induction r)
  case 0
  then show ?case by (simp add: bits_of_def)
next
  case (Suc r)
  have b: "bits_of (Suc r) w = bit w r # bits_of r w" by (simp add: bits_of_def)
  have "unat (take_bit (Suc r) w) = take_bit (Suc r) (unat w)" by (simp add: unsigned_take_bit_eq)
  also have "\<dots> = of_bool (bit w r) * 2 ^ r + take_bit r (unat w)"
    using bit_unsigned_iff [where 'a = nat, of w r] by (simp add: take_bit_Suc_from_most)
  finally show ?case using Suc by (simp add: b unsigned_take_bit_eq)
qed

lemma MASK_and: "n < 64 \<Longrightarrow> w AND MASK n = take_bit (unat n) w"
  by (simp add: MASK_eq take_bit_eq_mask)

text \<open>One level of the loop against one level of the reference.\<close>

lemma cnode_step_bits:
  fixes n w :: word64
  assumes ok: "cnode_ok cap" "is_CNodeCap cap" and n: "n \<le> 64"
  defines "g \<equiv> unat (capCNodeGuardSize cap)" and "r \<equiv> unat (capCNodeRadix cap)"
  defines "bs \<equiv> bits_of (unat n) w"
  shows "cnode_step cap w n =
     (if length bs < g \<or> take g bs \<noteq> bits_of g (capCNodeGuard cap)
      then Inl (GuardMismatch (capCNodeGuard cap) n (capCNodeGuardSize cap))
      else if length bs < g + r then Inl (DepthMismatch (capCNodeRadix cap + capCNodeGuardSize cap) n)
      else Inr (cte_at (capCNodePtr cap) (of_nat (bits_val (take r (drop g bs))))))"
proof -
  let ?gb = "capCNodeGuardSize cap" and ?rb = "capCNodeRadix cap" and ?G = "capCNodeGuard cap"
  have b: "?gb < 64" "?rb < 64" and G: "?G AND MASK ?gb = ?G" using ok by (auto simp: cnode_ok_def)
  then have gr: "g < 64" "r < 64" by (simp_all add: g_def r_def word_less_nat_alt)
  have n64: "unat n \<le> 64" using n by (simp add: word_le_nat_alt)
  have G': "take_bit g ?G = ?G" using G b by (simp add: MASK_and g_def)
  have lv: "unat (?rb + ?gb) = r + g" using gr by (simp add: g_def r_def unat_add_nowrap)
  have grd: "drop_bit (unat ((n - ?gb) AND MASK 6)) w AND MASK ?gb = ?G \<longleftrightarrow> take g bs = bits_of g ?G"
    if le: "g \<le> unat n"
  proof -
    have "take g bs = bits_of g ?G \<longleftrightarrow> take_bit g (drop_bit (unat n - g) w) = ?G"
      using le by (simp add: bs_def take_bits_of bits_of_eq_iff G')
    moreover have "take_bit g (drop_bit (unat ((n - ?gb) AND MASK 6)) w) = take_bit g (drop_bit (unat n - g) w)"
    proof (cases "g = 0")
      case False
      have "unat (n - ?gb) = unat n - g" using le by (simp add: unat_sub_nowrap word_le_nat_alt g_def)
      then have "unat ((n - ?gb) AND MASK 6) = unat n - g"
        using n64 False by (simp add: MASK_and unsigned_take_bit_eq take_bit_nat_eq_self)
      then show ?thesis by simp
    qed simp
    ultimately show ?thesis using b by (simp add: MASK_and g_def)
  qed
  have off: "drop_bit (unat (n - (?rb + ?gb))) w AND MASK ?rb = of_nat (bits_val (take r (drop g bs)))"
    if le: "g + r \<le> unat n"
  proof -
    have "unat (n - (?rb + ?gb)) = unat n - g - r"
      using le lv by (simp add: unat_sub_nowrap word_le_nat_alt)
    moreover have "take r (drop g bs) = bits_of r (drop_bit (unat n - g - r) w)"
      using le by (simp add: bs_def drop_bits_of take_bits_of)
    ultimately show ?thesis
      using gr b by (simp add: bits_val_bits_of MASK_and r_def)
  qed
  have c1: "?gb > n \<longleftrightarrow> length bs < g" by (simp add: bs_def g_def word_less_nat_alt)
  have c2: "?rb + ?gb > n \<longleftrightarrow> length bs < g + r" unfolding bs_def word_less_nat_alt lv length_bits_of by linarith
  show ?thesis
    using grd off c1 c2 unfolding cnode_step_def Let_def by (auto simp: bs_def not_less)
qed

lemma resolve_loop_bits:
  assumes ok: "\<And>p. cnode_ok (cteCap (ctes s p))"
    and "cnode_ok cap" "is_CNodeCap cap" "n \<le> 64"
  shows "resolve_loop cap w n s =
    Some (map_sum id (\<lambda>(slot, rest). (slot, of_nat (length rest))) (lookup_bits (ctes s) cap (bits_of (unat n) w)))"
  using assms(2-4)
proof (induction "unat n" arbitrary: n cap rule: less_induct)
  case less
  let ?gb = "capCNodeGuardSize cap" and ?rb = "capCNodeRadix cap"
  have b: "?gb < 64" "?rb < 64" "0 < unat ?rb + unat ?gb" using less.prems by (auto simp: cnode_ok_def)
  then have lv: "unat (?rb + ?gb) = unat ?gb + unat ?rb" by (simp add: unat_add_nowrap word_less_nat_alt)
  note step = cnode_step_bits [OF less.prems, of w]
  show ?case
  proof (cases "unat n < unat ?gb \<or> take (unat ?gb) (bits_of (unat n) w) \<noteq> bits_of (unat ?gb) (capCNodeGuard cap)
      \<or> unat n < unat ?gb + unat ?rb")
    case True
    have "\<exists>f. cnode_step cap w n = Inl f \<and> lookup_bits (ctes s) cap (bits_of (unat n) w) = Inl f"
    proof (cases "unat n < unat ?gb \<or> take (unat ?gb) (bits_of (unat n) w) \<noteq> bits_of (unat ?gb) (capCNodeGuard cap)")
      case A: True
      show ?thesis unfolding step length_bits_of if_P [OF A]
        by (subst lookup_bits.simps) (simp only: Let_def length_bits_of if_P [OF A] of_nat_unat_id sum.inject ex_simps, simp)
    next
      case A: False
      with True have B: "unat n < unat ?gb + unat ?rb" by blast
      show ?thesis unfolding step length_bits_of if_not_P [OF A] if_P [OF B]
        by (subst lookup_bits.simps) (simp only: Let_def length_bits_of if_not_P [OF A] if_P [OF B] of_nat_unat_id, simp)
    qed
    then show ?thesis by (subst resolve_loop.simps) auto
  next
    case False
    then have le: "unat ?gb + unat ?rb \<le> unat n" by simp
    let ?slot = "cte_at (capCNodePtr cap) (of_nat (bits_val (take (unat ?rb) (drop (unat ?gb) (bits_of (unat n) w)))))"
    let ?m = "n - (?rb + ?gb)"
    have m: "unat ?m = unat n - (unat ?gb + unat ?rb)" using le lv by (simp add: unat_sub_nowrap word_le_nat_alt)
    have st: "cnode_step cap w n = Inr ?slot" using False by (simp add: step)
    have eq: "n = ?rb + ?gb \<longleftrightarrow> unat n = unat ?gb + unat ?rb" using lv by (metis word_unat_eq_iff)
    have rest: "drop (unat ?gb + unat ?rb) (bits_of (unat n) w) = bits_of (unat ?m) w" by (simp add: drop_bits_of m)
    have e0: "bits_of (unat ?m) w = [] \<longleftrightarrow> n = ?rb + ?gb"
      using m le eq by (metis diff_is_0_eq' length_0_conv length_bits_of order_refl le_antisym diff_self_eq_0 zero_less_diff not_less)
    have lb: "lookup_bits (ctes s) cap (bits_of (unat n) w) =
      (if n = ?rb + ?gb \<or> \<not> is_CNodeCap (cteCap (ctes s ?slot)) then Inr (?slot, bits_of (unat ?m) w)
       else lookup_bits (ctes s) (cteCap (ctes s ?slot)) (bits_of (unat ?m) w))"
      using False b by (subst lookup_bits.simps) (auto simp: Let_def rest e0)
    show ?thesis
    proof (cases "n = ?rb + ?gb \<or> \<not> is_CNodeCap (cteCap (ctes s ?slot))")
      case True
      then show ?thesis
        unfolding lb by (subst resolve_loop.simps) (auto simp: st Let_def)
    next
      case False
      have "unat ?m < unat n" using m le b(3) by linarith
      moreover have "?m \<le> 64"
        using m less.prems(3) by (simp add: word_le_nat_alt)
      ultimately have "resolve_loop (cteCap (ctes s ?slot)) w ?m s =
        Some (map_sum id (\<lambda>(slot, rest). (slot, of_nat (length rest))) (lookup_bits (ctes s) (cteCap (ctes s ?slot)) (bits_of (unat ?m) w)))"
        using less.hyps [of ?m "cteCap (ctes s ?slot)"] ok False by blast
      then show ?thesis
        unfolding lb if_not_P [OF False] using False by (subst resolve_loop.simps) (simp add: st Let_def)
    qed
  qed
qed


text \<open>
  C5. Capability lookup decodes addresses like a trie. Where every CNode fits its fields and
  resolves at least one bit, \<open>resolveAddressBits\<close> returns for every root, address and depth up to 64,
  and its result, faults included, is the one of the reference that compares guards and computes
  indices on the list of the address bits, most significant first; the shifts and masks on words
  that keep the shift below the word size do not change it.
\<close>

theorem resolveAddressBits_refines_trie:
  assumes "\<And>p. cnode_ok (cteCap (ctes s p))" "cnode_ok cap" "n \<le> 64"
  shows "resolveAddressBits cap w n s = Some
    (if is_CNodeCap cap
     then map_sum id (\<lambda>(slot, rest). (slot, of_nat (length rest))) (lookup_bits (ctes s) cap (bits_of (unat n) w))
     else Inl InvalidRoot)"
  using resolve_loop_bits [OF assms(1,2) _ assms(3)] by (simp add: resolveAddressBits_def)

lemma lookup_bits_inside:
  assumes "lookup_bits ct cap bs = Inr (slot, rest)"
    and "\<And>p. cnode_ok (cteCap (ct p))" "cnode_ok cap" "is_CNodeCap cap"
  shows "length rest < length bs \<and>
    (\<exists>c i. is_CNodeCap c \<and> (c = cap \<or> (\<exists>p. c = cteCap (ct p))) \<and> i < 2 ^ unat (capCNodeRadix c) \<and>
      slot = cte_at (capCNodePtr c) (of_nat i))"
  using assms
proof (induction ct cap bs rule: lookup_bits.induct)
  case (1 ct cap bs)
  let ?g = "unat (capCNodeGuardSize cap)" and ?r = "unat (capCNodeRadix cap)"
  let ?i = "bits_val (take ?r (drop ?g bs))"
  let ?slot = "cte_at (capCNodePtr cap) (of_nat ?i)"
  have gr: "0 < ?g + ?r" using "1.prems"(3,4) by (auto simp: cnode_ok_def)
  have A: "\<not> (length bs < ?g \<or> take ?g bs \<noteq> bits_of ?g (capCNodeGuard cap))" and B: "\<not> length bs < ?g + ?r"
    using "1.prems"(1) by (subst (asm) lookup_bits.simps, simp add: Let_def split: if_splits)+
  have bv: "bits_val xs < 2 ^ length xs" for xs by (induction xs) auto
  have i: "?i < 2 ^ ?r"
  proof -
    have "length (take ?r (drop ?g bs)) = ?r" using B by simp
    then show ?thesis using bv [of "take ?r (drop ?g bs)"] by simp
  qed
  have lb: "lookup_bits ct cap bs = (if drop (?g + ?r) bs = [] \<or> \<not> is_CNodeCap (cteCap (ct ?slot))
      then Inr (?slot, drop (?g + ?r) bs) else lookup_bits ct (cteCap (ct ?slot)) (drop (?g + ?r) bs))"
  proof -
    have C: "?g + ?r \<noteq> 0" using gr by linarith
    show ?thesis
      by (subst lookup_bits.simps) (simp only: Let_def if_not_P [OF A] if_not_P [OF B] if_not_P [OF C])
  qed
  show ?case
  proof (cases "drop (?g + ?r) bs = [] \<or> \<not> is_CNodeCap (cteCap (ct ?slot))")
    case True
    then have "slot = ?slot" "rest = drop (?g + ?r) bs" using "1.prems"(1) lb by auto
    then show ?thesis using i gr B "1.prems"(4) by (intro conjI exI [of _ cap] exI [of _ ?i]) auto
  next
    case False
    have "lookup_bits ct (cteCap (ct ?slot)) (drop (?g + ?r) bs) = Inr (slot, rest)"
      using "1.prems"(1) unfolding lb if_not_P [OF False] .
    with 1(1) [OF refl refl A B refl refl False] gr False "1.prems"(2)
    have "length rest < length (drop (?g + ?r) bs)"
      "\<exists>c i. is_CNodeCap c \<and> (c = cteCap (ct ?slot) \<or> (\<exists>p. c = cteCap (ct p))) \<and> i < 2 ^ unat (capCNodeRadix c) \<and>
        slot = cte_at (capCNodePtr c) (of_nat i)"
      by blast+
    then show ?thesis by auto
  qed
qed

text \<open>
  A slot found by lookup lies inside a CNode. Under the same conditions a successful lookup
  yields a slot at an index below \<open>2 ^ radix\<close> of a CNode whose capability is the root or stored in a
  slot, and strictly fewer bits remain than were given; an operation on an explicit depth gets a
  slot only when no bits remain.
\<close>

theorem resolved_slot_in_cnode:
  assumes "\<And>p. cnode_ok (cteCap (ctes s p))" "cnode_ok cap" "n \<le> 64"
    and "resolveAddressBits cap w n s = Some (Inr (slot, remaining))"
  shows "unat remaining < unat n \<and>
    (\<exists>c i. is_CNodeCap c \<and> (c = cap \<or> (\<exists>p. c = cteCap (ctes s p))) \<and> i < 2 ^ unat (capCNodeRadix c) \<and>
      slot = cte_at (capCNodePtr c) (of_nat i)) \<and>
    (lookupSlotForCNodeOp isSource cap w n s = Some (Inr slot) \<longrightarrow> remaining = 0)"
proof -
  have c: "is_CNodeCap cap" using assms(4) by (auto simp: resolveAddressBits_def split: if_splits)
  then have "resolve_loop cap w n s = Some (Inr (slot, remaining))"
    using assms(4) by (simp add: resolveAddressBits_def)
  with resolve_loop_bits [OF assms(1,2) c assms(3), of w]
  obtain rest where l: "lookup_bits (ctes s) cap (bits_of (unat n) w) = Inr (slot, rest)"
    and r: "remaining = of_nat (length rest)"
    by (cases "lookup_bits (ctes s) cap (bits_of (unat n) w)") auto
  note I = lookup_bits_inside [OF l assms(1,2) c]
  have "unat remaining = length rest"
    unfolding r using I unat_lt_64 [of n] by (simp add: unat_of_nat)
  moreover have "lookupSlotForCNodeOp isSource cap w n s = Some (Inr slot) \<longrightarrow> remaining = 0"
    using c assms(4) by (auto simp: lookupSlotForCNodeOp_def split: if_splits)
  ultimately show ?thesis using I by simp
qed

section \<open>A concrete capability space\<close>

text \<open>A root CNode of 16 slots with a 60-bit guard of zeros, at address 4096.\<close>

definition example_root :: cap where
  "example_root = CNodeCap 4 60 0 4096"

lemma example_root_ok: "cnode_ok example_root" "cnode_ok (cteCap (ctes kstate0 p))"
  by (simp_all add: example_root_def cnode_ok_def kstate0_def nullMDBNode_def)

lemma example_root_lookup: "resolveAddressBits example_root 3 64 kstate0 = Some (Inr (4192, 0))"
proof -
  have "MASK 60 = 0xfffffffffffffff" "MASK 4 = 0xf" "MASK 6 = 0x3f" by (simp_all add: MASK_def BIT_def)
  then show ?thesis
    by (simp add: resolveAddressBits_def resolve_loop.simps cnode_step_def example_root_def
        cte_at_def sizeof_cte_def drop_bit_eq_div)
qed

theorem resolveAddressBits_refines_trie_witness:
  "\<exists>r. lookup_bits (ctes kstate0) example_root (bits_of 64 3) = Inr r"
  using resolveAddressBits_refines_trie [OF example_root_ok(2,1), of 64 3] example_root_lookup
  by (cases "lookup_bits (ctes kstate0) example_root (bits_of 64 3)") (auto simp: example_root_def)

theorem resolved_slot_in_cnode_witness:
  "resolveAddressBits example_root 3 64 kstate0 = Some (Inr (4192, 0)) \<and>
   (\<exists>c i. is_CNodeCap c \<and> i < 2 ^ unat (capCNodeRadix c) \<and> 4192 = cte_at (capCNodePtr c) (of_nat i))"
  using resolved_slot_in_cnode [OF example_root_ok(2,1) _ example_root_lookup] example_root_lookup by auto

end
