(* ===== verification/CNode.thy ===== *)
theory CNode
  imports CSpace
begin

text \<open>
  Capability nodes and the mapping database, \<^verbatim>\<open>src/kernel/object/cnode.c\<close>: inserting, moving,
  swapping and removing capabilities, and the queries on the derivation order.

  The mapping database is a doubly linked list of slots; \<open>mdb_list L s\<close> says that \<open>L\<close> is such a chain.
  Each operation is the list operation it implements.
\<close>

section \<open>Operations on slots\<close>

definition MAX_FREE_INDEX :: "word64 \<Rightarrow> word64" where
  "MAX_FREE_INDEX sizeBits = BIT (sizeBits - seL4_MinUntypedBits)"

definition set_cap :: "ptr \<Rightarrow> cap \<Rightarrow> kstate \<Rightarrow> kstate" where
  "set_cap slot cap s = upd_cte slot (cteCap_update (\<lambda>_. cap)) s"

definition setUntypedCapAsFull :: "cap \<Rightarrow> cap \<Rightarrow> ptr \<Rightarrow> kstate \<Rightarrow> kstate" where
  "setUntypedCapAsFull srcCap newCap srcSlot s =
     (case (srcCap, newCap) of
        (UntypedCap i dev sz p, UntypedCap i' dev' sz' p') \<Rightarrow>
          if p = p' \<and> sz' = sz
          then upd_cte srcSlot (cteCap_update (\<lambda>c. UntypedCap (MAX_FREE_INDEX sz) (capIsDevice c)
                 (capBlockSize c) (capUtPtr c))) s
          else s
      | _ \<Rightarrow> s)"

definition cteInsert :: "cap \<Rightarrow> ptr \<Rightarrow> ptr \<Rightarrow> kstate \<Rightarrow> kstate" where
  "cteInsert newCap srcSlot destSlot s =
     (let srcMDB = ctes s srcSlot;
          srcCap = cteCap (ctes s srcSlot);
          newCapIsRevocable = isCapRevocable newCap srcCap;
          newMDB = srcMDB\<lparr>mdbPrev := srcSlot, mdbRevocable := newCapIsRevocable,
                          mdbFirstBadged := newCapIsRevocable\<rparr>;
          s = setUntypedCapAsFull srcCap newCap srcSlot s;
          s = upd_cte destSlot (\<lambda>_. newMDB\<lparr>cteCap := newCap\<rparr>) s;
          s = set_cteNext srcSlot destSlot s
      in if mdbNext newMDB \<noteq> NULL then set_ctePrev (mdbNext newMDB) destSlot s else s)"

definition cteMove :: "cap \<Rightarrow> ptr \<Rightarrow> ptr \<Rightarrow> kstate \<Rightarrow> kstate" where
  "cteMove newCap srcSlot destSlot s =
     (let mdb = ctes s srcSlot;
          s = set_cap destSlot newCap s;
          s = set_cap srcSlot NullCap s;
          s = upd_cte destSlot (\<lambda>c. mdb\<lparr>cteCap := cteCap c\<rparr>) s;
          s = upd_cte srcSlot (\<lambda>c. nullMDBNode (cteCap c)) s;
          prev_ptr = mdbPrev mdb;
          s = (if prev_ptr \<noteq> NULL then set_cteNext prev_ptr destSlot s else s);
          next_ptr = mdbNext mdb
      in if next_ptr \<noteq> NULL then set_ctePrev next_ptr destSlot s else s)"

definition cteSwap :: "cap \<Rightarrow> ptr \<Rightarrow> cap \<Rightarrow> ptr \<Rightarrow> kstate \<Rightarrow> kstate" where
  "cteSwap cap1 slot1 cap2 slot2 s =
     (let s = set_cap slot1 cap2 s;
          s = set_cap slot2 cap1 s;
          mdb1 = ctes s slot1;
          prev_ptr = mdbPrev mdb1;
          s = (if prev_ptr \<noteq> NULL then set_cteNext prev_ptr slot2 s else s);
          next_ptr = mdbNext mdb1;
          s = (if next_ptr \<noteq> NULL then set_ctePrev next_ptr slot2 s else s);
          mdb2 = ctes s slot2;
          s = upd_cte slot1 (\<lambda>c. mdb2\<lparr>cteCap := cteCap c\<rparr>) s;
          s = upd_cte slot2 (\<lambda>c. mdb1\<lparr>cteCap := cteCap c\<rparr>) s;
          prev_ptr = mdbPrev mdb2;
          s = (if prev_ptr \<noteq> NULL then set_cteNext prev_ptr slot1 s else s);
          next_ptr = mdbNext mdb2
      in if next_ptr \<noteq> NULL then set_ctePrev next_ptr slot1 s else s)"

definition capSwapForDelete :: "ptr \<Rightarrow> ptr \<Rightarrow> kstate \<Rightarrow> kstate" where
  "capSwapForDelete slot1 slot2 s =
     (if slot1 = slot2 then s
      else cteSwap (cteCap (ctes s slot1)) slot1 (cteCap (ctes s slot2)) slot2 s)"

definition insertNewCap :: "ptr \<Rightarrow> ptr \<Rightarrow> cap \<Rightarrow> kstate \<Rightarrow> kstate" where
  "insertNewCap parent slot cap s =
     (let nx = mdbNext (ctes s parent);
          s = set_cap slot cap s;
          s = upd_cte slot (\<lambda>c. \<lparr>cteCap = cteCap c, mdbNext = nx, mdbPrev = parent,
                                mdbRevocable = True, mdbFirstBadged = True\<rparr>) s;
          s = (if nx \<noteq> NULL then set_ctePrev nx slot s else s)
      in set_cteNext parent slot s)"

definition maskInterrupt :: "bool \<Rightarrow> word64 \<Rightarrow> kstate \<Rightarrow> kstate" where
  "maskInterrupt disable irq s = s\<lparr>hwIRQMask := (hwIRQMask s)(irq := disable)\<rparr>"

definition setIRQState :: "irq_state \<Rightarrow> word64 \<Rightarrow> kstate \<Rightarrow> kstate" where
  "setIRQState irqState irq s =
     (let s = s\<lparr>intStateIRQTable := (intStateIRQTable s)(irq := irqState)\<rparr>
      in maskInterrupt (irqState = IRQInactive) irq s)"

definition deletedIRQHandler :: "word64 \<Rightarrow> kstate \<Rightarrow> kstate" where
  "deletedIRQHandler irq s = setIRQState IRQInactive irq s"

definition postCapDeletion :: "cap \<Rightarrow> kstate \<Rightarrow> kstate" where
  "postCapDeletion cap s = (case cap of IRQHandlerCap irq \<Rightarrow> deletedIRQHandler irq s | _ \<Rightarrow> s)"

definition emptySlot :: "ptr \<Rightarrow> cap \<Rightarrow> kstate \<Rightarrow> kstate" where
  "emptySlot slot cleanupInfo s =
     (if cteCap (ctes s slot) \<noteq> NullCap
      then let mdbNode = ctes s slot;
               pv = mdbPrev mdbNode;
               nx = mdbNext mdbNode;
               s = (if pv \<noteq> NULL then set_cteNext pv nx s else s);
               s = (if nx \<noteq> NULL then set_ctePrev nx pv s else s);
               s = (if nx \<noteq> NULL
                    then upd_cte nx (mdbFirstBadged_update (\<lambda>b. b \<or> mdbFirstBadged mdbNode)) s else s);
               s = upd_cte slot (\<lambda>_. nullMDBNode NullCap) s
           in postCapDeletion cleanupInfo s
      else s)"

section \<open>Queries\<close>

definition capRemovable :: "cap \<Rightarrow> ptr \<Rightarrow> bool option" where
  "capRemovable cap slot =
     (case cap of
        NullCap \<Rightarrow> Some True
      | ZombieCap _ _ \<Rightarrow>
          let n = cap_zombie_cap_get_capZombieNumber cap;
              z_slot = cap_zombie_cap_get_capZombiePtr cap
          in Some (n = 0 \<or> n = 1 \<and> slot = z_slot)
      | _ \<Rightarrow> None)"

definition capCyclicZombie :: "cap \<Rightarrow> ptr \<Rightarrow> bool" where
  "capCyclicZombie cap slot \<longleftrightarrow> is_ZombieCap cap \<and> cap_zombie_cap_get_capZombiePtr cap = slot"

definition isFinalCapability :: "ptr \<Rightarrow> kstate \<Rightarrow> bool" where
  "isFinalCapability cte s =
     (let mdb = ctes s cte;
          prevIsSameObject =
            (if mdbPrev mdb = 0 then False
             else sameObjectAs (cteCap (ctes s (mdbPrev mdb))) (cteCap (ctes s cte)))
      in if prevIsSameObject then False
         else if mdbNext mdb = 0 then True
         else \<not> sameObjectAs (cteCap (ctes s cte)) (cteCap (ctes s (mdbNext mdb))))"

definition slotCapLongRunningDelete :: "ptr \<Rightarrow> kstate \<Rightarrow> bool" where
  "slotCapLongRunningDelete slot s =
     (if cteCap (ctes s slot) = NullCap then False
      else if \<not> isFinalCapability slot s then False
      else case cteCap (ctes s slot) of
          ThreadCap _ \<Rightarrow> True
        | ZombieCap _ _ \<Rightarrow> True
        | CNodeCap _ _ _ _ \<Rightarrow> True
        | _ \<Rightarrow> False)"

section \<open>Invocations\<close>

definition invokeCNodeInsert :: "cap \<Rightarrow> ptr \<Rightarrow> ptr \<Rightarrow> kstate \<Rightarrow> kstate" where
  "invokeCNodeInsert cap srcSlot destSlot s = cteInsert cap srcSlot destSlot s"

definition invokeCNodeMove :: "cap \<Rightarrow> ptr \<Rightarrow> ptr \<Rightarrow> kstate \<Rightarrow> kstate" where
  "invokeCNodeMove cap srcSlot destSlot s = cteMove cap srcSlot destSlot s"

definition invokeCNodeRotate :: "cap \<Rightarrow> cap \<Rightarrow> ptr \<Rightarrow> ptr \<Rightarrow> ptr \<Rightarrow> kstate \<Rightarrow> kstate" where
  "invokeCNodeRotate cap1 cap2 slot1 slot2 slot3 s =
     (if slot1 = slot3 then cteSwap cap1 slot1 cap2 slot2 s
      else let s = cteMove cap2 slot2 slot3 s
           in cteMove cap1 slot1 slot2 s)"

section \<open>Receiving capabilities\<close>

record cap_transfer =
  ctReceiveRoot :: word64
  ctReceiveIndex :: word64
  ctReceiveDepth :: word64

definition loadCapTransfer :: "ptr \<Rightarrow> kstate \<Rightarrow> cap_transfer" where
  "loadCapTransfer buffer s =
     (let offset = seL4_MsgMaxLength + seL4_MsgMaxExtraCaps + 2
      in \<lparr>ctReceiveRoot = load buffer offset s, ctReceiveIndex = load buffer (offset + 1) s,
          ctReceiveDepth = load buffer (offset + 2) s\<rparr>)"

definition getReceiveSlots :: "ptr \<Rightarrow> ptr \<Rightarrow> kstate \<Rightarrow> ptr option" where
  "getReceiveSlots thread buffer s =
     (if buffer = NULL then Some NULL
      else do {
        let ct = loadCapTransfer buffer s;
        luc_ret \<leftarrow> lookupCap thread (ctReceiveRoot ct) s;
        (case luc_ret of
           Inl _ \<Rightarrow> Some NULL
         | Inr cnode \<Rightarrow> do {
             lus_ret \<leftarrow> lookupTargetSlot cnode (ctReceiveIndex ct) (ctReceiveDepth ct) s;
             Some (case lus_ret of
                 Inl _ \<Rightarrow> NULL
               | Inr slot \<Rightarrow> if cteCap (ctes s slot) \<noteq> NullCap then NULL else slot)
           })
      })"

section \<open>The derivation chain as a list\<close>

text \<open>
  \<open>mdb_list L s\<close>: \<open>L\<close> is a chain of the mapping database, linked both ways and ended by NULL on
  both sides. \<open>valid_mdb\<close>: every slot is on such a chain (an empty slot is a chain of its own).
\<close>

definition mdb_list :: "ptr list \<Rightarrow> kstate \<Rightarrow> bool" where
  "mdb_list L s \<longleftrightarrow> (\<exists>h e. dlist (cteNext s) (ctePrev s) h e L)"

definition valid_mdb :: "kstate \<Rightarrow> bool" where
  "valid_mdb s \<longleftrightarrow> (\<forall>p. p \<noteq> NULL \<longrightarrow> (\<exists>L. mdb_list L s \<and> p \<in> set L))"

text \<open>Two chains with a common slot are the same chain.\<close>

lemma dlist_share:
  assumes "dlist nx pv h e L" "dlist nx pv h' e' L'" "x \<in> set L" "x \<in> set L'"
  shows "L = L'"
proof -
  obtain xs ys where L: "L = xs @ x # ys" using assms(3) by (meson split_list)
  obtain us vs where L': "L' = us @ x # vs" using assms(4) by (meson split_list)
  have "path nx (nx x) ys NULL" "path nx (nx x) vs NULL"
    using assms(1,2) by (auto simp: L L' dlist_def)
  then have "ys = vs" by (rule path_fun)
  moreover have "path pv (pv x) (rev xs) NULL" "path pv (pv x) (rev us) NULL"
    using assms(1,2) by (auto simp: L L' dlist_def)
  then have "rev xs = rev us" by (rule path_fun)
  ultimately show ?thesis by (simp add: L L')
qed

lemma mdb_list_share: "mdb_list L s \<Longrightarrow> mdb_list L' s \<Longrightarrow> x \<in> set L \<Longrightarrow> x \<in> set L' \<Longrightarrow> L = L'"
  by (auto simp: mdb_list_def dest: dlist_share)

lemma mdb_list_frame:
  "mdb_list L s \<Longrightarrow> (\<And>x. x \<in> set L \<Longrightarrow> cteNext s' x = cteNext s x) \<Longrightarrow>
   (\<And>x. x \<in> set L \<Longrightarrow> ctePrev s' x = ctePrev s x) \<Longrightarrow> mdb_list L s'"
  unfolding mdb_list_def by (blast intro: dlist_frame)

lemma mdb_list_mid:
  assumes "mdb_list (xs @ x # ys) s"
  shows "cteNext s x = (case ys of [] \<Rightarrow> NULL | y # _ \<Rightarrow> y)"
    and "ctePrev s x = (if xs = [] then NULL else last xs)" and "x \<noteq> NULL"
    and "distinct (xs @ x # ys)" "NULL \<notin> set (xs @ x # ys)"
proof -
  obtain h e where d: "dlist (cteNext s) (ctePrev s) h e (xs @ x # ys)"
    using assms by (auto simp: mdb_list_def)
  show "cteNext s x = (case ys of [] \<Rightarrow> NULL | y # _ \<Rightarrow> y)"
    "ctePrev s x = (if xs = [] then NULL else last xs)"
    using dlist_mid [OF d] by auto
  show "x \<noteq> NULL" "NULL \<notin> set (xs @ x # ys)" using dlist_not_NULL [OF d] by auto
  show "distinct (xs @ x # ys)" using d by (rule dlist_distinct)
qed

lemma mdb_list_next: "mdb_list L s \<Longrightarrow> x \<in> set L \<Longrightarrow> cteNext s x \<noteq> NULL \<Longrightarrow> cteNext s x \<in> set L"
  by (auto dest!: split_list simp: mdb_list_mid split: list.splits)

lemma mdb_list_prev: "mdb_list L s \<Longrightarrow> x \<in> set L \<Longrightarrow> ctePrev s x \<noteq> NULL \<Longrightarrow> ctePrev s x \<in> set L"
  by (auto dest!: split_list simp: mdb_list_mid split: if_splits)

lemma mdb_list_single [simp]:
  "mdb_list [x] s \<longleftrightarrow> x \<noteq> NULL \<and> cteNext s x = NULL \<and> ctePrev s x = NULL"
  by (auto simp: mdb_list_def dlist_def)

lemma valid_mdbE: assumes "valid_mdb s" "p \<noteq> NULL"
  obtains xs ys where "mdb_list (xs @ p # ys) s"
  using assms unfolding valid_mdb_def by (metis split_list)

text \<open>Under the invariant the links are inverse to each other and have no short cycle.\<close>

lemma valid_mdb_links:
  assumes v: "valid_mdb s" and "p \<noteq> NULL" "q \<noteq> NULL"
  shows "cteNext s p = q \<longleftrightarrow> ctePrev s q = p"
proof
  assume n: "cteNext s p = q"
  obtain xs ys where l: "mdb_list (xs @ p # ys) s" using v assms(2) by (rule valid_mdbE)
  obtain ys' where "ys = q # ys'" using mdb_list_mid(1) [OF l] n assms(3) by (auto split: list.splits)
  then have "mdb_list ((xs @ [p]) @ q # ys') s" using l by simp
  then show "ctePrev s q = p" by (simp only: mdb_list_mid(2)) simp
next
  assume n: "ctePrev s q = p"
  obtain xs ys where l: "mdb_list (xs @ q # ys) s" using v assms(3) by (rule valid_mdbE)
  obtain xs' where "xs = xs' @ [p]" using mdb_list_mid(2) [OF l] n assms(2)
    by (cases xs rule: rev_cases) auto
  then have "mdb_list (xs' @ p # q # ys) s" using l by simp
  then show "cteNext s p = q" by (simp add: mdb_list_mid)
qed

lemma valid_mdb_acyclic:
  assumes v: "valid_mdb s" and "p \<noteq> NULL" "q \<noteq> NULL"
  shows "cteNext s p \<noteq> p" "\<not> (cteNext s p = q \<and> cteNext s q = p)"
proof -
  obtain xs ys where l: "mdb_list (xs @ p # ys) s" using v assms(2) by (rule valid_mdbE)
  note m = mdb_list_mid [OF l]
  show "cteNext s p \<noteq> p" using m by (auto split: list.splits)
  show "\<not> (cteNext s p = q \<and> cteNext s q = p)"
  proof
    assume a: "cteNext s p = q \<and> cteNext s q = p"
    then obtain ys' where ys: "ys = q # ys'" using m(1) assms(3) by (auto split: list.splits)
    then have "mdb_list ((xs @ [p]) @ q # ys') s" using l by simp
    from mdb_list_mid(1,4) [OF this] a assms(2) show False by (auto split: list.splits)
  qed
qed

section \<open>The links after an operation\<close>

lemma links_upd_cte:
  "cteNext (upd_cte p f s) = (cteNext s)(p := mdbNext (f (ctes s p)))"
  "ctePrev (upd_cte p f s) = (ctePrev s)(p := mdbPrev (f (ctes s p)))"
  by (auto simp: fun_eq_iff cteNext_def ctePrev_def upd_cte_def)

lemma mdbNext_ctes: "mdbNext (ctes s p) = cteNext s p" "mdbPrev (ctes s p) = ctePrev s p"
  by (simp_all add: cteNext_def ctePrev_def)

lemma links_set_cap [simp]: "cteNext (set_cap p c s) = cteNext s" "ctePrev (set_cap p c s) = ctePrev s"
  by (simp_all add: set_cap_def links_upd_cte mdbNext_ctes)

lemma links_setUntyped [simp]:
  "cteNext (setUntypedCapAsFull c c' p s) = cteNext s" "ctePrev (setUntypedCapAsFull c c' p s) = ctePrev s"
  by (simp_all add: setUntypedCapAsFull_def links_upd_cte mdbNext_ctes split: cap.splits)

lemma ctes_postCapDeletion [simp]: "ctes (postCapDeletion c s) = ctes s"
  by (simp add: postCapDeletion_def deletedIRQHandler_def setIRQState_def maskInterrupt_def Let_def
      split: cap.splits)

lemma links_postCapDeletion [simp]:
  "cteNext (postCapDeletion c s) = cteNext s" "ctePrev (postCapDeletion c s) = ctePrev s"
  by (simp_all add: fun_eq_iff cteNext_def ctePrev_def)

lemma nullMDBNode_links [simp]: "mdbNext (nullMDBNode c) = NULL" "mdbPrev (nullMDBNode c) = NULL"
  "cteCap (nullMDBNode c) = c"
  by (simp_all add: nullMDBNode_def)

lemma links_if:
  "cteNext (if b then s else s') = (if b then cteNext s else cteNext s')"
  "ctePrev (if b then s else s') = (if b then ctePrev s else ctePrev s')"
  by auto

lemmas op_links = Let_def links_if mdb.links links_upd_cte mdbNext_ctes

lemma cteInsert_links:
  assumes "src \<noteq> dest"
  shows "cteNext (cteInsert c src dest s) = (cteNext s)(dest := cteNext s src, src := dest)"
    "ctePrev (cteInsert c src dest s) =
       (if cteNext s src \<noteq> NULL then (ctePrev s)(dest := src, cteNext s src := dest)
        else (ctePrev s)(dest := src))"
  using assms by (simp_all add: cteInsert_def op_links fun_upd_twist)

lemma insertNewCap_links:
  assumes "src \<noteq> dest"
  shows "cteNext (insertNewCap src dest c s) = (cteNext s)(dest := cteNext s src, src := dest)"
    "ctePrev (insertNewCap src dest c s) =
       (if cteNext s src \<noteq> NULL then (ctePrev s)(dest := src, cteNext s src := dest)
        else (ctePrev s)(dest := src))"
  using assms by (simp_all add: insertNewCap_def op_links fun_upd_twist)

lemma cteMove_links:
  assumes "src \<noteq> dest"
  shows "cteNext (cteMove c src dest s) =
       (if ctePrev s src \<noteq> NULL then (cteNext s)(dest := cteNext s src, src := NULL, ctePrev s src := dest)
        else (cteNext s)(dest := cteNext s src, src := NULL))"
    "ctePrev (cteMove c src dest s) =
       (if cteNext s src \<noteq> NULL then (ctePrev s)(dest := ctePrev s src, src := NULL, cteNext s src := dest)
        else (ctePrev s)(dest := ctePrev s src, src := NULL))"
  using assms by (simp_all add: cteMove_def op_links fun_upd_twist)

lemma emptySlot_links:
  assumes "cteCap (ctes s slot) \<noteq> NullCap"
  shows "cteNext (emptySlot slot c s) =
       (if ctePrev s slot \<noteq> NULL then (cteNext s)(ctePrev s slot := cteNext s slot, slot := NULL)
        else (cteNext s)(slot := NULL))"
    "ctePrev (emptySlot slot c s) =
       (if cteNext s slot \<noteq> NULL then (ctePrev s)(cteNext s slot := ctePrev s slot, slot := NULL)
        else (ctePrev s)(slot := NULL))"
  using assms by (auto simp: emptySlot_def op_links fun_eq_iff)

text \<open>Exchanging two slots: the code's order of stores, and its net effect on one of the links.\<close>

definition swap_slots :: "'a \<Rightarrow> 'a \<Rightarrow> 'a \<Rightarrow> 'a" where
  "swap_slots a b p = (if p = a then b else if p = b then a else p)"

lemma swap_slots_simps [simp]:
  "swap_slots a b a = b" "swap_slots a b b = a" "p \<noteq> a \<Longrightarrow> p \<noteq> b \<Longrightarrow> swap_slots a b p = p"
  by (auto simp: swap_slots_def)

definition swap_next :: "'a \<Rightarrow> ('a \<Rightarrow> 'a) \<Rightarrow> ('a \<Rightarrow> 'a) \<Rightarrow> 'a \<Rightarrow> 'a \<Rightarrow> 'a \<Rightarrow> 'a" where
  "swap_next z n v a b =
     (let n1 = (if v a \<noteq> z then n(v a := b) else n);
          v1 = (if n a \<noteq> z then v(n a := b) else v);
          n2 = n1(a := n1 b, b := n a)
      in if v1 b \<noteq> z then n2(v1 b := a) else n2)"

lemma swap_links:
  assumes M: "\<And>x y. x \<noteq> z \<Longrightarrow> y \<noteq> z \<Longrightarrow> (n x = y) = (v y = x)"
   and ne: "a \<noteq> b" "a \<noteq> z" "b \<noteq> z" and ns: "n a \<noteq> a" "n b \<noteq> b" "\<not> (n a = b \<and> n b = a)" and p: "p \<noteq> z"
  shows "swap_next z n v a b p = swap_slots a b (n (swap_slots a b p))"
proof -
  have s: "v a \<noteq> a" "v b \<noteq> b" using M ne ns by metis+
  have P: "n p = a \<longleftrightarrow> v a = p" "n p = b \<longleftrightarrow> v b = p" using M ne p by metis+
  consider (ab) "n a = b" "v b = a" "n b \<noteq> a" "v a \<noteq> b" | (ba) "n b = a" "n a \<noteq> b" "v a = b" "v b \<noteq> a"
    | (no) "n a \<noteq> b" "n b \<noteq> a" "v a \<noteq> b" "v b \<noteq> a"
    using M ne ns by metis
  then show ?thesis
  proof cases
    case ab
    have "swap_next z n v a b = (if v a = z then n else n(v a := b)) (a := n b, b := a)"
      using ab ne by (simp add: swap_next_def)
    then show ?thesis using ab ne ns s P p
      by (cases "p = a"; cases "p = b"; cases "v a = p") simp_all
  next
    case ba
    have "swap_next z n v a b = (if v b = z then n(a := b, b := n a) else n(a := b, b := n a, v b := a))"
      using ba ne ns s by (simp add: swap_next_def fun_upd_twist)
    then show ?thesis using ba ne ns s P p
      by (cases "p = a"; cases "p = b"; cases "v b = p") simp_all
  next
    case no
    have "swap_next z n v a b = (let n2 = (if v a = z then n else n(v a := b)) (a := n b, b := n a) in
       if v b = z then n2 else n2(v b := a))"
      using no ne ns s by (simp add: swap_next_def Let_def)
    then show ?thesis using no ne ns s P p
      by (cases "p = a"; cases "p = b"; cases "v a = p"; cases "v b = p") (simp_all add: Let_def)
  qed
qed


lemma set_next_if:
  "cteNext (if p \<noteq> NULL then set_cteNext p v s else s) = (if p \<noteq> NULL then (cteNext s)(p := v) else cteNext s)"
  "ctePrev (if p \<noteq> NULL then set_cteNext p v s else s) = ctePrev s"
  "ctePrev (if p \<noteq> NULL then set_ctePrev p v s else s) = (if p \<noteq> NULL then (ctePrev s)(p := v) else ctePrev s)"
  "cteNext (if p \<noteq> NULL then set_ctePrev p v s else s) = cteNext s"
  by (simp_all add: mdb.links)

lemma cteSwap_swap_next:
  assumes "a \<noteq> b"
  shows "cteNext (cteSwap c a d b s) = swap_next NULL (cteNext s) (ctePrev s) a b"
    "ctePrev (cteSwap c a d b s) = swap_next NULL (ctePrev s) (cteNext s) a b"
proof -
  define s1 where "s1 = set_cap b c (set_cap a d s)"
  define s2 where "s2 = (if ctePrev s a \<noteq> NULL then set_cteNext (ctePrev s a) b s1 else s1)"
  define s3 where "s3 = (if cteNext s a \<noteq> NULL then set_ctePrev (cteNext s a) b s2 else s2)"
  define s4 where "s4 = upd_cte b (\<lambda>x. (ctes s1 a)\<lparr>cteCap := cteCap x\<rparr>)
     (upd_cte a (\<lambda>x. (ctes s3 b)\<lparr>cteCap := cteCap x\<rparr>) s3)"
  define s5 where "s5 = (if ctePrev s3 b \<noteq> NULL then set_cteNext (ctePrev s3 b) a s4 else s4)"
  have l1: "cteNext s1 = cteNext s" "ctePrev s1 = ctePrev s" by (simp_all add: s1_def)
  have e: "cteSwap c a d b s = (if cteNext s3 b \<noteq> NULL then set_ctePrev (cteNext s3 b) a s5 else s5)"
    using l1 by (simp only: cteSwap_def Let_def mdbNext_ctes s1_def [symmetric] s2_def [symmetric]
        s3_def [symmetric] s4_def [symmetric] s5_def [symmetric])
  have l4: "cteNext s4 = (cteNext s3)(a := cteNext s3 b, b := cteNext s a)"
    "ctePrev s4 = (ctePrev s3)(a := ctePrev s3 b, b := ctePrev s a)"
    by (simp_all add: s4_def links_upd_cte mdbNext_ctes l1)
  note l = e s5_def set_next_if l4 s3_def s2_def l1 swap_next_def Let_def
  show "cteNext (cteSwap c a d b s) = swap_next NULL (cteNext s) (ctePrev s) a b" by (simp only: l)
  show "ctePrev (cteSwap c a d b s) = swap_next NULL (ctePrev s) (cteNext s) a b" by (simp only: l)
qed

lemma cteSwap_links:
  assumes v: "valid_mdb s" and ne: "a \<noteq> b" "a \<noteq> NULL" "b \<noteq> NULL" and p: "p \<noteq> NULL"
  shows "cteNext (cteSwap c a d b s) p = swap_slots a b (cteNext s (swap_slots a b p))"
    "ctePrev (cteSwap c a d b s) p = swap_slots a b (ctePrev s (swap_slots a b p))"
proof -
  note L = valid_mdb_links [OF v] and A = valid_mdb_acyclic [OF v]
  show "cteNext (cteSwap c a d b s) p = swap_slots a b (cteNext s (swap_slots a b p))"
    unfolding cteSwap_swap_next(1) [OF ne(1)]
    by (rule swap_links [OF L ne A(1) [OF ne(2,2)] A(1) [OF ne(3,3)] A(2) [OF ne(2,3)] p])
  have "ctePrev s a \<noteq> a" "ctePrev s b \<noteq> b" "\<not> (ctePrev s a = b \<and> ctePrev s b = a)"
    using L A ne by metis+
  with ne p show "ctePrev (cteSwap c a d b s) p = swap_slots a b (ctePrev s (swap_slots a b p))"
    unfolding cteSwap_swap_next(2) [OF ne(1)]
    by (intro swap_links) (auto simp: L)
qed

section \<open>The operations on chains\<close>

lemma path_map:
  "path f p xs q \<Longrightarrow> (\<And>x. x \<in> set xs \<Longrightarrow> h x \<noteq> NULL \<and> f' (h x) = h (f x)) \<Longrightarrow>
   path f' (h p) (map h xs) (h q)"
  by (induction xs arbitrary: p) auto

lemma mdb_insert_list:
  assumes l: "mdb_list (xs @ src # ys) s" and d: "dest \<notin> set (xs @ src # ys)" "dest \<noteq> NULL"
    and n: "cteNext s' = (cteNext s)(dest := cteNext s src, src := dest)"
    and p: "ctePrev s' = (if cteNext s src \<noteq> NULL then (ctePrev s)(dest := src, cteNext s src := dest)
        else (ctePrev s)(dest := src))"
  shows "mdb_list (xs @ src # dest # ys) s'"
  using l d mdb_list_mid [OF l]
  by (cases ys) (auto simp: mdb_list_def dlist_def n p)

lemma mdb_move_list:
  assumes l: "mdb_list (xs @ src # ys) s" and d: "dest \<notin> set (xs @ src # ys)" "dest \<noteq> NULL"
  shows "mdb_list (xs @ dest # ys) (cteMove c src dest s)"
  using l d mdb_list_mid [OF l]
  by (cases ys; cases xs rule: rev_cases)
    (auto simp: mdb_list_def dlist_def cteMove_links fun_upd_twist)

lemma mdb_empty_list:
  assumes l: "mdb_list (xs @ slot # ys) s" and c: "cteCap (ctes s slot) \<noteq> NullCap"
  shows "mdb_list (xs @ ys) (emptySlot slot i s)"
  using l mdb_list_mid [OF l]
  by (cases ys; cases xs rule: rev_cases)
    (auto simp: mdb_list_def dlist_def emptySlot_links [OF c])

lemma mdb_swap_list:
  assumes v: "valid_mdb s" and ne: "a \<noteq> b" "a \<noteq> NULL" "b \<noteq> NULL" and l: "mdb_list L s"
  shows "mdb_list (map (swap_slots a b) L) (cteSwap c a d b s)"
proof -
  let ?h = "swap_slots a b"
  obtain h e where D: "dlist (cteNext s) (ctePrev s) h e L" using l by (auto simp: mdb_list_def)
  have i: "?h (?h x) = x" for x by (auto simp: swap_slots_def)
  have nn: "?h x \<noteq> NULL" if "x \<noteq> NULL" for x using that ne by (auto simp: swap_slots_def)
  have 0: "?h NULL = NULL" using ne by (auto simp: swap_slots_def)
  have k: "x \<noteq> NULL" if "x \<in> set L" for x using D that by (rule dlist_not_NULL)
  have "distinct (map ?h L)" using dlist_distinct [OF D] by (auto simp: distinct_map intro: inj_on_inverseI [where g = ?h] i)
  moreover have "path (cteNext (cteSwap c a d b s)) (?h h) (map ?h L) (?h NULL)"
    using D by (intro path_map [of "cteNext s"]) (auto simp: dlist_def nn k i cteSwap_links [OF v ne])
  moreover have "path (ctePrev (cteSwap c a d b s)) (?h e) (map ?h (rev L)) (?h NULL)"
    using D by (intro path_map [of "ctePrev s"]) (auto simp: dlist_def nn k i cteSwap_links [OF v ne])
  ultimately show ?thesis unfolding mdb_list_def dlist_def by (auto simp: 0 rev_map)
qed

text \<open>A chain that an operation does not touch.\<close>

lemma mdb_chain_apart:
  assumes "mdb_list L s" "mdb_list K s" "x \<in> set K" "x \<notin> set L"
  shows "set L \<inter> set K = {}"
  using assms mdb_list_share by blast

lemma mdb_single_apart:
  assumes "mdb_list (xs @ src # ys) s" "mdb_list [dest] s" "src \<noteq> dest"
  shows "dest \<notin> set (xs @ src # ys)"
proof
  assume "dest \<in> set (xs @ src # ys)"
  then have "xs @ src # ys = [dest]" using mdb_list_share [OF assms(1,2)] by simp
  then show False using assms(3) by (auto simp: append_eq_Cons_conv)
qed

lemma mdb_insert_apart:
  assumes l: "mdb_list (xs @ src # ys) s" and k: "mdb_list K s" "src \<notin> set K" "dest \<notin> set K"
    and n: "cteNext s' = (cteNext s)(dest := cteNext s src, src := dest)"
    and p: "ctePrev s' = (if cteNext s src \<noteq> NULL then (ctePrev s)(dest := src, cteNext s src := dest)
        else (ctePrev s)(dest := src))"
  shows "mdb_list K s'"
proof -
  have "set K \<inter> set (xs @ src # ys) = {}" using mdb_chain_apart [OF k(1) l _ k(2)] by simp
  then have "cteNext s src \<notin> set K" if "cteNext s src \<noteq> NULL"
    using mdb_list_next [OF l _ that] that by auto
  then show ?thesis using k by (auto intro!: mdb_list_frame [OF k(1)] simp: n p)
qed

lemma mdb_move_apart:
  assumes l: "mdb_list (xs @ src # ys) s" and k: "mdb_list K s" "src \<notin> set K" "dest \<notin> set K" "src \<noteq> dest"
  shows "mdb_list K (cteMove c src dest s)"
proof -
  have "set K \<inter> set (xs @ src # ys) = {}" using mdb_chain_apart [OF k(1) l _ k(2)] by simp
  then have "cteNext s src \<noteq> NULL \<Longrightarrow> cteNext s src \<notin> set K" "ctePrev s src \<noteq> NULL \<Longrightarrow> ctePrev s src \<notin> set K"
    using mdb_list_next [OF l, of src] mdb_list_prev [OF l, of src] by auto
  then show ?thesis using k by (auto intro!: mdb_list_frame [OF k(1)] simp: cteMove_links)
qed

lemma mdb_empty_apart:
  assumes l: "mdb_list (xs @ slot # ys) s" and k: "mdb_list K s" "slot \<notin> set K"
    and c: "cteCap (ctes s slot) \<noteq> NullCap"
  shows "mdb_list K (emptySlot slot i s)"
proof -
  have "set K \<inter> set (xs @ slot # ys) = {}" using mdb_chain_apart [OF k(1) l _ k(2)] by simp
  then have "cteNext s slot \<noteq> NULL \<Longrightarrow> cteNext s slot \<notin> set K" "ctePrev s slot \<noteq> NULL \<Longrightarrow> ctePrev s slot \<notin> set K"
    using mdb_list_next [OF l, of slot] mdb_list_prev [OF l, of slot] by auto
  then show ?thesis using k by (auto intro!: mdb_list_frame [OF k(1)] simp: emptySlot_links [OF c])
qed

text \<open>The invariant is kept: every slot is still on a chain.\<close>

lemma valid_mdb_insert:
  assumes v: "valid_mdb s" and ne: "src \<noteq> NULL" "src \<noteq> dest" and d: "mdb_list [dest] s"
    and n: "cteNext s' = (cteNext s)(dest := cteNext s src, src := dest)"
    and p: "ctePrev s' = (if cteNext s src \<noteq> NULL then (ctePrev s)(dest := src, cteNext s src := dest)
        else (ctePrev s)(dest := src))"
  shows "valid_mdb s'"
  unfolding valid_mdb_def
proof (intro allI impI)
  fix q :: ptr assume q: "q \<noteq> NULL"
  obtain xs ys where l: "mdb_list (xs @ src # ys) s" using v ne(1) by (rule valid_mdbE)
  have dn: "dest \<notin> set (xs @ src # ys)" using l d ne(2) by (rule mdb_single_apart)
  have l': "mdb_list (xs @ src # dest # ys) s'" using l dn d n p by (intro mdb_insert_list) auto
  obtain K where k: "mdb_list K s" "q \<in> set K" using v q by (auto simp: valid_mdb_def)
  show "\<exists>L. mdb_list L s' \<and> q \<in> set L"
  proof (cases "src \<in> set K \<or> dest \<in> set K")
    case True
    then have "K = xs @ src # ys \<or> K = [dest]" using mdb_list_share [OF k(1) l] mdb_list_share [OF k(1) d] by auto
    then have "q \<in> set (xs @ src # dest # ys)" using k(2) by auto
    then show ?thesis using l' by blast
  next
    case False
    then show ?thesis using mdb_insert_apart [OF l k(1) _ _ n p] k(2) by blast
  qed
qed

lemma valid_mdb_move:
  assumes v: "valid_mdb s" and ne: "src \<noteq> NULL" "src \<noteq> dest" and d: "mdb_list [dest] s"
  shows "valid_mdb (cteMove c src dest s)" (is "valid_mdb ?s'")
  unfolding valid_mdb_def
proof (intro allI impI)
  fix q :: ptr assume q: "q \<noteq> NULL"
  obtain xs ys where l: "mdb_list (xs @ src # ys) s" using v ne(1) by (rule valid_mdbE)
  have dn: "dest \<notin> set (xs @ src # ys)" using l d ne(2) by (rule mdb_single_apart)
  have l': "mdb_list (xs @ dest # ys) ?s'" using l dn d by (intro mdb_move_list) auto
  have e: "mdb_list [src] ?s'" using ne d mdb_list_mid [OF l] valid_mdb_acyclic [OF v ne(1,1)]
    valid_mdb_links [OF v ne(1,1)] by (auto simp: cteMove_links)
  obtain K where k: "mdb_list K s" "q \<in> set K" using v q by (auto simp: valid_mdb_def)
  show "\<exists>L. mdb_list L ?s' \<and> q \<in> set L"
  proof (cases "src \<in> set K \<or> dest \<in> set K")
    case True
    then have "K = xs @ src # ys \<or> K = [dest]" using mdb_list_share [OF k(1) l] mdb_list_share [OF k(1) d] by auto
    then have "q \<in> set (xs @ dest # ys) \<or> q \<in> set [src]" using k(2) by auto
    then show ?thesis using l' e by blast
  next
    case False
    then show ?thesis using mdb_move_apart [OF l k(1) _ _ ne(2)] k(2) by blast
  qed
qed

lemma valid_mdb_empty:
  assumes v: "valid_mdb s" and ne: "slot \<noteq> NULL"
  shows "valid_mdb (emptySlot slot i s)" (is "valid_mdb ?s'")
proof (cases "cteCap (ctes s slot) = NullCap")
  case True
  then show ?thesis using v by (simp add: emptySlot_def)
next
  case c: False
  show ?thesis unfolding valid_mdb_def
  proof (intro allI impI)
    fix q :: ptr assume q: "q \<noteq> NULL"
    obtain xs ys where l: "mdb_list (xs @ slot # ys) s" using v ne by (rule valid_mdbE)
    have l': "mdb_list (xs @ ys) ?s'" using l c by (rule mdb_empty_list)
    have e: "mdb_list [slot] ?s'" using ne by (auto simp: emptySlot_links [OF c])
    obtain K where k: "mdb_list K s" "q \<in> set K" using v q by (auto simp: valid_mdb_def)
    show "\<exists>L. mdb_list L ?s' \<and> q \<in> set L"
    proof (cases "slot \<in> set K")
      case True
      then have "K = xs @ slot # ys" using mdb_list_share [OF k(1) l] by auto
      then have "q \<in> set (xs @ ys) \<or> q \<in> set [slot]" using k(2) by auto
      then show ?thesis using l' e by blast
    next
      case False
      then show ?thesis using mdb_empty_apart [OF l k(1) _ c] k(2) by blast
    qed
  qed
qed

lemma valid_mdb_swap:
  assumes v: "valid_mdb s" and ne: "a \<noteq> b" "a \<noteq> NULL" "b \<noteq> NULL"
  shows "valid_mdb (cteSwap c a d b s)"
  unfolding valid_mdb_def
proof (intro allI impI)
  fix q :: ptr assume "q \<noteq> NULL"
  then have "swap_slots a b q \<noteq> NULL" using ne by (auto simp: swap_slots_def)
  then obtain L where "mdb_list L s" "swap_slots a b q \<in> set L" using v by (auto simp: valid_mdb_def)
  moreover have "swap_slots a b (swap_slots a b q) = q" by (simp add: swap_slots_def)
  ultimately show "\<exists>L. mdb_list L (cteSwap c a d b s) \<and> q \<in> set L"
    using mdb_swap_list [OF v ne] by (metis image_eqI set_map)
qed


section \<open>Properties\<close>

text \<open>An example: slot 64 derived from slot 32, slot 96 empty.\<close>

definition example_mdb :: kstate where
  "example_mdb = insertNewCap 32 64 (EndpointCap 0 True True True True 4096)
     (set_cap 32 (UntypedCap 0 False 12 4096) kstate0)"

lemma kstate0_links [simp]: "cteNext kstate0 = (\<lambda>_. NULL)" "ctePrev kstate0 = (\<lambda>_. NULL)"
  by (simp_all add: fun_eq_iff cteNext_def ctePrev_def kstate0_def)

lemma kstate0_valid_mdb: "valid_mdb (set_cap p c kstate0)"
proof -
  have "mdb_list [q] (set_cap p c kstate0)" if "q \<noteq> NULL" for q using that by simp
  then show ?thesis unfolding valid_mdb_def by (metis list.set_intros(1))
qed

lemma example_mdb_valid: "valid_mdb example_mdb"
  unfolding example_mdb_def
  by (rule valid_mdb_insert [where src = 32 and dest = 64, OF kstate0_valid_mdb])
    (simp_all add: insertNewCap_links)

lemma example_mdb_list: "mdb_list ([] @ 32 # [64]) example_mdb" "mdb_list [96] example_mdb"
  by (simp_all add: example_mdb_def mdb_list_def dlist_def insertNewCap_links)

lemma cap_upd_cte: "cteCap (ctes (upd_cte p f s) q) = (if q = p then cteCap (f (ctes s p)) else cteCap (ctes s q))"
  by (simp add: upd_cte_def)

lemma cap_set_links [simp]:
  "cteCap (ctes (set_cteNext p v s) q) = cteCap (ctes s q)"
  "cteCap (ctes (set_ctePrev p v s) q) = cteCap (ctes s q)"
  by (simp_all add: set_cteNext_def set_ctePrev_def cap_upd_cte)

lemma cap_set_cap [simp]: "cteCap (ctes (set_cap p c s) q) = (if q = p then c else cteCap (ctes s q))"
  by (simp add: set_cap_def cap_upd_cte)

text \<open>
  C6. A capability inserted by \<open>cteInsert\<close> (or created by \<open>insertNewCap\<close>) takes its place in the mapping
  database directly behind its source (its parent): the chain through the source gains exactly
  the destination, every other chain is unchanged, the destination holds the new capability, and every slot is
  still on a chain.
\<close>

theorem cteInsert_behind_source:
  assumes "valid_mdb s" "mdb_list (xs @ src # ys) s" "mdb_list [dest] s" "src \<noteq> dest"
    and "s' = cteInsert c src dest s \<or> s' = insertNewCap src dest c s"
  shows "mdb_list (xs @ src # dest # ys) s' \<and> valid_mdb s' \<and> cteCap (ctes s' dest) = c
    \<and> (\<forall>K. mdb_list K s \<longrightarrow> src \<notin> set K \<longrightarrow> dest \<notin> set K \<longrightarrow> mdb_list K s')"
proof -
  have n: "cteNext s' = (cteNext s)(dest := cteNext s src, src := dest)"
    and p: "ctePrev s' = (if cteNext s src \<noteq> NULL then (ctePrev s)(dest := src, cteNext s src := dest)
        else (ctePrev s)(dest := src))"
    using assms(4,5) by (auto simp: cteInsert_links insertNewCap_links)
  have d: "dest \<notin> set (xs @ src # ys)" "dest \<noteq> NULL" "src \<noteq> NULL"
    using mdb_single_apart [OF assms(2-4)] assms(3) mdb_list_mid(3) [OF assms(2)] by auto
  have "cteCap (ctes s' dest) = c"
    using assms(5) by (auto simp: cteInsert_def insertNewCap_def Let_def cap_upd_cte)
  then show ?thesis
    using mdb_insert_list [OF assms(2) d(1,2) n p] valid_mdb_insert [OF assms(1) d(3) assms(4,3) n p]
      mdb_insert_apart [OF assms(2) _ _ _ n p] by blast
qed

theorem cteInsert_behind_source_witness:
  "mdb_list [32, 96, 64] (cteInsert (UntypedCap 0 False 12 4096) 32 96 example_mdb)"
  using cteInsert_behind_source [OF example_mdb_valid example_mdb_list, of _ "UntypedCap 0 False 12 4096"]
  by simp

text \<open>
  \<open>cteMove\<close> gives the destination the source's place in the mapping database and leaves the source
  empty and unlinked; \<open>cteSwap\<close> exchanges the places of two slots on all chains, also when the two
  are neighbours; both store the given capabilities and keep every slot on a chain.
\<close>

theorem cteMove_cteSwap_places:
  assumes "valid_mdb s" "mdb_list (xs @ src # ys) s" "dest \<noteq> NULL" "src \<noteq> dest"
  shows "(mdb_list [dest] s \<longrightarrow>
      mdb_list (xs @ dest # ys) (cteMove c src dest s) \<and> mdb_list [src] (cteMove c src dest s)
      \<and> cteCap (ctes (cteMove c src dest s) dest) = c
      \<and> cteCap (ctes (cteMove c src dest s) src) = NullCap \<and> valid_mdb (cteMove c src dest s))
    \<and> (\<forall>L. mdb_list L s \<longrightarrow> mdb_list (map (swap_slots src dest) L) (cteSwap c src d dest s))
    \<and> cteCap (ctes (cteSwap c src d dest s) src) = d \<and> cteCap (ctes (cteSwap c src d dest s) dest) = c
    \<and> valid_mdb (cteSwap c src d dest s)"
proof (intro conjI impI allI)
  note ne = assms(4) mdb_list_mid(3) [OF assms(2)] assms(3)
  show "cteCap (ctes (cteSwap c src d dest s) src) = d" "cteCap (ctes (cteSwap c src d dest s) dest) = c"
    using assms(4) by (auto simp: cteSwap_def Let_def cap_upd_cte)
  show "mdb_list (map (swap_slots src dest) L) (cteSwap c src d dest s)" if "mdb_list L s" for L
    using assms(1) ne that by (rule mdb_swap_list)
  show "valid_mdb (cteSwap c src d dest s)" using assms(1) ne by (rule valid_mdb_swap)
next
  note m = mdb_list_mid [OF assms(2)]
  assume d: "mdb_list [dest] s"
  have dn: "dest \<notin> set (xs @ src # ys)" using assms(2) d assms(4) by (rule mdb_single_apart)
  have "cteNext (cteMove c src dest s) src = NULL" "ctePrev (cteMove c src dest s) src = NULL"
    using m assms(4) valid_mdb_acyclic(1) [OF assms(1) m(3,3)] valid_mdb_links [OF assms(1) m(3,3)]
    by (auto simp: cteMove_links)
  then show "mdb_list [src] (cteMove c src dest s)" using m(3) by simp
  show "cteCap (ctes (cteMove c src dest s) dest) = c" "cteCap (ctes (cteMove c src dest s) src) = NullCap"
    using assms(4) by (auto simp: cteMove_def Let_def cap_upd_cte)
  show "mdb_list (xs @ dest # ys) (cteMove c src dest s)" using assms(2) dn assms(3) by (rule mdb_move_list)
  show "valid_mdb (cteMove c src dest s)" using assms(1) m(3) assms(4) d by (rule valid_mdb_move)
qed

theorem cteMove_cteSwap_places_witness:
  "mdb_list [96, 64] (cteMove NullCap 32 96 example_mdb)
   \<and> mdb_list [64, 32] (cteSwap NullCap 32 NullCap 64 example_mdb)"
  using cteMove_cteSwap_places [OF example_mdb_valid example_mdb_list(1), of 96 NullCap]
    cteMove_cteSwap_places [OF example_mdb_valid example_mdb_list(1), of 64 NullCap NullCap]
    example_mdb_list
  by (auto dest!: spec [of _ "[32, 64]"])

text \<open>
  \<open>emptySlot\<close> takes the slot out of the mapping database, joining its neighbours, and leaves
  the slot empty; a following slot becomes first badged when the removed one was; an interrupt handler
  given as clean-up leaves its interrupt inactive and masked.
\<close>

theorem emptySlot_unlinks:
  assumes "valid_mdb s" "mdb_list (xs @ slot # ys) s" "cteCap (ctes s slot) \<noteq> NullCap"
  shows "mdb_list (xs @ ys) (emptySlot slot i s) \<and> mdb_list [slot] (emptySlot slot i s)
    \<and> cteCap (ctes (emptySlot slot i s) slot) = NullCap \<and> valid_mdb (emptySlot slot i s)
    \<and> (\<forall>K. mdb_list K s \<longrightarrow> slot \<notin> set K \<longrightarrow> mdb_list K (emptySlot slot i s))
    \<and> (\<forall>y ys'. ys = y # ys' \<longrightarrow> mdbFirstBadged (ctes (emptySlot slot i s) y)
          = (mdbFirstBadged (ctes s y) \<or> mdbFirstBadged (ctes s slot)))
    \<and> (\<forall>irq. i = IRQHandlerCap irq \<longrightarrow>
          intStateIRQTable (emptySlot slot i s) irq = IRQInactive \<and> hwIRQMask (emptySlot slot i s) irq)"
proof (intro conjI allI impI)
  note m = mdb_list_mid [OF assms(2)]
  show "mdb_list (xs @ ys) (emptySlot slot i s)" using assms(2,3) by (rule mdb_empty_list)
  show "mdb_list [slot] (emptySlot slot i s)" using m(3) by (simp add: emptySlot_links [OF assms(3)])
  show "cteCap (ctes (emptySlot slot i s) slot) = NullCap"
    using assms(3) by (simp add: emptySlot_def Let_def cap_upd_cte)
  show "valid_mdb (emptySlot slot i s)" using assms(1) m(3) by (rule valid_mdb_empty)
  show "mdb_list K (emptySlot slot i s)" if "mdb_list K s" "slot \<notin> set K" for K
    using assms(2) that assms(3) by (rule mdb_empty_apart)
  show "mdbFirstBadged (ctes (emptySlot slot i s) y) = (mdbFirstBadged (ctes s y) \<or> mdbFirstBadged (ctes s slot))"
    if "ys = y # ys'" for y ys'
    using that m assms(3)
    by (auto simp: emptySlot_def Let_def mdbNext_ctes set_cteNext_def set_ctePrev_def upd_cte_def)
  show "intStateIRQTable (emptySlot slot i s) irq = IRQInactive" "hwIRQMask (emptySlot slot i s) irq"
    if "i = IRQHandlerCap irq" for irq
    using that assms(3) by (auto simp: emptySlot_def Let_def postCapDeletion_def deletedIRQHandler_def
        setIRQState_def maskInterrupt_def)
qed

theorem emptySlot_unlinks_witness:
  "mdb_list [64] (emptySlot 32 (IRQHandlerCap 5) example_mdb)
   \<and> hwIRQMask (emptySlot 32 (IRQHandlerCap 5) example_mdb) 5"
proof -
  have "cteCap (ctes example_mdb 32) \<noteq> NullCap"
    by (simp add: example_mdb_def insertNewCap_def Let_def cap_upd_cte)
  from emptySlot_unlinks [OF example_mdb_valid example_mdb_list(1) this, of "IRQHandlerCap 5"]
  show ?thesis by simp
qed

end
