(* ===== verification/Invocation.thy ===== *)
theory Invocation
  imports CNode
begin

text \<open>
  What the decode functions share: invocation labels, extra capabilities and the shape of results.

  The numbers of the labels are generated by the build from \<^verbatim>\<open>libsel4/include/interfaces/object-api.xml\<close>;
  a label is the name it has there, and \<open>OtherLabel\<close> any number that names no method of the objects modelled.

  A decode function of the C code returns a status after it has set \<^verbatim>\<open>current_syscall_error\<close> and, for a failed
  lookup, \<^verbatim>\<open>current_lookup_fault\<close>. Here it returns \<open>Inl (error, fault)\<close>, or \<open>Inr s\<close> with the
  state after the invocation; the option is \<open>None\<close> when a loop below it does not return or the code halts.
\<close>

datatype invocation_label =
    UntypedRetype
  | TCBReadRegisters
  | TCBWriteRegisters
  | TCBCopyRegisters
  | TCBConfigure
  | TCBSetPriority
  | TCBSetMCPriority
  | TCBSetSchedParams
  | TCBSetTimeoutEndpoint
  | TCBSetIPCBuffer
  | TCBSetSpace
  | TCBSuspend
  | TCBResume
  | TCBBindNotification
  | TCBUnbindNotification
  | TCBSetTLSBase
  | TCBSetFlags
  | CNodeRevoke
  | CNodeDelete
  | CNodeCancelBadgedSends
  | CNodeCopy
  | CNodeMint
  | CNodeMove
  | CNodeMutate
  | CNodeRotate
  | IRQIssueIRQHandler
  | IRQAckIRQ
  | IRQSetIRQHandler
  | IRQClearIRQHandler
  | DomainSetSet
  | DomainScheduleConfigure
  | DomainScheduleSetStart
  | SchedControlConfigureFlags
  | SchedContextBind
  | SchedContextUnbind
  | SchedContextUnbindObject
  | SchedContextConsumed
  | SchedContextYieldTo
  | RISCVIRQIssueIRQHandlerTrigger
  | RISCVPageTableMap
  | RISCVPageTableUnmap
  | RISCVPageMap
  | RISCVPageUnmap
  | RISCVPageGetAddress
  | RISCVASIDControlMakePool
  | RISCVASIDPoolAssign
  | OtherLabel

type_synonym decode_error = "syscall_error \<times> lookup_fault option"
type_synonym 'a decode = "(decode_error + 'a) option"

definition err :: "syscall_error \<Rightarrow> 'a decode" where
  "err e = Some (Inl (e, None))"

definition ok :: "'a \<Rightarrow> 'a decode" where
  "ok x = Some (Inr x)"

text \<open>Continue with the value of a step, or stop with its error.\<close>

definition on_ok :: "'a decode \<Rightarrow> ('a \<Rightarrow> 'b decode) \<Rightarrow> 'b decode" where
  "on_ok r f = do { x \<leftarrow> r; (case x of Inl e \<Rightarrow> Some (Inl e) | Inr v \<Rightarrow> f v) }"

lemma on_ok_simps [simp]:
  "on_ok (ok x) f = f x" "on_ok (err e) f = err e" "on_ok (Some (Inr x)) f = f x"
  "on_ok (Some (Inl d)) f = Some (Inl d)" "on_ok None f = None"
  by (simp_all add: on_ok_def ok_def err_def)

lemma on_ok_cases:
  assumes "on_ok r f = Some (Inr y)"
  obtains x where "r = Some (Inr x)" "f x = Some (Inr y)"
  using assms by (auto simp: on_ok_def split: bind_splits sum.splits)

lemma err_ok [simp]: "err e \<noteq> ok x" "ok x = ok y \<longleftrightarrow> x = y" "err e \<noteq> Some (Inr x)" "err e \<noteq> None"
  "ok x = Some (Inr y) \<longleftrightarrow> x = y" "ok x \<noteq> None" "ok x \<noteq> Some (Inl d)"
  by (auto simp: err_def ok_def)

text \<open>A check that may fail with an error.\<close>

definition check :: "syscall_error + 'a \<Rightarrow> 'a decode" where
  "check r = (case r of Inl e \<Rightarrow> err e | Inr x \<Rightarrow> ok x)"

lemma check_simps [simp]: "check (Inl e) = err e" "check (Inr x) = ok x" "check r = Some (Inr x) \<longleftrightarrow> r = Inr x"
  by (auto simp: check_def split: sum.splits)

text \<open>The slot of extra capability \<open>i\<close>, or NULL.\<close>

definition excapref :: "nat \<Rightarrow> kstate \<Rightarrow> ptr" where
  "excapref i s = current_extra_caps s i"


section \<open>What queue operations leave alone\<close>

text \<open>
  The operations on the scheduler's queues change the links, flags and queue heads only
  (\<open>sched_core\<close>). The fields of the state and of the threads that they keep, as rewrite rules.
\<close>

lemma sched_core_fields:
  assumes "sched_core s s'"
  shows "plat s' = plat s" "scs s' = scs s" "refills s' = refills s" "replies s' = replies s"
    "eps s' = eps s" "ntfns s' = ntfns s" "ctes s' = ctes s" "mem s' = mem s"
    "ksCurThread s' = ksCurThread s" "ksIdleThread s' = ksIdleThread s"
    "ksConsumed s' = ksConsumed s" "ksCurTime s' = ksCurTime s" "ksCurSC s' = ksCurSC s"
    "ksIdleSC s' = ksIdleSC s" "ksWorkUnitsCompleted s' = ksWorkUnitsCompleted s"
    "intStateIRQTable s' = intStateIRQTable s" "intStateIRQNode s' = intStateIRQNode s"
    "ksDomScheduleIdx s' = ksDomScheduleIdx s" "ksDomScheduleStart s' = ksDomScheduleStart s"
    "ksDomSchedule s' = ksDomSchedule s" "ksCurDomain s' = ksCurDomain s"
    "ksDomainTime s' = ksDomainTime s" "current_lookup_fault s' = current_lookup_fault s"
    "current_fault s' = current_fault s" "current_extra_caps s' = current_extra_caps s"
    "hwDeadline s' = hwDeadline s" "hwIRQMask s' = hwIRQMask s"
proof -
  from assms have e: "erase_sched s' = erase_sched s" by (simp add: sched_core_def)
  show "plat s' = plat s" using arg_cong [OF e, of plat] by (simp add: erase_sched_def)
  show "scs s' = scs s" using arg_cong [OF e, of scs] by (simp add: erase_sched_def)
  show "refills s' = refills s" using arg_cong [OF e, of refills] by (simp add: erase_sched_def)
  show "replies s' = replies s" using arg_cong [OF e, of replies] by (simp add: erase_sched_def)
  show "eps s' = eps s" using arg_cong [OF e, of eps] by (simp add: erase_sched_def)
  show "ntfns s' = ntfns s" using arg_cong [OF e, of ntfns] by (simp add: erase_sched_def)
  show "ctes s' = ctes s" using arg_cong [OF e, of ctes] by (simp add: erase_sched_def)
  show "mem s' = mem s" using arg_cong [OF e, of mem] by (simp add: erase_sched_def)
  show "ksCurThread s' = ksCurThread s" using arg_cong [OF e, of ksCurThread] by (simp add: erase_sched_def)
  show "ksIdleThread s' = ksIdleThread s" using arg_cong [OF e, of ksIdleThread] by (simp add: erase_sched_def)
  show "ksConsumed s' = ksConsumed s" using arg_cong [OF e, of ksConsumed] by (simp add: erase_sched_def)
  show "ksCurTime s' = ksCurTime s" using arg_cong [OF e, of ksCurTime] by (simp add: erase_sched_def)
  show "ksCurSC s' = ksCurSC s" using arg_cong [OF e, of ksCurSC] by (simp add: erase_sched_def)
  show "ksIdleSC s' = ksIdleSC s" using arg_cong [OF e, of ksIdleSC] by (simp add: erase_sched_def)
  show "ksWorkUnitsCompleted s' = ksWorkUnitsCompleted s" using arg_cong [OF e, of ksWorkUnitsCompleted] by (simp add: erase_sched_def)
  show "intStateIRQTable s' = intStateIRQTable s" using arg_cong [OF e, of intStateIRQTable] by (simp add: erase_sched_def)
  show "intStateIRQNode s' = intStateIRQNode s" using arg_cong [OF e, of intStateIRQNode] by (simp add: erase_sched_def)
  show "ksDomScheduleIdx s' = ksDomScheduleIdx s" using arg_cong [OF e, of ksDomScheduleIdx] by (simp add: erase_sched_def)
  show "ksDomScheduleStart s' = ksDomScheduleStart s" using arg_cong [OF e, of ksDomScheduleStart] by (simp add: erase_sched_def)
  show "ksDomSchedule s' = ksDomSchedule s" using arg_cong [OF e, of ksDomSchedule] by (simp add: erase_sched_def)
  show "ksCurDomain s' = ksCurDomain s" using arg_cong [OF e, of ksCurDomain] by (simp add: erase_sched_def)
  show "ksDomainTime s' = ksDomainTime s" using arg_cong [OF e, of ksDomainTime] by (simp add: erase_sched_def)
  show "current_lookup_fault s' = current_lookup_fault s" using arg_cong [OF e, of current_lookup_fault] by (simp add: erase_sched_def)
  show "current_fault s' = current_fault s" using arg_cong [OF e, of current_fault] by (simp add: erase_sched_def)
  show "current_extra_caps s' = current_extra_caps s" using arg_cong [OF e, of current_extra_caps] by (simp add: erase_sched_def)
  show "hwDeadline s' = hwDeadline s" using arg_cong [OF e, of hwDeadline] by (simp add: erase_sched_def)
  show "hwIRQMask s' = hwIRQMask s" using arg_cong [OF e, of hwIRQMask] by (simp add: erase_sched_def)
qed

lemma sched_core_tcb:
  assumes "sched_core s s'"
  shows "tcbContext (tcbs s' t) = tcbContext (tcbs s t)" "tcbFlags (tcbs s' t) = tcbFlags (tcbs s t)"
    "tcbBoundNotification (tcbs s' t) = tcbBoundNotification (tcbs s t)"
    "tcbFault (tcbs s' t) = tcbFault (tcbs s t)"
    "tcbLookupFailure (tcbs s' t) = tcbLookupFailure (tcbs s t)"
    "tcbDomain (tcbs s' t) = tcbDomain (tcbs s t)" "tcbMCP (tcbs s' t) = tcbMCP (tcbs s t)"
    "tcbPriority (tcbs s' t) = tcbPriority (tcbs s t)"
    "tcbSchedContext (tcbs s' t) = tcbSchedContext (tcbs s t)"
    "tcbYieldTo (tcbs s' t) = tcbYieldTo (tcbs s t)"
    "tcbIPCBuffer (tcbs s' t) = tcbIPCBuffer (tcbs s t)"
    "tcbEPNext (tcbs s' t) = tcbEPNext (tcbs s t)" "tcbEPPrev (tcbs s' t) = tcbEPPrev (tcbs s t)"
    "blockingIPCBadge (tcbState (tcbs s' t)) = blockingIPCBadge (tcbState (tcbs s t))"
    "blockingIPCCanGrant (tcbState (tcbs s' t)) = blockingIPCCanGrant (tcbState (tcbs s t))"
    "blockingIPCCanGrantReply (tcbState (tcbs s' t)) = blockingIPCCanGrantReply (tcbState (tcbs s t))"
    "blockingIPCIsCall (tcbState (tcbs s' t)) = blockingIPCIsCall (tcbState (tcbs s t))"
    "tsType (tcbState (tcbs s' t)) = tsType (tcbState (tcbs s t))"
    "blockingObject (tcbState (tcbs s' t)) = blockingObject (tcbState (tcbs s t))"
    "replyObject (tcbState (tcbs s' t)) = replyObject (tcbState (tcbs s t))"
proof -
  from assms have "erase_sched s' = erase_sched s" by (simp add: sched_core_def)
  from arg_cong [OF this, of tcbs] have e: "erase_tcb (tcbs s' t) = erase_tcb (tcbs s t)"
    by (simp add: erase_sched_def fun_eq_iff)
  show "tcbContext (tcbs s' t) = tcbContext (tcbs s t)" using arg_cong [OF e, of tcbContext] by (simp add: erase_tcb_def)
  show "tcbFlags (tcbs s' t) = tcbFlags (tcbs s t)" using arg_cong [OF e, of tcbFlags] by (simp add: erase_tcb_def)
  show "tcbBoundNotification (tcbs s' t) = tcbBoundNotification (tcbs s t)" using arg_cong [OF e, of tcbBoundNotification] by (simp add: erase_tcb_def)
  show "tcbFault (tcbs s' t) = tcbFault (tcbs s t)" using arg_cong [OF e, of tcbFault] by (simp add: erase_tcb_def)
  show "tcbLookupFailure (tcbs s' t) = tcbLookupFailure (tcbs s t)" using arg_cong [OF e, of tcbLookupFailure] by (simp add: erase_tcb_def)
  show "tcbDomain (tcbs s' t) = tcbDomain (tcbs s t)" using arg_cong [OF e, of tcbDomain] by (simp add: erase_tcb_def)
  show "tcbMCP (tcbs s' t) = tcbMCP (tcbs s t)" using arg_cong [OF e, of tcbMCP] by (simp add: erase_tcb_def)
  show "tcbPriority (tcbs s' t) = tcbPriority (tcbs s t)" using arg_cong [OF e, of tcbPriority] by (simp add: erase_tcb_def)
  show "tcbSchedContext (tcbs s' t) = tcbSchedContext (tcbs s t)" using arg_cong [OF e, of tcbSchedContext] by (simp add: erase_tcb_def)
  show "tcbYieldTo (tcbs s' t) = tcbYieldTo (tcbs s t)" using arg_cong [OF e, of tcbYieldTo] by (simp add: erase_tcb_def)
  show "tcbIPCBuffer (tcbs s' t) = tcbIPCBuffer (tcbs s t)" using arg_cong [OF e, of tcbIPCBuffer] by (simp add: erase_tcb_def)
  show "tcbEPNext (tcbs s' t) = tcbEPNext (tcbs s t)" using arg_cong [OF e, of tcbEPNext] by (simp add: erase_tcb_def)
  show "tcbEPPrev (tcbs s' t) = tcbEPPrev (tcbs s t)" using arg_cong [OF e, of tcbEPPrev] by (simp add: erase_tcb_def)
  show "blockingIPCBadge (tcbState (tcbs s' t)) = blockingIPCBadge (tcbState (tcbs s t))"
    using arg_cong [OF e, of "\<lambda>x. blockingIPCBadge (tcbState x)"] by (simp add: erase_tcb_def)
  show "blockingIPCCanGrant (tcbState (tcbs s' t)) = blockingIPCCanGrant (tcbState (tcbs s t))"
    using arg_cong [OF e, of "\<lambda>x. blockingIPCCanGrant (tcbState x)"] by (simp add: erase_tcb_def)
  show "blockingIPCCanGrantReply (tcbState (tcbs s' t)) = blockingIPCCanGrantReply (tcbState (tcbs s t))"
    using arg_cong [OF e, of "\<lambda>x. blockingIPCCanGrantReply (tcbState x)"] by (simp add: erase_tcb_def)
  show "blockingIPCIsCall (tcbState (tcbs s' t)) = blockingIPCIsCall (tcbState (tcbs s t))"
    using arg_cong [OF e, of "\<lambda>x. blockingIPCIsCall (tcbState x)"] by (simp add: erase_tcb_def)
  show "tsType (tcbState (tcbs s' t)) = tsType (tcbState (tcbs s t))"
    using arg_cong [OF e, of "\<lambda>x. tsType (tcbState x)"] by (simp add: erase_tcb_def)
  show "blockingObject (tcbState (tcbs s' t)) = blockingObject (tcbState (tcbs s t))"
    using arg_cong [OF e, of "\<lambda>x. blockingObject (tcbState x)"] by (simp add: erase_tcb_def)
  show "replyObject (tcbState (tcbs s' t)) = replyObject (tcbState (tcbs s t))"
    using arg_cong [OF e, of "\<lambda>x. replyObject (tcbState x)"] by (simp add: erase_tcb_def)
qed

lemma sched_core_action: "sched_core s s' \<Longrightarrow> sched_core s (s'\<lparr>ksSchedulerAction := a\<rparr>)"
  by (simp add: sched_core_def erase_sched_def)

lemma sched_core_scheduleTCB [simp]: "sched_core s (scheduleTCB t s)"
  by (simp add: scheduleTCB_def sched_core_action)

lemmas queue_fields [simp] =
  sched_core_fields [OF sched_core_ops(1)] sched_core_fields [OF sched_core_ops(2)]
  sched_core_fields [OF sched_core_ops(3)] sched_core_fields [OF sched_core_ops(4)]
  sched_core_fields [OF sched_core_reschedule] sched_core_fields [OF sched_core_possibleSwitchTo]
  sched_core_fields [OF sched_core_scheduleTCB]

lemmas queue_tcb [simp] =
  sched_core_tcb [OF sched_core_ops(1)] sched_core_tcb [OF sched_core_ops(2)]
  sched_core_tcb [OF sched_core_ops(3)] sched_core_tcb [OF sched_core_ops(4)]
  sched_core_tcb [OF sched_core_reschedule] sched_core_tcb [OF sched_core_possibleSwitchTo]
  sched_core_tcb [OF sched_core_scheduleTCB]


section \<open>The invariant of the queues without its lists\<close>

definition sched_ok :: "kstate \<Rightarrow> bool" where
  "sched_ok s \<longleftrightarrow> (\<exists>Q R. valid_sched Q R s)"

text \<open>The part of a thread that the invariant is about.\<close>

definition sched_part :: "tcb \<Rightarrow> word64 \<times> word64 \<times> ptr \<times> ptr \<times> bool \<times> bool" where
  "sched_part t = (tcbDomain t, tcbPriority t, tcbSchedNext t, tcbSchedPrev t,
     tcbQueued (tcbState t), tcbInReleaseQueue (tcbState t))"

lemma valid_sched_parts:
  assumes v: "valid_sched Q R s" and p: "\<And>t. sched_part (tcbs s' t) = sched_part (tcbs s t)"
    and g: "plat s' = plat s" "ksReadyQueues s' = ksReadyQueues s" "ksReleaseQueue s' = ksReleaseQueue s"
    "ksReadyQueuesL1Bitmap s' = ksReadyQueuesL1Bitmap s" "ksReadyQueuesL2Bitmap s' = ksReadyQueuesL2Bitmap s"
  shows "valid_sched Q R s'"
proof -
  have f: "tcbDomain (tcbs s' t) = tcbDomain (tcbs s t)" "tcbPriority (tcbs s' t) = tcbPriority (tcbs s t)"
    "tcbQueued (tcbState (tcbs s' t)) = tcbQueued (tcbState (tcbs s t))"
    "tcbInReleaseQueue (tcbState (tcbs s' t)) = tcbInReleaseQueue (tcbState (tcbs s t))" for t
    using p [of t] by (simp_all add: sched_part_def)
  have l: "schedNext s' = schedNext s" "schedPrev s' = schedPrev s"
    using p by (auto simp: fun_eq_iff sched_part_def schedNext_def schedPrev_def)
  show ?thesis using v
    unfolding valid_sched_def bitmap_ok_def f l g ready_queues_index_cong [OF g(1)] .
qed

lemma sched_ok_parts:
  assumes "sched_ok s" "\<And>t. sched_part (tcbs s' t) = sched_part (tcbs s t)"
    "plat s' = plat s" "ksReadyQueues s' = ksReadyQueues s" "ksReleaseQueue s' = ksReleaseQueue s"
    "ksReadyQueuesL1Bitmap s' = ksReadyQueuesL1Bitmap s" "ksReadyQueuesL2Bitmap s' = ksReadyQueuesL2Bitmap s"
  shows "sched_ok s'"
  using assms(1) valid_sched_parts [OF _ assms(2-)] unfolding sched_ok_def by blast

lemma sched_ok_upd_tcb:
  "sched_ok s \<Longrightarrow> sched_part (f (tcbs s t)) = sched_part (tcbs s t) \<Longrightarrow> sched_ok (upd_tcb t f s)"
  by (rule sched_ok_parts) auto

lemma sched_ok_upd_sc [simp]: "sched_ok (upd_sc p f s) = sched_ok s"
  by (auto elim!: sched_ok_parts simp: upd_sc_def)

lemma sched_ok_dequeue [simp]: "sched_ok s \<Longrightarrow> sched_ok (tcbSchedDequeue t s)"
  using tcbSchedDequeue_valid [OF _ refl refl] unfolding sched_ok_def by blast

lemma sched_ok_release_remove [simp]: "sched_ok s \<Longrightarrow> sched_ok (tcbReleaseRemove t s)"
  using tcbReleaseRemove_valid unfolding sched_ok_def by blast

lemma sched_ok_enqueue:
  "sched_ok s \<Longrightarrow> t \<noteq> NULL \<Longrightarrow> \<not> tcbInReleaseQueue (tcbState (tcbs s t)) \<Longrightarrow> sched_ok (tcbSchedEnqueue t s)"
  using tcbSchedEnqueue_valid [OF _ _ _ refl refl] unfolding sched_ok_def by blast

lemma sched_ok_reschedule [simp]: "sched_ok s \<Longrightarrow> sched_ok (rescheduleRequired s)"
  using rescheduleRequired_valid unfolding sched_ok_def by blast

lemma sched_ok_scheduleTCB [simp]: "sched_ok s \<Longrightarrow> sched_ok (scheduleTCB t s)"
  by (auto simp: scheduleTCB_def elim!: sched_ok_parts)

lemma sched_ok_setThreadState [simp]: "sched_ok s \<Longrightarrow> sched_ok (setThreadState t ts s)"
  by (simp add: setThreadState_def upd_ts_def sched_ok_upd_tcb sched_part_def)

lemma sched_ok_possibleSwitchTo: "sched_ok s \<Longrightarrow> t \<noteq> NULL \<Longrightarrow> sched_ok (possibleSwitchTo t s)"
  using possibleSwitchTo_valid unfolding sched_ok_def by blast

end
