(* ===== verification/Domain.thy ===== *)
theory Domain
  imports Invocation
begin

text \<open>
  Invocations on the domain capability, \<^verbatim>\<open>src/kernel/object/domain.c\<close>: assigning threads to domains and
  editing the domain schedule. They keep the schedule well formed (\<open>valid_dom_schedule\<close>), so that the
  next domain always has time.
\<close>

section \<open>Definitions\<close>

definition prepareSetDomain :: "ptr \<Rightarrow> word64 \<Rightarrow> kstate \<Rightarrow> kstate" where
  "prepareSetDomain tptr dm s = s"

definition invokeDomainSetSet :: "ptr \<Rightarrow> word64 \<Rightarrow> kstate \<Rightarrow> kstate" where
  "invokeDomainSetSet tcb domain s =
     (let s = prepareSetDomain tcb domain s in setDomain tcb domain s)"

definition decodeDomainSetSetInvocation :: "word64 \<Rightarrow> ptr \<Rightarrow> kstate \<Rightarrow> kstate decode" where
  "decodeDomainSetSetInvocation len buffer s =
     (if len = 0 then err seL4_TruncatedMessage
      else let domain = getSyscallArg 0 buffer s
           in if domain \<ge> numDomains s then err (seL4_InvalidArgument 0)
              else if excapref 0 s = NULL then err seL4_TruncatedMessage
              else let tcap = cteCap (ctes s (excapref 0 s))
                   in if \<not> is_ThreadCap tcap then err (seL4_InvalidArgument 1)
                      else let s = setThreadState (ksCurThread s) ThreadState_Restart s
                           in ok (invokeDomainSetSet (capTCBPtr tcap) domain s))"

definition invokeDomainScheduleConfigure :: "word64 \<Rightarrow> word64 \<Rightarrow> ticks \<Rightarrow> kstate \<Rightarrow> kstate" where
  "invokeDomainScheduleConfigure index domain duration s =
     s\<lparr>ksDomSchedule := (ksDomSchedule s)(index := dschedule_make domain duration)\<rparr>"

definition decodeDomainScheduleConfigure :: "word64 \<Rightarrow> ptr \<Rightarrow> kstate \<Rightarrow> kstate decode" where
  "decodeDomainScheduleConfigure len buffer s =
     (if len < 2 + TIME_ARG_SIZE then err seL4_TruncatedMessage
      else let index = getSyscallArg 0 buffer s;
               domain = getSyscallArg 1 buffer s;
               duration = mode_parseTimeArg 2 buffer s
           in if index \<ge> domScheduleLength s - 1 then err (seL4_RangeError 0 (domScheduleLength s - 2))
              else if domain \<ge> numDomains s then err (seL4_RangeError 0 (numDomains s - 1))
              else if duration > DSCHED_MAX_DURATION then err (seL4_InvalidArgument 2)
              else if duration = 0 \<and> domain \<noteq> 0 then err (seL4_InvalidArgument 1)
              else if index = ksDomScheduleStart s \<and> duration = 0 then err (seL4_InvalidArgument 2)
              else let s = setThreadState (ksCurThread s) ThreadState_Restart s
                   in ok (invokeDomainScheduleConfigure index domain duration s))"

definition invokeDomainScheduleSetStart :: "word64 \<Rightarrow> kstate \<Rightarrow> kstate" where
  "invokeDomainScheduleSetStart index s =
     (let s = s\<lparr>ksDomScheduleStart := index\<rparr>;
          s = s\<lparr>ksDomainTime := 0\<rparr>;
          s = s\<lparr>ksDomScheduleIdx := domScheduleLength s - 2\<rparr>
      in rescheduleRequired s)"

definition decodeDomainScheduleSetStart :: "word64 \<Rightarrow> ptr \<Rightarrow> kstate \<Rightarrow> kstate decode" where
  "decodeDomainScheduleSetStart len buffer s =
     (if len < 1 then err seL4_TruncatedMessage
      else let index = getSyscallArg 0 buffer s
           in if index \<ge> domScheduleLength s then err (seL4_RangeError 0 (domScheduleLength s - 1))
              else if dschedule_is_end_marker index s then err (seL4_InvalidArgument 0)
              else let s = setThreadState (ksCurThread s) ThreadState_Restart s
                   in ok (invokeDomainScheduleSetStart index s))"

definition decodeDomainInvocation :: "invocation_label \<Rightarrow> word64 \<Rightarrow> ptr \<Rightarrow> kstate \<Rightarrow> kstate decode" where
  "decodeDomainInvocation invLabel len buffer s =
     (case invLabel of
        DomainSetSet \<Rightarrow> decodeDomainSetSetInvocation len buffer s
      | DomainScheduleConfigure \<Rightarrow> decodeDomainScheduleConfigure len buffer s
      | DomainScheduleSetStart \<Rightarrow> decodeDomainScheduleSetStart len buffer s
      | _ \<Rightarrow> err seL4_IllegalOperation)"

section \<open>The schedule stays well formed\<close>

text \<open>Packing a domain and a duration into one word loses neither.\<close>

lemma DSCHED_MAX_DURATION_mask: "DSCHED_MAX_DURATION = mask 56"
  by (simp add: DSCHED_MAX_DURATION_def DSCHED_DOMAIN_BITS_def drop_bit_minus_one)

lemma dschedule_roundtrip:
  assumes "domain < 256" "duration \<le> DSCHED_MAX_DURATION"
  shows "dschedule_domain (dschedule_make domain duration) = domain"
    and "dschedule_duration (dschedule_make domain duration) = duration"
proof -
  have s: "DSCHED_DOMAIN_SHIFT = 56" by (simp add: DSCHED_DOMAIN_SHIFT_def DSCHED_DOMAIN_BITS_def)
  have du: "duration AND mask 56 = duration"
    using assms(2) by (intro le_mask_and) (simp_all add: DSCHED_MAX_DURATION_mask)
  have dm: "domain AND mask 8 = domain"
    using assms(1) by (intro le_mask_and) (simp_all add: mask_eq_exp_minus_1 word_le_nat_alt word_less_nat_alt)
  have lo: "bit duration n \<Longrightarrow> n < 56" for n
    using du by (metis bit_and_iff bit_mask_iff)
  have hi: "bit domain n \<Longrightarrow> n < 8" for n
    using dm by (metis bit_and_iff bit_mask_iff)
  show "dschedule_domain (dschedule_make domain duration) = domain"
    by (rule bit_word_eqI)
      (auto simp: dschedule_domain_def dschedule_make_def s bit_drop_bit_eq bit_or_iff bit_push_bit_iff dest: lo hi)
  show "dschedule_duration (dschedule_make domain duration) = duration"
    by (rule bit_word_eqI)
      (auto simp: dschedule_duration_def dschedule_make_def s DSCHED_MAX_DURATION_mask bit_simps dest: lo)
qed

text \<open>Thread states and the assignment of threads to domains leave the schedule alone.\<close>

lemma valid_dom_schedule_cong:
  assumes "plat s' = plat s" "ksDomSchedule s' = ksDomSchedule s" "ksDomScheduleStart s' = ksDomScheduleStart s"
    "ksDomScheduleIdx s' = ksDomScheduleIdx s" "ksCurDomain s' = ksCurDomain s"
  shows "valid_dom_schedule s' \<longleftrightarrow> valid_dom_schedule s"
  using assms by (simp add: valid_dom_schedule_def)

lemma setThreadState_schedule [simp]:
  "plat (setThreadState t ts s) = plat s" "ksDomSchedule (setThreadState t ts s) = ksDomSchedule s"
  "ksDomScheduleStart (setThreadState t ts s) = ksDomScheduleStart s"
  "ksDomScheduleIdx (setThreadState t ts s) = ksDomScheduleIdx s"
  "ksCurDomain (setThreadState t ts s) = ksCurDomain s"
  by (simp_all add: setThreadState_def upd_ts_def upd_tcb_def)

lemma setDomain_schedule [simp]:
  "plat (setDomain t d s) = plat s" "ksDomSchedule (setDomain t d s) = ksDomSchedule s"
  "ksDomScheduleStart (setDomain t d s) = ksDomScheduleStart s"
  "ksDomScheduleIdx (setDomain t d s) = ksDomScheduleIdx s"
  "ksCurDomain (setDomain t d s) = ksCurDomain s"
  by (simp_all add: setDomain_def Let_def upd_tcb_def)

lemma configure_valid:
  assumes v: "valid_dom_schedule s" "numDomains s \<le> 256"
    and i: "index < domScheduleLength s - 1" "domain < numDomains s" "duration \<le> DSCHED_MAX_DURATION"
    and z: "duration = 0 \<Longrightarrow> domain = 0" "index = ksDomScheduleStart s \<Longrightarrow> duration \<noteq> 0"
  shows "valid_dom_schedule (invokeDomainScheduleConfigure index domain duration s)"
proof -
  have "domain < 256" using i(2) v(2) by simp
  note r = dschedule_roundtrip [OF this i(3)]
  have e: "dschedule_make domain duration = 0 \<or> duration \<noteq> 0" using z(1) by (auto simp: dschedule_make_def)
  have "index \<noteq> domScheduleLength s - 1" using i(1) by auto
  moreover have "dschedule_make domain duration \<noteq> 0" if "duration \<noteq> 0"
    using r(2) that by (auto simp: dschedule_duration_def)
  ultimately show ?thesis
    using v(1) r i e z by (auto simp: valid_dom_schedule_def invokeDomainScheduleConfigure_def)
qed

lemma set_start_valid:
  assumes v: "valid_dom_schedule s" and i: "index < domScheduleLength s" "ksDomSchedule s index \<noteq> 0"
  shows "valid_dom_schedule (invokeDomainScheduleSetStart index s)"
proof -
  have n: "2 \<le> domScheduleLength s" "ksDomSchedule s (domScheduleLength s - 1) = 0"
    using v by (auto simp: valid_dom_schedule_def)
  have u: "unat (domScheduleLength s - 1) = unat (domScheduleLength s) - 1"
    "unat (domScheduleLength s - 2) = unat (domScheduleLength s) - 2"
    using n(1) by (simp_all add: unat_sub word_le_nat_alt)
  have "index \<noteq> domScheduleLength s - 1" using n i by auto
  then have "unat index \<noteq> unat (domScheduleLength s) - 1" using u by (metis unsigned_word_eqI)
  then have "index < domScheduleLength s - 1" "domScheduleLength s - 2 < domScheduleLength s - 1"
    using i(1) n(1) u by (auto simp: word_less_nat_alt word_le_nat_alt)
  then show ?thesis
    using v i by (simp add: valid_dom_schedule_def invokeDomainScheduleSetStart_def Let_def)
qed

text \<open>What a successful decode has checked.\<close>

lemma decodeDomainInvocation_ok:
  assumes "decodeDomainInvocation l len buffer s = Some (Inr s')"
  defines "s1 \<equiv> setThreadState (ksCurThread s) ThreadState_Restart s"
  obtains (set) t d where "l = DomainSetSet" "s' = setDomain t d s1"
  | (configure) i d u where "l = DomainScheduleConfigure" "s' = invokeDomainScheduleConfigure i d u s1"
      "i < domScheduleLength s - 1" "d < numDomains s" "u \<le> DSCHED_MAX_DURATION"
      "u = 0 \<Longrightarrow> d = 0" "i = ksDomScheduleStart s \<Longrightarrow> u \<noteq> 0"
  | (start) i where "l = DomainScheduleSetStart" "s' = invokeDomainScheduleSetStart i s1"
      "i = getSyscallArg 0 buffer s" "i < domScheduleLength s" "ksDomSchedule s i \<noteq> 0"
proof (cases l)
  case DomainSetSet
  then show ?thesis using assms(1) unfolding decodeDomainInvocation_def
    by (intro that(1) [of "capTCBPtr (cteCap (ctes s (excapref 0 s)))" "getSyscallArg 0 buffer s"])
      (auto simp: decodeDomainSetSetInvocation_def Let_def s1_def invokeDomainSetSet_def prepareSetDomain_def
        split: if_splits)
next
  case DomainScheduleConfigure
  then show ?thesis using assms(1) unfolding s1_def decodeDomainInvocation_def
    by (intro that(2) [of "getSyscallArg 0 buffer s" "getSyscallArg 1 buffer s" "mode_parseTimeArg 2 buffer s"])
      (auto simp: decodeDomainScheduleConfigure_def Let_def s1_def not_le not_less split: if_splits)
next
  case DomainScheduleSetStart
  then show ?thesis using assms(1) unfolding s1_def decodeDomainInvocation_def
    by (intro that(3) [of "getSyscallArg 0 buffer s"])
      (auto simp: decodeDomainScheduleSetStart_def Let_def s1_def not_le dschedule_is_end_marker_def
        split: if_splits)
qed (use assms(1) in \<open>simp_all add: decodeDomainInvocation_def\<close>)

lemma next_after_set_start:
  assumes "valid_dom_schedule s"
  shows "ksDomScheduleIdx (nextDomain (invokeDomainScheduleSetStart i s)) = i"
proof -
  have "domScheduleLength s - 2 + 1 = domScheduleLength s - 1" by simp
  then show ?thesis using assms
    by (simp add: nextDomain_def Let_def invokeDomainScheduleSetStart_def dschedule_is_end_marker_def
        valid_dom_schedule_def)
qed

section \<open>Properties\<close>

text \<open>
  C40. No invocation on the domain capability can break the domain schedule: whatever the caller asks for,
  either it gets an error, or the schedule is still well formed (every slice belongs to an existing
  domain and has a length, the last entry is an end marker, the start is a slice) and
  \<open>nextDomain\<close> selects a domain with time. A new start takes effect at the next domain switch.
\<close>

theorem domain_invocation_keeps_schedule:
  assumes "valid_dom_schedule s" "numDomains s \<le> 256" "decodeDomainInvocation l len buffer s = Some (Inr s')"
  shows "valid_dom_schedule s' \<and> ksDomainTime (nextDomain s') \<noteq> 0 \<and> ksCurDomain (nextDomain s') < numDomains s
    \<and> (l = DomainScheduleSetStart \<longrightarrow> ksDomScheduleIdx (nextDomain s') = getSyscallArg 0 buffer s)"
proof -
  let ?s = "setThreadState (ksCurThread s) ThreadState_Restart s"
  have vs: "valid_dom_schedule ?s" using assms(1) by (subst valid_dom_schedule_cong) simp_all
  have v: "valid_dom_schedule s' \<and> plat s' = plat s
    \<and> (l = DomainScheduleSetStart \<longrightarrow> ksDomScheduleIdx (nextDomain s') = getSyscallArg 0 buffer s)"
    using assms(3)
  proof (cases rule: decodeDomainInvocation_ok)
    case (set t d)
    then have "valid_dom_schedule s' = valid_dom_schedule ?s" by (intro valid_dom_schedule_cong) simp_all
    then show ?thesis using set vs by simp
  next
    case (configure i d u)
    then show ?thesis using vs assms(2) configure_valid [of ?s i d u]
      by (simp add: invokeDomainScheduleConfigure_def)
  next
    case (start i)
    then show ?thesis using vs set_start_valid [of ?s i] next_after_set_start [OF vs, of i]
      by (simp add: invokeDomainScheduleSetStart_def Let_def)
  qed
  then show ?thesis using nextDomain_valid [of s'] by simp
qed

text \<open>An example: the caller asks to start the schedule at entry 0.\<close>

theorem domain_invocation_keeps_schedule_witness:
  "\<exists>s'. decodeDomainInvocation DomainScheduleSetStart 1 NULL (example_domains kstate0) = Some (Inr s')
     \<and> ksDomainTime (nextDomain s') \<noteq> 0"
proof -
  have "getSyscallArg 0 NULL (example_domains kstate0) = 0"
    by (simp add: getSyscallArg_def n_msgRegisters_def getRegister_def example_domains_def kstate0_def tcb0_def)
  then have "\<exists>s'. decodeDomainInvocation DomainScheduleSetStart 1 NULL (example_domains kstate0) = Some (Inr s')"
    using example_domains_valid
    by (auto simp: decodeDomainInvocation_def decodeDomainScheduleSetStart_def Let_def dschedule_is_end_marker_def
        valid_dom_schedule_def example_domains_def kstate0_def)
  then show ?thesis
    using domain_invocation_keeps_schedule [OF example_domains_valid, of DomainScheduleSetStart 1 NULL]
    by (auto simp: example_domains_def kstate0_def)
qed

end
