(* ===== verification/SchedContext.thy ===== *)
theory SchedContext
  imports Invocation
begin

text \<open>
  Scheduling contexts: \<^verbatim>\<open>src/kernel/object/schedcontext.c\<close> and \<^verbatim>\<open>schedcontrol.c\<close>, with the IPC buffer lookup of
  \<^verbatim>\<open>arch/riscv/kernel/vspace.c\<close> and the tick conversions of \<^verbatim>\<open>arch/riscv/arch/machine/timer.h\<close>.

  The invariant \<open>sc_bound\<close> says that threads and scheduling contexts point at each other; donating, binding
  and unbinding keep it together with the invariant of the queues, and meet the postconditions
  written in \<^verbatim>\<open>include/object/schedcontext.h\<close>.
\<close>

section \<open>Time and IPC buffers\<close>

definition usToTicks :: "word64 \<Rightarrow> kstate \<Rightarrow> ticks" where
  "usToTicks us s = us * pTicksInUs (plat s)"

definition ticksToUs :: "ticks \<Rightarrow> kstate \<Rightarrow> word64" where
  "ticksToUs t s = t div pTicksInUs (plat s)"

definition getMaxTicksToUs :: ticks where
  "getMaxTicksToUs = - 1"

definition MIN_BUDGET_US :: "kstate \<Rightarrow> word64" where
  "MIN_BUDGET_US s = 2 * pKernelWcetUs (plat s) * pKernelWcetScale (plat s)"

definition MAX_PERIOD_US :: "kstate \<Rightarrow> word64" where
  "MAX_PERIOD_US s = pMaxPeriodUs (plat s)"

definition lookupIPCBuffer :: "bool \<Rightarrow> ptr \<Rightarrow> kstate \<Rightarrow> ptr" where
  "lookupIPCBuffer isReceiver thread s =
     (let w_bufferPtr = tcbIPCBuffer (tcbs s thread);
          bufferCap = cteCap (ctes s (TCB_PTR_CTE_PTR thread tcbBuffer))
      in case bufferCap of
           FrameCap asid basePtr sz vm_rights isDevice vaddr \<Rightarrow>
             if isDevice then NULL
             else if vm_rights = VMReadWrite \<or> \<not> isReceiver \<and> vm_rights = VMReadOnly
             then basePtr + (w_bufferPtr AND MASK (pageBitsForSize sz))
             else NULL
         | _ \<Rightarrow> NULL)"

definition mode_setTimeArg :: "word64 \<Rightarrow> word64 \<Rightarrow> ptr \<Rightarrow> ptr \<Rightarrow> kstate \<Rightarrow> word64 \<times> kstate" where
  "mode_setTimeArg i t buffer thread s =
     (let (n, s) = setMR thread buffer (ucast i) t s in (ucast n, s))"

section \<open>Binding\<close>

definition schedContext_resume :: "ptr \<Rightarrow> kstate \<Rightarrow> kstate option" where
  "schedContext_resume sc s =
     (if sc \<noteq> NULL \<and> isSchedulable (scTcb (scs s sc)) s
      then if \<not> (refill_ready sc s \<and> refill_sufficient sc 0 s) then postpone sc s else Some s
      else Some s)"

definition schedContext_bindTCB :: "ptr \<Rightarrow> ptr \<Rightarrow> kstate \<Rightarrow> kstate option" where
  "schedContext_bindTCB sc tcb s = do {
     let s = upd_tcb tcb (tcbSchedContext_update (\<lambda>_. sc)) s;
     let s = upd_sc sc (scTcb_update (\<lambda>_. tcb)) s;
     s \<leftarrow> (if sc_sporadic sc s \<and> sc_active sc s \<and> sc \<noteq> ksCurSC s then refill_unblock_check sc s else Some s);
     s \<leftarrow> schedContext_resume sc s;
     Some (if isSchedulable tcb s then rescheduleRequired (tcbSchedEnqueue tcb s) else s)
   }"

definition schedContext_unbindTCB :: "ptr \<Rightarrow> kstate \<Rightarrow> kstate" where
  "schedContext_unbindTCB sc s =
     (let tcb = scTcb (scs s sc);
          s = (if tcb = ksCurThread s then rescheduleRequired s else s);
          s = tcbSchedDequeue tcb s;
          s = tcbReleaseRemove tcb s;
          s = upd_tcb tcb (tcbSchedContext_update (\<lambda>_. NULL)) s
      in upd_sc sc (scTcb_update (\<lambda>_. NULL)) s)"

definition schedContext_unbindAllTCBs :: "ptr \<Rightarrow> kstate \<Rightarrow> kstate" where
  "schedContext_unbindAllTCBs sc s =
     (if scTcb (scs s sc) \<noteq> NULL then schedContext_unbindTCB sc s else s)"

definition schedContext_donate :: "ptr \<Rightarrow> ptr \<Rightarrow> kstate \<Rightarrow> kstate" where
  "schedContext_donate sc to s =
     (let donor = scTcb (scs s sc);
          s = (if donor \<noteq> NULL
               then let s = tcbSchedDequeue donor s;
                        s = tcbReleaseRemove donor s;
                        s = upd_tcb donor (tcbSchedContext_update (\<lambda>_. NULL)) s
                    in if donor = ksCurThread s \<or> donor = ksSchedulerAction s
                       then rescheduleRequired s else s
               else s);
          s = upd_sc sc (scTcb_update (\<lambda>_. to)) s
      in upd_tcb to (tcbSchedContext_update (\<lambda>_. sc)) s)"

definition schedContext_bindNtfn :: "ptr \<Rightarrow> ptr \<Rightarrow> kstate \<Rightarrow> kstate" where
  "schedContext_bindNtfn sc ntfn s =
     (let s = upd_ntfn ntfn (ntfnSchedContext_update (\<lambda>_. sc)) s
      in upd_sc sc (scNotification_update (\<lambda>_. ntfn)) s)"

definition schedContext_unbindNtfn :: "ptr \<Rightarrow> kstate \<Rightarrow> kstate" where
  "schedContext_unbindNtfn sc s =
     (if sc \<noteq> NULL \<and> scNotification (scs s sc) \<noteq> NULL
      then let s = upd_ntfn (scNotification (scs s sc)) (ntfnSchedContext_update (\<lambda>_. NULL)) s
           in upd_sc sc (scNotification_update (\<lambda>_. NULL)) s
      else s)"

definition schedContextMaybeUnbindNtfn :: "ptr \<Rightarrow> kstate \<Rightarrow> kstate" where
  "schedContextMaybeUnbindNtfn ntfnPtr s =
     (let sc = ntfnSchedContext (ntfns s ntfnPtr)
      in if sc \<noteq> NULL then schedContext_unbindNtfn sc s else s)"

definition schedContext_unbindReply :: "ptr \<Rightarrow> kstate \<Rightarrow> kstate" where
  "schedContext_unbindReply sc s =
     (if sc \<noteq> NULL \<and> scReply (scs s sc) \<noteq> NULL
      then let s = upd_reply (scReply (scs s sc)) (replyNext_update (\<lambda>_. call_stack_new 0 False)) s
           in upd_sc sc (scReply_update (\<lambda>_. NULL)) s
      else s)"

definition schedContext_updateConsumed :: "ptr \<Rightarrow> kstate \<Rightarrow> word64 \<times> kstate" where
  "schedContext_updateConsumed sc s =
     (let consumed = scConsumed (scs s sc)
      in if consumed \<ge> getMaxTicksToUs
         then let s = upd_sc sc (scConsumed_update (\<lambda>c. c - getMaxTicksToUs)) s
              in (ticksToUs getMaxTicksToUs s, s)
         else let s = upd_sc sc (scConsumed_update (\<lambda>_. 0)) s
              in (ticksToUs consumed s, s))"

section \<open>Yielding\<close>

definition replyFromKernel_consumed :: "ptr \<Rightarrow> word64 \<Rightarrow> kstate \<Rightarrow> kstate" where
  "replyFromKernel_consumed thread consumed s =
     (let buffer = lookupIPCBuffer True thread s;
          s = setRegister thread badgeRegister 0 s;
          (len, s) = mode_setTimeArg 0 consumed buffer thread s
      in setRegister thread msgInfoRegister (wordFromMessageInfo (seL4_MessageInfo_new 0 0 0 len)) s)"

definition setConsumed :: "ptr \<Rightarrow> ptr \<Rightarrow> bool \<Rightarrow> kstate \<Rightarrow> kstate" where
  "setConsumed sc thread write_msg s =
     (let (consumed, s) = schedContext_updateConsumed sc s
      in if write_msg then replyFromKernel_consumed thread consumed s else s)"

definition schedContext_cancelYieldTo :: "ptr \<Rightarrow> kstate \<Rightarrow> kstate" where
  "schedContext_cancelYieldTo tcb s =
     (if tcb \<noteq> NULL \<and> tcbYieldTo (tcbs s tcb) \<noteq> NULL
      then let s = upd_sc (tcbYieldTo (tcbs s tcb)) (scYieldFrom_update (\<lambda>_. NULL)) s
           in upd_tcb tcb (tcbYieldTo_update (\<lambda>_. NULL)) s
      else s)"

definition schedContext_completeYieldTo :: "ptr \<Rightarrow> kstate \<Rightarrow> kstate" where
  "schedContext_completeYieldTo yielder s =
     (if yielder \<noteq> NULL \<and> tcbYieldTo (tcbs s yielder) \<noteq> NULL
      then let s = setConsumed (tcbYieldTo (tcbs s yielder)) yielder True s
           in schedContext_cancelYieldTo yielder s
      else s)"

section \<open>Invocations on scheduling contexts\<close>

definition invokeSchedContext_UnbindObject :: "ptr \<Rightarrow> cap \<Rightarrow> kstate \<Rightarrow> kstate option" where
  "invokeSchedContext_UnbindObject sc cap s =
     (case cap of
        ThreadCap _ \<Rightarrow> Some (schedContext_unbindTCB sc s)
      | NotificationCap _ _ _ _ \<Rightarrow> Some (schedContext_unbindNtfn sc s)
      | _ \<Rightarrow> None)"

definition decodeSchedContext_UnbindObject :: "ptr \<Rightarrow> kstate \<Rightarrow> kstate decode" where
  "decodeSchedContext_UnbindObject sc s =
     (if excapref 0 s = NULL then err seL4_TruncatedMessage
      else let cap = cteCap (ctes s (excapref 0 s));
               invoke = do {
                 s' \<leftarrow> invokeSchedContext_UnbindObject sc cap (setThreadState (ksCurThread s) ThreadState_Restart s);
                 ok s' }
           in case cap of
                ThreadCap tcb \<Rightarrow>
                  if scTcb (scs s sc) \<noteq> tcb then err seL4_IllegalOperation
                  else if scTcb (scs s sc) = ksCurThread s then err seL4_IllegalOperation
                  else invoke
              | NotificationCap _ _ _ ntfn \<Rightarrow>
                  if scNotification (scs s sc) \<noteq> ntfn then err seL4_IllegalOperation else invoke
              | _ \<Rightarrow> err (seL4_InvalidCapability 1))"

definition invokeSchedContext_Bind :: "ptr \<Rightarrow> cap \<Rightarrow> kstate \<Rightarrow> kstate option" where
  "invokeSchedContext_Bind sc cap s =
     (case cap of
        ThreadCap tcb \<Rightarrow> schedContext_bindTCB sc tcb s
      | NotificationCap _ _ _ ntfn \<Rightarrow> Some (schedContext_bindNtfn sc ntfn s)
      | _ \<Rightarrow> None)"

definition decodeSchedContext_Bind :: "ptr \<Rightarrow> kstate \<Rightarrow> kstate decode" where
  "decodeSchedContext_Bind sc s =
     (if excapref 0 s = NULL then err seL4_TruncatedMessage
      else let cap = cteCap (ctes s (excapref 0 s));
               invoke = do {
                 s' \<leftarrow> invokeSchedContext_Bind sc cap (setThreadState (ksCurThread s) ThreadState_Restart s);
                 ok s' }
           in case cap of
                ThreadCap tcb \<Rightarrow>
                  if scTcb (scs s sc) \<noteq> NULL then err seL4_IllegalOperation
                  else if tcbSchedContext (tcbs s tcb) \<noteq> NULL then err seL4_IllegalOperation
                  else if isBlocked tcb s \<and> \<not> sc_released sc s then err seL4_IllegalOperation
                  else invoke
              | NotificationCap _ _ _ ntfn \<Rightarrow>
                  if scNotification (scs s sc) \<noteq> NULL then err seL4_IllegalOperation
                  else if ntfnSchedContext (ntfns s ntfn) \<noteq> NULL then err seL4_IllegalOperation
                  else invoke
              | _ \<Rightarrow> err (seL4_InvalidCapability 1))"

definition invokeSchedContext_Unbind :: "ptr \<Rightarrow> kstate \<Rightarrow> kstate" where
  "invokeSchedContext_Unbind sc s =
     (let s = schedContext_unbindAllTCBs sc s;
          s = schedContext_unbindNtfn sc s
      in schedContext_unbindReply sc s)"

definition invokeSchedContext_Consumed :: "ptr \<Rightarrow> bool \<Rightarrow> kstate \<Rightarrow> kstate" where
  "invokeSchedContext_Consumed sc call s =
     (let s = setConsumed sc (ksCurThread s) call s
      in setThreadState (ksCurThread s) ThreadState_Running s)"

definition invokeSchedContext_YieldTo :: "ptr \<Rightarrow> bool \<Rightarrow> kstate \<Rightarrow> kstate option" where
  "invokeSchedContext_YieldTo sc call s = do {
     let s = (if scYieldFrom (scs s sc) \<noteq> NULL
              then schedContext_completeYieldTo (scYieldFrom (scs s sc)) s else s);
     s \<leftarrow> schedContext_resume sc s;
     let tcb = scTcb (scs s sc);
     let (return_now, s) =
       (if isSchedulable tcb s
        then if tcbPriority (tcbs s tcb) < tcbPriority (tcbs s (ksCurThread s))
             then let s = tcbSchedDequeue tcb s in (True, tcbSchedEnqueue tcb s)
             else let s = upd_tcb (ksCurThread s) (tcbYieldTo_update (\<lambda>_. sc)) s;
                      s = upd_sc sc (scYieldFrom_update (\<lambda>_. ksCurThread s)) s;
                      s = tcbSchedDequeue tcb s;
                      s = tcbSchedEnqueue (ksCurThread s) s;
                      s = tcbSchedEnqueue tcb s
                  in (False, rescheduleRequired s)
        else (True, s));
     Some (if return_now
           then let s = setConsumed sc (ksCurThread s) call s
                in setThreadState (ksCurThread s) ThreadState_Running s
           else s)
   }"

definition decodeSchedContext_YieldTo :: "ptr \<Rightarrow> bool \<Rightarrow> kstate \<Rightarrow> kstate decode" where
  "decodeSchedContext_YieldTo sc call s =
     (if scTcb (scs s sc) = NULL then err seL4_IllegalOperation
      else let tcb = scTcb (scs s sc)
           in if tcb = ksCurThread s then err seL4_IllegalOperation
              else if tcbPriority (tcbs s tcb) > tcbMCP (tcbs s (ksCurThread s)) then err seL4_IllegalOperation
              else if tcbYieldTo (tcbs s (ksCurThread s)) \<noteq> NULL then err seL4_IllegalOperation
              else do {
                s' \<leftarrow> invokeSchedContext_YieldTo sc call (setThreadState (ksCurThread s) ThreadState_Restart s);
                ok s' })"

definition decodeSchedContextInvocation :: "invocation_label \<Rightarrow> ptr \<Rightarrow> bool \<Rightarrow> kstate \<Rightarrow> kstate decode" where
  "decodeSchedContextInvocation label sc call s =
     (case label of
        SchedContextConsumed \<Rightarrow>
          ok (invokeSchedContext_Consumed sc call (setThreadState (ksCurThread s) ThreadState_Restart s))
      | SchedContextBind \<Rightarrow> decodeSchedContext_Bind sc s
      | SchedContextUnbindObject \<Rightarrow> decodeSchedContext_UnbindObject sc s
      | SchedContextUnbind \<Rightarrow>
          if scTcb (scs s sc) = ksCurThread s then err seL4_IllegalOperation
          else ok (invokeSchedContext_Unbind sc (setThreadState (ksCurThread s) ThreadState_Restart s))
      | SchedContextYieldTo \<Rightarrow> decodeSchedContext_YieldTo sc call s
      | _ \<Rightarrow> err seL4_IllegalOperation)"

section \<open>Scheduling control\<close>

definition invokeSchedControl_ConfigureFlags ::
  "ptr \<Rightarrow> word64 \<Rightarrow> ticks \<Rightarrow> ticks \<Rightarrow> word64 \<Rightarrow> word64 \<Rightarrow> word64 \<Rightarrow> kstate \<Rightarrow> kstate option" where
  "invokeSchedControl_ConfigureFlags target cpu bdgt period max_refills badge flags s = do {
     let thread = scTcb (scs s target);
     s \<leftarrow> (if thread \<noteq> NULL
           then let s = tcbReleaseRemove thread s;
                    s = tcbSchedDequeue thread s
                in if ksCurSC s = target then commitTime s else Some s
           else Some s);
     let s = (if bdgt = period then refill_new target MIN_REFILLS bdgt 0 s
              else if sc_active target s \<and> thread \<noteq> NULL \<and> isRunnable thread s
              then refill_update target period bdgt max_refills s
              else refill_new target max_refills bdgt period s);
     s \<leftarrow> (if thread \<noteq> NULL
           then do {
             s \<leftarrow> schedContext_resume target s;
             let s = (if isRunnable thread s \<and> thread \<noteq> ksCurThread s then possibleSwitchTo thread s else s);
             Some (if thread = ksCurThread s then rescheduleRequired s else s)
           }
           else Some s);
     let s = upd_sc target (scBadge_update (\<lambda>_. badge)) s;
     Some (upd_sc target (scSporadic_update (\<lambda>_. flags AND 1 \<noteq> 0)) s)
   }"

definition decodeSchedControl_ConfigureFlags :: "word64 \<Rightarrow> cap \<Rightarrow> ptr \<Rightarrow> kstate \<Rightarrow> kstate decode" where
  "decodeSchedControl_ConfigureFlags len cap buffer s =
     (if excapref 0 s = NULL then err seL4_TruncatedMessage
      else if len < TIME_ARG_SIZE * 2 + 3 then err seL4_TruncatedMessage
      else let budget_us = mode_parseTimeArg 0 buffer s
      in if budget_us > MAX_PERIOD_US s then err (seL4_RangeError (MIN_BUDGET_US s) (MAX_PERIOD_US s))
      else let budget_ticks = usToTicks budget_us s;
               period_us = mode_parseTimeArg TIME_ARG_SIZE buffer s
      in if period_us > MAX_PERIOD_US s then err (seL4_RangeError (MIN_BUDGET_US s) (MAX_PERIOD_US s))
      else let period_ticks = usToTicks period_us s
      in if budget_ticks < MIN_BUDGET s then err (seL4_RangeError (MIN_BUDGET_US s) (MAX_PERIOD_US s))
      else if period_ticks < MIN_BUDGET s then err (seL4_RangeError (MIN_BUDGET_US s) (MAX_PERIOD_US s))
      else if budget_ticks > period_ticks then err (seL4_RangeError (MIN_BUDGET_US s) period_us)
      else let targetCap = cteCap (ctes s (excapref 0 s))
      in if \<not> is_SchedContextCap targetCap then err (seL4_InvalidCapability 1)
      else let extra_refills = getSyscallArg (TIME_ARG_SIZE * 2) buffer s;
               max_refills = refill_absolute_max targetCap
      in if extra_refills > max_refills - MIN_REFILLS then err (seL4_RangeError 0 (max_refills - MIN_REFILLS))
      else let badge = getSyscallArg (TIME_ARG_SIZE * 2 + 1) buffer s;
               flags = getSyscallArg (TIME_ARG_SIZE * 2 + 2) buffer s
      in do {
           s' \<leftarrow> invokeSchedControl_ConfigureFlags (capSCPtr targetCap) (core cap) budget_ticks period_ticks
                  (extra_refills + MIN_REFILLS) badge flags (setThreadState (ksCurThread s) ThreadState_Restart s);
           ok s' })"

definition decodeSchedControlInvocation :: "invocation_label \<Rightarrow> cap \<Rightarrow> word64 \<Rightarrow> ptr \<Rightarrow> kstate \<Rightarrow> kstate decode" where
  "decodeSchedControlInvocation label cap len buffer s =
     (case label of
        SchedControlConfigureFlags \<Rightarrow> decodeSchedControl_ConfigureFlags len cap buffer s
      | _ \<Rightarrow> err seL4_IllegalOperation)"


section \<open>Threads and scheduling contexts point at each other\<close>

definition sc_bound :: "kstate \<Rightarrow> bool" where
  "sc_bound s \<longleftrightarrow> (\<forall>t sc. t \<noteq> NULL \<longrightarrow> sc \<noteq> NULL \<longrightarrow>
     (tcbSchedContext (tcbs s t) = sc \<longleftrightarrow> scTcb (scs s sc) = t))"

text \<open>The bindings alone: which thread has which context.\<close>

definition bindings :: "kstate \<Rightarrow> (ptr \<Rightarrow> ptr) \<times> (ptr \<Rightarrow> ptr)" where
  "bindings s = ((\<lambda>t. tcbSchedContext (tcbs s t)), (\<lambda>sc. scTcb (scs s sc)))"

lemma sc_bound_bindings: "bindings s' = bindings s \<Longrightarrow> sc_bound s' = sc_bound s"
  by (simp add: sc_bound_def bindings_def fun_eq_iff)

lemma bindings_queue_ops [simp]:
  "bindings (tcbSchedEnqueue t s) = bindings s" "bindings (tcbSchedDequeue t s) = bindings s"
  "bindings (tcbReleaseRemove t s) = bindings s" "bindings (rescheduleRequired s) = bindings s"
  by (simp_all add: bindings_def)

text \<open>The net effect of donating and of unbinding on the bindings.\<close>

lemma donate_bindings:
  "tcbSchedContext (tcbs (schedContext_donate sc to s) t) =
     (if t = to then sc else if scTcb (scs s sc) \<noteq> NULL \<and> t = scTcb (scs s sc) then NULL
      else tcbSchedContext (tcbs s t))"
  "scTcb (scs (schedContext_donate sc to s) c) = (if c = sc then to else scTcb (scs s c))"
  by (simp_all add: schedContext_donate_def Let_def)

lemma unbind_bindings:
  "tcbSchedContext (tcbs (schedContext_unbindTCB sc s) t) =
     (if t = scTcb (scs s sc) then NULL else tcbSchedContext (tcbs s t))"
  "scTcb (scs (schedContext_unbindTCB sc s) c) = (if c = sc then NULL else scTcb (scs s c))"
  by (simp_all add: schedContext_unbindTCB_def Let_def)

lemma donate_sc_bound:
  assumes b: "sc_bound s" and ne: "to \<noteq> NULL" "sc \<noteq> NULL" and u: "tcbSchedContext (tcbs s to) = NULL"
  shows "sc_bound (schedContext_donate sc to s)"
  unfolding sc_bound_def donate_bindings
proof (intro allI impI)
  fix t c :: ptr assume n: "t \<noteq> NULL" "c \<noteq> NULL"
  have B: "tcbSchedContext (tcbs s t) = c \<longleftrightarrow> scTcb (scs s c) = t" "tcbSchedContext (tcbs s t) = sc \<longleftrightarrow> scTcb (scs s sc) = t"
    using b n ne(2) by (auto simp: sc_bound_def)
  consider "t = to" | "t \<noteq> to" "c = sc" | "t \<noteq> to" "c \<noteq> sc" by blast
  then show "((if t = to then sc else if scTcb (scs s sc) \<noteq> NULL \<and> t = scTcb (scs s sc) then NULL
      else tcbSchedContext (tcbs s t)) = c) = ((if c = sc then to else scTcb (scs s c)) = t)"
    by cases (use B u n in auto)
qed

lemma unbind_sc_bound:
  assumes b: "sc_bound s" and ne: "sc \<noteq> NULL" "scTcb (scs s sc) \<noteq> NULL"
  shows "sc_bound (schedContext_unbindTCB sc s)"
  unfolding sc_bound_def unbind_bindings
proof (intro allI impI)
  fix t c :: ptr assume n: "t \<noteq> NULL" "c \<noteq> NULL"
  have B: "tcbSchedContext (tcbs s t) = c \<longleftrightarrow> scTcb (scs s c) = t" "tcbSchedContext (tcbs s t) = sc \<longleftrightarrow> scTcb (scs s sc) = t"
    using b n ne(1) by (auto simp: sc_bound_def)
  show "((if t = scTcb (scs s sc) then NULL else tcbSchedContext (tcbs s t)) = c)
      = ((if c = sc then NULL else scTcb (scs s c)) = t)"
    using B n by (cases "c = sc") auto
qed

lemma donate_sched_ok:
  assumes "sched_ok s"
  shows "sched_ok (schedContext_donate sc to s)"
  using assms by (simp add: schedContext_donate_def Let_def sched_ok_upd_tcb sched_part_def)

lemma unbind_sched_ok:
  assumes "sched_ok s"
  shows "sched_ok (schedContext_unbindTCB sc s)"
  using assms by (simp add: schedContext_unbindTCB_def Let_def sched_ok_upd_tcb sched_part_def)

text \<open>The thread that loses its context leaves every queue of the scheduler.\<close>

lemma not_schedulable_unbound: "tcbSchedContext (tcbs s t) = NULL \<Longrightarrow> \<not> isSchedulable t s"
  by (simp add: isSchedulable_def)

lemma donate_leaves_queues:
  assumes "scTcb (scs s sc) = d" "d \<noteq> NULL" "d \<noteq> to"
  shows "\<not> tcbQueued (tcbState (tcbs (schedContext_donate sc to s) d))"
    "\<not> tcbInReleaseQueue (tcbState (tcbs (schedContext_donate sc to s) d))"
    "ksSchedulerAction (schedContext_donate sc to s) \<noteq> d \<or> d = SchedulerAction_ChooseNewThread"
  using assms
  by (auto simp: schedContext_donate_def Let_def state_ops reschedule_state not_schedulable_unbound upd_tcb_def upd_sc_def)

lemma unbind_leaves_queues:
  assumes "scTcb (scs s sc) = d"
  shows "\<not> tcbQueued (tcbState (tcbs (schedContext_unbindTCB sc s) d))"
    "\<not> tcbInReleaseQueue (tcbState (tcbs (schedContext_unbindTCB sc s) d))"
  using assms by (auto simp: schedContext_unbindTCB_def Let_def state_ops reschedule_state)

section \<open>Properties\<close>

text \<open>
  Donating a scheduling context moves the right to run, and nothing else: afterwards the context and
  the receiver point at each other, the donor has no context, is in no queue of the scheduler and is
  not the thread about to run, every other binding is unchanged, and both the queues and
  the mutual pointers are consistent.
\<close>

theorem schedContext_donate_moves_binding:
  assumes "sc_bound s" "sched_ok s" "to \<noteq> NULL" "sc \<noteq> NULL" "tcbSchedContext (tcbs s to) = NULL"
    and "s' = schedContext_donate sc to s" "scTcb (scs s sc) = donor"
  shows "sc_bound s' \<and> sched_ok s' \<and> scTcb (scs s' sc) = to \<and> tcbSchedContext (tcbs s' to) = sc
    \<and> (donor \<noteq> NULL \<longrightarrow> tcbSchedContext (tcbs s' donor) = NULL
        \<and> \<not> tcbQueued (tcbState (tcbs s' donor)) \<and> \<not> tcbInReleaseQueue (tcbState (tcbs s' donor))
        \<and> (ksSchedulerAction s' = donor \<longrightarrow> donor = SchedulerAction_ChooseNewThread))
    \<and> (\<forall>t. t \<noteq> to \<and> t \<noteq> donor \<longrightarrow> tcbSchedContext (tcbs s' t) = tcbSchedContext (tcbs s t))"
proof -
  note b = donate_bindings [of sc to s]
  have ne: "donor \<noteq> NULL \<Longrightarrow> donor \<noteq> to" using assms(1,3-5,7) unfolding sc_bound_def by metis
  show ?thesis using donate_sc_bound [OF assms(1,3-5)]
      donate_sched_ok [OF assms(2)] donate_leaves_queues [OF assms(7) _ ne] ne
    by (auto simp: assms(6,7) b)
qed

text \<open>
  Unbinding meets its contract: the context has no thread, the thread no context, the
  thread is in no queue of the scheduler, and the invariants hold.
\<close>

theorem schedContext_unbind_clears:
  assumes "sc_bound s" "sched_ok s" "sc \<noteq> NULL" "s' = schedContext_unbindAllTCBs sc s"
  shows "sc_bound s' \<and> sched_ok s' \<and> scTcb (scs s' sc) = NULL
    \<and> (\<forall>t. t \<noteq> NULL \<longrightarrow> tcbSchedContext (tcbs s' t) \<noteq> sc)
    \<and> (scTcb (scs s sc) \<noteq> NULL \<longrightarrow> \<not> isSchedulable (scTcb (scs s sc)) s'
        \<and> \<not> tcbQueued (tcbState (tcbs s' (scTcb (scs s sc)))))"
proof (cases "scTcb (scs s sc) = NULL")
  case True
  then show ?thesis using assms by (auto simp: schedContext_unbindAllTCBs_def sc_bound_def)
next
  case False
  then have s': "s' = schedContext_unbindTCB sc s" using assms(4) by (simp add: schedContext_unbindAllTCBs_def)
  note b = unbind_bindings [of sc s]
  show ?thesis
    using unbind_sc_bound [OF assms(1,3) False] unbind_sched_ok [OF assms(2)] unbind_leaves_queues [of s sc, OF refl] False assms(1,3)
    by (auto simp: s' b sc_bound_def isSchedulable_def)
qed

text \<open>
  C39. Scheduling parameters are in range before they are used: a configuration that is accepted has
  a budget of at least the minimum, at most the period, a period of at most the maximum, all in ticks without
  overflow of the conversion, and no more refills than the object has room for.
\<close>

theorem decodeSchedControl_in_range:
  assumes "decodeSchedControlInvocation l cap len buffer s = Some (Inr s')"
    and "unat (pMaxPeriodUs (plat s)) * unat (pTicksInUs (plat s)) < 2 ^ 64"
    and "MIN_REFILLS \<le> refill_absolute_max (cteCap (ctes s (excapref 0 s)))"
  shows "\<exists>b p n badge flags.
    invokeSchedControl_ConfigureFlags (capSCPtr (cteCap (ctes s (excapref 0 s)))) (core cap) b p n badge flags
      (setThreadState (ksCurThread s) ThreadState_Restart s) = Some s'
    \<and> MIN_BUDGET s \<le> b \<and> b \<le> p \<and> p \<le> usToTicks (MAX_PERIOD_US s) s
    \<and> unat b = unat (mode_parseTimeArg 0 buffer s) * unat (pTicksInUs (plat s))
    \<and> unat p = unat (mode_parseTimeArg TIME_ARG_SIZE buffer s) * unat (pTicksInUs (plat s))
    \<and> MIN_REFILLS \<le> n \<and> n \<le> refill_absolute_max (cteCap (ctes s (excapref 0 s)))"
proof -
  let ?b = "mode_parseTimeArg 0 buffer s" and ?p = "mode_parseTimeArg TIME_ARG_SIZE buffer s"
  let ?e = "getSyscallArg (TIME_ARG_SIZE * 2) buffer s"
  let ?m = "refill_absolute_max (cteCap (ctes s (excapref 0 s)))"
  have g: "?b \<le> MAX_PERIOD_US s" "?p \<le> MAX_PERIOD_US s" "MIN_BUDGET s \<le> usToTicks ?b s"
    "usToTicks ?b s \<le> usToTicks ?p s" "?e \<le> ?m - MIN_REFILLS"
    and i: "\<exists>badge flags. invokeSchedControl_ConfigureFlags (capSCPtr (cteCap (ctes s (excapref 0 s)))) (core cap)
        (usToTicks ?b s) (usToTicks ?p s) (?e + MIN_REFILLS) badge flags
        (setThreadState (ksCurThread s) ThreadState_Restart s) = Some s'"
    using assms(1)
    by (auto simp: decodeSchedControlInvocation_def decodeSchedControl_ConfigureFlags_def Let_def not_less
        split: invocation_label.splits if_splits bind_splits)
  have u: "unat (usToTicks x s) = unat x * unat (pTicksInUs (plat s))" if "x \<le> MAX_PERIOD_US s" for x
  proof -
    have "unat x * unat (pTicksInUs (plat s)) \<le> unat (pMaxPeriodUs (plat s)) * unat (pTicksInUs (plat s))"
      using that by (simp add: MAX_PERIOD_US_def word_le_nat_alt)
    then have "unat x * unat (pTicksInUs (plat s)) < 2 ^ 64" using assms(2) by linarith
    then show ?thesis by (simp add: usToTicks_def unat_word_ariths)
  qed
  have "usToTicks ?p s \<le> usToTicks (MAX_PERIOD_US s) s"
    using g(2) u [OF g(2)] u [of "MAX_PERIOD_US s"] by (simp add: word_le_nat_alt)
  moreover have "MIN_REFILLS \<le> ?e + MIN_REFILLS" "?e + MIN_REFILLS \<le> ?m"
  proof -
    have "unat (?m - MIN_REFILLS) = unat ?m - unat MIN_REFILLS" using assms(3) by (rule unat_sub_nowrap)
    then have le: "unat ?e + unat MIN_REFILLS \<le> unat ?m"
      using g(5) assms(3) by (simp add: word_le_nat_alt)
    then have "unat (?e + MIN_REFILLS) = unat ?e + unat MIN_REFILLS"
      using unat_lt_64 [of ?m] by (intro unat_add_nowrap) linarith
    with le show "MIN_REFILLS \<le> ?e + MIN_REFILLS" "?e + MIN_REFILLS \<le> ?m" by (simp_all add: word_le_nat_alt)
  qed
  ultimately show ?thesis using i g(3,4) u [OF g(1)] u [OF g(2)] by blast
qed

section \<open>Concrete scheduling contexts\<close>

text \<open>Thread 1024 runs on context 4096; thread 2048 has none.\<close>

definition example_bound :: kstate where
  "example_bound = upd_sc 4096 (scTcb_update (\<lambda>_. 1024)) (upd_tcb 1024 (tcbSchedContext_update (\<lambda>_. 4096)) kstate0)"

lemma example_bound_ok: "sc_bound example_bound" "sched_ok example_bound"
proof -
  show "sc_bound example_bound"
    by (simp add: sc_bound_def example_bound_def kstate0_def tcb0_def sc0_def)
  have "sched_ok kstate0" using kstate0_valid unfolding sched_ok_def by blast
  then show "sched_ok example_bound"
    by (simp add: example_bound_def sched_ok_upd_tcb sched_part_def)
qed

theorem schedContext_donate_moves_binding_witness:
  "scTcb (scs (schedContext_donate 4096 2048 example_bound) 4096) = 2048
   \<and> tcbSchedContext (tcbs (schedContext_donate 4096 2048 example_bound) 1024) = NULL"
  using schedContext_donate_moves_binding [OF example_bound_ok, of 2048 4096, OF _ _ _ refl refl]
  by (simp add: example_bound_def kstate0_def tcb0_def)

theorem schedContext_unbind_clears_witness:
  "scTcb (scs (schedContext_unbindAllTCBs 4096 example_bound) 4096) = NULL
   \<and> \<not> isSchedulable 1024 (schedContext_unbindAllTCBs 4096 example_bound)"
  using schedContext_unbind_clears [OF example_bound_ok, of 4096, OF _ refl]
  by (simp add: example_bound_def)

text \<open>A caller that configures context 4096 (of 256 bytes) with 100 out of 1000 microseconds.\<close>

definition example_configure :: kstate where
  "example_configure = (upd_tcb 512 (tcbContext_update (\<lambda>c. c(11 := 100, 12 := 1000)))
     (set_cap 32 (SchedContextCap 4096 8) kstate0))\<lparr>ksCurThread := 512, current_extra_caps := (\<lambda>_. NULL)(0 := 32)\<rparr>"

lemma example_configure_facts:
  "excapref 0 example_configure = 32" "cteCap (ctes example_configure 32) = SchedContextCap 4096 8"
  "plat example_configure = plat kstate0" "scs example_configure = scs kstate0"
  "mode_parseTimeArg 0 NULL example_configure = 100" "mode_parseTimeArg 1 NULL example_configure = 1000"
  "getSyscallArg 2 NULL example_configure = 0"
  by (simp_all add: example_configure_def excapref_def set_cap_def upd_cte_def mode_parseTimeArg_def getSyscallArg_def
      TIME_ARG_SIZE_def n_msgRegisters_def msgRegisters_def getRegister_def kstate0_def tcb0_def)

lemma example_refills: "refill_absolute_max (SchedContextCap 4096 8) = 10"
  by code_simp

theorem decodeSchedControl_in_range_witness:
  "\<exists>s'. decodeSchedControlInvocation SchedControlConfigureFlags (SchedControlCap 0) 5 NULL example_configure = Some (Inr s')
     \<and> (\<exists>b p n badge flags. invokeSchedControl_ConfigureFlags 4096 0 b p n badge flags
          (setThreadState (ksCurThread example_configure) ThreadState_Restart example_configure) = Some s'
          \<and> b \<le> p \<and> n \<le> 10)"
proof -
  note f = example_configure_facts
  have "\<exists>s'. decodeSchedControlInvocation SchedControlConfigureFlags (SchedControlCap 0) 5 NULL example_configure
      = Some (Inr s')"
    by (simp add: decodeSchedControlInvocation_def decodeSchedControl_ConfigureFlags_def Let_def f
        TIME_ARG_SIZE_def MAX_PERIOD_US_def usToTicks_def MIN_BUDGET_def kstate0_def example_refills
        invokeSchedControl_ConfigureFlags_def setThreadState_def upd_ts_def sc0_def)
  then show ?thesis
    using decodeSchedControl_in_range [of SchedControlConfigureFlags "SchedControlCap 0" 5 NULL example_configure]
    by (fastforce simp: f kstate0_def example_refills)
qed

end
