(* ===== verification/Reply.thy ===== *)
theory Reply
  imports SchedContext
begin

text \<open>
  Reply objects and call stacks, \<^verbatim>\<open>src/kernel/object/reply.c\<close> and \<^verbatim>\<open>include/object/reply.h\<close>.

  When a thread calls a passive server it lends its scheduling context along; the replies in between
  form a stack, linked through the reply objects, whose top the scheduling context points at.
  \<open>call_stack_list sc L s\<close> says that \<open>L\<close> is that stack. Pushing and popping are the operations of a
  stack, and a reply brings the scheduling context back to the caller.
\<close>

section \<open>Definitions\<close>

definition reply_unlink :: "ptr \<Rightarrow> ptr \<Rightarrow> kstate \<Rightarrow> kstate" where
  "reply_unlink rply tcb s =
     (let s = upd_reply rply (replyTCB_update (\<lambda>_. NULL)) s
      in setThreadState tcb ThreadState_Inactive s)"

definition reply_push :: "ptr \<Rightarrow> ptr \<Rightarrow> ptr \<Rightarrow> bool \<Rightarrow> kstate \<Rightarrow> kstate" where
  "reply_push tcb_caller tcb_callee rply canDonate s =
     (let sc_donated = tcbSchedContext (tcbs s tcb_caller);
          s = upd_reply rply (replyTCB_update (\<lambda>_. tcb_caller)) s;
          s = setThreadStateBlockedOnReply tcb_caller rply s
      in if sc_donated \<noteq> NULL \<and> tcbSchedContext (tcbs s tcb_callee) = NULL \<and> canDonate
         then let old_caller = scReply (scs s sc_donated);
                  s = (if old_caller \<noteq> NULL
                       then upd_reply old_caller (replyNext_update (\<lambda>_. call_stack_new rply False)) s else s);
                  s = upd_reply rply (replyPrev_update (\<lambda>_. call_stack_new old_caller False)) s;
                  s = upd_sc sc_donated (scReply_update (\<lambda>_. rply)) s;
                  s = upd_reply rply (replyNext_update (\<lambda>_. call_stack_new sc_donated True)) s
              in schedContext_donate sc_donated tcb_callee s
         else s)"

definition reply_pop :: "ptr \<Rightarrow> ptr \<Rightarrow> kstate \<Rightarrow> kstate" where
  "reply_pop rply tcb s =
     (let next_ptr = callStackPtr (replyNext (replies s rply));
          prev_ptr = callStackPtr (replyPrev (replies s rply));
          s = upd_sc next_ptr (scReply_update (\<lambda>_. prev_ptr)) s;
          s = (if prev_ptr \<noteq> 0
               then upd_reply prev_ptr (replyNext_update (\<lambda>_. replyNext (replies s rply))) s else s);
          s = upd_reply rply (replyNext_update (\<lambda>_. call_stack_new 0 False)) s;
          s = (if tcbSchedContext (tcbs s tcb) = NULL then schedContext_donate next_ptr tcb s else s);
          s = upd_reply rply (replyPrev_update (\<lambda>_. call_stack_new 0 False)) s
      in reply_unlink rply tcb s)"

definition reply_remove :: "ptr \<Rightarrow> ptr \<Rightarrow> kstate \<Rightarrow> kstate" where
  "reply_remove rply tcb s =
     (let next_ptr = callStackPtr (replyNext (replies s rply));
          prev_ptr = callStackPtr (replyPrev (replies s rply))
      in if next_ptr \<noteq> 0 \<and> isHead (replyNext (replies s rply)) then reply_pop rply tcb s
         else let s = (if next_ptr \<noteq> 0
                       then upd_reply next_ptr (replyPrev_update (\<lambda>_. call_stack_new 0 False)) s else s);
                  s = (if prev_ptr \<noteq> 0
                       then upd_reply prev_ptr (replyNext_update (\<lambda>_. call_stack_new 0 False)) s else s);
                  s = upd_reply rply (replyPrev_update (\<lambda>_. call_stack_new 0 False)) s;
                  s = upd_reply rply (replyNext_update (\<lambda>_. call_stack_new 0 False)) s
              in reply_unlink rply tcb s)"

definition reply_remove_tcb :: "ptr \<Rightarrow> kstate \<Rightarrow> kstate" where
  "reply_remove_tcb tcb s =
     (let rply = replyObject (tcbState (tcbs s tcb));
          next_ptr = callStackPtr (replyNext (replies s rply));
          prev_ptr = callStackPtr (replyPrev (replies s rply));
          s = (if next_ptr \<noteq> 0
               then if isHead (replyNext (replies s rply))
                    then upd_sc next_ptr (scReply_update (\<lambda>_. NULL)) s
                    else upd_reply next_ptr (replyPrev_update (\<lambda>_. call_stack_new 0 False)) s
               else s);
          s = (if prev_ptr \<noteq> 0
               then upd_reply prev_ptr (replyNext_update (\<lambda>_. call_stack_new 0 False)) s else s);
          s = upd_reply rply (replyPrev_update (\<lambda>_. call_stack_new 0 False)) s;
          s = upd_reply rply (replyNext_update (\<lambda>_. call_stack_new 0 False)) s
      in reply_unlink rply tcb s)"

section \<open>The call stack as a list\<close>

text \<open>
  Going down from the reply \<open>r\<close>: each reply points up to the object above it (the scheduling context for
  the topmost, which is marked as head) and down to the next.
\<close>

primrec stack_from :: "(ptr \<Rightarrow> reply) \<Rightarrow> ptr \<Rightarrow> bool \<Rightarrow> ptr list \<Rightarrow> ptr \<Rightarrow> bool" where
  "stack_from h up b [] r \<longleftrightarrow> r = NULL"
| "stack_from h up b (x # xs) r \<longleftrightarrow> r = x \<and> x \<noteq> NULL \<and> replyNext (h x) = call_stack_new up b
     \<and> stack_from h x False xs (callStackPtr (replyPrev (h x)))"

definition call_stack_list :: "ptr \<Rightarrow> ptr list \<Rightarrow> kstate \<Rightarrow> bool" where
  "call_stack_list sc L s \<longleftrightarrow> distinct L \<and> stack_from (replies s) sc True L (scReply (scs s sc))"

lemma stack_from_frame:
  "(\<And>x. x \<in> set L \<Longrightarrow> replyNext (h' x) = replyNext (h x) \<and> replyPrev (h' x) = replyPrev (h x)) \<Longrightarrow>
   stack_from h' up b L r = stack_from h up b L r"
  by (induction L arbitrary: up b r) auto

lemma stack_from_hd: "stack_from h up b L r \<Longrightarrow> r = (case L of [] \<Rightarrow> NULL | x # _ \<Rightarrow> x)"
  by (cases L) auto

text \<open>What the operations on thread states and bindings keep of replies.\<close>

lemma setThreadState_fields [simp]:
  "replies (setThreadState t ts s) = replies s" "scs (setThreadState t ts s) = scs s"
  "refills (setThreadState t ts s) = refills s" "eps (setThreadState t ts s) = eps s"
  "ntfns (setThreadState t ts s) = ntfns s" "ctes (setThreadState t ts s) = ctes s"
  "mem (setThreadState t ts s) = mem s" "ksCurThread (setThreadState t ts s) = ksCurThread s"
  "ksCurSC (setThreadState t ts s) = ksCurSC s"
  "tcbSchedContext (tcbs (setThreadState t ts s) u) = tcbSchedContext (tcbs s u)"
  "replyObject (tcbState (tcbs (setThreadState t ts s) u)) = replyObject (tcbState (tcbs s u))"
  "tsType (tcbState (tcbs (setThreadState t ts s) u)) = (if u = t then ts else tsType (tcbState (tcbs s u)))"
  by (simp_all add: setThreadState_def upd_ts_def)

lemma blockedOnReply_fields [simp]:
  "replies (setThreadStateBlockedOnReply t r s) = replies s" "scs (setThreadStateBlockedOnReply t r s) = scs s"
  "tcbSchedContext (tcbs (setThreadStateBlockedOnReply t r s) u) = tcbSchedContext (tcbs s u)"
  "tsType (tcbState (tcbs (setThreadStateBlockedOnReply t r s) u)) =
     (if u = t then ThreadState_BlockedOnReply else tsType (tcbState (tcbs s u)))"
  "replyObject (tcbState (tcbs (setThreadStateBlockedOnReply t r s) u)) =
     (if u = t then r else replyObject (tcbState (tcbs s u)))"
  by (simp_all add: setThreadStateBlockedOnReply_def Let_def upd_ts_def)

lemma upd_reply_fields [simp]:
  "replies (upd_reply p f s) = (replies s)(p := f (replies s p))" "scs (upd_reply p f s) = scs s"
  "tcbs (upd_reply p f s) = tcbs s" "ksCurThread (upd_reply p f s) = ksCurThread s"
  "ksSchedulerAction (upd_reply p f s) = ksSchedulerAction s" "plat (upd_reply p f s) = plat s"
  by (simp_all add: upd_reply_def)

lemma donate_fields [simp]:
  "replies (schedContext_donate sc t s) = replies s"
  "scReply (scs (schedContext_donate sc t s) c) = scReply (scs s c)"
  "tsType (tcbState (tcbs (schedContext_donate sc t s) u)) = tsType (tcbState (tcbs s u))"
  "replyObject (tcbState (tcbs (schedContext_donate sc t s) u)) = replyObject (tcbState (tcbs s u))"
  by (simp_all add: schedContext_donate_def Let_def upd_sc_def)

lemma unlink_fields [simp]:
  "replies (reply_unlink r t s) = (replies s)(r := (replies s r)\<lparr>replyTCB := NULL\<rparr>)"
  "scs (reply_unlink r t s) = scs s"
  "tcbSchedContext (tcbs (reply_unlink r t s) u) = tcbSchedContext (tcbs s u)"
  "tsType (tcbState (tcbs (reply_unlink r t s) u)) =
     (if u = t then ThreadState_Inactive else tsType (tcbState (tcbs s u)))"
  by (simp_all add: reply_unlink_def Let_def)

lemma stack_field [simp]: "callStackPtr (call_stack_new p h) = p" "isHead (call_stack_new p h) = h"
  by (simp_all add: call_stack_new_def)

text \<open>The replies after a push with donation and after a pop.\<close>

lemma push_replies:
  assumes "tcbSchedContext (tcbs s caller) = sc" "sc \<noteq> NULL" "tcbSchedContext (tcbs s callee) = NULL"
    and "scReply (scs s sc) = p" "p \<noteq> r"
  shows "replies (reply_push caller callee r True s) =
      (let h = (if p = NULL then replies s else (replies s)(p := (replies s p)\<lparr>replyNext := call_stack_new r False\<rparr>))
       in h(r := \<lparr>replyTCB = caller, replyPrev = call_stack_new p False, replyNext = call_stack_new sc True\<rparr>))"
    and "scReply (scs (reply_push caller callee r True s) c) = (if c = sc then r else scReply (scs s c))"
  using assms by (auto simp: reply_push_def Let_def fun_eq_iff)

lemma pop_replies:
  assumes "replyNext (replies s r) = call_stack_new sc True" "callStackPtr (replyPrev (replies s r)) = p" "p \<noteq> r"
  shows "replies (reply_pop r t s) =
      (let h = (if p = NULL then replies s else (replies s)(p := (replies s p)\<lparr>replyNext := call_stack_new sc True\<rparr>))
       in h(r := \<lparr>replyTCB = NULL, replyPrev = call_stack_new 0 False, replyNext = call_stack_new 0 False\<rparr>))"
    and "scReply (scs (reply_pop r t s) c) = (if c = sc then p else scReply (scs s c))"
  using assms by (auto simp: reply_pop_def Let_def fun_eq_iff)

lemma push_stack:
  assumes l: "call_stack_list sc L s" and sc: "tcbSchedContext (tcbs s caller) = sc" "sc \<noteq> NULL"
    and c: "tcbSchedContext (tcbs s callee) = NULL" and r: "r \<noteq> NULL" "r \<notin> set L"
  shows "call_stack_list sc (r # L) (reply_push caller callee r True s)"
proof (cases L)
  case Nil
  then have "scReply (scs s sc) = NULL" using l by (simp add: call_stack_list_def)
  with Nil r sc c show ?thesis by (simp add: call_stack_list_def push_replies)
next
  case (Cons p K)
  then have p: "scReply (scs s sc) = p" "p \<noteq> NULL" "p \<notin> set K" "p \<noteq> r" "r \<notin> set K" "distinct K"
    "stack_from (replies s) p False K (callStackPtr (replyPrev (replies s p)))"
    using l r by (auto simp: call_stack_list_def)
  note P = push_replies [OF sc c p(1) p(4)]
  have "stack_from (replies (reply_push caller callee r True s)) p False K (callStackPtr (replyPrev (replies s p)))"
    using p by (subst stack_from_frame [of K _ "replies s"]) (auto simp: P)
  then show ?thesis using p r Cons by (simp add: call_stack_list_def P Let_def)
qed

lemma pop_stack:
  assumes l: "call_stack_list sc (r # L) s" "sc \<noteq> NULL"
  shows "call_stack_list sc L (reply_pop r t s)"
proof (cases L)
  case Nil
  then have "replyNext (replies s r) = call_stack_new sc True" "callStackPtr (replyPrev (replies s r)) = NULL" "NULL \<noteq> r"
    using l by (auto simp: call_stack_list_def)
  with Nil show ?thesis by (simp add: call_stack_list_def pop_replies)
next
  case (Cons p K)
  then have p: "replyNext (replies s r) = call_stack_new sc True" "callStackPtr (replyPrev (replies s r)) = p" "p \<noteq> r"
    "p \<noteq> NULL" "r \<notin> set K" "p \<notin> set K" "distinct K"
    "stack_from (replies s) p False K (callStackPtr (replyPrev (replies s p)))"
    using l by (auto simp: call_stack_list_def)
  note P = pop_replies [OF p(1-3)]
  have "stack_from (replies (reply_pop r t s)) p False K (callStackPtr (replyPrev (replies s p)))"
    using p by (subst stack_from_frame [of K _ "replies s"]) (auto simp: P)
  then show ?thesis using p Cons by (simp add: call_stack_list_def P Let_def)
qed

text \<open>Cutting a reply out of the middle ends the stack above it.\<close>

lemma stack_from_split:
  "stack_from h up b (xs @ r # ys) p \<Longrightarrow> xs \<noteq> [] \<Longrightarrow>
     replyNext (h r) = call_stack_new (last xs) False \<and> callStackPtr (replyPrev (h (last xs))) = r \<and> r \<noteq> NULL"
proof (induction xs arbitrary: up b p)
  case (Cons a xs)
  then show ?case by (cases xs) auto
qed simp

lemma stack_from_cut:
  assumes "stack_from h up b (xs @ r # ys) p" "xs \<noteq> []" "distinct xs"
    and "\<And>x. x \<in> set xs \<Longrightarrow> replyNext (h' x) = replyNext (h x)"
    and "\<And>x. x \<in> set xs \<Longrightarrow> x \<noteq> last xs \<Longrightarrow> replyPrev (h' x) = replyPrev (h x)"
    and "callStackPtr (replyPrev (h' (last xs))) = NULL"
  shows "stack_from h' up b xs p"
  using assms
proof (induction xs arbitrary: up b p)
  case (Cons a xs)
  show ?case
  proof (cases xs)
    case Nil
    then show ?thesis using Cons.prems by simp
  next
    case (Cons y zs)
    have "replyPrev (h' a) = replyPrev (h a)" using Cons.prems(3,5) Cons by (intro Cons.prems(5)) auto
    moreover have "stack_from h' a False xs (callStackPtr (replyPrev (h a)))"
      using Cons.prems Cons by (intro Cons.IH) auto
    ultimately show ?thesis using Cons.prems(1,4) by simp
  qed
qed simp

lemma remove_middle_replies:
  assumes "replyNext (replies s r) = call_stack_new n False" "callStackPtr (replyPrev (replies s r)) = p"
    "n \<noteq> NULL" "n \<noteq> r" "p \<noteq> r" "n \<noteq> p"
  shows "replyNext (replies (reply_remove r t s) x) =
      (if x = r \<or> x = p \<and> p \<noteq> NULL then call_stack_new 0 False else replyNext (replies s x))"
    "replyPrev (replies (reply_remove r t s) x) =
      (if x = r \<or> x = n then call_stack_new 0 False else replyPrev (replies s x))"
    "scReply (scs (reply_remove r t s) c) = scReply (scs s c)"
  using assms by (auto simp: reply_remove_def Let_def)

lemma remove_tcb_replies:
  assumes "replyObject (tcbState (tcbs s t)) = r" "callStackPtr (replyNext (replies s r)) = n"
    "callStackPtr (replyPrev (replies s r)) = p" "n \<noteq> NULL" "isHead (replyNext (replies s r)) \<or> n \<noteq> r" "p \<noteq> r"
    "isHead (replyNext (replies s r)) \<or> n \<noteq> p"
  shows "replyNext (replies (reply_remove_tcb t s) x) =
      (if x = r \<or> x = p \<and> p \<noteq> NULL then call_stack_new 0 False else replyNext (replies s x))"
    "replyPrev (replies (reply_remove_tcb t s) x) =
      (if x = r \<or> x = n \<and> \<not> isHead (replyNext (replies s r)) then call_stack_new 0 False else replyPrev (replies s x))"
    "scReply (scs (reply_remove_tcb t s) c) =
      (if c = n \<and> isHead (replyNext (replies s r)) then NULL else scReply (scs s c))"
  using assms by (auto simp: reply_remove_tcb_def Let_def)

lemma stack_not_NULL: "stack_from h up b K q \<Longrightarrow> x \<in> set K \<Longrightarrow> x \<noteq> NULL"
  by (induction K arbitrary: up b q) auto

lemma stack_suffix: "stack_from h up b (zs @ r # ys) q \<Longrightarrow> \<exists>up b. stack_from h up b (r # ys) r"
  by (induction zs arbitrary: up b q) auto

lemma stack_below:
  assumes "call_stack_list sc (xs @ r # ys) s"
  shows "callStackPtr (replyPrev (replies s r)) = (case ys of [] \<Rightarrow> NULL | y # _ \<Rightarrow> y)"
    "callStackPtr (replyPrev (replies s r)) \<noteq> r" "r \<noteq> NULL"
proof -
  have st: "stack_from (replies s) sc True (xs @ r # ys) (scReply (scs s sc))" and d: "distinct (xs @ r # ys)"
    using assms(1) by (auto simp: call_stack_list_def)
  show pr: "callStackPtr (replyPrev (replies s r)) = (case ys of [] \<Rightarrow> NULL | y # _ \<Rightarrow> y)"
    using stack_suffix [OF st] by (auto dest: stack_from_hd)
  show r0: "r \<noteq> NULL" using stack_not_NULL [OF st] by simp
  show "callStackPtr (replyPrev (replies s r)) \<noteq> r" using pr d r0 by (auto split: list.splits)
qed

lemma stack_above:
  assumes "call_stack_list sc (xs @ r # ys) s" "xs \<noteq> []"
  shows "replyNext (replies s r) = call_stack_new (last xs) False" "last xs \<noteq> NULL" "last xs \<noteq> r"
    "last xs \<noteq> callStackPtr (replyPrev (replies s r))"
proof -
  have st: "stack_from (replies s) sc True (xs @ r # ys) (scReply (scs s sc))" and d: "distinct (xs @ r # ys)"
    using assms(1) by (auto simp: call_stack_list_def)
  have la: "last xs \<in> set xs" using assms(2) by simp
  show "replyNext (replies s r) = call_stack_new (last xs) False"
    using stack_from_split [OF st assms(2)] by simp
  show l0: "last xs \<noteq> NULL" using stack_not_NULL [OF st] la by simp
  show "last xs \<noteq> r" using la d by auto
  show "last xs \<noteq> callStackPtr (replyPrev (replies s r))"
    using stack_below(1) [OF assms(1)] la d l0 by (auto split: list.splits)
qed

text \<open>The part above a removed reply is the stack that is left.\<close>

lemma cut_stack:
  assumes l: "call_stack_list sc (xs @ r # ys) s" "xs \<noteq> []"
    and n: "\<And>x. replyNext (replies s' x) = (if x = r \<or> x = callStackPtr (replyPrev (replies s r)) \<and> x \<noteq> NULL
        then call_stack_new 0 False else replyNext (replies s x))"
    and p: "\<And>x. replyPrev (replies s' x) = (if x = r \<or> x = last xs then call_stack_new 0 False else replyPrev (replies s x))"
    and c: "scReply (scs s' sc) = scReply (scs s sc)"
  shows "call_stack_list sc xs s'"
proof -
  have st: "stack_from (replies s) sc True (xs @ r # ys) (scReply (scs s sc))" and d: "distinct (xs @ r # ys)"
    using l(1) by (auto simp: call_stack_list_def)
  have a: "x \<noteq> r" "x \<noteq> callStackPtr (replyPrev (replies s r)) \<or> x = NULL" if "x \<in> set xs" for x
    using stack_below(1) [OF l(1)] d that by (auto split: list.splits)
  have "stack_from (replies s') sc True xs (scReply (scs s sc))"
  proof (rule stack_from_cut [OF st l(2)])
    show "distinct xs" using d by simp
    show "replyNext (replies s' x) = replyNext (replies s x)" if "x \<in> set xs" for x
      using a [OF that] n [of x] by metis
    show "replyPrev (replies s' x) = replyPrev (replies s x)" if "x \<in> set xs" "x \<noteq> last xs" for x
      using a(1) [OF that(1)] that(2) p [of x] by metis
    show "callStackPtr (replyPrev (replies s' (last xs))) = NULL" by (simp add: p)
  qed
  then show ?thesis using d c by (simp add: call_stack_list_def)
qed

text \<open>The bindings and queues after a push and a pop: those of the donation inside.\<close>

lemma sched_ok_upd_reply [simp]: "sched_ok (upd_reply p f s) = sched_ok s"
  by (auto elim!: sched_ok_parts simp: upd_reply_def)

lemma bindings_fields [simp]:
  "bindings (upd_reply p f s) = bindings s" "bindings (setThreadState t ts s) = bindings s"
  "bindings (setThreadStateBlockedOnReply t r s) = bindings s"
  "bindings (upd_sc q (scReply_update g) s) = bindings s"
  by (simp_all add: bindings_def fun_eq_iff)

lemma sched_ok_blockedOnReply [simp]: "sched_ok s \<Longrightarrow> sched_ok (setThreadStateBlockedOnReply t r s)"
  by (simp add: setThreadStateBlockedOnReply_def Let_def upd_ts_def sched_ok_upd_tcb sched_part_def)

lemma sched_ok_unlink [simp]: "sched_ok s \<Longrightarrow> sched_ok (reply_unlink r t s)"
  by (simp add: reply_unlink_def Let_def)

lemma push_donates:
  assumes "tcbSchedContext (tcbs s caller) = sc" "sc \<noteq> NULL" "tcbSchedContext (tcbs s callee) = NULL"
  obtains s0 where "reply_push caller callee r True s = schedContext_donate sc callee s0"
    "bindings s0 = bindings s" "sched_ok s \<Longrightarrow> sched_ok s0"
    "\<And>u. tsType (tcbState (tcbs s0 u)) = (if u = caller then ThreadState_BlockedOnReply else tsType (tcbState (tcbs s u)))"
proof -
  define s0 where "s0 = (let p = scReply (scs s sc);
      s = setThreadStateBlockedOnReply caller r (upd_reply r (replyTCB_update (\<lambda>_. caller)) s);
      s = (if p \<noteq> NULL then upd_reply p (replyNext_update (\<lambda>_. call_stack_new r False)) s else s);
      s = upd_reply r (replyPrev_update (\<lambda>_. call_stack_new p False)) s;
      s = upd_sc sc (scReply_update (\<lambda>_. r)) s
    in upd_reply r (replyNext_update (\<lambda>_. call_stack_new sc True)) s)"
  show thesis
    by (rule that [of s0]) (use assms in \<open>simp_all add: s0_def reply_push_def Let_def\<close>)
qed

lemma pop_donates:
  assumes "replyNext (replies s r) = call_stack_new sc True" "tcbSchedContext (tcbs s t) = NULL"
  obtains s0 where "bindings (reply_pop r t s) = bindings (schedContext_donate sc t s0)"
    "bindings s0 = bindings s" "sched_ok s \<Longrightarrow> sched_ok (reply_pop r t s)"
proof -
  define p where "p = callStackPtr (replyPrev (replies s r))"
  define s0 where "s0 = (let
      s1 = upd_sc sc (scReply_update (\<lambda>_. p)) s;
      s1 = (if p \<noteq> 0 then upd_reply p (replyNext_update (\<lambda>_. replyNext (replies s1 r))) s1 else s1)
    in upd_reply r (replyNext_update (\<lambda>_. call_stack_new 0 False)) s1)"
  have e: "reply_pop r t s = reply_unlink r t (upd_reply r (replyPrev_update (\<lambda>_. call_stack_new 0 False))
      (schedContext_donate sc t s0))"
    using assms by (simp add: reply_pop_def s0_def p_def Let_def)
  show thesis
    by (rule that [of s0])
      (use assms in \<open>simp_all add: e reply_unlink_def Let_def donate_sched_ok s0_def\<close>)
qed

section \<open>Properties\<close>

text \<open>
  C38. A call lends the scheduling context and the reply returns it. Pushing a free reply object puts it on
  top of the call stack, blocks the caller on it and hands the caller's context to the passive callee;
  popping it again restores the stack, gives the context back to the caller, and frees the
  reply object. The bindings and the queues stay consistent throughout.
\<close>

theorem call_and_return:
  assumes "sc_bound s" "sched_ok s" "call_stack_list sc L s" "sc \<noteq> NULL"
    and "tcbSchedContext (tcbs s caller) = sc" "tcbSchedContext (tcbs s callee) = NULL"
    and "caller \<noteq> NULL" "callee \<noteq> NULL" "r \<noteq> NULL" "r \<notin> set L"
    and "s1 = reply_push caller callee r True s" "s2 = reply_pop r caller s1"
  shows "call_stack_list sc (r # L) s1 \<and> tcbSchedContext (tcbs s1 callee) = sc \<and> tcbSchedContext (tcbs s1 caller) = NULL
    \<and> tsType (tcbState (tcbs s1 caller)) = ThreadState_BlockedOnReply \<and> replyTCB (replies s1 r) = caller
    \<and> call_stack_list sc L s2 \<and> tcbSchedContext (tcbs s2 caller) = sc \<and> tcbSchedContext (tcbs s2 callee) = NULL
    \<and> tsType (tcbState (tcbs s2 caller)) = ThreadState_Inactive \<and> replyTCB (replies s2 r) = NULL
    \<and> sc_bound s2 \<and> sched_ok s2"
proof -
  have st: "call_stack_list sc (r # L) s1" unfolding assms(11) by (rule push_stack) (use assms in auto)
  then have top: "replyNext (replies s1 r) = call_stack_new sc True" by (simp add: call_stack_list_def)
  obtain s0 where s0: "s1 = schedContext_donate sc callee s0" "bindings s0 = bindings s" "sched_ok s0"
    "\<And>u. tsType (tcbState (tcbs s0 u)) = (if u = caller then ThreadState_BlockedOnReply else tsType (tcbState (tcbs s u)))"
    using push_donates [OF assms(5,4,6), of r] assms(2,11) by metis
  have b0: "tcbSchedContext (tcbs s0 u) = tcbSchedContext (tcbs s u)" "scTcb (scs s0 c) = scTcb (scs s c)" for u c
    using s0(2) by (auto simp: bindings_def fun_eq_iff)
  have o: "scTcb (scs s sc) = caller" "caller \<noteq> callee" using assms(1,4-7) unfolding sc_bound_def by metis+
  have b1: "tcbSchedContext (tcbs s1 u) = (if u = callee then sc else if u = caller then NULL else tcbSchedContext (tcbs s u))"
    "scTcb (scs s1 sc) = callee" for u
    using o assms(7) by (simp_all add: s0(1) donate_bindings b0)
  have w0: "sc_bound s0" using assms(1) sc_bound_bindings [OF s0(2)] by simp
  have w1: "sc_bound s1" unfolding s0(1) using w0 assms(8,4) by (rule donate_sc_bound) (simp add: b0 assms(6))
  have k1: "sched_ok s1" unfolding s0(1) using s0(3) by (rule donate_sched_ok)
  have c1: "tcbSchedContext (tcbs s1 caller) = NULL" using b1(1) o by simp
  obtain s3 where s3: "bindings s2 = bindings (schedContext_donate sc caller s3)" "bindings s3 = bindings s1" "sched_ok s2"
    using pop_donates [OF top c1] k1 assms(12) by metis
  have b3: "tcbSchedContext (tcbs s3 u) = tcbSchedContext (tcbs s1 u)" "scTcb (scs s3 c) = scTcb (scs s1 c)" for u c
    using s3(2) by (auto simp: bindings_def fun_eq_iff)
  have b2: "tcbSchedContext (tcbs s2 u) = tcbSchedContext (tcbs (schedContext_donate sc caller s3) u)" for u
    using s3(1) by (auto simp: bindings_def fun_eq_iff)
  have w3: "sc_bound s3" using w1 sc_bound_bindings [OF s3(2)] by simp
  have w2: "sc_bound s2" unfolding sc_bound_bindings [OF s3(1)]
    using w3 assms(7,4) by (rule donate_sc_bound) (simp add: b3 c1)
  have "replyTCB (replies s1 r) = caller" unfolding assms(11)
    using assms(4-6) by (simp add: reply_push_def Let_def)
  moreover have "replyTCB (replies s2 r) = NULL" "tsType (tcbState (tcbs s2 caller)) = ThreadState_Inactive"
    by (simp_all add: assms(12) reply_pop_def Let_def)
  moreover have "tcbSchedContext (tcbs s2 caller) = sc" "tcbSchedContext (tcbs s2 callee) = NULL"
    using o assms(8) by (simp_all add: b2 donate_bindings b3 b1)
  moreover have "call_stack_list sc L s2" unfolding assms(12) using st assms(4) by (rule pop_stack)
  ultimately show ?thesis using st b1 c1 s0 w2 s3(3) o by simp
qed

text \<open>
  Removing a reply cuts the call stack at it. When a reply is removed because it was used, a reply on top is
  popped and one further down takes everything below it out of the stack, leaving the upper part; when
  the caller's blocking is cancelled, the part above stays. A removed reply has no links.
\<close>

theorem reply_remove_cuts_stack:
  assumes "call_stack_list sc (xs @ r # ys) s" "sc \<noteq> NULL"
  shows "(xs = [] \<longrightarrow> call_stack_list sc ys (reply_remove r t s))
    \<and> (xs \<noteq> [] \<longrightarrow> call_stack_list sc xs (reply_remove r t s)
         \<and> replyNext (replies (reply_remove r t s) r) = call_stack_new 0 False
         \<and> replyPrev (replies (reply_remove r t s) r) = call_stack_new 0 False)
    \<and> (replyObject (tcbState (tcbs s u)) = r \<longrightarrow> call_stack_list sc xs (reply_remove_tcb u s)
         \<and> replyNext (replies (reply_remove_tcb u s) r) = call_stack_new 0 False
         \<and> replyPrev (replies (reply_remove_tcb u s) r) = call_stack_new 0 False)"
proof (intro conjI impI)
  note B = stack_below [OF assms(1)] and N = stack_above [OF assms(1)]
  have d: "distinct xs" using assms(1) by (simp add: call_stack_list_def)
  have top: "replyNext (replies s r) = call_stack_new sc True" if "xs = []"
    using assms(1) that by (simp add: call_stack_list_def)
  show "call_stack_list sc ys (reply_remove r t s)" if x: "xs = []"
  proof -
    have "reply_remove r t s = reply_pop r t s" using top [OF x] assms(2) by (simp add: reply_remove_def Let_def)
    then show ?thesis using pop_stack [of sc r ys s t] assms x by simp
  qed
  show "call_stack_list sc xs (reply_remove r t s)"
    "replyNext (replies (reply_remove r t s) r) = call_stack_new 0 False"
    "replyPrev (replies (reply_remove r t s) r) = call_stack_new 0 False" if x: "xs \<noteq> []"
  proof -
    note M = remove_middle_replies [OF N(1) [OF x] refl N(2,3) [OF x] B(2) N(4) [OF x]]
    show "call_stack_list sc xs (reply_remove r t s)" using assms(1) x by (rule cut_stack) (auto simp: M)
    show "replyNext (replies (reply_remove r t s) r) = call_stack_new 0 False"
      "replyPrev (replies (reply_remove r t s) r) = call_stack_new 0 False" by (simp_all add: M)
  qed
  assume u: "replyObject (tcbState (tcbs s u)) = r"
  have "call_stack_list sc xs (reply_remove_tcb u s)
    \<and> replyNext (replies (reply_remove_tcb u s) r) = call_stack_new 0 False
    \<and> replyPrev (replies (reply_remove_tcb u s) r) = call_stack_new 0 False"
  proof (cases "xs = []")
    case True
    then show ?thesis using top assms(2) B(2) remove_tcb_replies [OF u refl refl]
      by (simp add: call_stack_list_def)
  next
    case False
    have e: "callStackPtr (replyNext (replies s r)) = last xs" "\<not> isHead (replyNext (replies s r))"
      using N(1) [OF False] by simp_all
    have M: "replyNext (replies (reply_remove_tcb u s) x) =
        (if x = r \<or> x = callStackPtr (replyPrev (replies s r)) \<and> x \<noteq> NULL then call_stack_new 0 False
         else replyNext (replies s x))"
      "replyPrev (replies (reply_remove_tcb u s) x) =
        (if x = r \<or> x = last xs then call_stack_new 0 False else replyPrev (replies s x))"
      "scReply (scs (reply_remove_tcb u s) c) = scReply (scs s c)" for x c
      using e N(2-4) [OF False] B(2) by (auto simp: remove_tcb_replies [OF u refl refl])
    have "call_stack_list sc xs (reply_remove_tcb u s)" using assms(1) False by (rule cut_stack) (auto simp: M)
    then show ?thesis by (simp add: M)
  qed
  then show "call_stack_list sc xs (reply_remove_tcb u s)"
    "replyNext (replies (reply_remove_tcb u s) r) = call_stack_new 0 False"
    "replyPrev (replies (reply_remove_tcb u s) r) = call_stack_new 0 False" by simp_all
qed

section \<open>A concrete call\<close>

text \<open>Thread 1024 on context 4096 calls thread 2048 through reply object 96.\<close>

lemma example_bound_stack: "call_stack_list 4096 [] example_bound"
  by (simp add: call_stack_list_def example_bound_def kstate0_def sc0_def)

theorem call_and_return_witness:
  "tcbSchedContext (tcbs (reply_push 1024 2048 96 True example_bound) 2048) = 4096
   \<and> tcbSchedContext (tcbs (reply_pop 96 1024 (reply_push 1024 2048 96 True example_bound)) 1024) = 4096"
  using call_and_return [OF example_bound_ok example_bound_stack, of 1024 2048 96, OF _ _ _ _ _ _ _ refl refl]
  by (simp add: example_bound_def kstate0_def tcb0_def)

theorem reply_remove_cuts_stack_witness:
  "call_stack_list 4096 [] (reply_remove 96 1024 (reply_push 1024 2048 96 True example_bound))"
proof -
  have "call_stack_list 4096 ([] @ 96 # []) (reply_push 1024 2048 96 True example_bound)"
    using push_stack [OF example_bound_stack, of 1024 2048 96] by (simp add: example_bound_def kstate0_def tcb0_def)
  from reply_remove_cuts_stack [OF this, of 1024] show ?thesis by simp
qed

end
