(* ===== verification/Notification.thy ===== *)
theory Notification
  imports Reply
begin

text \<open>
  Notifications, \<^verbatim>\<open>src/kernel/object/notification.c\<close> and \<^verbatim>\<open>include/object/notification.h\<close>, and the cancellation of a
  blocked thread, \<^verbatim>\<open>cancelIPC\<close> of \<^verbatim>\<open>object/endpoint.c\<close>, which signalling a bound thread uses.

  The theorems: signals accumulate in a word of badges and are delivered once, a waiting thread is served in
  queue order, and the object is in the waiting state exactly when its queue is not empty.
\<close>

section \<open>Queues of notifications and endpoints\<close>

definition ntfn_ptr_get_queue :: "ptr \<Rightarrow> kstate \<Rightarrow> tcb_queue" where
  "ntfn_ptr_get_queue ntfnPtr s =
     \<lparr>head = ntfnQueue_head (ntfns s ntfnPtr), qend = ntfnQueue_tail (ntfns s ntfnPtr)\<rparr>"

definition ntfn_ptr_set_queue :: "ptr \<Rightarrow> tcb_queue \<Rightarrow> kstate \<Rightarrow> kstate" where
  "ntfn_ptr_set_queue ntfnPtr ntfn_queue s =
     (let s = upd_ntfn ntfnPtr (ntfnQueue_head_update (\<lambda>_. head ntfn_queue)) s
      in upd_ntfn ntfnPtr (ntfnQueue_tail_update (\<lambda>_. qend ntfn_queue)) s)"

definition notification_ptr_set_state :: "ptr \<Rightarrow> ntfn_state \<Rightarrow> kstate \<Rightarrow> kstate" where
  "notification_ptr_set_state ntfnPtr st s = upd_ntfn ntfnPtr (ntfnState_update (\<lambda>_. st)) s"

definition ep_ptr_get_queue :: "ptr \<Rightarrow> kstate \<Rightarrow> tcb_queue" where
  "ep_ptr_get_queue epptr s = \<lparr>head = epQueue_head (eps s epptr), qend = epQueue_tail (eps s epptr)\<rparr>"

definition ep_ptr_set_queue :: "ptr \<Rightarrow> tcb_queue \<Rightarrow> kstate \<Rightarrow> kstate" where
  "ep_ptr_set_queue epptr queue s =
     (let s = upd_ep epptr (epQueue_head_update (\<lambda>_. head queue)) s
      in upd_ep epptr (epQueue_tail_update (\<lambda>_. qend queue)) s)"

definition endpoint_ptr_set_state :: "ptr \<Rightarrow> ep_state \<Rightarrow> kstate \<Rightarrow> kstate" where
  "endpoint_ptr_set_state epptr st s = upd_ep epptr (epState_update (\<lambda>_. st)) s"

section \<open>Cancelling\<close>

definition cancelSignal :: "ptr \<Rightarrow> ptr \<Rightarrow> kstate \<Rightarrow> kstate" where
  "cancelSignal threadPtr ntfnPtr s =
     (let ntfn_queue = ntfn_ptr_get_queue ntfnPtr s;
          (ntfn_queue, s) = tcbEPDequeue threadPtr ntfn_queue s;
          s = ntfn_ptr_set_queue ntfnPtr ntfn_queue s;
          s = (if head ntfn_queue = NULL then notification_ptr_set_state ntfnPtr NtfnState_Idle s else s)
      in setThreadState threadPtr ThreadState_Inactive s)"

definition cancelIPC :: "ptr \<Rightarrow> kstate \<Rightarrow> kstate" where
  "cancelIPC tptr s =
     (let s = upd_tcb tptr (tcbFault_update (\<lambda>_. NullFault)) s;
          blocked_ipc_cancel =
            (let epptr = blockingObject (tcbState (tcbs s tptr));
                 queue = ep_ptr_get_queue epptr s;
                 (queue, s) = tcbEPDequeue tptr queue s;
                 s = ep_ptr_set_queue epptr queue s;
                 s = (if head queue = NULL then endpoint_ptr_set_state epptr EPState_Idle s else s);
                 s = (if tsType (tcbState (tcbs s tptr)) = ThreadState_BlockedOnReceive
                      then let rply = replyObject (tcbState (tcbs s tptr))
                           in if rply \<noteq> NULL then reply_unlink rply tptr s else s
                      else s)
             in setThreadState tptr ThreadState_Inactive s)
      in case tsType (tcbState (tcbs s tptr)) of
           ThreadState_BlockedOnSend \<Rightarrow> blocked_ipc_cancel
         | ThreadState_BlockedOnReceive \<Rightarrow> blocked_ipc_cancel
         | ThreadState_BlockedOnNotification \<Rightarrow> cancelSignal tptr (blockingObject (tcbState (tcbs s tptr))) s
         | ThreadState_BlockedOnReply \<Rightarrow> reply_remove_tcb tptr s
         | _ \<Rightarrow> s)"

section \<open>Notifications\<close>

definition ntfn_set_active :: "ptr \<Rightarrow> word64 \<Rightarrow> kstate \<Rightarrow> kstate" where
  "ntfn_set_active ntfnPtr badge s =
     (let s = notification_ptr_set_state ntfnPtr NtfnState_Active s
      in upd_ntfn ntfnPtr (ntfnMsgIdentifier_update (\<lambda>_. badge)) s)"

definition maybeDonateSchedContext :: "ptr \<Rightarrow> ptr \<Rightarrow> kstate \<Rightarrow> kstate option" where
  "maybeDonateSchedContext tcb ntfnPtr s =
     (if tcbSchedContext (tcbs s tcb) = NULL
      then let sc = ntfnSchedContext (ntfns s ntfnPtr)
           in if sc \<noteq> NULL \<and> scTcb (scs s sc) = NULL
              then let s = schedContext_donate sc tcb s in schedContext_resume sc s
              else Some s
      else Some s)"

definition maybeReturnSchedContext :: "ptr \<Rightarrow> ptr \<Rightarrow> kstate \<Rightarrow> kstate" where
  "maybeReturnSchedContext ntfnPtr tcb s =
     (let sc = ntfnSchedContext (ntfns s ntfnPtr)
      in if sc \<noteq> NULL \<and> sc = tcbSchedContext (tcbs s tcb)
         then let s = upd_tcb tcb (tcbSchedContext_update (\<lambda>_. NULL)) s;
                  s = upd_sc sc (scTcb_update (\<lambda>_. NULL)) s
              in if tcb = ksCurThread s then rescheduleRequired s else s
         else s)"

text \<open>
  The end of a delivery that several functions share: a sporadic context other than the current one
  has its refills moved forward.
\<close>

definition unblock_sporadic :: "ptr \<Rightarrow> kstate \<Rightarrow> kstate option" where
  "unblock_sporadic sc s =
     (if sc_sporadic sc s then if sc \<noteq> ksCurSC s then refill_unblock_check sc s else Some s else Some s)"

definition sendSignal_wake :: "ptr \<Rightarrow> ptr \<Rightarrow> word64 \<Rightarrow> kstate \<Rightarrow> kstate option" where
  "sendSignal_wake tcb ntfnPtr badge s = do {
     let s = setThreadState tcb ThreadState_Running s;
     let s = setRegister tcb badgeRegister badge s;
     s \<leftarrow> maybeDonateSchedContext tcb ntfnPtr s;
     let s = (if isSchedulable tcb s then possibleSwitchTo tcb s else s);
     unblock_sporadic (tcbSchedContext (tcbs s tcb)) s
   }"

definition sendSignal :: "ptr \<Rightarrow> word64 \<Rightarrow> kstate \<Rightarrow> kstate option" where
  "sendSignal ntfnPtr badge s =
     (case ntfnState (ntfns s ntfnPtr) of
        NtfnState_Idle \<Rightarrow>
          let tcb = ntfnBoundTCB (ntfns s ntfnPtr)
          in if tcb \<noteq> NULL
             then if tsType (tcbState (tcbs s tcb)) = ThreadState_BlockedOnReceive
                  then sendSignal_wake tcb ntfnPtr badge (cancelIPC tcb s)
                  else Some (ntfn_set_active ntfnPtr badge s)
             else Some (ntfn_set_active ntfnPtr badge s)
      | NtfnState_Waiting \<Rightarrow>
          let ntfn_queue = ntfn_ptr_get_queue ntfnPtr s;
              dest = head ntfn_queue;
              (ntfn_queue, s) = tcbEPDequeue dest ntfn_queue s;
              s = ntfn_ptr_set_queue ntfnPtr ntfn_queue s;
              s = (if head ntfn_queue = NULL then notification_ptr_set_state ntfnPtr NtfnState_Idle s else s)
          in sendSignal_wake dest ntfnPtr badge s
      | NtfnState_Active \<Rightarrow>
          let badge2 = ntfnMsgIdentifier (ntfns s ntfnPtr) OR badge
          in Some (upd_ntfn ntfnPtr (ntfnMsgIdentifier_update (\<lambda>_. badge2)) s))"

definition doNBRecvFailedTransfer :: "ptr \<Rightarrow> kstate \<Rightarrow> kstate" where
  "doNBRecvFailedTransfer thread s = setRegister thread badgeRegister 0 s"

definition receiveSignal :: "ptr \<Rightarrow> cap \<Rightarrow> bool \<Rightarrow> kstate \<Rightarrow> kstate option" where
  "receiveSignal thread cap isBlocking s =
     (let ntfnPtr = capNtfnPtr cap;
          wait =
            (if isBlocking
             then do {
               let s = upd_ts thread (tsType_update (\<lambda>_. ThreadState_BlockedOnNotification)) s;
               let s = upd_ts thread (blockingObject_update (\<lambda>_. ntfnPtr)) s;
               let s = scheduleTCB thread s;
               let ntfn_queue = ntfn_ptr_get_queue ntfnPtr s;
               (ntfn_queue, s) \<leftarrow> tcbEPAppend thread ntfn_queue s;
               let s = notification_ptr_set_state ntfnPtr NtfnState_Waiting s;
               let s = ntfn_ptr_set_queue ntfnPtr ntfn_queue s;
               Some (maybeReturnSchedContext ntfnPtr thread s)
             }
             else Some (doNBRecvFailedTransfer thread s))
      in case ntfnState (ntfns s ntfnPtr) of
           NtfnState_Idle \<Rightarrow> wait
         | NtfnState_Waiting \<Rightarrow> wait
         | NtfnState_Active \<Rightarrow> do {
             let s = setRegister thread badgeRegister (ntfnMsgIdentifier (ntfns s ntfnPtr)) s;
             let s = notification_ptr_set_state ntfnPtr NtfnState_Idle s;
             s \<leftarrow> maybeDonateSchedContext thread ntfnPtr s;
             if tcbSchedContext (tcbs s thread) \<noteq> ksCurSC s \<and> sc_sporadic (tcbSchedContext (tcbs s thread)) s
             then refill_unblock_check (tcbSchedContext (tcbs s thread)) s else Some s
           })"

partial_function (option) cancelAllSignals_loop :: "ptr \<Rightarrow> kstate \<Rightarrow> kstate option" where
  [code]: "cancelAllSignals_loop thread s =
     (if thread = NULL then Some s
      else do {
        let s = setThreadState thread ThreadState_Restart s;
        s \<leftarrow> unblock_sporadic (tcbSchedContext (tcbs s thread)) s;
        let s = possibleSwitchTo thread s;
        cancelAllSignals_loop (epNext s thread) s
      })"

definition cancelAllSignals :: "ptr \<Rightarrow> kstate \<Rightarrow> kstate option" where
  "cancelAllSignals ntfnPtr s =
     (if ntfnState (ntfns s ntfnPtr) = NtfnState_Waiting
      then do {
        let thread = ntfnQueue_head (ntfns s ntfnPtr);
        let s = notification_ptr_set_state ntfnPtr NtfnState_Idle s;
        let s = upd_ntfn ntfnPtr (ntfnQueue_head_update (\<lambda>_. 0)) s;
        let s = upd_ntfn ntfnPtr (ntfnQueue_tail_update (\<lambda>_. 0)) s;
        s \<leftarrow> cancelAllSignals_loop thread s;
        Some (rescheduleRequired s)
      }
      else Some s)"

definition completeSignal :: "ptr \<Rightarrow> ptr \<Rightarrow> kstate \<Rightarrow> kstate option" where
  "completeSignal ntfnPtr tcb s =
     (if tcb \<noteq> NULL \<and> ntfnState (ntfns s ntfnPtr) = NtfnState_Active
      then do {
        let badge = ntfnMsgIdentifier (ntfns s ntfnPtr);
        let s = setRegister tcb badgeRegister badge s;
        let s = notification_ptr_set_state ntfnPtr NtfnState_Idle s;
        s \<leftarrow> maybeDonateSchedContext tcb ntfnPtr s;
        if sc_sporadic (tcbSchedContext (tcbs s tcb)) s
        then let sc = ntfnSchedContext (ntfns s ntfnPtr)
             in if tcbSchedContext (tcbs s tcb) = sc \<and> tcbSchedContext (tcbs s tcb) \<noteq> ksCurSC s
                then refill_unblock_check (tcbSchedContext (tcbs s tcb)) s else Some s
        else Some s
      }
      else None)"

definition doUnbindNotification :: "ptr \<Rightarrow> ptr \<Rightarrow> kstate \<Rightarrow> kstate" where
  "doUnbindNotification ntfnPtr tcbptr s =
     (let s = upd_ntfn ntfnPtr (ntfnBoundTCB_update (\<lambda>_. 0)) s
      in upd_tcb tcbptr (tcbBoundNotification_update (\<lambda>_. NULL)) s)"

definition unbindMaybeNotification :: "ptr \<Rightarrow> kstate \<Rightarrow> kstate" where
  "unbindMaybeNotification ntfnPtr s =
     (let boundTCB = ntfnBoundTCB (ntfns s ntfnPtr)
      in if boundTCB \<noteq> NULL then doUnbindNotification ntfnPtr boundTCB s else s)"

definition unbindNotification :: "ptr \<Rightarrow> kstate \<Rightarrow> kstate" where
  "unbindNotification tcb s =
     (let ntfnPtr = tcbBoundNotification (tcbs s tcb)
      in if ntfnPtr \<noteq> NULL then doUnbindNotification ntfnPtr tcb s else s)"

definition bindNotification :: "ptr \<Rightarrow> ptr \<Rightarrow> kstate \<Rightarrow> kstate" where
  "bindNotification tcb ntfnPtr s =
     (let s = upd_ntfn ntfnPtr (ntfnBoundTCB_update (\<lambda>_. tcb)) s
      in upd_tcb tcb (tcbBoundNotification_update (\<lambda>_. ntfnPtr)) s)"

definition reorderNTFN :: "ptr \<Rightarrow> ptr \<Rightarrow> kstate \<Rightarrow> kstate option" where
  "reorderNTFN ntfnPtr thread s = do {
     let queue = ntfn_ptr_get_queue ntfnPtr s;
     let (queue, s) = tcbEPDequeue thread queue s;
     (queue, s) \<leftarrow> tcbEPAppend thread queue s;
     Some (ntfn_ptr_set_queue ntfnPtr queue s)
   }"

section \<open>Moving refills forward\<close>

text \<open>
  A ring in good order, and what \<open>refill_unblock_check\<close> may change: the refills and their bounds in one
  scheduling context, and the request to reprogram the timer.
\<close>

definition good_ring :: "ptr \<Rightarrow> kstate \<Rightarrow> bool" where
  "good_ring sc s \<longleftrightarrow> (\<exists>rs. refill_queue sc rs s \<and> good_refills rs)"

definition refill_core :: "ptr \<Rightarrow> kstate \<Rightarrow> kstate \<Rightarrow> bool" where
  "refill_core sc s s' \<longleftrightarrow> (\<exists>h t R b. s' = s\<lparr>ksReprogram := b,
     scs := (scs s)(sc := (scs s sc)\<lparr>scRefillHead := h, scRefillTail := t\<rparr>),
     refills := (refills s)(sc := R)\<rparr>)"

lemma refill_core_refl: "refill_core sc s s"
  unfolding refill_core_def
  by (rule exI [of _ "scRefillHead (scs s sc)"], rule exI [of _ "scRefillTail (scs s sc)"],
      rule exI [of _ "refills s sc"], rule exI [of _ "ksReprogram s"]) simp

lemma refill_core_frame:
  "refill_frame sc (upd_refill_head sc f s\<lparr>ksReprogram := True\<rparr>) s' \<Longrightarrow> refill_core sc s s'"
  by (auto simp: refill_frame_def refill_core_def upd_refill_head_def upd_refill_def Let_def)

lemma refill_unblock_check_total:
  assumes "good_ring sc s"
  shows "\<exists>s'. refill_unblock_check sc s = Some s' \<and> refill_core sc s s' \<and> good_ring sc s'"
proof (cases "isRoundRobin sc s \<or> \<not> refill_ready sc s")
  case True
  then show ?thesis using assms refill_core_refl by (auto simp: refill_unblock_check_def)
next
  case False
  obtain rs where q: "refill_queue sc rs s" and g: "good_refills rs" using assms by (auto simp: good_ring_def)
  obtain r rs1 where rs: "rs = r # rs1" using g by (cases rs) (auto simp: good_refills_def)
  define s1 where "s1 = (upd_refill_head sc (rTime_update (\<lambda>_. ksCurTime s)) s)\<lparr>ksReprogram := True\<rparr>"
  have "refill_queue sc (r\<lparr>rTime := ksCurTime s\<rparr> # rs1) s1"
    using refill_queue_upd_head [OF q [unfolded rs], of "rTime_update (\<lambda>_. ksCurTime s)"]
    by (simp add: s1_def refill_queue_def rslot_def)
  moreover have "good_refills (r\<lparr>rTime := ksCurTime s\<rparr> # rs1)"
    using g by (simp add: rs good_refills_def)
  ultimately obtain s' rs' where "merge_overlapping_loop sc s1 = Some s'" "refill_queue sc rs' s'"
    "good_refills rs'" "refill_frame sc s1 s'"
    using merge_overlapping_total [of sc "r\<lparr>rTime := ksCurTime s\<rparr> # rs1" s1] by fastforce
  then show ?thesis using False refill_core_frame
    by (auto simp: refill_unblock_check_def Let_def s1_def good_ring_def)
qed

lemma refill_core_fields:
  assumes "refill_core sc s s'"
  shows "tcbs s' = tcbs s" "replies s' = replies s" "eps s' = eps s" "ntfns s' = ntfns s" "ctes s' = ctes s" "mem s' = mem s"
    "plat s' = plat s" "ksReadyQueues s' = ksReadyQueues s" "ksReleaseQueue s' = ksReleaseQueue s"
    "ksReadyQueuesL1Bitmap s' = ksReadyQueuesL1Bitmap s" "ksReadyQueuesL2Bitmap s' = ksReadyQueuesL2Bitmap s"
    "ksCurThread s' = ksCurThread s" "ksSchedulerAction s' = ksSchedulerAction s" "ksCurSC s' = ksCurSC s"
    "ksCurDomain s' = ksCurDomain s" "scRefillMax (scs s' c) = scRefillMax (scs s c)" "scTcb (scs s' c) = scTcb (scs s c)"
    "scSporadic (scs s' c) = scSporadic (scs s c)" "scReply (scs s' c) = scReply (scs s c)"
  using assms by (auto simp: refill_core_def split: if_splits)

lemma sched_ok_refill_core: "refill_core sc s s' \<Longrightarrow> sched_ok s \<Longrightarrow> sched_ok s'"
  by (rule sched_ok_parts) (simp_all add: refill_core_fields)

lemma unblock_sporadic_total:
  assumes "sc_sporadic sc s \<longrightarrow> good_ring sc s"
  shows "\<exists>s'. unblock_sporadic sc s = Some s' \<and> refill_core sc s s'"
  using assms refill_unblock_check_total [of sc s] refill_core_refl by (auto simp: unblock_sporadic_def)

section \<open>What the operations on notifications leave alone\<close>

lemma upd_ntfn_fields [simp]:
  "ntfns (upd_ntfn p f s) = (ntfns s)(p := f (ntfns s p))" "tcbs (upd_ntfn p f s) = tcbs s" "scs (upd_ntfn p f s) = scs s"
  "refills (upd_ntfn p f s) = refills s" "ksCurThread (upd_ntfn p f s) = ksCurThread s" "plat (upd_ntfn p f s) = plat s"
  "ksCurSC (upd_ntfn p f s) = ksCurSC s" "ksSchedulerAction (upd_ntfn p f s) = ksSchedulerAction s"
  "ksCurDomain (upd_ntfn p f s) = ksCurDomain s" "sched_ok (upd_ntfn p f s) = sched_ok s"
  by (auto simp: upd_ntfn_def elim!: sched_ok_parts)

lemma setRegister_fields [simp]:
  "ntfns (setRegister t r v s) = ntfns s" "scs (setRegister t r v s) = scs s" "refills (setRegister t r v s) = refills s"
  "eps (setRegister t r v s) = eps s" "replies (setRegister t r v s) = replies s" "mem (setRegister t r v s) = mem s"
  "ksCurThread (setRegister t r v s) = ksCurThread s" "ksCurSC (setRegister t r v s) = ksCurSC s" "plat (setRegister t r v s) = plat s"
  "ctes (setRegister t r v s) = ctes s"
  "ksSchedulerAction (setRegister t r v s) = ksSchedulerAction s" "ksCurDomain (setRegister t r v s) = ksCurDomain s"
  "tcbState (tcbs (setRegister t r v s) u) = tcbState (tcbs s u)"
  "tcbSchedContext (tcbs (setRegister t r v s) u) = tcbSchedContext (tcbs s u)"
  "tcbDomain (tcbs (setRegister t r v s) u) = tcbDomain (tcbs s u)"
  "tcbBoundNotification (tcbs (setRegister t r v s) u) = tcbBoundNotification (tcbs s u)"
  "tcbFault (tcbs (setRegister t r v s) u) = tcbFault (tcbs s u)"
  "tcbEPNext (tcbs (setRegister t r v s) u) = tcbEPNext (tcbs s u)" "tcbEPPrev (tcbs (setRegister t r v s) u) = tcbEPPrev (tcbs s u)"
  "getRegister u q (setRegister t r v s) = (if u = t \<and> q = r then v else getRegister u q s)"
  by (simp_all add: setRegister_def getRegister_def)

lemma sched_ok_setRegister [simp]: "sched_ok s \<Longrightarrow> sched_ok (setRegister t r v s)"
  by (simp add: setRegister_def sched_ok_upd_tcb sched_part_def)

lemma setThreadState_tcb [simp]:
  "tcbEPNext (tcbs (setThreadState t ts s) u) = tcbEPNext (tcbs s u)"
  "tcbEPPrev (tcbs (setThreadState t ts s) u) = tcbEPPrev (tcbs s u)"
  "tcbContext (tcbs (setThreadState t ts s) u) = tcbContext (tcbs s u)"
  "tcbFault (tcbs (setThreadState t ts s) u) = tcbFault (tcbs s u)"
  "tcbInReleaseQueue (tcbState (tcbs (setThreadState t ts s) u)) = tcbInReleaseQueue (tcbState (tcbs s u))"
  by (auto simp: setThreadState_def upd_ts_def scheduleTCB_def)

lemma getRegister_ops [simp]:
  "getRegister u r (setThreadState t ts s) = getRegister u r s"
  "getRegister u r (possibleSwitchTo t s) = getRegister u r s" "getRegister u r (rescheduleRequired s) = getRegister u r s"
  "getRegister u r (upd_ntfn p f s) = getRegister u r s"
  by (simp_all add: getRegister_def)

lemma ep_links_cong:
  assumes "\<And>u. tcbEPNext (tcbs s' u) = tcbEPNext (tcbs s u)" "\<And>u. tcbEPPrev (tcbs s' u) = tcbEPPrev (tcbs s u)"
  shows "epNext s' = epNext s" "epPrev s' = epPrev s"
  using assms by (auto simp: fun_eq_iff epNext_def epPrev_def)

lemma sc_active_cong: "scRefillMax (scs s' sc) = scRefillMax (scs s sc) \<Longrightarrow> sc_active sc s' = sc_active sc s"
  by (simp add: sc_active_def)


section \<open>Waking the receiver of a signal\<close>

lemma resume_bound [simp]: "tcbSchedContext (tcbs s t) \<noteq> NULL \<Longrightarrow> maybeDonateSchedContext t n s = Some s"
  by (simp add: maybeDonateSchedContext_def)

lemma sendSignal_wake_total:
  assumes t: "tcbSchedContext (tcbs s t) = sc" "sc \<noteq> NULL" "t \<noteq> NULL" "t \<noteq> SchedulerAction_ChooseNewThread"
    and g: "sc_sporadic sc s \<longrightarrow> good_ring sc s" and ok: "sched_ok s"
  shows "\<exists>s'. sendSignal_wake t n b s = Some s' \<and> sched_ok s' \<and> ntfns s' = ntfns s \<and> eps s' = eps s
    \<and> epNext s' = epNext s \<and> epPrev s' = epPrev s
    \<and> tsType (tcbState (tcbs s' t)) = ThreadState_Running \<and> getRegister t badgeRegister s' = b
    \<and> (sc_active sc s \<and> \<not> tcbInReleaseQueue (tcbState (tcbs s t)) \<longrightarrow> waiting t s')"
proof -
  define s1 where "s1 = setRegister t badgeRegister b (setThreadState t ThreadState_Running s)"
  define s2 where "s2 = (if isSchedulable t s1 then possibleSwitchTo t s1 else s1)"
  have f1: "tcbSchedContext (tcbs s1 t) = sc" "tcbInReleaseQueue (tcbState (tcbs s1 t)) = tcbInReleaseQueue (tcbState (tcbs s t))"
    "scs s1 = scs s" "refills s1 = refills s" "tsType (tcbState (tcbs s1 t)) = ThreadState_Running" "sched_ok s1"
    using t(1) ok by (simp_all add: s1_def)
  have f2: "tcbSchedContext (tcbs s2 t) = sc" "scs s2 = scs s" "refills s2 = refills s" "ksCurSC s2 = ksCurSC s"
    "ntfns s2 = ntfns s" "eps s2 = eps s"
    "tsType (tcbState (tcbs s2 t)) = ThreadState_Running" "getRegister t badgeRegister s2 = b"
    using f1 by (simp_all add: s2_def, simp_all add: s1_def)
  have l2: "epNext s2 = epNext s" "epPrev s2 = epPrev s"
    by (rule ep_links_cong; simp add: s2_def s1_def)+
  have ok2: "sched_ok s2" using f1(6) t(3) by (simp add: s2_def sched_ok_possibleSwitchTo)
  have "sc_sporadic sc s2 \<longrightarrow> good_ring sc s2"
    using g by (simp add: f2 sc_sporadic_def good_ring_def refill_queue_def rslot_def)
  then obtain s3 where s3: "unblock_sporadic sc s2 = Some s3" "refill_core sc s2 s3"
    using unblock_sporadic_total by blast
  have w: "waiting t s2" if "sc_active sc s" "\<not> tcbInReleaseQueue (tcbState (tcbs s t))"
  proof -
    have "isSchedulable t s1" using that f1 t(2) by (simp add: isSchedulable_def isRunnable_def sc_active_cong [of s1 sc s])
    then show ?thesis using possibleSwitchTo_waiting [OF t(3,4), of t s1] by (simp add: s2_def)
  qed
  have "sendSignal_wake t n b s = Some s3"
    using s3(1) f1(1) f2(1) t(2)
    by (simp add: sendSignal_wake_def Let_def s1_def [symmetric] s2_def [symmetric])
  moreover have "waiting t s3" if "waiting t s2" using that refill_core_fields(1,13) [OF s3(2)] by (simp add: waiting_def)
  ultimately show ?thesis
    using f2 l2 w sched_ok_refill_core [OF s3(2) ok2] refill_core_fields [OF s3(2)]
    by (auto simp: getRegister_def epNext_def epPrev_def fun_eq_iff)
qed

section \<open>Properties\<close>

text \<open>A sequence of signals.\<close>

fun sendSignals :: "ptr \<Rightarrow> word64 list \<Rightarrow> kstate \<Rightarrow> kstate option" where
  "sendSignals n [] s = Some s"
| "sendSignals n (b # bs) s = do { s \<leftarrow> sendSignal n b s; sendSignals n bs s }"

lemma sendSignals_active:
  assumes "ntfnState (ntfns s n) = NtfnState_Active"
  shows "sendSignals n bs s =
    Some (upd_ntfn n (ntfnMsgIdentifier_update (\<lambda>i. fold (\<lambda>b i. i OR b) bs i)) s)"
  using assms
proof (induction bs arbitrary: s)
  case Nil
  have i: "ntfnMsgIdentifier_update (\<lambda>i. i) (ntfns s n) = ntfns s n" by (cases "ntfns s n") simp
  have "upd_ntfn n (ntfnMsgIdentifier_update (\<lambda>i. i)) s = s" unfolding upd_ntfn_def i by simp
  then show ?case by simp
next
  case (Cons b bs)
  let ?s = "upd_ntfn n (ntfnMsgIdentifier_update (\<lambda>_. ntfnMsgIdentifier (ntfns s n) OR b)) s"
  have "sendSignal n b s = Some ?s" using Cons.prems by (simp add: sendSignal_def Let_def)
  moreover have "ntfnState (ntfns ?s n) = NtfnState_Active" using Cons.prems by simp
  ultimately show ?case using Cons.IH by (cases "ntfns s n") (simp add: upd_ntfn_def)
qed

text \<open>
  C37. Signals accumulate and are delivered once. Any non-empty sequence of signals to an idle notification that
  no thread waits for makes it active with the union of the badges; a receiver then gets
  exactly that union, without blocking, and the notification is idle again.
\<close>

theorem signals_accumulate:
  assumes "ntfnState (ntfns s n) = NtfnState_Idle" "ntfnBoundTCB (ntfns s n) = NULL"
    and "tcbSchedContext (tcbs s t) = ksCurSC s" "ksCurSC s \<noteq> NULL" "cap = NotificationCap cb True cs n"
  shows "\<exists>s1 s2. sendSignals n (b # bs) s = Some s1 \<and> ntfnState (ntfns s1 n) = NtfnState_Active
    \<and> ntfnMsgIdentifier (ntfns s1 n) = fold (\<lambda>b i. i OR b) bs b \<and> tcbs s1 = tcbs s
    \<and> receiveSignal t cap isBlocking s1 = Some s2 \<and> ntfnState (ntfns s2 n) = NtfnState_Idle
    \<and> getRegister t badgeRegister s2 = fold (\<lambda>b i. i OR b) bs b
    \<and> tsType (tcbState (tcbs s2 t)) = tsType (tcbState (tcbs s t))"
proof -
  let ?s0 = "ntfn_set_active n b s"
  have "sendSignal n b s = Some ?s0" using assms(1,2) by (simp add: sendSignal_def Let_def)
  moreover have a: "ntfnState (ntfns ?s0 n) = NtfnState_Active" "ntfnMsgIdentifier (ntfns ?s0 n) = b"
    by (simp_all add: ntfn_set_active_def Let_def notification_ptr_set_state_def)
  ultimately obtain s1 where s1: "sendSignals n (b # bs) s = Some s1" "ntfnState (ntfns s1 n) = NtfnState_Active"
    "ntfnMsgIdentifier (ntfns s1 n) = fold (\<lambda>b i. i OR b) bs b" "tcbs s1 = tcbs s" "ksCurSC s1 = ksCurSC s"
    using sendSignals_active [OF a(1), of bs]
    by (simp add: ntfn_set_active_def Let_def notification_ptr_set_state_def)
  let ?s2 = "notification_ptr_set_state n NtfnState_Idle
    (setRegister t badgeRegister (ntfnMsgIdentifier (ntfns s1 n)) s1)"
  have "receiveSignal t cap isBlocking s1 = Some ?s2"
    using assms(3-5) s1 by (simp add: receiveSignal_def Let_def notification_ptr_set_state_def)
  then show ?thesis using s1 by (simp add: notification_ptr_set_state_def)
qed

text \<open>
  A signal wakes exactly the first waiting thread: it leaves the queue, receives the badge, is running and, if its
  scheduling context is active and released, it is ready to be scheduled; the others keep waiting in order,
  and the notification is idle exactly when none is left. The scheduler's queues stay consistent.
\<close>

theorem sendSignal_wakes_first:
  assumes "ntfnState (ntfns s n) = NtfnState_Waiting" "ep_list s (ntfn_ptr_get_queue n s) (t # ts)"
    and "tcbSchedContext (tcbs s t) = sc" "sc \<noteq> NULL" "t \<noteq> SchedulerAction_ChooseNewThread"
    and "sc_sporadic sc s \<longrightarrow> good_ring sc s" "sched_ok s"
  shows "\<exists>s'. sendSignal n b s = Some s' \<and> ep_list s' (ntfn_ptr_get_queue n s') ts
    \<and> ntfnState (ntfns s' n) = (if ts = [] then NtfnState_Idle else NtfnState_Waiting)
    \<and> tsType (tcbState (tcbs s' t)) = ThreadState_Running \<and> getRegister t badgeRegister s' = b \<and> sched_ok s'
    \<and> (sc_active sc s \<and> \<not> tcbInReleaseQueue (tcbState (tcbs s t)) \<longrightarrow> waiting t s')"
proof -
  obtain q s1 where d: "tcbEPDequeue t (ntfn_ptr_get_queue n s) s = (q, s1)" by fastforce
  note L = tcbEPDequeue_list [of s "ntfn_ptr_get_queue n s" "[]" t ts, simplified, OF assms(2) d]
  have h: "head (ntfn_ptr_get_queue n s) = t" "t \<noteq> NULL"
    using dlist_head [OF assms(2)] dlist_not_NULL [OF assms(2), of t] by auto
  have e: "head q = NULL \<longleftrightarrow> ts = []" using dlist_empty_iff [OF L(1)] .
  define s2 where "s2 = (let s = ntfn_ptr_set_queue n q s1 in
      if head q = NULL then notification_ptr_set_state n NtfnState_Idle s else s)"
  obtain nx pv where s1: "s1 = s\<lparr>tcbs := \<lambda>p. if p \<in> set (t # ts)
      then (tcbs s p)\<lparr>tcbEPNext := nx p, tcbEPPrev := pv p\<rparr> else tcbs s p\<rparr>"
    using L(2) by (auto simp: ep_frame_def)
  have f1: "tcbSchedContext (tcbs s1 t) = sc" "scs s1 = scs s" "refills s1 = refills s" "ntfns s1 = ntfns s"
    "tcbState (tcbs s1 t) = tcbState (tcbs s t)" "plat s1 = plat s"
    using assms(3) by (simp_all add: s1)
  have k1: "sched_ok s1" using assms(7) by (rule sched_ok_parts) (simp_all add: s1 sched_part_def)
  have f2: "tcbs s2 = tcbs s1" "scs s2 = scs s" "refills s2 = refills s" "sched_ok s2"
    "ntfn_ptr_get_queue n s2 = q" "ntfnState (ntfns s2 n) = (if ts = [] then NtfnState_Idle else NtfnState_Waiting)"
    using assms(1) f1 k1 e
    by (simp_all add: s2_def Let_def ntfn_ptr_set_queue_def ntfn_ptr_get_queue_def notification_ptr_set_state_def)
  have g2: "sc_sporadic sc s2 \<longrightarrow> good_ring sc s2"
    using assms(6) by (simp add: f2 sc_sporadic_def good_ring_def refill_queue_def rslot_def)
  have l2: "epNext s2 = epNext s1" "epPrev s2 = epPrev s1" using f2(1) by (simp_all add: epNext_def epPrev_def fun_eq_iff)
  have "sendSignal n b s = sendSignal_wake t n b s2"
    using assms(1) d h by (simp add: sendSignal_def Let_def s2_def)
  moreover obtain s' where "sendSignal_wake t n b s2 = Some s'" "sched_ok s'" "ntfns s' = ntfns s2"
    "epNext s' = epNext s2" "epPrev s' = epPrev s2" "tsType (tcbState (tcbs s' t)) = ThreadState_Running"
    "getRegister t badgeRegister s' = b"
    "sc_active sc s2 \<and> \<not> tcbInReleaseQueue (tcbState (tcbs s2 t)) \<longrightarrow> waiting t s'"
    using sendSignal_wake_total [OF _ assms(4) h(2) assms(5) g2 f2(4)] f1(1) f2(1) by metis
  moreover have "ntfn_ptr_get_queue n s' = q" using f2(5) calculation(4) by (simp add: ntfn_ptr_get_queue_def)
  ultimately show ?thesis
    using L(1) l2 f2 f1 sc_active_cong [of s2 sc s] by (intro exI [of _ s']) simp
qed


section \<open>Concrete notifications\<close>

text \<open>An idle notification at 128 and a current thread 1024 on context 4096.\<close>

theorem signals_accumulate_witness:
  "\<exists>s1 s2. sendSignals 128 [1, 4, 2] (example_bound\<lparr>ksCurSC := 4096\<rparr>) = Some s1
     \<and> receiveSignal 1024 (NotificationCap 0 True True 128) True s1 = Some s2
     \<and> getRegister 1024 badgeRegister s2 = 7"
  using signals_accumulate [of "example_bound\<lparr>ksCurSC := 4096\<rparr>" 128 1024 "NotificationCap 0 True True 128" 0 True 1 "[4, 2]" True]
  by (auto simp: example_bound_def kstate0_def)

text \<open>Thread 1024 waits alone in the queue of notification 128.\<close>

definition example_waiting :: kstate where
  "example_waiting = upd_ntfn 128 (\<lambda>n. n\<lparr>ntfnState := NtfnState_Waiting, ntfnQueue_head := 1024, ntfnQueue_tail := 1024\<rparr>)
     example_bound"

lemma example_waiting_facts:
  "ntfnState (ntfns example_waiting 128) = NtfnState_Waiting" "sched_ok example_waiting"
  "ep_list example_waiting (ntfn_ptr_get_queue 128 example_waiting) [1024]"
  "tcbSchedContext (tcbs example_waiting 1024) = 4096" "\<not> sc_sporadic 4096 example_waiting"
  using example_bound_ok(2)
  by (simp_all add: example_waiting_def ntfn_ptr_get_queue_def dlist_def epNext_def epPrev_def example_bound_def
      kstate0_def tcb0_def sc_sporadic_def sc0_def)

theorem sendSignal_wakes_first_witness:
  "\<exists>s'. sendSignal 128 5 example_waiting = Some s' \<and> getRegister 1024 badgeRegister s' = 5
     \<and> ntfnState (ntfns s' 128) = NtfnState_Idle"
  using sendSignal_wakes_first [OF example_waiting_facts(1,3,4), of 5] example_waiting_facts(2,5)
  by (auto simp: SchedulerAction_ChooseNewThread_def)

end
