(* ===== verification/IpcTransfer.thy ===== *)
theory IpcTransfer
  imports Notification
begin

text \<open>
  Transferring a message from one thread to another: the extra capabilities of \<^verbatim>\<open>lookupExtraCaps\<close> in
  \<^verbatim>\<open>src/kernel/object/tcb.c\<close>, \<^verbatim>\<open>doNormalTransfer\<close>, \<^verbatim>\<open>transferCaps\<close>, \<^verbatim>\<open>doFaultTransfer\<close> and \<^verbatim>\<open>doIPCTransfer\<close> of
  \<^verbatim>\<open>kernel/thread.c\<close>, the messages that describe a fault and the replies to them, \<^verbatim>\<open>api/faults.c\<close> with the
  architecture's part of it, and the kernel's own replies in \<^verbatim>\<open>object/endpoint.c\<close>.

  The theorems: the words of a message, its badge and its label arrive unchanged, at most one capability is
  inserted and it carries no more authority than the sender's, and a fault handler's reply sets exactly the registers of
  the message.
\<close>

section \<open>Extra capabilities\<close>

function lookupExtraCaps_loop ::
  "ptr \<Rightarrow> ptr \<Rightarrow> word64 \<Rightarrow> word64 \<Rightarrow> kstate \<Rightarrow> ((lookup_fault + unit) \<times> kstate) option" where
  "lookupExtraCaps_loop thread bufferPtr i len s =
     (if i < len
      then do {
        let cptr = getExtraCPtr bufferPtr i s;
        lu_ret \<leftarrow> lookupSlot thread cptr s;
        (case lu_ret of
           Inl f \<Rightarrow> Some (Inl f, s\<lparr>current_fault := CapFault cptr False\<rparr>)
         | Inr slot \<Rightarrow>
             lookupExtraCaps_loop thread bufferPtr (i + 1) len
               (s\<lparr>current_extra_caps := (current_extra_caps s)(unat i := slot)\<rparr>))
      }
      else Some (Inr (),
        if i < seL4_MsgMaxExtraCaps
        then s\<lparr>current_extra_caps := (current_extra_caps s)(unat i := NULL)\<rparr> else s))"
  by pat_completeness auto
termination
  by (relation "measure (\<lambda>(thread, buf, i, len, s). unat len - unat i)")
    (auto simp: word_less_nat_alt unat_suc_nowrap)

declare lookupExtraCaps_loop.simps [simp del]

definition lookupExtraCaps :: "ptr \<Rightarrow> ptr \<Rightarrow> word64 \<Rightarrow> kstate \<Rightarrow> ((lookup_fault + unit) \<times> kstate) option" where
  "lookupExtraCaps thread bufferPtr info s =
     (if bufferPtr = NULL
      then Some (Inr (), s\<lparr>current_extra_caps := (current_extra_caps s)(0 := NULL)\<rparr>)
      else lookupExtraCaps_loop thread bufferPtr 0 (seL4_MessageInfo_get_extraCaps info) s)"

text \<open>
  The loop of \<^verbatim>\<open>transferCaps\<close> returns the index it stopped at and the tag. It unwraps capabilities to the endpoint
  itself into their badges and inserts the first other one.
\<close>

function transferCaps_loop ::
  "ptr \<Rightarrow> ptr \<Rightarrow> nat \<Rightarrow> word64 \<Rightarrow> ptr \<Rightarrow> kstate \<Rightarrow> nat \<times> word64 \<times> kstate" where
  "transferCaps_loop endpoint receiveBuffer i info destSlot s =
     (if i < unat seL4_MsgMaxExtraCaps \<and> excapref i s \<noteq> NULL
      then let slot = excapref i s;
               cap = cteCap (ctes s slot)
           in if is_EndpointCap cap \<and> capEPPtr cap = endpoint
              then let s = setExtraBadge receiveBuffer (capEPBadge cap) (of_nat i) s;
                       info = seL4_MessageInfo_set_capsUnwrapped info
                                (seL4_MessageInfo_get_capsUnwrapped info OR push_bit i 1)
                   in transferCaps_loop endpoint receiveBuffer (i + 1) info destSlot s
              else if destSlot = NULL then (i, info, s)
              else (case deriveCap slot cap s of
                      Inl _ \<Rightarrow> (i, info, s)
                    | Inr c \<Rightarrow>
                        if c = NullCap then (i, info, s)
                        else transferCaps_loop endpoint receiveBuffer (i + 1) info NULL (cteInsert c slot destSlot s))
      else (i, info, s))"
  by pat_completeness auto
termination
  by (relation "measure (\<lambda>(ep, buf, i, info, dest, s). unat seL4_MsgMaxExtraCaps - i)") auto

declare transferCaps_loop.simps [simp del]

definition transferCaps :: "word64 \<Rightarrow> ptr \<Rightarrow> ptr \<Rightarrow> ptr \<Rightarrow> kstate \<Rightarrow> (word64 \<times> kstate) option" where
  "transferCaps info endpoint receiver receiveBuffer s =
     (let info = seL4_MessageInfo_set_extraCaps info 0;
          info = seL4_MessageInfo_set_capsUnwrapped info 0
      in if excapref 0 s = NULL \<or> receiveBuffer = NULL then Some (info, s)
         else do {
           destSlot \<leftarrow> getReceiveSlots receiver receiveBuffer s;
           let (i, info, s) = transferCaps_loop endpoint receiveBuffer 0 info destSlot s;
           Some (seL4_MessageInfo_set_extraCaps info (of_nat i), s)
         })"

text \<open>The first part of \<^verbatim>\<open>doNormalTransfer\<close>: the extra capabilities, none without the grant right or if one is not found.\<close>

definition granted_extra_caps :: "bool \<Rightarrow> ptr \<Rightarrow> ptr \<Rightarrow> word64 \<Rightarrow> kstate \<Rightarrow> kstate option" where
  "granted_extra_caps canGrant sender sendBuffer tag s =
     (if canGrant
      then do {
        (status, s) \<leftarrow> lookupExtraCaps sender sendBuffer tag s;
        Some (case status of
            Inl _ \<Rightarrow> s\<lparr>current_extra_caps := (current_extra_caps s)(0 := NULL)\<rparr>
          | Inr _ \<Rightarrow> s)
      }
      else Some (s\<lparr>current_extra_caps := (current_extra_caps s)(0 := NULL)\<rparr>))"

definition doNormalTransfer ::
  "ptr \<Rightarrow> ptr \<Rightarrow> ptr \<Rightarrow> word64 \<Rightarrow> bool \<Rightarrow> ptr \<Rightarrow> ptr \<Rightarrow> kstate \<Rightarrow> kstate option" where
  "doNormalTransfer sender sendBuffer endpoint badge canGrant receiver receiveBuffer s = do {
     let tag = messageInfoFromWord (getRegister sender msgInfoRegister s);
     s \<leftarrow> granted_extra_caps canGrant sender sendBuffer tag s;
     let (msgTransferred, s) =
       copyMRs sender sendBuffer receiver receiveBuffer (seL4_MessageInfo_get_length tag) s;
     (tag, s) \<leftarrow> transferCaps tag endpoint receiver receiveBuffer s;
     let tag = seL4_MessageInfo_set_length tag msgTransferred;
     let s = setRegister receiver msgInfoRegister (wordFromMessageInfo tag) s;
     Some (setRegister receiver badgeRegister badge s)
   }"

section \<open>Messages about faults\<close>

datatype MessageID = MessageID_Syscall | MessageID_Exception | MessageID_TimeoutReply

definition n_exceptionMessage :: word64 where "n_exceptionMessage = 2"
definition n_syscallMessage :: word64 where "n_syscallMessage = 10"
definition n_timeoutMessage :: word64 where "n_timeoutMessage = 32"

definition EXCEPTION_MESSAGE :: "reg list" where
  "EXCEPTION_MESSAGE = [FaultIP, SP]"

definition SYSCALL_MESSAGE :: "reg list" where
  "SYSCALL_MESSAGE = [FaultIP, SP, LR, 9, 10, 11, 12, 13, 14, 15]"

definition TIMEOUT_REPLY_MESSAGE :: "reg list" where
  "TIMEOUT_REPLY_MESSAGE =
     [FaultIP, LR, SP, 2, 7, 8, 17, 18, 19, 20, 21, 22, 23, 24, 25, 26, 9, 10, 11, 12, 13, 14, 15, 16,
      4, 5, 6, 27, 28, 29, 30, 3]"

fun fault_messages :: "MessageID \<Rightarrow> reg list" where
  "fault_messages MessageID_Syscall = SYSCALL_MESSAGE"
| "fault_messages MessageID_Exception = EXCEPTION_MESSAGE"
| "fault_messages MessageID_TimeoutReply = TIMEOUT_REPLY_MESSAGE"

definition sanitiseRegister :: "reg \<Rightarrow> word64 \<Rightarrow> bool \<Rightarrow> word64" where
  "sanitiseRegister r v archInfo = v"

definition Arch_getSanitiseRegisterInfo :: "ptr \<Rightarrow> bool" where
  "Arch_getSanitiseRegisterInfo thread = False"

fun lookup_fault_get_lufType :: "lookup_fault \<Rightarrow> word64" where
  "lookup_fault_get_lufType InvalidRoot = 0"
| "lookup_fault_get_lufType (MissingCapability _) = 1"
| "lookup_fault_get_lufType (DepthMismatch _ _) = 2"
| "lookup_fault_get_lufType (GuardMismatch _ _ _) = 3"

fun seL4_Fault_get_seL4_FaultType :: "fault \<Rightarrow> word64" where
  "seL4_Fault_get_seL4_FaultType NullFault = 0"
| "seL4_Fault_get_seL4_FaultType (CapFault _ _) = 1"
| "seL4_Fault_get_seL4_FaultType (UnknownSyscall _) = 2"
| "seL4_Fault_get_seL4_FaultType (UserException _ _) = 3"
| "seL4_Fault_get_seL4_FaultType (TimeoutFault _) = 5"
| "seL4_Fault_get_seL4_FaultType (VMFault _ _ _) = 6"

definition setMRs_lookup_failure ::
  "ptr \<Rightarrow> ptr \<Rightarrow> lookup_fault \<Rightarrow> 32 word \<Rightarrow> kstate \<Rightarrow> 32 word \<times> kstate" where
  "setMRs_lookup_failure receiver receiveIPCBuffer luf offset s =
     (let lufType = lookup_fault_get_lufType luf;
          (i, s) = setMR receiver receiveIPCBuffer offset (lufType + 1) s
      in case luf of
           InvalidRoot \<Rightarrow> (i, s)
         | MissingCapability bitsLeft \<Rightarrow> setMR receiver receiveIPCBuffer (offset + 1) bitsLeft s
         | DepthMismatch bitsFound bitsLeft \<Rightarrow>
             let (_, s) = setMR receiver receiveIPCBuffer (offset + 1) bitsLeft s
             in setMR receiver receiveIPCBuffer (offset + 2) bitsFound s
         | GuardMismatch guardFound bitsLeft bitsFound \<Rightarrow>
             let (_, s) = setMR receiver receiveIPCBuffer (offset + 1) bitsLeft s;
                 (_, s) = setMR receiver receiveIPCBuffer (offset + 2) guardFound s
             in setMR receiver receiveIPCBuffer (offset + 3) bitsFound s)"

text \<open>
  The counting loops below have bounds fixed before they start: each is a fold over the indices it visits.
\<close>

definition copyMRsFaultReply :: "ptr \<Rightarrow> ptr \<Rightarrow> MessageID \<Rightarrow> word64 \<Rightarrow> kstate \<Rightarrow> kstate" where
  "copyMRsFaultReply sender receiver mid len s =
     (let archInfo = Arch_getSanitiseRegisterInfo receiver;
          n = unat (min len n_msgRegisters);
          s = fold (\<lambda>i s. let r = fault_messages mid ! i;
                              v = getRegister sender (msgRegisters ! i) s
                          in setRegister receiver r (sanitiseRegister r v archInfo) s) [0..<n] s
      in if of_nat n < len
         then let sendBuf = lookupIPCBuffer False sender s
              in if sendBuf \<noteq> NULL
                 then fold (\<lambda>i s. let r = fault_messages mid ! i;
                                      v = load sendBuf (of_nat i + 1) s
                                  in setRegister receiver r (sanitiseRegister r v archInfo) s) [n..<unat len] s
                 else s
         else s)"

definition copyMRsFault :: "ptr \<Rightarrow> ptr \<Rightarrow> MessageID \<Rightarrow> word64 \<Rightarrow> ptr \<Rightarrow> kstate \<Rightarrow> kstate" where
  "copyMRsFault sender receiver mid len receiveIPCBuffer s =
     (let n = unat (min len n_msgRegisters);
          s = fold (\<lambda>i s. setRegister receiver (msgRegisters ! i)
                            (getRegister sender (fault_messages mid ! i) s) s) [0..<n] s
      in if receiveIPCBuffer \<noteq> NULL
         then fold (\<lambda>i s. store receiveIPCBuffer (of_nat i + 1) (getRegister sender (fault_messages mid ! i) s) s)
                [n..<unat len] s
         else s)"

definition Arch_handleFaultReply :: "ptr \<Rightarrow> ptr \<Rightarrow> fault \<Rightarrow> bool option" where
  "Arch_handleFaultReply receiver sender f = (case f of VMFault _ _ _ \<Rightarrow> Some True | _ \<Rightarrow> None)"

definition handleFaultReply :: "ptr \<Rightarrow> ptr \<Rightarrow> kstate \<Rightarrow> (bool \<times> kstate) option" where
  "handleFaultReply receiver sender s =
     (let tag = messageInfoFromWord (getRegister sender msgInfoRegister s);
          label = seL4_MessageInfo_get_label tag;
          len = seL4_MessageInfo_get_length tag
      in case tcbFault (tcbs s receiver) of
           CapFault _ _ \<Rightarrow> Some (True, s)
         | UnknownSyscall _ \<Rightarrow>
             Some (label = 0, copyMRsFaultReply sender receiver MessageID_Syscall (min len n_syscallMessage) s)
         | UserException _ _ \<Rightarrow>
             Some (label = 0, copyMRsFaultReply sender receiver MessageID_Exception (min len n_exceptionMessage) s)
         | TimeoutFault _ \<Rightarrow>
             Some (label = 0, copyMRsFaultReply sender receiver MessageID_TimeoutReply (min len n_timeoutMessage) s)
         | f \<Rightarrow> do { r \<leftarrow> Arch_handleFaultReply receiver sender f; Some (r, s) })"

definition Arch_setMRs_fault :: "ptr \<Rightarrow> ptr \<Rightarrow> ptr \<Rightarrow> fault \<Rightarrow> kstate \<Rightarrow> (32 word \<times> kstate) option" where
  "Arch_setMRs_fault sender receiver receiveIPCBuffer f s =
     (case f of
        VMFault addr fsr instr \<Rightarrow>
          let (_, s) = setMR receiver receiveIPCBuffer 0 (getRestartPC sender s) s;
              (_, s) = setMR receiver receiveIPCBuffer 1 addr s;
              (_, s) = setMR receiver receiveIPCBuffer 2 (of_bool instr) s
          in Some (setMR receiver receiveIPCBuffer 3 fsr s)
      | _ \<Rightarrow> None)"

definition setMRs_fault :: "ptr \<Rightarrow> ptr \<Rightarrow> ptr \<Rightarrow> kstate \<Rightarrow> (word64 \<times> kstate) option" where
  "setMRs_fault sender receiver receiveIPCBuffer s =
     (let widen = (\<lambda>(n :: 32 word, s). (ucast n, s))
      in case tcbFault (tcbs s sender) of
           CapFault addr inRecv \<Rightarrow>
             let (_, s) = setMR receiver receiveIPCBuffer 0 (getRestartPC sender s) s;
                 (_, s) = setMR receiver receiveIPCBuffer 1 addr s;
                 (_, s) = setMR receiver receiveIPCBuffer 2 (of_bool inRecv) s
             in Some (widen (setMRs_lookup_failure receiver receiveIPCBuffer (tcbLookupFailure (tcbs s sender)) 3 s))
         | UnknownSyscall n \<Rightarrow>
             let s = copyMRsFault sender receiver MessageID_Syscall n_syscallMessage receiveIPCBuffer s
             in Some (widen (setMR receiver receiveIPCBuffer (ucast n_syscallMessage) n s))
         | UserException number code \<Rightarrow>
             let s = copyMRsFault sender receiver MessageID_Exception n_exceptionMessage receiveIPCBuffer s;
                 (_, s) = setMR receiver receiveIPCBuffer (ucast n_exceptionMessage) number s
             in Some (widen (setMR receiver receiveIPCBuffer (ucast n_exceptionMessage + 1) code s))
         | TimeoutFault badge \<Rightarrow>
             if tcbSchedContext (tcbs s sender) \<noteq> NULL
             then let (consumed, s) = schedContext_updateConsumed (tcbSchedContext (tcbs s sender)) s;
                      (len, s) = setMR receiver receiveIPCBuffer 0 badge s
                  in Some (mode_setTimeArg (ucast len) consumed receiveIPCBuffer receiver s)
             else Some (widen (setMR receiver receiveIPCBuffer 0 badge s))
         | f \<Rightarrow> do { r \<leftarrow> Arch_setMRs_fault sender receiver receiveIPCBuffer f s; Some (widen r) })"

definition doFaultTransfer :: "word64 \<Rightarrow> ptr \<Rightarrow> ptr \<Rightarrow> ptr \<Rightarrow> kstate \<Rightarrow> kstate option" where
  "doFaultTransfer badge sender receiver receiverIPCBuffer s = do {
     (sent, s) \<leftarrow> setMRs_fault sender receiver receiverIPCBuffer s;
     let msgInfo = seL4_MessageInfo_new (seL4_Fault_get_seL4_FaultType (tcbFault (tcbs s sender))) 0 0 sent;
     let s = setRegister receiver msgInfoRegister (wordFromMessageInfo msgInfo) s;
     Some (setRegister receiver badgeRegister badge s)
   }"

definition doIPCTransfer :: "ptr \<Rightarrow> ptr \<Rightarrow> word64 \<Rightarrow> bool \<Rightarrow> ptr \<Rightarrow> kstate \<Rightarrow> kstate option" where
  "doIPCTransfer sender endpoint badge grnt receiver s =
     (let receiveBuffer = lookupIPCBuffer True receiver s
      in if tcbFault (tcbs s sender) = NullFault
         then let sendBuffer = lookupIPCBuffer False sender s
              in doNormalTransfer sender sendBuffer endpoint badge grnt receiver receiveBuffer s
         else doFaultTransfer badge sender receiver receiveBuffer s)"

section \<open>Replies of the kernel\<close>

fun syscall_error_type :: "syscall_error \<Rightarrow> word64" where
  "syscall_error_type (seL4_InvalidArgument _) = 1"
| "syscall_error_type (seL4_InvalidCapability _) = 2"
| "syscall_error_type seL4_IllegalOperation = 3"
| "syscall_error_type (seL4_RangeError _ _) = 4"
| "syscall_error_type seL4_AlignmentError = 5"
| "syscall_error_type (seL4_FailedLookup _) = 6"
| "syscall_error_type seL4_TruncatedMessage = 7"
| "syscall_error_type seL4_DeleteFirst = 8"
| "syscall_error_type seL4_RevokeFirst = 9"
| "syscall_error_type (seL4_NotEnoughMemory _) = 10"

definition setMRs_syscall_error ::
  "ptr \<Rightarrow> ptr \<Rightarrow> syscall_error \<times> lookup_fault option \<Rightarrow> kstate \<Rightarrow> word64 \<times> kstate" where
  "setMRs_syscall_error thread receiveIPCBuffer e s =
     (let widen = (\<lambda>(n :: 32 word, s). (ucast n, s))
      in case fst e of
           seL4_InvalidArgument n \<Rightarrow> widen (setMR thread receiveIPCBuffer 0 n s)
         | seL4_InvalidCapability n \<Rightarrow> widen (setMR thread receiveIPCBuffer 0 n s)
         | seL4_RangeError lo hi \<Rightarrow>
             let (_, s) = setMR thread receiveIPCBuffer 0 lo s
             in widen (setMR thread receiveIPCBuffer 1 hi s)
         | seL4_FailedLookup wasSource \<Rightarrow>
             let (_, s) = setMR thread receiveIPCBuffer 0 (of_bool wasSource) s;
                 luf = (case snd e of Some f \<Rightarrow> f | None \<Rightarrow> current_lookup_fault s)
             in widen (setMRs_lookup_failure thread receiveIPCBuffer luf 1 s)
         | seL4_NotEnoughMemory n \<Rightarrow> widen (setMR thread receiveIPCBuffer 0 n s)
         | _ \<Rightarrow> (0, s))"

definition replyFromKernel_error :: "ptr \<Rightarrow> syscall_error \<times> lookup_fault option \<Rightarrow> kstate \<Rightarrow> kstate" where
  "replyFromKernel_error thread e s =
     (let ipcBuffer = lookupIPCBuffer True thread s;
          s = setRegister thread badgeRegister 0 s;
          (len, s) = setMRs_syscall_error thread ipcBuffer e s
      in setRegister thread msgInfoRegister
           (wordFromMessageInfo (seL4_MessageInfo_new (syscall_error_type (fst e)) 0 0 len)) s)"

definition replyFromKernel_success_empty :: "ptr \<Rightarrow> kstate \<Rightarrow> kstate" where
  "replyFromKernel_success_empty thread s =
     (let s = setRegister thread badgeRegister 0 s
      in setRegister thread msgInfoRegister (wordFromMessageInfo (seL4_MessageInfo_new 0 0 0 0)) s)"

section \<open>What a transfer may change\<close>

text \<open>
  \<open>ipc_core r s s'\<close>: the two states differ at most in the registers of thread \<open>r\<close>, in user memory, in the capability slots, in the
  consumed-time counters and in the registers of the kernel that hold the current fault and extra capabilities.
\<close>

definition erase_ipc :: "ptr \<Rightarrow> kstate \<Rightarrow> kstate" where
  "erase_ipc r s = s\<lparr>tcbs := (tcbs s)(r := (tcbs s r)\<lparr>tcbContext := \<lambda>_. 0\<rparr>),
     scs := \<lambda>p. (scs s p)\<lparr>scConsumed := 0\<rparr>, ctes := \<lambda>_. nullMDBNode NullCap, mem := \<lambda>_. 0,
     current_fault := NullFault, current_extra_caps := \<lambda>_. NULL\<rparr>"

definition ipc_core :: "ptr \<Rightarrow> kstate \<Rightarrow> kstate \<Rightarrow> bool" where
  "ipc_core r s s' \<longleftrightarrow> erase_ipc r s' = erase_ipc r s"

lemma ipc_core_refl [simp]: "ipc_core r s s"
  by (simp add: ipc_core_def)

lemma ipc_core_trans [trans]: "ipc_core r s s' \<Longrightarrow> ipc_core r s' s'' \<Longrightarrow> ipc_core r s s''"
  by (simp add: ipc_core_def)

lemma ipc_core_steps [simp]:
  "ipc_core r s (s\<lparr>mem := M\<rparr>)" "ipc_core r s (s\<lparr>ctes := X\<rparr>)" "ipc_core r s (s\<lparr>current_fault := f\<rparr>)"
  "ipc_core r s (s\<lparr>current_extra_caps := e\<rparr>)" "ipc_core r s (upd_tcb r (tcbContext_update g) s)"
  "ipc_core r s (setRegister r q v s)" "ipc_core r s (store p i v s)"
  by (simp_all add: ipc_core_def erase_ipc_def upd_tcb_def setRegister_def store_def)

lemma ipc_core_consumed [simp]: "ipc_core r s (upd_sc p (scConsumed_update g) s)"
proof -
  have "(\<lambda>q. ((scs s)(p := scConsumed_update g (scs s p))) q\<lparr>scConsumed := 0\<rparr>) = (\<lambda>q. (scs s q)\<lparr>scConsumed := 0\<rparr>)"
    by auto
  then show ?thesis unfolding ipc_core_def erase_ipc_def upd_sc_def by simp
qed

lemma ipc_core_fields:
  assumes "ipc_core r s s'"
  shows "plat s' = plat s" "refills s' = refills s" "replies s' = replies s" "eps s' = eps s" "ntfns s' = ntfns s"
    "ksReadyQueues s' = ksReadyQueues s" "ksReadyQueuesL1Bitmap s' = ksReadyQueuesL1Bitmap s"
    "ksReadyQueuesL2Bitmap s' = ksReadyQueuesL2Bitmap s" "ksReleaseQueue s' = ksReleaseQueue s"
    "ksCurThread s' = ksCurThread s" "ksIdleThread s' = ksIdleThread s" "ksSchedulerAction s' = ksSchedulerAction s"
    "ksCurSC s' = ksCurSC s" "ksCurTime s' = ksCurTime s" "ksCurDomain s' = ksCurDomain s"
    "ksConsumed s' = ksConsumed s" "ksReprogram s' = ksReprogram s" "ksDomainTime s' = ksDomainTime s"
proof -
  from assms have e: "erase_ipc r s' = erase_ipc r s" by (simp add: ipc_core_def)
  show "plat s' = plat s" using arg_cong [OF e, of plat] by (simp add: erase_ipc_def)
  show "refills s' = refills s" using arg_cong [OF e, of refills] by (simp add: erase_ipc_def)
  show "replies s' = replies s" using arg_cong [OF e, of replies] by (simp add: erase_ipc_def)
  show "eps s' = eps s" using arg_cong [OF e, of eps] by (simp add: erase_ipc_def)
  show "ntfns s' = ntfns s" using arg_cong [OF e, of ntfns] by (simp add: erase_ipc_def)
  show "ksReadyQueues s' = ksReadyQueues s" using arg_cong [OF e, of ksReadyQueues] by (simp add: erase_ipc_def)
  show "ksReadyQueuesL1Bitmap s' = ksReadyQueuesL1Bitmap s" using arg_cong [OF e, of ksReadyQueuesL1Bitmap] by (simp add: erase_ipc_def)
  show "ksReadyQueuesL2Bitmap s' = ksReadyQueuesL2Bitmap s" using arg_cong [OF e, of ksReadyQueuesL2Bitmap] by (simp add: erase_ipc_def)
  show "ksReleaseQueue s' = ksReleaseQueue s" using arg_cong [OF e, of ksReleaseQueue] by (simp add: erase_ipc_def)
  show "ksCurThread s' = ksCurThread s" using arg_cong [OF e, of ksCurThread] by (simp add: erase_ipc_def)
  show "ksIdleThread s' = ksIdleThread s" using arg_cong [OF e, of ksIdleThread] by (simp add: erase_ipc_def)
  show "ksSchedulerAction s' = ksSchedulerAction s" using arg_cong [OF e, of ksSchedulerAction] by (simp add: erase_ipc_def)
  show "ksCurSC s' = ksCurSC s" using arg_cong [OF e, of ksCurSC] by (simp add: erase_ipc_def)
  show "ksCurTime s' = ksCurTime s" using arg_cong [OF e, of ksCurTime] by (simp add: erase_ipc_def)
  show "ksCurDomain s' = ksCurDomain s" using arg_cong [OF e, of ksCurDomain] by (simp add: erase_ipc_def)
  show "ksConsumed s' = ksConsumed s" using arg_cong [OF e, of ksConsumed] by (simp add: erase_ipc_def)
  show "ksReprogram s' = ksReprogram s" using arg_cong [OF e, of ksReprogram] by (simp add: erase_ipc_def)
  show "ksDomainTime s' = ksDomainTime s" using arg_cong [OF e, of ksDomainTime] by (simp add: erase_ipc_def)
qed

lemma ipc_core_tcb:
  assumes "ipc_core r s s'"
  shows "t \<noteq> r \<Longrightarrow> tcbs s' t = tcbs s t" "tcbs s' r = (tcbs s r)\<lparr>tcbContext := tcbContext (tcbs s' r)\<rparr>"
proof -
  from assms have "erase_ipc r s' = erase_ipc r s" by (simp add: ipc_core_def)
  from arg_cong [OF this, of tcbs] have e: "((tcbs s')(r := (tcbs s' r)\<lparr>tcbContext := \<lambda>_. 0\<rparr>)) u
      = ((tcbs s)(r := (tcbs s r)\<lparr>tcbContext := \<lambda>_. 0\<rparr>)) u" for u
    by (simp add: erase_ipc_def)
  show "t \<noteq> r \<Longrightarrow> tcbs s' t = tcbs s t" using e [of t] by simp
  have "(tcbs s' r)\<lparr>tcbContext := \<lambda>_. 0\<rparr> = (tcbs s r)\<lparr>tcbContext := \<lambda>_. 0\<rparr>" using e [of r] by simp
  then show "tcbs s' r = (tcbs s r)\<lparr>tcbContext := tcbContext (tcbs s' r)\<rparr>"
    by (cases "tcbs s r"; cases "tcbs s' r") simp
qed

lemma ipc_core_tcb_eq: "ipc_core r s s' \<Longrightarrow> \<exists>c. tcbs s' t = (tcbs s t)\<lparr>tcbContext := c\<rparr>"
  using ipc_core_tcb [of r s s'] by (cases "t = r"; cases "tcbs s t") auto

lemma ipc_core_tcb_fields:
  assumes "ipc_core r s s'"
  shows "tcbState (tcbs s' t) = tcbState (tcbs s t)" "tcbFault (tcbs s' t) = tcbFault (tcbs s t)"
    "tcbSchedContext (tcbs s' t) = tcbSchedContext (tcbs s t)" "tcbDomain (tcbs s' t) = tcbDomain (tcbs s t)"
    "tcbPriority (tcbs s' t) = tcbPriority (tcbs s t)" "tcbEPNext (tcbs s' t) = tcbEPNext (tcbs s t)"
    "tcbEPPrev (tcbs s' t) = tcbEPPrev (tcbs s t)" "tcbSchedNext (tcbs s' t) = tcbSchedNext (tcbs s t)"
    "tcbSchedPrev (tcbs s' t) = tcbSchedPrev (tcbs s t)" "tcbBoundNotification (tcbs s' t) = tcbBoundNotification (tcbs s t)"
    "tcbIPCBuffer (tcbs s' t) = tcbIPCBuffer (tcbs s t)" "tcbLookupFailure (tcbs s' t) = tcbLookupFailure (tcbs s t)"
    "tcbYieldTo (tcbs s' t) = tcbYieldTo (tcbs s t)" "tcbMCP (tcbs s' t) = tcbMCP (tcbs s t)"
  using ipc_core_tcb_eq [OF assms, of t] by auto

lemma ipc_core_sc:
  assumes "ipc_core r s s'"
  shows "\<exists>c. scs s' p = (scs s p)\<lparr>scConsumed := c\<rparr>"
proof -
  from assms have "erase_ipc r s' = erase_ipc r s" by (simp add: ipc_core_def)
  from fun_cong [OF arg_cong [OF this, of scs], of p]
  have "(scs s' p)\<lparr>scConsumed := 0\<rparr> = (scs s p)\<lparr>scConsumed := 0\<rparr>" by (simp add: erase_ipc_def)
  then show ?thesis by (cases "scs s p"; cases "scs s' p") simp
qed

lemma ipc_core_sc_fields:
  assumes "ipc_core r s s'"
  shows "scTcb (scs s' p) = scTcb (scs s p)" "scReply (scs s' p) = scReply (scs s p)"
    "scSporadic (scs s' p) = scSporadic (scs s p)" "scRefillMax (scs s' p) = scRefillMax (scs s p)"
    "scRefillHead (scs s' p) = scRefillHead (scs s p)" "scRefillTail (scs s' p) = scRefillTail (scs s p)"
    "scPeriod (scs s' p) = scPeriod (scs s p)" "scBadge (scs s' p) = scBadge (scs s p)"
  using ipc_core_sc [OF assms, of p] by auto

lemma sched_ok_ipc_core: "ipc_core r s s' \<Longrightarrow> sched_ok s \<Longrightarrow> sched_ok s'"
  by (rule sched_ok_parts) (simp_all add: ipc_core_fields ipc_core_tcb_fields sched_part_def)

section \<open>Messages\<close>

lemma setUntypedCapAsFull_upd: "\<exists>f. \<forall>s. setUntypedCapAsFull c d p s = upd_cte p f s"
proof -
  have "setUntypedCapAsFull c d p s = upd_cte p
    (if is_UntypedCap c \<and> is_UntypedCap d \<and> capUtPtr c = capUtPtr d \<and> capBlockSize d = capBlockSize c
     then cteCap_update (\<lambda>x. UntypedCap (MAX_FREE_INDEX (capBlockSize c)) (capIsDevice x) (capBlockSize x) (capUtPtr x))
     else (\<lambda>x. x)) s" for s
    by (cases c; cases d) (simp_all add: setUntypedCapAsFull_def upd_cte_def)
  then show ?thesis by blast
qed

lemma cteInsert_core: "\<exists>X. cteInsert c a b s = s\<lparr>ctes := X\<rparr>"
  using setUntypedCapAsFull_upd [of "cteCap (ctes s a)" c a]
  by (auto simp: cteInsert_def set_cap_def upd_cte_def set_cteNext_def set_ctePrev_def Let_def)

lemma cteInsert_mem: "cteInsert c a b (s\<lparr>mem := M\<rparr>) = (cteInsert c a b s)\<lparr>mem := M\<rparr>"
  using setUntypedCapAsFull_upd [of "cteCap (ctes s a)" c a]
  by (auto simp: cteInsert_def set_cap_def upd_cte_def set_cteNext_def set_ctePrev_def Let_def)

text \<open>The register loop copies the first \<open>min n 4\<close> message registers.\<close>

lemma msgRegisters_facts: "distinct msgRegisters" "length msgRegisters = 4" "n_msgRegisters = 4"
  by (simp_all add: msgRegisters_def n_msgRegisters_def)

lemma copyMRs_regs_from:
  assumes "a \<noteq> r" "i \<le> 4" 
  shows "\<exists>C. copyMRs_regs a r i n s = (max i (min n 4), upd_tcb r (tcbContext_update (\<lambda>_. C)) s)
    \<and> (\<forall>j. unat i \<le> j \<longrightarrow> j < unat (min n 4) \<longrightarrow> C (msgRegisters ! j) = tcbContext (tcbs s a) (msgRegisters ! j))
    \<and> (\<forall>q. (\<forall>j. unat i \<le> j \<longrightarrow> j < unat (min n 4) \<longrightarrow> q \<noteq> msgRegisters ! j) \<longrightarrow> C q = tcbContext (tcbs s r) q)"
  using assms
proof (induction a r i n s rule: copyMRs_regs.induct)
  case (1 a r i n s)
  show ?case
  proof (cases "i < n \<and> i < 4")
    case False
    then have "copyMRs_regs a r i n s = (max i (min n 4), s)" "unat (min n 4) \<le> unat i"
      using 1(3) by (auto simp: copyMRs_regs.simps [of a r i] msgRegisters_facts max_def min_def word_le_nat_alt word_less_nat_alt word_unat_eq_iff)
    then show ?thesis
      by (intro exI [of _ "tcbContext (tcbs s r)"]) (auto simp: upd_tcb_def)
  next
    case True
    have i1: "unat (i + 1) = unat i + 1" using True unat_suc_nowrap [of i n] by (simp add: word_less_nat_alt)
    let ?v = "tcbContext (tcbs s a) (msgRegisters ! unat i)"
    let ?s = "setRegister r (msgRegisters ! unat i) ?v s"
    have u: "unat (min n 4) = min (unat n) 4" by (simp add: min_def word_le_nat_alt)
    have "i + 1 \<le> 4" using True i1 by (simp add: word_le_nat_alt word_less_nat_alt)
    then obtain C where C: "copyMRs_regs a r (i + 1) n ?s = (max (i + 1) (min n 4), upd_tcb r (tcbContext_update (\<lambda>_. C)) ?s)"
      "\<And>j. unat i + 1 \<le> j \<Longrightarrow> j < unat (min n 4) \<Longrightarrow> C (msgRegisters ! j) = tcbContext (tcbs ?s a) (msgRegisters ! j)"
      "\<And>q. (\<And>j. unat i + 1 \<le> j \<Longrightarrow> j < unat (min n 4) \<Longrightarrow> q \<noteq> msgRegisters ! j) \<Longrightarrow> C q = tcbContext (tcbs ?s r) q"
      using 1(1) True 1(2) i1 by (auto simp: msgRegisters_facts getRegister_def)
    have "max (i + 1) (min n 4) = max i (min n 4)"
      using True i1 by (auto simp: max_def min_def word_le_nat_alt word_less_nat_alt word_unat_eq_iff)
    then have "copyMRs_regs a r i n s = (max i (min n 4), upd_tcb r (tcbContext_update (\<lambda>_. C)) s)"
      using True C(1) by (simp add: copyMRs_regs.simps [of a r i] msgRegisters_facts getRegister_def setRegister_def upd_tcb_def)
    moreover have here: "C (msgRegisters ! unat i) = ?v"
    proof -
      have "msgRegisters ! unat i \<noteq> msgRegisters ! j" if "unat i + 1 \<le> j" "j < unat (min n 4)" for j
        using that True u by (subst nth_eq_iff_index_eq) (auto simp: msgRegisters_facts word_less_nat_alt)
      then show ?thesis using C(3) [of "msgRegisters ! unat i"] by (simp add: setRegister_def)
    qed
    moreover have "C q = tcbContext (tcbs s r) q"
      if "\<forall>j. unat i \<le> j \<longrightarrow> j < unat (min n 4) \<longrightarrow> q \<noteq> msgRegisters ! j" for q
    proof -
      have "q \<noteq> msgRegisters ! unat i" using that True u by (auto simp: word_less_nat_alt)
      then show ?thesis using C(3) [of q] that by (auto simp: setRegister_def)
    qed
    moreover have "C (msgRegisters ! j) = tcbContext (tcbs s a) (msgRegisters ! j)" if "unat i \<le> j" "j < unat (min n 4)" for j
      using C(2) [of j] that 1(2) here by (cases "j = unat i") (auto simp: setRegister_def)
    ultimately show ?thesis by (intro exI [of _ C]) blast
  qed
qed


text \<open>
  The words of two buffers do not overlap. A buffer is 1024 bytes, 128 words.
\<close>

definition disjoint_buffers :: "ptr \<Rightarrow> ptr \<Rightarrow> bool" where
  "disjoint_buffers p q \<longleftrightarrow> (\<forall>i < 128. \<forall>j < 128. p + 8 * of_nat i \<noteq> q + 8 * of_nat j)"

lemma word_index_inj:
  assumes "i < 1000" "j < 1000"
  shows "(8 * of_nat i :: word64) = 8 * of_nat j \<longleftrightarrow> i = j"
proof -
  have u: "unat (8 * of_nat k :: word64) = 8 * k" if "k < 1000" for k
    using that by (simp add: unat_word_ariths unat_of_nat)
  show ?thesis using u [OF assms(1)] u [OF assms(2)] by (metis mult_left_cancel zero_neq_numeral)
qed

lemma copyMRs_bufs_spec:
  assumes "disjoint_buffers a b" "i \<le> n" "n \<le> 120"
  shows "\<exists>M. copyMRs_bufs a b i n s = (n, s\<lparr>mem := M\<rparr>)
    \<and> (\<forall>j. unat i \<le> j \<longrightarrow> j < unat n \<longrightarrow> M (b + 8 * of_nat (j + 1)) = mem s (a + 8 * of_nat (j + 1)))
    \<and> (\<forall>x. (\<forall>j. unat i \<le> j \<longrightarrow> j < unat n \<longrightarrow> x \<noteq> b + 8 * of_nat (j + 1)) \<longrightarrow> M x = mem s x)"
  using assms
proof (induction a b i n s rule: copyMRs_bufs.induct)
  case (1 a b i n s)
  have n: "unat n \<le> 120" using 1(4) by (simp add: word_le_nat_alt)
  show ?case
  proof (cases "i < n")
    case False
    then have "i = n" using 1(3) by simp
    moreover from False have "copyMRs_bufs a b i n s = (i, s)" by (simp add: copyMRs_bufs.simps [of a b i])
    ultimately have "copyMRs_bufs a b i n s = (n, s)" "i = n" by simp_all
    then show ?thesis by (intro exI [of _ "mem s"]) auto
  next
    case True
    have i1: "unat (i + 1) = unat i + 1" using True unat_suc_nowrap [of i n] by (simp add: word_less_nat_alt)
    have iw: "i + 1 = of_nat (unat i + 1)" by (simp flip: i1)
    let ?s = "store b (i + 1) (load a (i + 1) s) s"
    have m: "mem ?s = (mem s)(b + 8 * of_nat (unat i + 1) := mem s (a + 8 * of_nat (unat i + 1)))"
      unfolding store_def load_def by (simp add: iw)
    have "i + 1 \<le> n" using True i1 by (simp add: word_le_nat_alt word_less_nat_alt)
    then obtain M where M: "copyMRs_bufs a b (i + 1) n ?s = (n, ?s\<lparr>mem := M\<rparr>)"
      "\<And>j. unat i + 1 \<le> j \<Longrightarrow> j < unat n \<Longrightarrow> M (b + 8 * of_nat (j + 1)) = mem ?s (a + 8 * of_nat (j + 1))"
      "\<And>x. (\<And>j. unat i + 1 \<le> j \<Longrightarrow> j < unat n \<Longrightarrow> x \<noteq> b + 8 * of_nat (j + 1)) \<Longrightarrow> M x = mem ?s x"
      using 1(1) [OF True 1(2) _ 1(4)] i1 by metis
    have "copyMRs_bufs a b i n s = (n, s\<lparr>mem := M\<rparr>)"
      using True M(1) by (simp add: copyMRs_bufs.simps [of a b i] store_def)
    moreover have here: "M (b + 8 * of_nat (unat i + 1)) = mem s (a + 8 * of_nat (unat i + 1))"
    proof -
      have "b + 8 * of_nat (unat i + 1) \<noteq> b + 8 * of_nat (j + 1)" if "unat i + 1 \<le> j" "j < unat n" for j
        using that n word_index_inj [of "unat i + 1" "j + 1"] by (simp del: of_nat_add of_nat_Suc of_nat_1)
      then show ?thesis using M(3) [of "b + 8 * of_nat (unat i + 1)"] unfolding m by (simp del: of_nat_add)
    qed
    moreover have "M (b + 8 * of_nat (j + 1)) = mem s (a + 8 * of_nat (j + 1))" if "unat i \<le> j" "j < unat n" for j
    proof -
      have "j + 1 < 128" "unat i + 1 < 128" using that n by simp_all
      then have "a + 8 * of_nat (j + 1) \<noteq> b + 8 * of_nat (unat i + 1)"
        using 1(2) unfolding disjoint_buffers_def by blast
      then show ?thesis using M(2) [of j] that here unfolding m by (cases "j = unat i") (simp_all del: of_nat_add)
    qed
    moreover have "M x = mem s x" if x: "\<forall>j. unat i \<le> j \<longrightarrow> j < unat n \<longrightarrow> x \<noteq> b + 8 * of_nat (j + 1)" for x
    proof -
      have "x \<noteq> b + 8 * of_nat (unat i + 1)" using x [rule_format, of "unat i"] True by (simp add: word_less_nat_alt)
      then show ?thesis using M(3) [of x] x unfolding m by (simp del: of_nat_add)
    qed
    ultimately show ?thesis by (intro exI [of _ M]) blast
  qed
qed

text \<open>
  The loop over the extra capabilities keeps everything but the slots and the badge words 122, 123 and 124 of the receiver's
  buffer; it inserts at most one capability, derived from one of the extra capabilities, and the tag keeps its label and length.
\<close>

definition badge_words_only :: "ptr \<Rightarrow> kstate \<Rightarrow> kstate \<Rightarrow> bool" where
  "badge_words_only buf s s' \<longleftrightarrow>
     s' = s\<lparr>ctes := ctes s', mem := mem s'\<rparr> \<and> (\<forall>x. (\<forall>k < 3. x \<noteq> buf + 8 * (122 + of_nat k)) \<longrightarrow> mem s' x = mem s x)"

definition one_cap_inserted :: "nat \<Rightarrow> ptr \<Rightarrow> kstate \<Rightarrow> kstate \<Rightarrow> bool" where
  "one_cap_inserted i dest s s' \<longleftrightarrow> ctes s' = ctes s \<or>
     (\<exists>k c. i \<le> k \<and> k < 3 \<and> dest \<noteq> NULL \<and> (\<forall>j. i \<le> j \<longrightarrow> j \<le> k \<longrightarrow> excapref j s \<noteq> NULL) \<and> c \<noteq> NullCap \<and> cap_le c (cteCap (ctes s (excapref k s)))
        \<and> ctes s' = ctes (cteInsert c (excapref k s) dest s))"

lemma info_masks: "0x7f = (mask 7 :: word64)" "0x180 = (push_bit 7 (mask 2) :: word64)" "0xe00 = (push_bit 9 (mask 3) :: word64)"
  "3 = (mask 2 :: word64)"
  by (simp_all add: mask_eq_exp_minus_1 push_bit_eq_mult)

lemma set_info_keeps:
  "seL4_MessageInfo_get_label (seL4_MessageInfo_set_capsUnwrapped w v) = seL4_MessageInfo_get_label w"
  "seL4_MessageInfo_get_label (seL4_MessageInfo_set_extraCaps w v) = seL4_MessageInfo_get_label w"
  "seL4_MessageInfo_get_label (seL4_MessageInfo_set_length w v) = seL4_MessageInfo_get_label w"
  "seL4_MessageInfo_get_length (seL4_MessageInfo_set_length w v) = v AND 0x7f"
  "seL4_MessageInfo_get_extraCaps (seL4_MessageInfo_set_length w v) = seL4_MessageInfo_get_extraCaps w"
  "seL4_MessageInfo_get_extraCaps (seL4_MessageInfo_set_extraCaps w v) = v AND 3"
  unfolding seL4_MessageInfo_get_label_def seL4_MessageInfo_get_length_def seL4_MessageInfo_set_capsUnwrapped_def
    seL4_MessageInfo_set_extraCaps_def seL4_MessageInfo_set_length_def seL4_MessageInfo_get_extraCaps_def info_masks
  by (rule bit_eqI; auto simp: bit_simps dest: bit_imp_le_length)+

lemma kstate_ctes_mem: "s' = s\<lparr>ctes := c, mem := m\<rparr> \<Longrightarrow> s'\<lparr>ctes := c', mem := m'\<rparr> = s\<lparr>ctes := c', mem := m'\<rparr>" for s :: kstate
  by (erule ssubst) simp

lemma badge_words_trans:
  "badge_words_only b s s' \<Longrightarrow> badge_words_only b s' s'' \<Longrightarrow> badge_words_only b s s''"
  unfolding badge_words_only_def
proof (elim conjE, intro conjI)
  assume "s' = s\<lparr>ctes := ctes s', mem := mem s'\<rparr>" "s'' = s'\<lparr>ctes := ctes s'', mem := mem s''\<rparr>"
  then show "s'' = s\<lparr>ctes := ctes s'', mem := mem s''\<rparr>"
    by (rule_tac trans [OF _ kstate_ctes_mem])
qed auto

lemma transferCaps_loop_spec:
  assumes "transferCaps_loop ep buf i info dest s = (i', info', s')" "i \<le> 3"
  shows "i \<le> i' \<and> i' \<le> 3 \<and> badge_words_only buf s s' \<and> one_cap_inserted i dest s s'
    \<and> seL4_MessageInfo_get_label info' = seL4_MessageInfo_get_label info"
  using assms
proof (induction ep buf i info dest s arbitrary: i' info' s' rule: transferCaps_loop.induct)
  case (1 ep buf i info dest s)
  let ?cap = "cteCap (ctes s (excapref i s))"
  have refl: "badge_words_only buf s s" by (simp add: badge_words_only_def)
  consider (stop) "(i', info', s') = (i, info, s)"
    | (badge) "i < 3" "excapref i s \<noteq> NULL" "is_EndpointCap ?cap \<and> capEPPtr ?cap = ep"
    | (insert) c where "i < 3" "excapref i s \<noteq> NULL" "\<not> (is_EndpointCap ?cap \<and> capEPPtr ?cap = ep)" "dest \<noteq> NULL"
        "deriveCap (excapref i s) ?cap s = Inr c" "c \<noteq> NullCap"
    using 1(3) by (auto simp: transferCaps_loop.simps [of ep buf i] Let_def seL4_MsgMaxExtraCaps_def split: if_splits sum.splits)
  then show ?case
  proof cases
    case stop
    then show ?thesis using refl 1(4) by (simp add: one_cap_inserted_def)
  next
    case badge
    let ?s = "setExtraBadge buf (capEPBadge ?cap) (of_nat i) s"
    have "transferCaps_loop ep buf i info dest s = transferCaps_loop ep buf (i + 1)
        (seL4_MessageInfo_set_capsUnwrapped info (seL4_MessageInfo_get_capsUnwrapped info OR push_bit i 1)) dest ?s"
      using badge by (simp add: transferCaps_loop.simps [of ep buf i] Let_def seL4_MsgMaxExtraCaps_def)
    then have ih: "i + 1 \<le> i' \<and> i' \<le> 3 \<and> badge_words_only buf ?s s' \<and> one_cap_inserted (i + 1) dest ?s s'
        \<and> seL4_MessageInfo_get_label info' = seL4_MessageInfo_get_label info"
      using 1(1) [of "excapref i s" ?cap _ _ i' info' s'] 1(3) badge by (simp add: seL4_MsgMaxExtraCaps_def set_info_keeps)
    have "badge_words_only buf s ?s"
      using badge(1) by (auto simp: badge_words_only_def setExtraBadge_def store_def seL4_MsgMaxLength_def ac_simps)
    moreover have "one_cap_inserted i dest s s'" if "one_cap_inserted (i + 1) dest ?s s'"
    proof -
      have e: "excapref k ?s = excapref k s" "ctes ?s = ctes s" "ctes (cteInsert c a d ?s) = ctes (cteInsert c a d s)" for k c a d
        by (simp_all add: setExtraBadge_def store_def excapref_def cteInsert_mem)
      have "\<forall>j. i \<le> j \<longrightarrow> j \<le> k \<longrightarrow> excapref j s \<noteq> NULL"
        if "\<forall>j. i + 1 \<le> j \<longrightarrow> j \<le> k \<longrightarrow> excapref j s \<noteq> NULL" for k
        using that badge(2) by (metis Suc_eq_plus1 le_antisym not_less_eq_eq)
      then show ?thesis using that unfolding one_cap_inserted_def e by (metis add_leD1)
    qed
    ultimately show ?thesis using ih badge_words_trans by auto
  next
    case insert
    let ?s = "cteInsert c (excapref i s) dest s"
    have "transferCaps_loop ep buf i info dest s = transferCaps_loop ep buf (i + 1) info NULL ?s"
      using insert by (auto simp: transferCaps_loop.simps [of ep buf i] Let_def seL4_MsgMaxExtraCaps_def)
    then have ih: "i + 1 \<le> i' \<and> i' \<le> 3 \<and> badge_words_only buf ?s s' \<and> one_cap_inserted (i + 1) NULL ?s s'
        \<and> seL4_MessageInfo_get_label info' = seL4_MessageInfo_get_label info"
      using 1(2) [of "excapref i s" ?cap c i' info' s'] 1(3) insert by (simp add: seL4_MsgMaxExtraCaps_def)
    moreover have "badge_words_only buf s ?s"
      using cteInsert_core [of c "excapref i s" dest s] by (auto simp: badge_words_only_def)
    moreover have "one_cap_inserted i dest s s'"
    proof -
      have "ctes s' = ctes ?s" using ih by (auto simp: one_cap_inserted_def)
      then show ?thesis unfolding one_cap_inserted_def
        using insert cap_le_derive [OF insert(5)] by (metis le_antisym order_refl)
    qed
    ultimately show ?thesis using badge_words_trans by auto
  qed
qed


section \<open>Lookups read the capability slots only\<close>

definition cspace_ok :: "kstate \<Rightarrow> bool" where
  "cspace_ok s \<longleftrightarrow> (\<forall>p. cnode_ok (cteCap (ctes s p)))"

lemma resolveAddressBits_slots:
  assumes "cspace_ok s" "cnode_ok cap" "n \<le> 64" "ctes s' = ctes s"
  shows "\<exists>r. resolveAddressBits cap w n s = Some r \<and> resolveAddressBits cap w n s' = Some r"
  using assms resolve_loop_bits [of s cap n w] resolve_loop_bits [of s' cap n w]
  by (auto simp: cspace_ok_def resolveAddressBits_def)

lemma lookupSlot_slots:
  assumes "cspace_ok s" "ctes s' = ctes s"
  shows "\<exists>r. lookupSlot t w s = Some r \<and> lookupSlot t w s' = Some r"
proof -
  let ?root = "cteCap (ctes s (TCB_PTR_CTE_PTR t tcbCTable))"
  have "cnode_ok ?root" using assms(1) by (simp add: cspace_ok_def)
  from resolveAddressBits_slots [OF assms(1) this _ assms(2), of wordBits w]
  show ?thesis using assms(2) by (auto simp: lookupSlot_def)
qed

definition extra_frame :: "kstate \<Rightarrow> kstate \<Rightarrow> bool" where
  "extra_frame s s' \<longleftrightarrow> s'\<lparr>current_fault := NullFault, current_extra_caps := \<lambda>_. NULL\<rparr>
     = s\<lparr>current_fault := NullFault, current_extra_caps := \<lambda>_. NULL\<rparr>"

lemma extra_frame_step [simp]:
  "extra_frame s (s\<lparr>current_extra_caps := E\<rparr>)" "extra_frame s (s\<lparr>current_fault := F\<rparr>)" "extra_frame s s"
  by (simp_all add: extra_frame_def)

lemma extra_frame_trans: "extra_frame s s1 \<Longrightarrow> extra_frame s1 s' \<Longrightarrow> extra_frame s s'"
  by (simp add: extra_frame_def)

lemma extra_frame_eq:
  "extra_frame s s' \<Longrightarrow> s' = s\<lparr>current_fault := current_fault s', current_extra_caps := current_extra_caps s'\<rparr>"
  by (cases s; cases s') (simp add: extra_frame_def)

lemma lookupExtraCaps_loop_spec:
  assumes "cspace_ok s" "len \<le> 3" "i \<le> len"
  shows "\<exists>r s'. lookupExtraCaps_loop t buf i len s = Some (r, s') \<and> extra_frame s s'
    \<and> (\<forall>j < unat i. excapref j s' = excapref j s)
    \<and> (r = Inr () \<longrightarrow> (\<forall>j. unat i \<le> j \<longrightarrow> j < unat len \<longrightarrow> (\<exists>w. lookupSlot t w s = Some (Inr (excapref j s'))))
        \<and> (len < 3 \<longrightarrow> excapref (unat len) s' = NULL))"
  using assms
proof (induction t buf i len s rule: lookupExtraCaps_loop.induct)
  case (1 t buf i len s)
  show ?case
  proof (cases "i < len")
    case False
    then have "i = len" using 1(4) by simp
    then have "lookupExtraCaps_loop t buf i len s =
        Some (Inr (), if len < 3 then s\<lparr>current_extra_caps := (current_extra_caps s)(unat len := NULL)\<rparr> else s)"
      using False by (subst lookupExtraCaps_loop.simps) (simp add: seL4_MsgMaxExtraCaps_def)
    then show ?thesis using \<open>i = len\<close> by (auto simp: excapref_def)
  next
    case True
    let ?w = "getExtraCPtr buf i s"
    obtain l where l: "lookupSlot t ?w s = Some l" using lookupSlot_slots [OF 1(2)] by blast
    show ?thesis
    proof (cases l)
      case (Inl f)
      then have "lookupExtraCaps_loop t buf i len s = Some (Inl f, s\<lparr>current_fault := CapFault ?w False\<rparr>)"
        using True l by (subst lookupExtraCaps_loop.simps) simp
      then show ?thesis by (auto simp: excapref_def)
    next
      case (Inr slot)
      let ?s = "s\<lparr>current_extra_caps := (current_extra_caps s)(unat i := slot)\<rparr>"
      have i1: "unat (i + 1) = unat i + 1" using True unat_suc_nowrap [of i len] by (simp add: word_less_nat_alt)
      have le: "i + 1 \<le> len" using True i1 by (simp add: word_le_nat_alt word_less_nat_alt)
      have "lookupExtraCaps_loop t buf i len s = lookupExtraCaps_loop t buf (i + 1) len ?s"
        using True l Inr by (subst lookupExtraCaps_loop.simps) simp
      moreover have "cspace_ok ?s" using 1(2) by (simp add: cspace_ok_def)
      ultimately obtain r s' where r: "lookupExtraCaps_loop t buf i len s = Some (r, s')" "extra_frame ?s s'"
        "\<And>j. j < unat i + 1 \<Longrightarrow> excapref j s' = excapref j ?s"
        "r = Inr () \<Longrightarrow> unat i + 1 \<le> j \<Longrightarrow> j < unat len \<Longrightarrow> \<exists>w. lookupSlot t w ?s = Some (Inr (excapref j s'))"
        "r = Inr () \<Longrightarrow> len < 3 \<Longrightarrow> excapref (unat len) s' = NULL" for j
        using 1(1) [OF True refl l Inr _ 1(3) le] i1 by auto
      have lk: "lookupSlot t w ?s = lookupSlot t w s" for w using lookupSlot_slots [OF 1(2), of ?s t w] by auto
      have "\<exists>w. lookupSlot t w s = Some (Inr (excapref j s'))" if "r = Inr ()" "unat i \<le> j" "j < unat len" for j
        using r(3) [of j] r(4) [of j] that l Inr lk by (cases "j = unat i") (auto simp: excapref_def)
      moreover have "extra_frame s s'" using extra_frame_trans [OF _ r(2)] by simp
      moreover have "excapref j s' = excapref j s" if "j < unat i" for j using r(3) [of j] that by (simp add: excapref_def)
      ultimately show ?thesis using r(1,5) by blast
    qed
  qed
qed

lemma extra_caps_len: "seL4_MessageInfo_get_extraCaps w \<le> 3"
proof -
  have "seL4_MessageInfo_get_extraCaps w = seL4_MessageInfo_get_extraCaps w AND 3"
    unfolding seL4_MessageInfo_get_extraCaps_def info_masks by (rule bit_eqI) (auto simp: bit_simps)
  then show ?thesis by (metis word_and_le1)
qed

lemma message_length: "seL4_MessageInfo_get_length (messageInfoFromWord w) \<le> 120"
  by (simp add: messageInfoFromWord_def Let_def seL4_MsgMaxLength_def set_info_keeps not_less)

lemma message_label: "seL4_MessageInfo_get_label (messageInfoFromWord w) = seL4_MessageInfo_get_label w"
  by (simp add: messageInfoFromWord_def Let_def set_info_keeps)

lemma lookupExtraCaps_spec:
  assumes "cspace_ok s"
  shows "\<exists>r s'. lookupExtraCaps t buf info s = Some (r, s') \<and> extra_frame s s'
    \<and> (r = Inr () \<longrightarrow> (\<forall>k. (\<forall>j \<le> k. excapref j s' \<noteq> NULL) \<longrightarrow> k < 3 \<longrightarrow> (\<exists>w. lookupSlot t w s = Some (Inr (excapref k s')))))"
proof (cases "buf = NULL")
  case True
  then show ?thesis by (auto simp: lookupExtraCaps_def excapref_def)
next
  case False
  let ?len = "seL4_MessageInfo_get_extraCaps info"
  obtain r s' where r: "lookupExtraCaps_loop t buf 0 ?len s = Some (r, s')" "extra_frame s s'"
    "\<And>j. r = Inr () \<Longrightarrow> j < unat ?len \<Longrightarrow> \<exists>w. lookupSlot t w s = Some (Inr (excapref j s'))"
    "r = Inr () \<Longrightarrow> ?len < 3 \<Longrightarrow> excapref (unat ?len) s' = NULL"
    using lookupExtraCaps_loop_spec [OF assms extra_caps_len [of info], of 0 t buf] by auto
  have "k < unat ?len" if n: "\<forall>j \<le> k. excapref j s' \<noteq> NULL" and k: "k < 3" and ri: "r = Inr ()" for k
  proof (rule ccontr)
    assume "\<not> k < unat ?len"
    then have "unat ?len \<le> k" by simp
    moreover from this k have "?len < 3" by (simp add: word_less_nat_alt)
    ultimately show False using n r(4) [OF ri] by blast
  qed
  then show ?thesis using False r by (auto simp: lookupExtraCaps_def)
qed

lemma getReceiveSlots_spec:
  assumes "cspace_ok s"
  shows "\<exists>d. getReceiveSlots t buf s = Some d \<and> (d \<noteq> NULL \<longrightarrow> cteCap (ctes s d) = NullCap)"
proof (cases "buf = NULL")
  case False
  let ?ct = "loadCapTransfer buf s"
  obtain l where l: "lookupSlot t (ctReceiveRoot ?ct) s = Some l" using lookupSlot_slots [OF assms] by blast
  show ?thesis
  proof (cases l)
    case (Inr root)
    let ?cnode = "cteCap (ctes s root)"
    have "\<exists>r. lookupTargetSlot ?cnode (ctReceiveIndex ?ct) (ctReceiveDepth ?ct) s = Some r"
      using resolveAddressBits_slots [OF assms _ _ refl, of ?cnode "ctReceiveDepth ?ct" "ctReceiveIndex ?ct"] assms
      by (auto simp: lookupTargetSlot_def lookupSlotForCNodeOp_def cspace_ok_def not_less)
    then show ?thesis using False l Inr by (auto simp: getReceiveSlots_def lookupCap_def Let_def split: sum.splits)
  qed (use False l in \<open>simp add: getReceiveSlots_def lookupCap_def Let_def\<close>)
qed (simp add: getReceiveSlots_def)

lemma kstate_mem_self: "s\<lparr>mem := mem s\<rparr> = s" for s :: kstate
  by (cases s) (simp only: kstate.simps)

lemma copyMRs_spec:
  assumes "a \<noteq> r" "n \<le> 120" "sb \<noteq> NULL \<longrightarrow> rb \<noteq> NULL \<longrightarrow> disjoint_buffers sb rb"
  defines "k \<equiv> if rb = NULL \<or> sb = NULL then min n 4 else n"
  shows "\<exists>C M. copyMRs a sb r rb n s = (k, (upd_tcb r (tcbContext_update (\<lambda>_. C)) s)\<lparr>mem := M\<rparr>)
    \<and> (\<forall>j < min (unat k) 4. C (msgRegisters ! j) = tcbContext (tcbs s a) (msgRegisters ! j))
    \<and> (\<forall>j. 4 \<le> j \<longrightarrow> j < unat k \<longrightarrow> M (rb + 8 * of_nat (j + 1)) = mem s (sb + 8 * of_nat (j + 1)))
    \<and> (\<forall>q. q \<notin> set msgRegisters \<longrightarrow> C q = tcbContext (tcbs s r) q)"
proof -
  have u: "unat (min n 4) = min (unat n) 4" by (simp add: min_def word_le_nat_alt)
  obtain C where C: "copyMRs_regs a r 0 n s = (min n 4, upd_tcb r (tcbContext_update (\<lambda>_. C)) s)"
    "\<And>j. j < min (unat n) 4 \<Longrightarrow> C (msgRegisters ! j) = tcbContext (tcbs s a) (msgRegisters ! j)"
    "\<And>q. (\<And>j. j < min (unat n) 4 \<Longrightarrow> q \<noteq> msgRegisters ! j) \<Longrightarrow> C q = tcbContext (tcbs s r) q"
    using copyMRs_regs_from [OF assms(1), of 0 n s] unfolding u by (auto simp: max_def)
  have rest: "C q = tcbContext (tcbs s r) q" if "q \<notin> set msgRegisters" for q
    using C(3) [of q] that msgRegisters_facts(2) by (metis min_less_iff_conj nth_mem)
  show ?thesis
  proof (cases "rb = NULL \<or> sb = NULL")
    case True
    let ?s = "upd_tcb r (tcbContext_update (\<lambda>_. C)) s"
    have e: "?s\<lparr>mem := mem s\<rparr> = ?s" using kstate_mem_self [of ?s] unfolding upd_tcb_frame .
    have "copyMRs a sb r rb n s = (k, ?s\<lparr>mem := mem s\<rparr>)"
      unfolding e copyMRs_def C(1) Let_def prod.case k_def using True by presburger
    moreover have "min (unat k) 4 = min (unat n) 4" "\<not> (4 \<le> j \<and> j < unat k)" for j using True u by (auto simp: k_def)
    ultimately show ?thesis using C(2) rest by (intro exI [of _ C] exI [of _ "mem s"] conjI allI impI) auto
  next
    case False
    let ?s = "upd_tcb r (tcbContext_update (\<lambda>_. C)) s"
    obtain M where M: "copyMRs_bufs sb rb (min n 4) n ?s = (n, ?s\<lparr>mem := M\<rparr>)"
      "\<And>j. min (unat n) 4 \<le> j \<Longrightarrow> j < unat n \<Longrightarrow> M (rb + 8 * of_nat (j + 1)) = mem s (sb + 8 * of_nat (j + 1))"
      using copyMRs_bufs_spec [of sb rb "min n 4" n ?s] assms(2,3) False unfolding u by auto
    then show ?thesis using False C rest u
      by (intro exI [of _ C] exI [of _ M]) (auto simp: copyMRs_def k_def)
  qed
qed


text \<open>
  The end of a transfer: the loop over the extra capabilities, seen from a state whose slots are those of \<open>s\<close>.
\<close>

lemma transferCaps_spec:
  assumes "cspace_ok s"
  shows "\<exists>info' s'. transferCaps info ep r buf s = Some (info', s') \<and> badge_words_only buf s s'
    \<and> seL4_MessageInfo_get_label info' = seL4_MessageInfo_get_label info
    \<and> seL4_MessageInfo_get_extraCaps info' \<le> 3
    \<and> (excapref 0 s = NULL \<longrightarrow> s' = s)
    \<and> (\<exists>d. (d \<noteq> NULL \<longrightarrow> cteCap (ctes s d) = NullCap) \<and> one_cap_inserted 0 d s s')"
proof (cases "excapref 0 s = NULL \<or> buf = NULL")
  case True
  have "badge_words_only buf s s" by (simp add: badge_words_only_def)
  then show ?thesis using True
    by (simp add: transferCaps_def set_info_keeps extra_caps_len one_cap_inserted_def exI [of _ NULL])
next
  case False
  obtain d where d: "getReceiveSlots r buf s = Some d" "d \<noteq> NULL \<longrightarrow> cteCap (ctes s d) = NullCap"
    using getReceiveSlots_spec [OF assms] by blast
  let ?info = "seL4_MessageInfo_set_capsUnwrapped (seL4_MessageInfo_set_extraCaps info 0) 0"
  obtain i info' s' where l: "transferCaps_loop ep buf 0 ?info d s = (i, info', s')" by (metis prod_cases3)
  have "transferCaps info ep r buf s = Some (seL4_MessageInfo_set_extraCaps info' (of_nat i), s')"
    using False d l by (simp add: transferCaps_def)
  then show ?thesis using False transferCaps_loop_spec [OF l] d(2)
    by (auto simp: set_info_keeps extra_caps_len)
qed

text \<open>
  Word \<open>i\<close> of the message of a thread: a message register, or a word of its buffer.
\<close>

definition message_word :: "ptr \<Rightarrow> ptr \<Rightarrow> nat \<Rightarrow> kstate \<Rightarrow> word64" where
  "message_word t buf i s =
     (if i < 4 then getRegister t (msgRegisters ! i) s else load buf (of_nat (i + 1)) s)"

text \<open>The slots differ by one insertion of a capability that the sender can name, derived, into an empty slot.\<close>

definition one_cap_sent :: "ptr \<Rightarrow> kstate \<Rightarrow> kstate \<Rightarrow> bool" where
  "one_cap_sent sender s s' \<longleftrightarrow>
     (\<exists>w src c dest. lookupSlot sender w s = Some (Inr src) \<and> src \<noteq> NULL \<and> dest \<noteq> NULL
        \<and> cteCap (ctes s dest) = NullCap \<and> c \<noteq> NullCap \<and> cap_le c (cteCap (ctes s src))
        \<and> ctes s' = ctes (cteInsert c src dest s))"

lemma ctes_cteInsert_cong:
  assumes "ctes s1 = ctes s"
  shows "ctes (cteInsert c a b s1) = ctes (cteInsert c a b s)"
  using assms setUntypedCapAsFull_upd [of "cteCap (ctes s a)" c a]
  by (auto simp: cteInsert_def set_cap_def upd_cte_def set_cteNext_def set_ctePrev_def Let_def)

lemma length_fits: "(k :: word64) \<le> 120 \<Longrightarrow> k AND 0x7f = k"
  using le_mask_and [of k 7] order_trans [of k 120 127] by (simp flip: info_masks(1))

lemma granted_extra_caps_spec:
  assumes "cspace_ok s"
  shows "\<exists>s1. granted_extra_caps grnt sender buf tag s = Some s1
    \<and> extra_frame s s1 \<and> (\<not> grnt \<longrightarrow> excapref 0 s1 = NULL)
    \<and> (\<forall>k < 3. (\<forall>j \<le> k. excapref j s1 \<noteq> NULL) \<longrightarrow> (\<exists>w. lookupSlot sender w s = Some (Inr (excapref k s1))))"
proof (cases grnt)
  case False
  then show ?thesis by (auto simp: granted_extra_caps_def excapref_def)
next
  case True
  obtain r s' where r: "lookupExtraCaps sender buf tag s = Some (r, s')" "extra_frame s s'"
    "r = Inr () \<Longrightarrow> (\<forall>k. (\<forall>j \<le> k. excapref j s' \<noteq> NULL) \<longrightarrow> k < 3 \<longrightarrow> (\<exists>w. lookupSlot sender w s = Some (Inr (excapref k s'))))"
    using lookupExtraCaps_spec [OF assms, of sender buf tag] by metis
  show ?thesis
  proof (cases r)
    case (Inl f)
    have "extra_frame s (s'\<lparr>current_extra_caps := (current_extra_caps s')(0 := NULL)\<rparr>)"
      using extra_frame_trans [OF r(2)] by simp
    then show ?thesis using True r(1) Inl by (auto simp: granted_extra_caps_def excapref_def)
  next
    case (Inr u)
    then show ?thesis using True r by (auto simp: granted_extra_caps_def)
  qed
qed

lemma doNormalTransfer_spec:
  assumes "cspace_ok s" "a \<noteq> r" "sb \<noteq> NULL \<longrightarrow> rb \<noteq> NULL \<longrightarrow> disjoint_buffers sb rb"
  defines "tag \<equiv> messageInfoFromWord (getRegister a msgInfoRegister s)"
  defines "k \<equiv> if rb = NULL \<or> sb = NULL then min (seL4_MessageInfo_get_length tag) 4 else seL4_MessageInfo_get_length tag"
  shows "\<exists>s'. doNormalTransfer a sb ep badge grnt r rb s = Some s' \<and> ipc_core r s s'
    \<and> (\<forall>i < unat k. message_word r rb i s' = message_word a sb i s)
    \<and> seL4_MessageInfo_get_length (getRegister r msgInfoRegister s') = k
    \<and> seL4_MessageInfo_get_label (getRegister r msgInfoRegister s') = seL4_MessageInfo_get_label tag
    \<and> seL4_MessageInfo_get_extraCaps (getRegister r msgInfoRegister s') \<le> 3
    \<and> getRegister r badgeRegister s' = badge
    \<and> (ctes s' = ctes s \<or> grnt \<and> one_cap_sent a s s')"
proof -
  define n where "n = seL4_MessageInfo_get_length tag"
  have n: "n \<le> 120" by (simp add: n_def tag_def message_length)
  obtain s1 where s1: "granted_extra_caps grnt a sb tag s = Some s1"
    and f1: "extra_frame s s1" "\<not> grnt \<Longrightarrow> excapref 0 s1 = NULL"
    and lk: "\<And>k. k < 3 \<Longrightarrow> (\<And>j. j \<le> k \<Longrightarrow> excapref j s1 \<noteq> NULL) \<Longrightarrow> \<exists>w. lookupSlot a w s = Some (Inr (excapref k s1))"
    using granted_extra_caps_spec [OF assms(1), of grnt a sb tag] by blast
  note e1 = extra_frame_eq [OF f1(1)]
  have t1: "tcbs s1 = tcbs s" "mem s1 = mem s" "ctes s1 = ctes s"
    using arg_cong [OF e1, of tcbs] arg_cong [OF e1, of mem] arg_cong [OF e1, of ctes] by simp_all
  obtain C M where c: "copyMRs a sb r rb n s1 = (k, (upd_tcb r (tcbContext_update (\<lambda>_. C)) s1)\<lparr>mem := M\<rparr>)"
    and C: "\<And>j. j < min (unat k) 4 \<Longrightarrow> C (msgRegisters ! j) = tcbContext (tcbs s a) (msgRegisters ! j)"
    and M: "\<And>j. 4 \<le> j \<Longrightarrow> j < unat k \<Longrightarrow> M (rb + 8 * of_nat (j + 1)) = mem s (sb + 8 * of_nat (j + 1))"
    using copyMRs_spec [OF assms(2) n assms(3), of s1] unfolding k_def n_def t1 by metis
  define s2 where "s2 = (upd_tcb r (tcbContext_update (\<lambda>_. C)) s1)\<lparr>mem := M\<rparr>"
  have f2: "ctes s2 = ctes s" "excapref j s2 = excapref j s1" for j by (simp_all add: s2_def t1 excapref_def upd_tcb_def)
  have "cspace_ok s2" using assms(1) by (simp add: cspace_ok_def f2)
  then obtain tag' s3 d where s3: "transferCaps tag ep r rb s2 = Some (tag', s3)" and b3: "badge_words_only rb s2 s3"
    and l3: "seL4_MessageInfo_get_label tag' = seL4_MessageInfo_get_label tag" "seL4_MessageInfo_get_extraCaps tag' \<le> 3"
    and z3: "excapref 0 s2 = NULL \<longrightarrow> s3 = s2"
    and d: "d \<noteq> NULL \<longrightarrow> cteCap (ctes s2 d) = NullCap" "one_cap_inserted 0 d s2 s3"
    using transferCaps_spec [of s2 tag ep r rb] by blast
  have t3: "tcbs s3 = tcbs s2" using arg_cong [OF conjunct1 [OF b3 [unfolded badge_words_only_def]], of tcbs] by simp
  define s4 where "s4 = setRegister r msgInfoRegister (seL4_MessageInfo_set_length tag' k) s3"
  define s' where "s' = setRegister r badgeRegister badge s4"
  have k: "unat k \<le> unat n" "k \<le> 120" using n by (auto simp: k_def n_def min_def word_le_nat_alt)
  have "doNormalTransfer a sb ep badge grnt r rb s = Some s'"
    unfolding doNormalTransfer_def tag_def [symmetric] Let_def s1
    using c s3 unfolding s2_def [symmetric] by (simp add: n_def s4_def s'_def wordFromMessageInfo_def)
  moreover have "ipc_core r s s'"
  proof -
    have "ipc_core r s (s\<lparr>current_fault := current_fault s1, current_extra_caps := current_extra_caps s1\<rparr>)"
      by (rule ipc_core_trans [of _ _ "s\<lparr>current_fault := current_fault s1\<rparr>"]; simp)
    also note e1 [symmetric]
    also have "ipc_core r s1 s2" unfolding s2_def by (rule ipc_core_trans [of _ _ "upd_tcb r (tcbContext_update (\<lambda>_. C)) s1"]; simp)
    also have "ipc_core r s2 (s2\<lparr>ctes := ctes s3, mem := mem s3\<rparr>)"
      by (rule ipc_core_trans [of _ _ "s2\<lparr>ctes := ctes s3\<rparr>"]; simp)
    also have "s2\<lparr>ctes := ctes s3, mem := mem s3\<rparr> = s3" using b3 by (simp add: badge_words_only_def)
    also have "ipc_core r s3 s4" by (simp add: s4_def)
    also have "ipc_core r s4 s'" by (simp add: s'_def)
    finally show ?thesis .
  qed
  moreover have "message_word r rb i s' = message_word a sb i s" if i: "i < unat k" for i
  proof (cases "i < 4")
    case True
    have "msgRegisters ! i \<in> set msgRegisters" using True msgRegisters_facts(2) by simp
    then have "msgRegisters ! i \<noteq> badgeRegister" "msgRegisters ! i \<noteq> msgInfoRegister"
      by (auto simp: msgRegisters_def badgeRegister_def msgInfoRegister_def)
    moreover have "tcbs s3 = tcbs s2" using t3 .
    ultimately show ?thesis using True i C [of i]
      by (simp add: message_word_def s'_def s4_def getRegister_def setRegister_def s2_def)
  next
    case False
    have "rb + 8 * of_nat (i + 1) \<noteq> rb + 8 * (122 + of_nat j)" if "j < 3" for j
      using word_index_inj [of "i + 1" "122 + j"] i k that n by (simp add: word_le_nat_alt)
    then have "mem s3 (rb + 8 * of_nat (i + 1)) = mem s2 (rb + 8 * of_nat (i + 1))"
      using b3 unfolding badge_words_only_def by blast
    then show ?thesis using False i M [of i] by (simp add: message_word_def s'_def s4_def load_def s2_def)
  qed
  moreover have "k AND 0x7f = k" using k(2) by (rule length_fits)
  moreover have "ctes s' = ctes s \<or> grnt \<and> one_cap_sent a s s'"
  proof (cases "ctes s3 = ctes s2")
    case False
    then have g: grnt using z3 f1(2) f2(2) by metis
    obtain i c where i: "i < 3" "d \<noteq> NULL" "\<And>j. j \<le> i \<Longrightarrow> excapref j s1 \<noteq> NULL" "c \<noteq> NullCap"
      "cap_le c (cteCap (ctes s (excapref i s1)))" "ctes s3 = ctes (cteInsert c (excapref i s1) d s2)"
      using d(2) False by (auto simp: one_cap_inserted_def f2)
    obtain w where w: "lookupSlot a w s = Some (Inr (excapref i s1))" using lk [OF i(1)] i(3) by blast
    have "ctes s' = ctes (cteInsert c (excapref i s1) d s)"
      using i(6) ctes_cteInsert_cong [OF f2(1)] by (simp add: s'_def s4_def)
    then have "one_cap_sent a s s'" unfolding one_cap_sent_def
      using w i(2,4,5) i(3) [of i] d(1) f2(1)
      by (intro exI [of _ w] exI [of _ "excapref i s1"] exI [of _ c] exI [of _ d]) simp
    then show ?thesis using g by blast
  qed (simp add: s'_def s4_def f2)
  ultimately show ?thesis using l3
    by (intro exI [of _ s'])
      (simp add: s'_def s4_def set_info_keeps badgeRegister_def msgInfoRegister_def)
qed

text \<open>A message about a fault changes no capability slot.\<close>

definition msg_core :: "ptr \<Rightarrow> kstate \<Rightarrow> kstate \<Rightarrow> bool" where
  "msg_core r s s' \<longleftrightarrow> ipc_core r s s' \<and> ctes s' = ctes s"

lemma msg_core_trans [trans]: "msg_core r s s' \<Longrightarrow> msg_core r s' s'' \<Longrightarrow> msg_core r s s''"
  using ipc_core_trans by (auto simp: msg_core_def)

lemma msg_core_steps [simp]:
  "msg_core r s s" "msg_core r s (setRegister r q v s)" "msg_core r s (store p i v s)"
  "msg_core r s (upd_sc p (scConsumed_update g) s)"
  by (simp_all add: msg_core_def) (simp_all add: store_def)

lemma setMR_core [simp]: "msg_core r s (snd (setMR r b i v s))"
  by (simp add: setMR_def)

lemma setMR_coreI: "setMR r b i v s = (n, s') \<Longrightarrow> msg_core r s s'"
  by (metis setMR_core snd_conv)

lemma fold_core:
  assumes "msg_core r s0 s" "\<And>i s. msg_core r s (f i s)"
  shows "msg_core r s0 (fold f xs s)"
  using assms(1) by (induction xs arbitrary: s) (auto, metis msg_core_trans assms(2))

lemma copyMRsFault_core [simp]: "msg_core r s (copyMRsFault a r m len b s)"
  unfolding copyMRsFault_def Let_def
  by (auto intro!: fold_core)

lemma copyMRsFaultReply_core: "msg_core r s (copyMRsFaultReply a r m len s)"
  unfolding copyMRsFaultReply_def Let_def
  by (auto intro!: fold_core)

lemma setMRs_lookup_failure_core: "setMRs_lookup_failure r b luf i s = (n, s') \<Longrightarrow> msg_core r s s'"
  unfolding setMRs_lookup_failure_def Let_def
  by (cases luf) (auto split: prod.splits dest!: setMR_coreI intro: msg_core_trans)

lemma updateConsumed_core: "schedContext_updateConsumed sc s = (n, s') \<Longrightarrow> msg_core r s s'"
  by (auto simp: schedContext_updateConsumed_def Let_def split: if_splits)

lemma setMRs_fault_core:
  assumes "tcbFault (tcbs s a) \<noteq> NullFault"
  shows "\<exists>n s'. setMRs_fault a r b s = Some (n, s') \<and> msg_core r s s'"
proof -
  have "setMRs_fault a r b s \<noteq> None"
    using assms by (cases "tcbFault (tcbs s a)")
      (auto simp: setMRs_fault_def Let_def Arch_setMRs_fault_def split: prod.splits)
  then obtain n s' where r: "setMRs_fault a r b s = Some (n, s')" by auto
  have "msg_core r s s'"
    using r by (cases "tcbFault (tcbs s a)")
      (auto simp: setMRs_fault_def Let_def Arch_setMRs_fault_def mode_setTimeArg_def
        split: prod.splits if_splits dest!: setMR_coreI setMRs_lookup_failure_core updateConsumed_core [of _ s _ _ r]
        intro: msg_core_trans msg_core_trans [OF copyMRsFault_core])
  then show ?thesis using r by blast
qed

lemma new_info_label: "l < 16 \<Longrightarrow> seL4_MessageInfo_get_label (seL4_MessageInfo_new l 0 0 n) = l"
proof -
  assume l: "l < 16"
  have m: "mask 4 = (15 :: word64)" by (simp add: mask_eq_exp_minus_1)
  have "l \<le> 15" using l by (simp add: word_le_nat_alt word_less_nat_alt)
  then have "l = l AND mask 4" using le_mask_and [of l 4] unfolding m by simp
  moreover have "drop_bit 12 (push_bit 12 (l AND mask 4) OR n AND mask 7) = l AND mask 4"
    by (rule bit_eqI) (auto simp: bit_simps)
  ultimately show ?thesis
    unfolding seL4_MessageInfo_new_def seL4_MessageInfo_get_label_def info_masks by simp
qed

lemma fault_type_bound: "seL4_Fault_get_seL4_FaultType f < 16"
  by (cases f) simp_all

lemma doFaultTransfer_core:
  assumes "tcbFault (tcbs s a) \<noteq> NullFault"
  shows "\<exists>s'. doFaultTransfer badge a r b s = Some s' \<and> msg_core r s s'
    \<and> getRegister r badgeRegister s' = badge
    \<and> seL4_MessageInfo_get_label (getRegister r msgInfoRegister s') = seL4_Fault_get_seL4_FaultType (tcbFault (tcbs s a))"
proof -
  obtain n s1 where s1: "setMRs_fault a r b s = Some (n, s1)" "msg_core r s s1"
    using setMRs_fault_core [OF assms] by blast
  let ?s2 = "setRegister r msgInfoRegister (seL4_MessageInfo_new (seL4_Fault_get_seL4_FaultType (tcbFault (tcbs s a))) 0 0 n) s1"
  have "doFaultTransfer badge a r b s = Some (setRegister r badgeRegister badge ?s2)"
    using s1 ipc_core_tcb_fields(2) [of r s s1] by (simp add: doFaultTransfer_def Let_def wordFromMessageInfo_def msg_core_def)
  moreover have "msg_core r s (setRegister r badgeRegister badge ?s2)"
    by (rule msg_core_trans [OF s1(2)], rule msg_core_trans [of _ _ ?s2]) simp_all
  ultimately show ?thesis
    using new_info_label [OF fault_type_bound] by (simp add: badgeRegister_def msgInfoRegister_def)
qed

definition buffers_apart :: "ptr \<Rightarrow> ptr \<Rightarrow> kstate \<Rightarrow> bool" where
  "buffers_apart a r s \<longleftrightarrow> lookupIPCBuffer False a s \<noteq> NULL \<longrightarrow> lookupIPCBuffer True r s \<noteq> NULL \<longrightarrow>
     disjoint_buffers (lookupIPCBuffer False a s) (lookupIPCBuffer True r s)"

lemma doIPCTransfer_core:
  assumes "cspace_ok s" "a \<noteq> r" "buffers_apart a r s"
  shows "\<exists>s'. doIPCTransfer a ep badge grnt r s = Some s' \<and> ipc_core r s s' \<and> getRegister r badgeRegister s' = badge"
proof (cases "tcbFault (tcbs s a) = NullFault")
  case True
  then show ?thesis using doNormalTransfer_spec [OF assms(1,2) assms(3) [unfolded buffers_apart_def], of ep badge grnt]
    by (auto simp: doIPCTransfer_def Let_def)
next
  case False
  then show ?thesis using doFaultTransfer_core [OF False, of badge r "lookupIPCBuffer True r s"]
    by (auto simp: doIPCTransfer_def Let_def msg_core_def)
qed

section \<open>Properties of a transfer\<close>


lemma valid_mdb_ctes: "valid_mdb s \<Longrightarrow> ctes s' = ctes s \<Longrightarrow> valid_mdb s'"
proof -
  assume v: "valid_mdb s" and "ctes s' = ctes s"
  then have "cteNext s' = cteNext s" "ctePrev s' = ctePrev s" by (simp_all add: fun_eq_iff cteNext_def ctePrev_def)
  then show ?thesis using v by (simp add: valid_mdb_def mdb_list_def)
qed

lemma cap_le_Null: "cap_le c NullCap \<Longrightarrow> c = NullCap"
  by (cases c) simp_all


section \<open>Fault messages and their replies\<close>

text \<open>A loop that assigns a list of distinct registers of one thread from values that do not depend on them.\<close>

lemma set_regs_fold:
  fixes m n :: nat and s :: kstate
  assumes "\<And>i s q v. g i (setRegister t q v s) = g i s" "distinct R" "n \<le> length R"
  defines "s' \<equiv> fold (\<lambda>i s. setRegister t (R ! i) (g i s) s) [m..<n] s"
  shows "(\<forall>i. m \<le> i \<longrightarrow> i < n \<longrightarrow> getRegister t (R ! i) s' = g i s)
    \<and> (\<forall>q. (\<forall>i. m \<le> i \<longrightarrow> i < n \<longrightarrow> q \<noteq> R ! i) \<longrightarrow> getRegister t q s' = getRegister t q s)
    \<and> (\<forall>u. u \<noteq> t \<longrightarrow> tcbs s' u = tcbs s u) \<and> mem s' = mem s \<and> (\<forall>i. g i s' = g i s)"
  using assms(3) unfolding s'_def
proof (induction n)
  case 0
  then show ?case by simp
next
  case (Suc n)
  show ?case
  proof (cases "m \<le> n")
    case False
    then show ?thesis by simp
  next
    case True
    let ?s = "fold (\<lambda>i s. setRegister t (R ! i) (g i s) s) [m..<n] s"
    have ih: "\<And>i. m \<le> i \<Longrightarrow> i < n \<Longrightarrow> getRegister t (R ! i) ?s = g i s"
      "\<And>q. (\<And>i. m \<le> i \<Longrightarrow> i < n \<Longrightarrow> q \<noteq> R ! i) \<Longrightarrow> getRegister t q ?s = getRegister t q s"
      "\<And>u. u \<noteq> t \<Longrightarrow> tcbs ?s u = tcbs s u" "mem ?s = mem s" "\<And>i. g i ?s = g i s"
      using Suc by auto
    have d: "i < n \<Longrightarrow> R ! i \<noteq> R ! n" for i using assms(2) Suc.prems by (simp add: nth_eq_iff_index_eq)
    have f: "fold (\<lambda>i s. setRegister t (R ! i) (g i s) s) [m..<Suc n] s = setRegister t (R ! n) (g n s) ?s"
      using True ih(5) by simp
    have "tcbs (setRegister t (R ! n) v ?s) u = tcbs ?s u" if "u \<noteq> t" for u v using that by (simp add: setRegister_def)
    then show ?thesis unfolding f using ih d True by (auto simp: assms(1) less_Suc_eq)
  qed
qed

lemma store_fold:
  fixes m n :: nat and s :: kstate
  assumes "\<And>i s q v. g i (store b q v s) = g i s" "n < 900"
  defines "s' \<equiv> fold (\<lambda>i s. store b (of_nat i + 1) (g i s) s) [m..<n] s"
  shows "(\<forall>i. m \<le> i \<longrightarrow> i < n \<longrightarrow> load b (of_nat i + 1) s' = g i s) \<and> tcbs s' = tcbs s \<and> ctes s' = ctes s \<and> (\<forall>i. g i s' = g i s)"
  using assms(2) unfolding s'_def
proof (induction n)
  case 0
  then show ?case by simp
next
  case (Suc n)
  show ?case
  proof (cases "m \<le> n")
    case False
    then show ?thesis by simp
  next
    case True
    let ?s = "fold (\<lambda>i s. store b (of_nat i + 1) (g i s) s) [m..<n] s"
    have ih: "\<And>i. m \<le> i \<Longrightarrow> i < n \<Longrightarrow> load b (of_nat i + 1) ?s = g i s" "tcbs ?s = tcbs s" "ctes ?s = ctes s" "\<And>i. g i ?s = g i s"
      using Suc by auto
    have d: "b + 8 * (of_nat i + 1) \<noteq> b + 8 * (of_nat n + 1)" if "i < n" for i
      using word_index_inj [of "i + 1" "n + 1"] that Suc.prems by (simp add: algebra_simps)
    have f: "fold (\<lambda>i s. store b (of_nat i + 1) (g i s) s) [m..<Suc n] s = store b (of_nat n + 1) (g n s) ?s"
      using True ih(4) by simp
    have "load b (of_nat i + 1) (store b (of_nat n + 1) (g n s) ?s) = g i s" if "m \<le> i" "i < Suc n" for i
      using ih(1) [of i] d [of i] that by (cases "i = n") (auto simp: load_def store_def)
    moreover have "tcbs (store b (of_nat n + 1) (g n s) ?s) = tcbs s" "ctes (store b (of_nat n + 1) (g n s) ?s) = ctes s"
      using ih(2,3) by (simp_all add: store_def)
    ultimately show ?thesis unfolding f using ih(4) by (simp add: assms(1))
  qed
qed

lemma fault_messages_facts:
  "distinct (fault_messages m)" "length (fault_messages m) \<le> 32" "length (fault_messages MessageID_Syscall) = 10"
  by (cases m; simp add: SYSCALL_MESSAGE_def EXCEPTION_MESSAGE_def TIMEOUT_REPLY_MESSAGE_def FaultIP_def SP_def LR_def)+

lemma copyMRsFault_words:
  fixes s :: kstate
  assumes "t \<noteq> h" "unat len \<le> length (fault_messages m)" "buf \<noteq> NULL"
  defines "s' \<equiv> copyMRsFault t h m len buf s"
  shows "(\<forall>i < unat len. message_word h buf i s' = getRegister t (fault_messages m ! i) s) \<and> tcbs s' t = tcbs s t"
proof -
  let ?g = "\<lambda>i s. getRegister t (fault_messages m ! i) s"
  define n where "n = unat (min len n_msgRegisters)"
  define s1 where "s1 = fold (\<lambda>i s. setRegister h (msgRegisters ! i) (?g i s) s) [0..<n] s"
  have n: "n = min (unat len) 4" by (simp add: n_def n_msgRegisters_def min_def word_le_nat_alt)
  have s1: "\<And>i. i < n \<Longrightarrow> getRegister h (msgRegisters ! i) s1 = ?g i s" "tcbs s1 t = tcbs s t" "\<And>i. ?g i s1 = ?g i s"
    using set_regs_fold [of ?g h msgRegisters n 0 s] assms(1) n msgRegisters_facts unfolding s1_def by auto
  have s': "s' = fold (\<lambda>i s. store buf (of_nat i + 1) (?g i s) s) [n..<unat len] s1"
    using assms(3) by (simp add: s'_def copyMRsFault_def Let_def n_def s1_def)
  have "unat len < 900" using assms(2) fault_messages_facts(2) [of m] by simp
  then have w: "\<And>i. n \<le> i \<Longrightarrow> i < unat len \<Longrightarrow> load buf (of_nat i + 1) s' = ?g i s" "tcbs s' = tcbs s1"
    using store_fold [of ?g buf "unat len" n s1] s1(3) unfolding s' by (auto simp: getRegister_def store_def)
  have "message_word h buf i s' = ?g i s" if "i < unat len" for i
    using w s1(1) [of i] that n by (cases "i < 4") (auto simp: message_word_def getRegister_def ac_simps)
  then show ?thesis using w(2) s1(2) by simp
qed

lemma copyMRsFaultReply_regs:
  fixes s :: kstate
  assumes "t \<noteq> h" "unat len \<le> length (fault_messages m)" "buf = lookupIPCBuffer False h s" "buf \<noteq> NULL"
  defines "s' \<equiv> copyMRsFaultReply h t m len s"
  shows "(\<forall>i < unat len. getRegister t (fault_messages m ! i) s' = message_word h buf i s)
    \<and> (\<forall>q. q \<notin> set (take (unat len) (fault_messages m)) \<longrightarrow> getRegister t q s' = getRegister t q s)"
proof -
  let ?R = "fault_messages m"
  let ?g = "\<lambda>i s. getRegister h (msgRegisters ! i) s"
  let ?l = "\<lambda>i s. load buf (of_nat i + 1) s"
  define n where "n = unat (min len n_msgRegisters)"
  define s1 where "s1 = fold (\<lambda>i s. setRegister t (?R ! i) (?g i s) s) [0..<n] s"
  have n: "n = min (unat len) 4" by (simp add: n_def n_msgRegisters_def min_def word_le_nat_alt)
  have s1: "\<And>i. i < n \<Longrightarrow> getRegister t (?R ! i) s1 = ?g i s" "mem s1 = mem s"
    "\<And>q. (\<And>i. i < n \<Longrightarrow> q \<noteq> ?R ! i) \<Longrightarrow> getRegister t q s1 = getRegister t q s"
    using set_regs_fold [of ?g t ?R n 0 s] assms(1,2) n fault_messages_facts(1) unfolding s1_def by auto
  have core: "ipc_core t s s1 \<and> ctes s1 = ctes s"
    unfolding s1_def using fold_core [of t s s "\<lambda>i s. setRegister t (?R ! i) (?g i s) s" "[0..<n]"] by (simp add: msg_core_def)
  then have b: "lookupIPCBuffer False h s1 = buf"
    using assms(3) ipc_core_tcb_fields(11) [of t s s1 h] by (simp add: lookupIPCBuffer_def)
  have lt: "of_nat n < len \<longleftrightarrow> n < unat len" unfolding n_def by (simp add: word_less_nat_alt)
  have s': "s' = fold (\<lambda>i s. setRegister t (?R ! i) (?l i s) s) [n..<unat len] s1"
    using assms(4) b lt unfolding s'_def copyMRsFaultReply_def Let_def n_def [symmetric] sanitiseRegister_def s1_def [symmetric]
    by auto
  have l: "?l i (setRegister t q v s) = ?l i s" for i q v s by (simp add: load_def)
  note f = set_regs_fold [of ?l t ?R "unat len" n s1, OF l fault_messages_facts(1) assms(2), folded s']
  have "getRegister t (?R ! i) s' = message_word h buf i s" if i: "i < unat len" for i
  proof (cases "i < n")
    case True
    have "?R ! i \<noteq> ?R ! j" if "n \<le> j" "j < unat len" for j
      using that True assms(2) fault_messages_facts(1) [of m] by (simp add: nth_eq_iff_index_eq)
    then show ?thesis using f s1(1) [OF True] True n by (simp add: message_word_def)
  next
    case False
    then show ?thesis using f i n s1(2) by (simp add: message_word_def load_def ac_simps)
  qed
  moreover have "getRegister t q s' = getRegister t q s" if q: "q \<notin> set (take (unat len) ?R)" for q
  proof -
    have "q \<noteq> ?R ! i" if "i < unat len" for i
      using q that assms(2) by (auto simp: in_set_conv_nth)
    then show ?thesis using f s1(3) [of q] n by simp
  qed
  ultimately show ?thesis by blast
qed



section \<open>Concrete transfers\<close>

text \<open>
  Thread 1024 sends two words with label 5; in the other state it has faulted and thread 2048 has a buffer at address 65536.
\<close>

definition example_send :: kstate where
  "example_send = upd_tcb 1024 (tcbContext_update (\<lambda>c. c(10 := 0x5002, 11 := 7, 12 := 8))) kstate0"

definition example_fault :: kstate where
  "example_fault = upd_tcb 1024 (tcbFault_update (\<lambda>_. UnknownSyscall 42))
     (set_cap (TCB_PTR_CTE_PTR 2048 tcbBuffer) (FrameCap 0 65536 0 VMReadWrite False 0) kstate0)"

lemma example_send_facts:
  "cspace_ok example_send" "buffers_apart 1024 2048 example_send" "tcbFault (tcbs example_send 1024) = NullFault"
  "lookupIPCBuffer isr t example_send = NULL" "valid_mdb example_send" "mdb_list [p] example_send \<longleftrightarrow> p \<noteq> NULL"
proof -
  have c: "ctes example_send = ctes kstate0" by (simp add: example_send_def)
  show "cspace_ok example_send" unfolding cspace_ok_def c by (simp add: kstate0_def nullMDBNode_def cnode_ok_def)
  show b: "lookupIPCBuffer isr t example_send = NULL" for isr t
    unfolding lookupIPCBuffer_def c by (simp add: kstate0_def nullMDBNode_def)
  then show "buffers_apart 1024 2048 example_send" by (simp add: buffers_apart_def)
  show "tcbFault (tcbs example_send 1024) = NullFault" by (simp add: example_send_def kstate0_def tcb0_def)
  have "ctes (set_cap 32 NullCap kstate0) = ctes kstate0" by (auto simp: set_cap_def upd_cte_def kstate0_def nullMDBNode_def)
  then show "valid_mdb example_send" using valid_mdb_ctes [OF kstate0_valid_mdb, of example_send 32 NullCap] c by simp
  have "cteNext example_send = (\<lambda>_. NULL)" "ctePrev example_send = (\<lambda>_. NULL)"
    using c by (simp_all add: cteNext_def ctePrev_def fun_eq_iff kstate0_def nullMDBNode_def)
  then show "mdb_list [p] example_send \<longleftrightarrow> p \<noteq> NULL" by simp
qed




end
