(* ===== verification/Endpoint.thy ===== *)
theory Endpoint
  imports IpcTransfer
begin

text \<open>
  Endpoints, \<^verbatim>\<open>src/kernel/object/endpoint.c\<close>: sending and receiving, with donation of scheduling contexts and reply
  objects, and cancelling all or some of the blocked threads. The cancellation of one thread is in theory
  \<open>Notification\<close>.

  The theorems: an endpoint is idle exactly when its queue is empty and every operation keeps that, a message meets a waiting partner in
  queue order and otherwise joins the queue at its priority, and cancelling restarts exactly the threads it should.
\<close>

section \<open>Sending and receiving\<close>

text \<open>The end of a send to a waiting receiver: replies, donation, and waking the receiver.\<close>

definition sendIPC_received :: "bool \<Rightarrow> bool \<Rightarrow> bool \<Rightarrow> bool \<Rightarrow> ptr \<Rightarrow> ptr \<Rightarrow> kstate \<Rightarrow> kstate option" where
  "sendIPC_received do_call canGrant canGrantReply canDonate thread dest s = do {
     let rply = replyObject (tcbState (tcbs s dest));
     let s = (if rply \<noteq> NULL then reply_unlink rply dest s else s);
     let s = (if do_call \<or> tcbFault (tcbs s thread) \<noteq> NullFault
              then if rply \<noteq> NULL \<and> (canGrant \<or> canGrantReply)
                   then reply_push thread dest rply canDonate s
                   else setThreadState thread ThreadState_Inactive s
              else if canDonate \<and> tcbSchedContext (tcbs s dest) = NULL
              then schedContext_donate (tcbSchedContext (tcbs s thread)) dest s
              else s);
     let s = setThreadState dest ThreadState_Running s;
     s \<leftarrow> unblock_sporadic (tcbSchedContext (tcbs s dest)) s;
     Some (possibleSwitchTo dest s)
   }"

definition sendIPC ::
  "bool \<Rightarrow> bool \<Rightarrow> word64 \<Rightarrow> bool \<Rightarrow> bool \<Rightarrow> bool \<Rightarrow> ptr \<Rightarrow> ptr \<Rightarrow> kstate \<Rightarrow> kstate option" where
  "sendIPC blocking do_call badge canGrant canGrantReply canDonate thread epptr s =
     (let send =
        (if blocking
         then do {
           let s = upd_ts thread (tsType_update (\<lambda>_. ThreadState_BlockedOnSend)) s;
           let s = upd_ts thread (blockingObject_update (\<lambda>_. epptr)) s;
           let s = upd_ts thread (blockingIPCBadge_update (\<lambda>_. badge)) s;
           let s = upd_ts thread (blockingIPCCanGrant_update (\<lambda>_. canGrant)) s;
           let s = upd_ts thread (blockingIPCCanGrantReply_update (\<lambda>_. canGrantReply)) s;
           let s = upd_ts thread (blockingIPCIsCall_update (\<lambda>_. do_call)) s;
           let s = scheduleTCB thread s;
           let queue = ep_ptr_get_queue epptr s;
           (queue, s) \<leftarrow> tcbEPAppend thread queue s;
           let s = endpoint_ptr_set_state epptr EPState_Send s;
           Some (ep_ptr_set_queue epptr queue s)
         }
         else Some s)
      in case epState (eps s epptr) of
           EPState_Idle \<Rightarrow> send
         | EPState_Send \<Rightarrow> send
         | EPState_Recv \<Rightarrow> do {
             let queue = ep_ptr_get_queue epptr s;
             let dest = head queue;
             let (queue, s) = tcbEPDequeue dest queue s;
             let s = ep_ptr_set_queue epptr queue s;
             let s = (if head queue = NULL then endpoint_ptr_set_state epptr EPState_Idle s else s);
             s \<leftarrow> doIPCTransfer thread epptr badge canGrant dest s;
             sendIPC_received do_call canGrant canGrantReply canDonate thread dest s
           })"

text \<open>The end of a receive from a blocked sender.\<close>

definition receiveIPC_sent :: "bool \<Rightarrow> bool \<Rightarrow> ptr \<Rightarrow> ptr \<Rightarrow> ptr \<Rightarrow> kstate \<Rightarrow> kstate option" where
  "receiveIPC_sent canGrant canGrantReply replyPtr sender thread s = do {
     let do_call = blockingIPCIsCall (tcbState (tcbs s sender));
     s \<leftarrow> unblock_sporadic (tcbSchedContext (tcbs s sender)) s;
     Some (if do_call \<or> tcbFault (tcbs s sender) \<noteq> NullFault
           then if (canGrant \<or> canGrantReply) \<and> replyPtr \<noteq> NULL
                then let canDonate = tcbSchedContext (tcbs s sender) \<noteq> NULL
                           \<and> \<not> is_TimeoutFault (tcbFault (tcbs s sender))
                     in reply_push sender thread replyPtr canDonate s
                else setThreadState sender ThreadState_Inactive s
           else let s = setThreadState sender ThreadState_Running s
                in possibleSwitchTo sender s)
   }"

definition receiveIPC :: "ptr \<Rightarrow> cap \<Rightarrow> bool \<Rightarrow> cap \<Rightarrow> kstate \<Rightarrow> kstate option" where
  "receiveIPC thread cap isBlocking replyCap s =
     (let epptr = capEPPtr cap;
          replyPtr = (case replyCap of ReplyCap p _ \<Rightarrow> p | _ \<Rightarrow> NULL);
          s = (if is_ReplyCap replyCap
               then let reply_tcb = replyTCB (replies s replyPtr)
                    in if reply_tcb \<noteq> NULL \<and> reply_tcb \<noteq> thread then cancelIPC reply_tcb s else s
               else s);
          ntfnPtr = tcbBoundNotification (tcbs s thread)
      in if ntfnPtr \<noteq> NULL \<and> ntfnState (ntfns s ntfnPtr) = NtfnState_Active then completeSignal ntfnPtr thread s
         else
           let s = (if ntfnPtr \<noteq> NULL \<and> isBlocking then maybeReturnSchedContext ntfnPtr thread s else s);
               wait =
                 (if isBlocking
                  then do {
                    let s = upd_ts thread (tsType_update (\<lambda>_. ThreadState_BlockedOnReceive)) s;
                    let s = upd_ts thread (blockingObject_update (\<lambda>_. epptr)) s;
                    let s = upd_ts thread (replyObject_update (\<lambda>_. replyPtr)) s;
                    let s = scheduleTCB thread s;
                    let s = (if replyPtr \<noteq> NULL then upd_reply replyPtr (replyTCB_update (\<lambda>_. thread)) s else s);
                    let queue = ep_ptr_get_queue epptr s;
                    (queue, s) \<leftarrow> tcbEPAppend thread queue s;
                    let s = endpoint_ptr_set_state epptr EPState_Recv s;
                    Some (ep_ptr_set_queue epptr queue s)
                  }
                  else Some (doNBRecvFailedTransfer thread s))
           in case epState (eps s epptr) of
                EPState_Idle \<Rightarrow> wait
              | EPState_Recv \<Rightarrow> wait
              | EPState_Send \<Rightarrow> do {
                  let queue = ep_ptr_get_queue epptr s;
                  let sender = head queue;
                  let (queue, s) = tcbEPDequeue sender queue s;
                  let s = ep_ptr_set_queue epptr queue s;
                  let s = (if head queue = NULL then endpoint_ptr_set_state epptr EPState_Idle s else s);
                  let badge = blockingIPCBadge (tcbState (tcbs s sender));
                  let canGrant = blockingIPCCanGrant (tcbState (tcbs s sender));
                  let canGrantReply = blockingIPCCanGrantReply (tcbState (tcbs s sender));
                  s \<leftarrow> doIPCTransfer sender epptr badge canGrant thread s;
                  receiveIPC_sent canGrant canGrantReply replyPtr sender thread s
                })"

section \<open>Cancelling\<close>

definition restart_thread_if_no_fault :: "ptr \<Rightarrow> kstate \<Rightarrow> kstate option" where
  "restart_thread_if_no_fault thread s =
     (if tcbFault (tcbs s thread) = NullFault
      then do {
        let s = setThreadState thread ThreadState_Restart s;
        s \<leftarrow> unblock_sporadic (tcbSchedContext (tcbs s thread)) s;
        Some (possibleSwitchTo thread s)
      }
      else Some (setThreadState thread ThreadState_Inactive s))"

partial_function (option) cancelAllIPC_loop :: "ptr \<Rightarrow> kstate \<Rightarrow> kstate option" where
  [code]: "cancelAllIPC_loop thread s =
     (if thread = NULL then Some s
      else do {
        let s = (if tsType (tcbState (tcbs s thread)) = ThreadState_BlockedOnReceive
                 then let rply = replyObject (tcbState (tcbs s thread))
                      in if rply \<noteq> NULL then reply_unlink rply thread s else s
                 else s);
        s \<leftarrow> restart_thread_if_no_fault thread s;
        cancelAllIPC_loop (epNext s thread) s
      })"

definition cancelAllIPC :: "ptr \<Rightarrow> kstate \<Rightarrow> kstate option" where
  "cancelAllIPC epptr s =
     (if epState (eps s epptr) = EPState_Idle then Some s
      else do {
        let thread = epQueue_head (eps s epptr);
        let s = endpoint_ptr_set_state epptr EPState_Idle s;
        let s = upd_ep epptr (epQueue_head_update (\<lambda>_. 0)) s;
        let s = upd_ep epptr (epQueue_tail_update (\<lambda>_. 0)) s;
        s \<leftarrow> cancelAllIPC_loop thread s;
        Some (rescheduleRequired s)
      })"

partial_function (option) cancelBadgedSends_loop ::
  "ptr \<Rightarrow> word64 \<Rightarrow> tcb_queue \<Rightarrow> kstate \<Rightarrow> (tcb_queue \<times> kstate) option" where
  [code]: "cancelBadgedSends_loop thread badge queue s =
     (if thread = NULL then Some (queue, s)
      else do {
        let b = blockingIPCBadge (tcbState (tcbs s thread));
        let next = epNext s thread;
        (queue, s) \<leftarrow> (if b = badge
          then do {
            s \<leftarrow> restart_thread_if_no_fault thread s;
            Some (tcbEPDequeue thread queue s)
          }
          else Some (queue, s));
        cancelBadgedSends_loop next badge queue s
      })"

definition cancelBadgedSends :: "ptr \<Rightarrow> word64 \<Rightarrow> kstate \<Rightarrow> kstate option" where
  "cancelBadgedSends epptr badge s =
     (if epState (eps s epptr) = EPState_Send
      then do {
        let queue = ep_ptr_get_queue epptr s;
        let s = endpoint_ptr_set_state epptr EPState_Idle s;
        let s = upd_ep epptr (epQueue_head_update (\<lambda>_. 0)) s;
        let s = upd_ep epptr (epQueue_tail_update (\<lambda>_. 0)) s;
        (queue, s) \<leftarrow> cancelBadgedSends_loop (head queue) badge queue s;
        let s = ep_ptr_set_queue epptr queue s;
        let s = (if head queue \<noteq> NULL then endpoint_ptr_set_state epptr EPState_Send s else s);
        Some (rescheduleRequired s)
      }
      else Some s)"

definition reorderEP :: "ptr \<Rightarrow> ptr \<Rightarrow> kstate \<Rightarrow> kstate option" where
  "reorderEP epptr thread s = do {
     let queue = ep_ptr_get_queue epptr s;
     let (queue, s) = tcbEPDequeue thread queue s;
     (queue, s) \<leftarrow> tcbEPAppend thread queue s;
     Some (ep_ptr_set_queue epptr queue s)
   }"

section \<open>What the operations on thread states and bindings leave alone\<close>

text \<open>
  The parts of the state that blocking, waking, replying and donating keep: endpoints and notifications, the links of
  their queues, user registers and memory, capabilities and the rings of refills.
\<close>

definition ipc_view :: "kstate \<Rightarrow> (ptr \<Rightarrow> endpoint) \<times> (ptr \<Rightarrow> notification) \<times> (ptr \<Rightarrow> ptr \<times> ptr \<times> fault \<times> word64 \<times> (reg \<Rightarrow> word64))
    \<times> (ptr \<Rightarrow> word64 \<Rightarrow> refill) \<times> (ptr \<Rightarrow> bool \<times> word64 \<times> word64 \<times> word64) \<times> (ptr \<Rightarrow> cte) \<times> (ptr \<Rightarrow> word64)" where
  "ipc_view s = (eps s, ntfns s,
     \<lambda>t. (tcbEPNext (tcbs s t), tcbEPPrev (tcbs s t), tcbFault (tcbs s t), tcbPriority (tcbs s t), tcbContext (tcbs s t)),
     refills s, \<lambda>c. (scSporadic (scs s c), scRefillMax (scs s c), scRefillHead (scs s c), scRefillTail (scs s c)), ctes s, mem s)"

lemma ipc_view_queue [simp]:
  "ipc_view (tcbSchedEnqueue t s) = ipc_view s" "ipc_view (tcbSchedDequeue t s) = ipc_view s"
  "ipc_view (tcbReleaseRemove t s) = ipc_view s" "ipc_view (rescheduleRequired s) = ipc_view s"
  "ipc_view (possibleSwitchTo t s) = ipc_view s" "ipc_view (scheduleTCB t s) = ipc_view s"
  by (simp_all add: ipc_view_def)

lemma ipc_view_ops [simp]:
  "ipc_view (upd_ts t f s) = ipc_view s" "ipc_view (upd_reply p g s) = ipc_view s"
  "ipc_view (upd_tcb t (tcbSchedContext_update h) s) = ipc_view s" "ipc_view (upd_sc c (scTcb_update h) s) = ipc_view s"
  "ipc_view (upd_sc c (scReply_update h) s) = ipc_view s"
  by (auto simp: ipc_view_def upd_ts_def upd_reply_def fun_eq_iff) (simp_all add: upd_sc_def)

lemma ipc_view_thread [simp]:
  "ipc_view (setThreadState t ts s) = ipc_view s" "ipc_view (setThreadStateBlockedOnReply t r s) = ipc_view s"
  "ipc_view (schedContext_donate c t s) = ipc_view s" "ipc_view (reply_unlink r t s) = ipc_view s"
  "ipc_view (reply_push a b r d s) = ipc_view s"
proof -
  show st: "ipc_view (setThreadState t ts s) = ipc_view s" for t ts s by (simp add: setThreadState_def)
  show sr: "ipc_view (setThreadStateBlockedOnReply t r s) = ipc_view s" for t r s by (simp add: setThreadStateBlockedOnReply_def Let_def)
  show d: "ipc_view (schedContext_donate c t s) = ipc_view s" for c t s by (simp add: schedContext_donate_def Let_def)
  show "ipc_view (reply_unlink r t s) = ipc_view s" by (simp add: reply_unlink_def Let_def st)
  show "ipc_view (reply_push a b r d s) = ipc_view s" by (simp add: reply_push_def Let_def sr d)
qed

lemma ipc_viewD:
  assumes "ipc_view s' = ipc_view s"
  shows "eps s' = eps s" "ntfns s' = ntfns s" "epNext s' = epNext s" "epPrev s' = epPrev s" "refills s' = refills s"
    "ctes s' = ctes s" "mem s' = mem s" "tcbFault (tcbs s' t) = tcbFault (tcbs s t)" "tcbPriority (tcbs s' t) = tcbPriority (tcbs s t)"
    "tcbContext (tcbs s' t) = tcbContext (tcbs s t)" "scSporadic (scs s' c) = scSporadic (scs s c)" "scRefillMax (scs s' c) = scRefillMax (scs s c)"
    "scRefillHead (scs s' c) = scRefillHead (scs s c)" "scRefillTail (scs s' c) = scRefillTail (scs s c)"
  using assms by (auto simp: ipc_view_def fun_eq_iff epNext_def epPrev_def)

text \<open>Every sporadic context has its ring of refills in good order.\<close>

definition rings_ok :: "kstate \<Rightarrow> bool" where
  "rings_ok s \<longleftrightarrow> (\<forall>c. sc_sporadic c s \<longrightarrow> good_ring c s)"

lemma good_ring_cong:
  assumes "refills s' c = refills s c" "scRefillMax (scs s' c) = scRefillMax (scs s c)"
    "scRefillHead (scs s' c) = scRefillHead (scs s c)" "scRefillTail (scs s' c) = scRefillTail (scs s c)"
  shows "good_ring c s' = good_ring c s"
  using assms by (simp add: good_ring_def refill_queue_def rslot_def)

lemma rings_ok_view: "ipc_view s' = ipc_view s \<Longrightarrow> rings_ok s \<Longrightarrow> rings_ok s'"
  unfolding rings_ok_def using ipc_viewD [of s' s] good_ring_cong [of s' _ s]
  by (simp add: sc_sporadic_def)

lemma unblock_sporadic_rings:
  assumes "rings_ok s"
  shows "\<exists>s'. unblock_sporadic c s = Some s' \<and> refill_core c s s' \<and> rings_ok s'"
proof (cases "sc_sporadic c s \<and> c \<noteq> ksCurSC s")
  case False
  then show ?thesis using assms refill_core_refl by (auto simp: unblock_sporadic_def)
next
  case True
  then obtain s' where s': "refill_unblock_check c s = Some s'" "refill_core c s s'" "good_ring c s'"
    using refill_unblock_check_total assms by (metis rings_ok_def)
  have "good_ring d s'" if "sc_sporadic d s'" for d
  proof (cases "d = c")
    case False
    have "sc_sporadic d s" using that s'(2) False by (auto simp: sc_sporadic_def refill_core_def)
    then have "good_ring d s" using assms by (simp add: rings_ok_def)
    then show ?thesis using good_ring_cong [of s' d s] s'(2) False by (auto simp: refill_core_def)
  qed (use s'(3) in simp)
  then show ?thesis using True s' by (auto simp: unblock_sporadic_def rings_ok_def)
qed

section \<open>The endpoint as a queue of threads\<close>

text \<open>
  \<open>ep_queue e xs s\<close>: the endpoint holds the threads \<open>xs\<close>, linked both ways, and is idle exactly when there are none.
\<close>

definition ep_queue :: "ptr \<Rightarrow> ptr list \<Rightarrow> kstate \<Rightarrow> bool" where
  "ep_queue e xs s \<longleftrightarrow> ep_list s (ep_ptr_get_queue e s) xs \<and> (epState (eps s e) = EPState_Idle \<longleftrightarrow> xs = [])"

lemma upd_ep_fields [simp]:
  "eps (upd_ep e f s) = (eps s)(e := f (eps s e))" "tcbs (upd_ep e f s) = tcbs s" "scs (upd_ep e f s) = scs s"
  "refills (upd_ep e f s) = refills s" "ctes (upd_ep e f s) = ctes s" "mem (upd_ep e f s) = mem s" "replies (upd_ep e f s) = replies s"
  "ntfns (upd_ep e f s) = ntfns s" "ksCurSC (upd_ep e f s) = ksCurSC s" "ksCurThread (upd_ep e f s) = ksCurThread s"
  "plat (upd_ep e f s) = plat s" "ksSchedulerAction (upd_ep e f s) = ksSchedulerAction s"
  "sched_ok (upd_ep e f s) = sched_ok s"
  by (auto simp: upd_ep_def elim!: sched_ok_parts)

lemma ep_links_upd_ep [simp]: "epNext (upd_ep e f s) = epNext s" "epPrev (upd_ep e f s) = epPrev s"
  by (simp_all add: epNext_def epPrev_def fun_eq_iff)

lemmas ep_ops = ep_ptr_set_queue_def ep_ptr_get_queue_def endpoint_ptr_set_state_def Let_def

lemma rings_ok_cong:
  assumes "refills s' = refills s" "scs s' = scs s"
  shows "rings_ok s' = rings_ok s"
  using assms good_ring_cong [of s' _ s] by (simp add: rings_ok_def sc_sporadic_def)

lemma ep_queue_view: "ipc_view s' = ipc_view s \<Longrightarrow> ep_queue e xs s' = ep_queue e xs s"
  using ipc_viewD [of s' s] by (simp add: ep_queue_def ep_ptr_get_queue_def)

text \<open>Joining the queue: the tail of a blocking send and of a blocking receive.\<close>

lemma ep_join:
  assumes "ep_queue e xs s" "t \<notin> set xs" "t \<noteq> NULL" "st \<noteq> EPState_Idle"
  shows "\<exists>q s1. tcbEPAppend t (ep_ptr_get_queue e s) s = Some (q, s1)
    \<and> ep_frame (insert t (set xs)) s s1
    \<and> ep_queue e (insert_by_prio (\<lambda>t. tcbPriority (tcbs s t)) t xs) (ep_ptr_set_queue e q (endpoint_ptr_set_state e st s1))
    \<and> epState (eps (ep_ptr_set_queue e q (endpoint_ptr_set_state e st s1)) e) = st"
proof -
  obtain q s1 where s1: "tcbEPAppend t (ep_ptr_get_queue e s) s = Some (q, s1)"
    "ep_list s1 q (insert_by_prio (\<lambda>t. tcbPriority (tcbs s t)) t xs)" "ep_frame (insert t (set xs)) s s1"
    using tcbEPAppend_list [of s "ep_ptr_get_queue e s" xs t] assms by (auto simp: ep_queue_def)
  moreover have "insert_by_prio f t xs \<noteq> []" for f by (simp add: insert_by_prio_def)
  ultimately show ?thesis using assms(4) by (auto simp: ep_queue_def ep_ops)
qed

lemma ep_frame_sched_ok: "ep_frame A s s' \<Longrightarrow> sched_ok s \<Longrightarrow> sched_ok s'"
  by (rule sched_ok_parts [of s]) (auto simp: ep_frame_def sched_part_def split: if_splits)

lemma ep_frame_fields:
  assumes "ep_frame A s s'"
  shows "eps s' = eps s" "ntfns s' = ntfns s" "scs s' = scs s" "refills s' = refills s" "replies s' = replies s" "ctes s' = ctes s"
    "mem s' = mem s" "tcbState (tcbs s' t) = tcbState (tcbs s t)" "tcbFault (tcbs s' t) = tcbFault (tcbs s t)"
    "tcbSchedContext (tcbs s' t) = tcbSchedContext (tcbs s t)" "tcbContext (tcbs s' t) = tcbContext (tcbs s t)"
    "tcbIPCBuffer (tcbs s' t) = tcbIPCBuffer (tcbs s t)" "ksCurSC s' = ksCurSC s" "tcbPriority (tcbs s' t) = tcbPriority (tcbs s t)"
    "tcbBoundNotification (tcbs s' t) = tcbBoundNotification (tcbs s t)" "tcbLookupFailure (tcbs s' t) = tcbLookupFailure (tcbs s t)"
  using assms by (auto simp: ep_frame_def)

text \<open>
  Leaving the queue at its head: the start of a rendezvous.
\<close>

definition ep_pop :: "ptr \<Rightarrow> kstate \<Rightarrow> kstate" where
  "ep_pop e s = (let (queue, s) = tcbEPDequeue (head (ep_ptr_get_queue e s)) (ep_ptr_get_queue e s) s;
       s = ep_ptr_set_queue e queue s
     in if head queue = NULL then endpoint_ptr_set_state e EPState_Idle s else s)"

lemma ep_pop_spec:
  assumes "ep_queue e (d # ds) s"
  defines "s' \<equiv> ep_pop e s"
  shows "head (ep_ptr_get_queue e s) = d \<and> d \<noteq> NULL \<and> d \<notin> set ds \<and> ep_queue e ds s'
    \<and> epState (eps s' e) = (if ds = [] then EPState_Idle else epState (eps s e))
    \<and> (\<exists>s1. ep_frame (set (d # ds)) s s1 \<and> tcbs s' = tcbs s1 \<and> (sched_ok s \<longrightarrow> sched_ok s') \<and> scs s' = scs s \<and> refills s' = refills s
        \<and> replies s' = replies s \<and> ctes s' = ctes s \<and> mem s' = mem s \<and> ntfns s' = ntfns s \<and> ksCurSC s' = ksCurSC s)"
proof -
  have l: "ep_list s (ep_ptr_get_queue e s) (d # ds)" using assms(1) by (simp add: ep_queue_def)
  have h: "head (ep_ptr_get_queue e s) = d" "d \<noteq> NULL" "d \<notin> set ds"
    using dlist_head [OF l] dlist_not_NULL [OF l, of d] dlist_distinct [OF l] by auto
  obtain q s1 where q: "tcbEPDequeue d (ep_ptr_get_queue e s) s = (q, s1)" by fastforce
  note L = tcbEPDequeue_list [of s "ep_ptr_get_queue e s" "[]" d ds, simplified, OF l q]
  have e: "head q = NULL \<longleftrightarrow> ds = []" using dlist_empty_iff [OF L(1)] .
  have s': "s' = (if ds = [] then endpoint_ptr_set_state e EPState_Idle (ep_ptr_set_queue e q s1) else ep_ptr_set_queue e q s1)"
    using h(1) q e by (simp add: s'_def ep_pop_def Let_def)
  have st: "epState (eps s e) \<noteq> EPState_Idle" using assms(1) by (simp add: ep_queue_def)
  have "ep_queue e ds s'" using L(1) st ep_frame_fields(1) [OF L(2)] by (auto simp: s' ep_queue_def ep_ops)
  moreover have "epState (eps s' e) = (if ds = [] then EPState_Idle else epState (eps s e))"
    using ep_frame_fields(1) [OF L(2)] by (simp add: s' ep_ops)
  moreover have "ep_frame (set (d # ds)) s s1" using L(2) by simp
  moreover have "sched_ok s \<longrightarrow> sched_ok s'" using ep_frame_sched_ok [OF L(2)] by (simp add: s' ep_ops)
  ultimately show ?thesis
    using h ep_frame_fields [OF L(2)] by (intro conjI exI [of _ s1]) (simp_all add: s' ep_ops)
qed

text \<open>
  The states in which two threads can exchange a message: lookups end, buffers do not overlap, rings of refills are in order and
  the scheduler's queues are consistent.
\<close>

definition ipc_ok :: "kstate \<Rightarrow> bool" where
  "ipc_ok s \<longleftrightarrow> cspace_ok s \<and> rings_ok s \<and> sched_ok s"

lemma buffers_apart_cong:
  assumes "ctes s' = ctes s" "tcbIPCBuffer (tcbs s' a) = tcbIPCBuffer (tcbs s a)" "tcbIPCBuffer (tcbs s' b) = tcbIPCBuffer (tcbs s b)"
  shows "buffers_apart a b s' = buffers_apart a b s"
  using assms by (simp add: buffers_apart_def lookupIPCBuffer_def)

lemma sched_ok_reply_push [simp]: "sched_ok s \<Longrightarrow> sched_ok (reply_push a b r d s)"
  by (simp add: reply_push_def Let_def donate_sched_ok)

lemma push_state:
  "tsType (tcbState (tcbs (reply_push a b r d s) t)) = (if t = a then ThreadState_BlockedOnReply else tsType (tcbState (tcbs s t)))"
  "replyTCB (replies (reply_push a b r d s) r) = a"
  by (auto simp: reply_push_def Let_def)

lemma sendIPC_queues:
  assumes "ep_queue e xs s" "epState (eps s e) \<noteq> EPState_Recv" "t \<notin> set xs" "t \<noteq> NULL" "sched_ok s"
  shows "sendIPC False call badge g gr d t e s = Some s
    \<and> (\<exists>s'. sendIPC True call badge g gr d t e s = Some s' \<and> sched_ok s' \<and> epState (eps s' e) = EPState_Send
      \<and> ep_queue e (insert_by_prio (\<lambda>u. tcbPriority (tcbs s u)) t xs) s'
      \<and> tsType (tcbState (tcbs s' t)) = ThreadState_BlockedOnSend \<and> blockingObject (tcbState (tcbs s' t)) = e
      \<and> blockingIPCBadge (tcbState (tcbs s' t)) = badge \<and> blockingIPCIsCall (tcbState (tcbs s' t)) = call
      \<and> (blockingIPCCanGrant (tcbState (tcbs s' t)) \<longleftrightarrow> g) \<and> (blockingIPCCanGrantReply (tcbState (tcbs s' t)) \<longleftrightarrow> gr)
      \<and> \<not> isSchedulable t s'
      \<and> (\<forall>u. tcbFault (tcbs s' u) = tcbFault (tcbs s u) \<and> tcbLookupFailure (tcbs s' u) = tcbLookupFailure (tcbs s u)))"
proof -
  define s0 where "s0 = scheduleTCB t (upd_ts t (blockingIPCIsCall_update (\<lambda>_. call)) (upd_ts t (blockingIPCCanGrantReply_update (\<lambda>_. gr))
    (upd_ts t (blockingIPCCanGrant_update (\<lambda>_. g)) (upd_ts t (blockingIPCBadge_update (\<lambda>_. badge))
    (upd_ts t (blockingObject_update (\<lambda>_. e)) (upd_ts t (tsType_update (\<lambda>_. ThreadState_BlockedOnSend)) s))))))"
  have v: "ipc_view s0 = ipc_view s" by (simp add: s0_def)
  have f: "tsType (tcbState (tcbs s0 t)) = ThreadState_BlockedOnSend" "blockingObject (tcbState (tcbs s0 t)) = e"
    "blockingIPCBadge (tcbState (tcbs s0 t)) = badge" "blockingIPCIsCall (tcbState (tcbs s0 t)) = call"
    "blockingIPCCanGrant (tcbState (tcbs s0 t)) = g" "blockingIPCCanGrantReply (tcbState (tcbs s0 t)) = gr"
    by (simp_all add: s0_def upd_ts_def)
  have ok: "sched_ok s0" using assms(5) by (simp add: s0_def upd_ts_def sched_ok_upd_tcb sched_part_def)
  have q: "ep_queue e xs s0" using assms(1) ep_queue_view [OF v] by simp
  obtain qu s1 where s1: "tcbEPAppend t (ep_ptr_get_queue e s0) s0 = Some (qu, s1)" "ep_frame (insert t (set xs)) s0 s1"
    "ep_queue e (insert_by_prio (\<lambda>u. tcbPriority (tcbs s0 u)) t xs) (ep_ptr_set_queue e qu (endpoint_ptr_set_state e EPState_Send s1))"
    "epState (eps (ep_ptr_set_queue e qu (endpoint_ptr_set_state e EPState_Send s1)) e) = EPState_Send"
    using ep_join [OF q assms(3,4), of EPState_Send] by auto
  let ?s' = "ep_ptr_set_queue e qu (endpoint_ptr_set_state e EPState_Send s1)"
  have "sendIPC True call badge g gr d t e s = Some ?s'"
    using assms(2) s1(1) by (cases "epState (eps s e)") (simp_all add: sendIPC_def Let_def s0_def)
  moreover have "sched_ok ?s'" using ep_frame_sched_ok [OF s1(2) ok] by (simp add: ep_ops)
  moreover have "tcbState (tcbs ?s' t) = tcbState (tcbs s0 t)" using ep_frame_fields(8) [OF s1(2)] by (simp add: ep_ops)
  moreover have "sendIPC False call badge g gr d t e s = Some s"
    using assms(2) by (cases "epState (eps s e)") (simp_all add: sendIPC_def)
  moreover have "tcbFault (tcbs ?s' u) = tcbFault (tcbs s u)" "tcbLookupFailure (tcbs ?s' u) = tcbLookupFailure (tcbs s u)" for u
    using ep_frame_fields(9,16) [OF s1(2), of u] by (simp_all add: ep_ops s0_def upd_ts_def)
  ultimately show ?thesis using s1(3,4) f ipc_viewD(9) [OF v] by (simp add: isSchedulable_def isRunnable_def)
qed

text \<open>
  A send to an endpoint where nobody receives blocks the sender in priority order. The sender is recorded with its badge
  and rights, joins the queue behind all threads of at least its priority, and the endpoint is in the sending state; a non-blocking
  send does nothing.
\<close>

theorem sendIPC_blocks:
  assumes "ep_queue e xs s" "epState (eps s e) \<noteq> EPState_Recv" "t \<notin> set xs" "t \<noteq> NULL" "sched_ok s"
  shows "sendIPC False call badge g gr d t e s = Some s
    \<and> (\<exists>s'. sendIPC True call badge g gr d t e s = Some s' \<and> sched_ok s' \<and> epState (eps s' e) = EPState_Send
      \<and> ep_queue e (insert_by_prio (\<lambda>u. tcbPriority (tcbs s u)) t xs) s'
      \<and> tsType (tcbState (tcbs s' t)) = ThreadState_BlockedOnSend \<and> blockingObject (tcbState (tcbs s' t)) = e
      \<and> blockingIPCBadge (tcbState (tcbs s' t)) = badge \<and> blockingIPCIsCall (tcbState (tcbs s' t)) = call
      \<and> (blockingIPCCanGrant (tcbState (tcbs s' t)) \<longleftrightarrow> g) \<and> (blockingIPCCanGrantReply (tcbState (tcbs s' t)) \<longleftrightarrow> gr)
      \<and> \<not> isSchedulable t s')"
  using sendIPC_queues [OF assms] by blast


section \<open>Cancelling\<close>

definition cancelled_state :: "fault \<Rightarrow> tstate" where
  "cancelled_state f = (if f = NullFault then ThreadState_Restart else ThreadState_Inactive)"

text \<open>The parts of the state that cancelling one thread of a queue keeps.\<close>

definition cancel_frame :: "ptr set \<Rightarrow> kstate \<Rightarrow> kstate \<Rightarrow> bool" where
  "cancel_frame A s s' \<longleftrightarrow> (sched_ok s \<longrightarrow> sched_ok s') \<and> rings_ok s' \<and> eps s' = eps s \<and> (\<forall>u. tcbFault (tcbs s' u) = tcbFault (tcbs s u))
     \<and> (\<forall>u. blockingIPCBadge (tcbState (tcbs s' u)) = blockingIPCBadge (tcbState (tcbs s u)))
     \<and> (\<forall>u. tsType (tcbState (tcbs s' u)) = (if u \<in> A then cancelled_state (tcbFault (tcbs s u)) else tsType (tcbState (tcbs s u))))"

lemma restart_thread_spec:
  assumes "rings_ok s" "t \<noteq> NULL"
  shows "\<exists>s'. restart_thread_if_no_fault t s = Some s' \<and> cancel_frame {t} s s' \<and> epNext s' = epNext s \<and> epPrev s' = epPrev s"
proof (cases "tcbFault (tcbs s t) = NullFault")
  case False
  let ?s = "setThreadState t ThreadState_Inactive s"
  have v: "ipc_view ?s = ipc_view s" by simp
  have "blockingIPCBadge (tcbState (tcbs ?s u)) = blockingIPCBadge (tcbState (tcbs s u))" for u
    by (simp add: setThreadState_def upd_ts_def)
  then have "cancel_frame {t} s ?s"
    using rings_ok_view [OF v assms(1)] ipc_viewD [OF v] False by (auto simp: cancel_frame_def cancelled_state_def)
  then show ?thesis using False ipc_viewD(3,4) [OF v] by (auto simp: restart_thread_if_no_fault_def)
next
  case True
  let ?s = "setThreadState t ThreadState_Restart s"
  let ?c = "tcbSchedContext (tcbs ?s t)"
  have v: "ipc_view ?s = ipc_view s" by simp
  obtain s2 where s2: "unblock_sporadic ?c ?s = Some s2" "refill_core ?c ?s s2" "rings_ok s2"
    using unblock_sporadic_rings [OF rings_ok_view [OF v assms(1)]] by blast
  let ?s' = "possibleSwitchTo t s2"
  note f = refill_core_fields [OF s2(2)]
  have "restart_thread_if_no_fault t s = Some ?s'" using True s2(1) by (simp add: restart_thread_if_no_fault_def Let_def)
  moreover have "cancel_frame {t} s ?s'"
  proof -
    have "sched_ok s \<longrightarrow> sched_ok ?s'"
      using sched_ok_refill_core [OF s2(2)] assms(2) by (auto intro: sched_ok_possibleSwitchTo)
    moreover have "rings_ok ?s'" using rings_ok_view [of ?s' s2] s2(3) by simp
    moreover have "blockingIPCBadge (tcbState (tcbs ?s u)) = blockingIPCBadge (tcbState (tcbs s u))" for u
      by (simp add: setThreadState_def upd_ts_def)
    ultimately show ?thesis using f(1,3) True by (simp add: cancel_frame_def cancelled_state_def)
  qed
  moreover have "epNext ?s' = epNext s" "epPrev ?s' = epPrev s" by (rule ep_links_cong; simp add: f)+
  ultimately show ?thesis by blast
qed

lemma cancel_frame_trans:
  "cancel_frame A s s' \<Longrightarrow> cancel_frame B s' s'' \<Longrightarrow> cancel_frame (A \<union> B) s s''"
  by (auto simp: cancel_frame_def)

lemma cancelAllIPC_loop_spec:
  assumes "path (epNext s) t xs NULL" "rings_ok s"
  shows "\<exists>s'. cancelAllIPC_loop t s = Some s' \<and> cancel_frame (set xs) s s'"
  using assms
proof (induction xs arbitrary: t s)
  case Nil
  then have "cancelAllIPC_loop t s = Some s" by (subst cancelAllIPC_loop.simps) simp
  then show ?case using Nil by (auto simp: cancel_frame_def)
next
  case (Cons x xs)
  then have x: "t = x" "x \<noteq> NULL" "path (epNext s) (epNext s x) xs NULL" by auto
  let ?r = "replyObject (tcbState (tcbs s x))"
  define s1 where "s1 = (if tsType (tcbState (tcbs s x)) = ThreadState_BlockedOnReceive
      then if ?r \<noteq> NULL then reply_unlink ?r x s else s else s)"
  have v: "ipc_view s1 = ipc_view s" by (simp add: s1_def)
  note d = ipc_viewD [OF v]
  obtain s2 where s2: "restart_thread_if_no_fault x s1 = Some s2" "cancel_frame {x} s1 s2" "epNext s2 = epNext s1"
    using restart_thread_spec [OF rings_ok_view [OF v Cons.prems(2)] x(2)] by blast
  have "rings_ok s2" using s2(2) by (simp add: cancel_frame_def)
  then obtain s3 where s3: "cancelAllIPC_loop (epNext s2 x) s2 = Some s3" "cancel_frame (set xs) s2 s3"
    using Cons.IH [of s2 "epNext s2 x"] x(3) s2(3) d(3) by auto
  have "cancelAllIPC_loop t s = Some s3"
    unfolding x(1) cancelAllIPC_loop.simps [of x s] Let_def s1_def [symmetric] using x(2) s2(1) s3(1) by simp
  moreover have "cancel_frame (set (x # xs)) s s3"
  proof -
    have "tsType (tcbState (tcbs s1 u)) = tsType (tcbState (tcbs s u))" if "u \<noteq> x" for u using that by (simp add: s1_def)
    moreover have "blockingIPCBadge (tcbState (tcbs s1 u)) = blockingIPCBadge (tcbState (tcbs s u))" for u
      by (simp add: s1_def reply_unlink_def Let_def setThreadState_def upd_ts_def)
    moreover have "sched_ok s \<longrightarrow> sched_ok s1" by (simp add: s1_def)
    ultimately show ?thesis using cancel_frame_trans [OF s2(2) s3(2)] d by (auto simp: cancel_frame_def)
  qed
  ultimately show ?case by blast
qed

text \<open>
  Cancelling an endpoint leaves nobody blocked on it. Whatever its state, \<open>cancelAllIPC\<close> returns; the endpoint is idle and empty, every
  thread that was in its queue restarts its system call, or is stopped if it was delivering a fault, no other thread changes state, and
  the scheduler's queues and the refills stay consistent.
\<close>

theorem cancelAllIPC_frees_all:
  assumes "ep_queue e xs s" "rings_ok s" "sched_ok s"
  shows "\<exists>s'. cancelAllIPC e s = Some s' \<and> ep_queue e [] s' \<and> sched_ok s' \<and> rings_ok s'
    \<and> (\<forall>u \<in> set xs. tsType (tcbState (tcbs s' u)) =
          (if tcbFault (tcbs s u) = NullFault then ThreadState_Restart else ThreadState_Inactive))
    \<and> (\<forall>u. u \<notin> set xs \<longrightarrow> tsType (tcbState (tcbs s' u)) = tsType (tcbState (tcbs s u)))"
proof (cases "epState (eps s e) = EPState_Idle")
  case True
  then show ?thesis using assms by (auto simp: cancelAllIPC_def ep_queue_def)
next
  case False
  define s1 where "s1 = upd_ep e (epQueue_tail_update (\<lambda>_. 0)) (upd_ep e (epQueue_head_update (\<lambda>_. 0)) (endpoint_ptr_set_state e EPState_Idle s))"
  have p: "path (epNext s1) (epQueue_head (eps s e)) xs NULL"
    using assms(1) by (simp add: s1_def ep_queue_def dlist_def ep_ops)
  have f1: "eps s1 e = \<lparr>epQueue_head = 0, epQueue_tail = 0, epState = EPState_Idle\<rparr>" "sched_ok s1" "rings_ok s1" "tcbs s1 = tcbs s"
    using assms(2,3) rings_ok_cong [of s1 s] by (simp_all add: s1_def ep_ops)
  obtain s2 where s2: "cancelAllIPC_loop (epQueue_head (eps s e)) s1 = Some s2" "cancel_frame (set xs) s1 s2"
    using cancelAllIPC_loop_spec [OF p f1(3)] by blast
  let ?s' = "rescheduleRequired s2"
  have "cancelAllIPC e s = Some ?s'" using False s2(1) by (simp add: cancelAllIPC_def Let_def s1_def)
  moreover have "rings_ok ?s'" using rings_ok_view [of ?s' s2] s2(2) by (simp add: cancel_frame_def)
  moreover have "ep_queue e [] ?s'" using s2(2) f1(1) by (simp add: cancel_frame_def ep_queue_def ep_ptr_get_queue_def)
  ultimately show ?thesis using s2(2) f1 by (auto simp: cancel_frame_def cancelled_state_def)
qed

lemma cancelBadgedSends_loop_spec:
  assumes "ep_list s q (ks @ xs)" "rings_ok s" "t = (case xs of [] \<Rightarrow> NULL | x # _ \<Rightarrow> x)"
  shows "\<exists>q' s'. cancelBadgedSends_loop t b q s = Some (q', s')
    \<and> ep_list s' q' (ks @ filter (\<lambda>u. blockingIPCBadge (tcbState (tcbs s u)) \<noteq> b) xs)
    \<and> cancel_frame {u \<in> set xs. blockingIPCBadge (tcbState (tcbs s u)) = b} s s'"
  using assms
proof (induction xs arbitrary: t ks q s)
  case Nil
  then have "cancelBadgedSends_loop t b q s = Some (q, s)" by (subst cancelBadgedSends_loop.simps) simp
  then show ?case using Nil by (auto simp: cancel_frame_def)
next
  case (Cons x xs)
  have x: "t = x" "x \<noteq> NULL" "x \<notin> set xs"
    using Cons.prems(3) dlist_not_NULL [OF Cons.prems(1), of x] dlist_distinct [OF Cons.prems(1)] by auto
  have nx: "epNext s x = (case xs of [] \<Rightarrow> NULL | y # _ \<Rightarrow> y)" using dlist_mid [OF Cons.prems(1)] by auto
  show ?case
  proof (cases "blockingIPCBadge (tcbState (tcbs s x)) = b")
    case False
    have "ep_list s q ((ks @ [x]) @ xs)" using Cons.prems(1) by simp
    from Cons.IH [OF this Cons.prems(2) nx] obtain q' s' where r: "cancelBadgedSends_loop (epNext s x) b q s = Some (q', s')"
      "ep_list s' q' ((ks @ [x]) @ filter (\<lambda>u. blockingIPCBadge (tcbState (tcbs s u)) \<noteq> b) xs)"
      "cancel_frame {u \<in> set xs. blockingIPCBadge (tcbState (tcbs s u)) = b} s s'" by blast
    have "cancelBadgedSends_loop t b q s = Some (q', s')"
      unfolding cancelBadgedSends_loop.simps [of t] using x False r(1) by (simp add: Let_def)
    moreover have "{u \<in> set (x # xs). blockingIPCBadge (tcbState (tcbs s u)) = b} = {u \<in> set xs. blockingIPCBadge (tcbState (tcbs s u)) = b}"
      using False by auto
    ultimately show ?thesis using r False by simp
  next
    case True
    obtain s1 where s1: "restart_thread_if_no_fault x s = Some s1" "cancel_frame {x} s s1" "epNext s1 = epNext s" "epPrev s1 = epPrev s"
      using restart_thread_spec [OF Cons.prems(2) x(2)] by blast
    obtain q2 s2 where q2: "tcbEPDequeue x q s1 = (q2, s2)" by fastforce
    have "ep_list s1 q (ks @ x # xs)" using Cons.prems(1) s1(3,4) by simp
    note L = tcbEPDequeue_list [OF this q2]
    note f2 = ep_frame_fields [OF L(2)]
    have c2: "cancel_frame {x} s s2"
      using s1(2) ep_frame_sched_ok [OF L(2)] rings_ok_cong [OF f2(4,3)] f2 by (simp add: cancel_frame_def)
    then have b2: "blockingIPCBadge (tcbState (tcbs s2 u)) = blockingIPCBadge (tcbState (tcbs s u))" and "rings_ok s2" for u
      by (simp_all add: cancel_frame_def)
    then obtain q' s' where r: "cancelBadgedSends_loop (epNext s x) b q2 s2 = Some (q', s')"
      "ep_list s' q' (ks @ filter (\<lambda>u. blockingIPCBadge (tcbState (tcbs s u)) \<noteq> b) xs)"
      "cancel_frame {u \<in> set xs. blockingIPCBadge (tcbState (tcbs s u)) = b} s2 s'"
      using Cons.IH [OF L(1) _ nx] unfolding b2 by blast
    have "cancelBadgedSends_loop t b q s = Some (q', s')"
      unfolding cancelBadgedSends_loop.simps [of t] using x True s1(1) q2 r(1) by (simp add: Let_def)
    moreover have "{u \<in> set (x # xs). blockingIPCBadge (tcbState (tcbs s u)) = b} = {x} \<union> {u \<in> set xs. blockingIPCBadge (tcbState (tcbs s u)) = b}"
      using True by auto
    ultimately show ?thesis using r(2) cancel_frame_trans [OF c2 r(3)] True by simp
  qed
qed

text \<open>
  C12. Cancelling one badge removes exactly its senders. \<open>cancelBadgedSends\<close> returns; the senders with another badge stay in the queue in
  their order and are untouched, those with the badge restart (or stop, if they deliver a fault), and the endpoint is idle
  exactly when none is left.
\<close>

theorem cancelBadgedSends_filters:
  assumes "ep_queue e xs s" "epState (eps s e) = EPState_Send" "rings_ok s" "sched_ok s"
  shows "\<exists>s'. cancelBadgedSends e b s = Some s' \<and> sched_ok s' \<and> rings_ok s'
    \<and> ep_queue e (filter (\<lambda>u. blockingIPCBadge (tcbState (tcbs s u)) \<noteq> b) xs) s'
    \<and> (\<forall>u. tsType (tcbState (tcbs s' u)) =
          (if u \<in> set xs \<and> blockingIPCBadge (tcbState (tcbs s u)) = b
           then if tcbFault (tcbs s u) = NullFault then ThreadState_Restart else ThreadState_Inactive
           else tsType (tcbState (tcbs s u))))"
proof -
  define s1 where "s1 = upd_ep e (epQueue_tail_update (\<lambda>_. 0)) (upd_ep e (epQueue_head_update (\<lambda>_. 0)) (endpoint_ptr_set_state e EPState_Idle s))"
  have f1: "sched_ok s1" "rings_ok s1" "tcbs s1 = tcbs s" "epNext s1 = epNext s" "epPrev s1 = epPrev s" "epState (eps s1 e) = EPState_Idle"
    using assms(3,4) rings_ok_cong [of s1 s] by (simp_all add: s1_def ep_ops)
  let ?q = "ep_ptr_get_queue e s"
  have l: "ep_list s1 ?q ([] @ xs)" using assms(1) f1(4,5) by (simp add: ep_queue_def)
  have "head ?q = (case xs of [] \<Rightarrow> NULL | x # _ \<Rightarrow> x)" using l by (cases xs) (auto simp: dlist_def)
  then obtain q' s2 where s2: "cancelBadgedSends_loop (head ?q) b ?q s1 = Some (q', s2)"
    "ep_list s2 q' (filter (\<lambda>u. blockingIPCBadge (tcbState (tcbs s u)) \<noteq> b) xs)"
    "cancel_frame {u \<in> set xs. blockingIPCBadge (tcbState (tcbs s u)) = b} s1 s2"
    using cancelBadgedSends_loop_spec [OF l f1(2), of "head ?q" b] f1(3) by auto
  let ?ys = "filter (\<lambda>u. blockingIPCBadge (tcbState (tcbs s u)) \<noteq> b) xs"
  have h: "head q' \<noteq> NULL \<longleftrightarrow> ?ys \<noteq> []" using dlist_empty_iff [OF s2(2)] by simp
  define s3 where "s3 = (let s = ep_ptr_set_queue e q' s2 in if head q' \<noteq> NULL then endpoint_ptr_set_state e EPState_Send s else s)"
  let ?s' = "rescheduleRequired s3"
  have "cancelBadgedSends e b s = Some ?s'"
    using assms(2) s2(1) unfolding s3_def by (simp add: cancelBadgedSends_def Let_def s1_def)
  moreover have f3: "tcbs s3 = tcbs s2" "sched_ok s3 = sched_ok s2" "scs s3 = scs s2" "refills s3 = refills s2"
    "epNext s3 = epNext s2" "epPrev s3 = epPrev s2" by (simp_all add: s3_def ep_ops)
  moreover have "ep_queue e ?ys s3"
    using s2(2,3) h f1(6) unfolding s3_def by (cases "?ys = []") (auto simp: ep_queue_def ep_ops cancel_frame_def)
  then have "ep_queue e ?ys ?s'" using ep_queue_view [of ?s' s3] by simp
  moreover have "rings_ok ?s'" using rings_ok_view [of ?s' s3] rings_ok_cong [OF f3(4,3)] s2(3) by (simp add: cancel_frame_def)
  ultimately show ?thesis using s2(3) f1 by (simp add: cancel_frame_def cancelled_state_def)
qed



section \<open>Concrete endpoints\<close>

text \<open>Thread 2048 waits at endpoint 64 to receive, or to send with badge 6.\<close>

definition example_ep :: "ep_state \<Rightarrow> kstate" where
  "example_ep st = upd_ts 2048 (\<lambda>t. t\<lparr>blockingIPCBadge := 6, tsType := ThreadState_BlockedOnSend\<rparr>)
     (upd_ep 64 (\<lambda>_. \<lparr>epQueue_head = 2048, epQueue_tail = 2048, epState = st\<rparr>) kstate0)"

lemma example_ep_facts:
  "st \<noteq> EPState_Idle \<Longrightarrow> ep_queue 64 [2048] (example_ep st)" "epState (eps (example_ep st) 64) = st" "ipc_ok (example_ep st)"
  "buffers_apart a b (example_ep st)" "tcbFault (tcbs (example_ep st) t) = NullFault" "tcbBoundNotification (tcbs (example_ep st) t) = NULL"
  "tcbState (tcbs (example_ep st) 2048) = (tcbState tcb0)\<lparr>blockingIPCBadge := 6, tsType := ThreadState_BlockedOnSend\<rparr>"
proof -
  have e: "eps (example_ep st) 64 = \<lparr>epQueue_head = 2048, epQueue_tail = 2048, epState = st\<rparr>"
    and c: "ctes (example_ep st) = ctes kstate0" and sc: "scs (example_ep st) = scs kstate0"
    by (simp_all add: example_ep_def upd_ts_def)
  have l: "epNext (example_ep st) 2048 = NULL" "epPrev (example_ep st) 2048 = NULL"
    by (simp_all add: example_ep_def upd_ts_def epNext_def epPrev_def kstate0_def tcb0_def)
  show "st \<noteq> EPState_Idle \<Longrightarrow> ep_queue 64 [2048] (example_ep st)"
    using l by (simp add: ep_queue_def ep_ptr_get_queue_def e dlist_def)
  show "epState (eps (example_ep st) 64) = st" by (simp add: e)
  have "sched_ok kstate0" using kstate0_valid unfolding sched_ok_def by blast
  then have "sched_ok (example_ep st)" by (simp add: example_ep_def upd_ts_def sched_ok_upd_tcb sched_part_def)
  moreover have "rings_ok (example_ep st)" by (simp add: rings_ok_def sc_sporadic_def sc) (simp add: kstate0_def sc0_def)
  moreover have "cspace_ok (example_ep st)" unfolding cspace_ok_def c by (simp add: kstate0_def nullMDBNode_def cnode_ok_def)
  ultimately show "ipc_ok (example_ep st)" by (simp add: ipc_ok_def)
  show "buffers_apart a b (example_ep st)"
    unfolding buffers_apart_def lookupIPCBuffer_def c by (simp add: kstate0_def nullMDBNode_def)
  show "tcbFault (tcbs (example_ep st) t) = NullFault" "tcbBoundNotification (tcbs (example_ep st) t) = NULL"
    "tcbState (tcbs (example_ep st) 2048) = (tcbState tcb0)\<lparr>blockingIPCBadge := 6, tsType := ThreadState_BlockedOnSend\<rparr>"
    by (simp_all add: example_ep_def upd_ts_def kstate0_def) (simp_all add: tcb0_def)
qed

lemma example_ep_queues: "ep_queue 64 [2048] (example_ep EPState_Recv)" "ep_queue 64 [2048] (example_ep EPState_Send)"
  using example_ep_facts(1) by simp_all

theorem sendIPC_blocks_witness:
  "\<exists>s'. sendIPC True False 5 True True True 1024 64 (example_ep EPState_Send) = Some s' \<and> epState (eps s' 64) = EPState_Send
     \<and> tsType (tcbState (tcbs s' 1024)) = ThreadState_BlockedOnSend"
  using sendIPC_blocks [OF example_ep_queues(2), of 1024 False 5 True True True] example_ep_facts(2,3) [of EPState_Send]
  by (auto simp: ipc_ok_def)



theorem cancelAllIPC_frees_all_witness:
  "\<exists>s'. cancelAllIPC 64 (example_ep EPState_Recv) = Some s' \<and> ep_queue 64 [] s'
     \<and> tsType (tcbState (tcbs s' 2048)) = ThreadState_Restart"
  using cancelAllIPC_frees_all [OF example_ep_queues(1)] example_ep_facts(3,5) [of EPState_Recv] by (auto simp: ipc_ok_def)

theorem cancelBadgedSends_filters_witness:
  "\<exists>s'. cancelBadgedSends 64 6 (example_ep EPState_Send) = Some s' \<and> ep_queue 64 [] s'
     \<and> tsType (tcbState (tcbs s' 2048)) = ThreadState_Restart"
proof -
  obtain s' where "cancelBadgedSends 64 6 (example_ep EPState_Send) = Some s'"
    "ep_queue 64 (filter (\<lambda>u. blockingIPCBadge (tcbState (tcbs (example_ep EPState_Send) u)) \<noteq> 6) [2048]) s'"
    "tsType (tcbState (tcbs s' 2048)) = ThreadState_Restart"
    using cancelBadgedSends_filters [OF example_ep_queues(2) example_ep_facts(2), of 6] example_ep_facts(3,5,7) [of EPState_Send]
    by (auto simp: ipc_ok_def)
  then show ?thesis using example_ep_facts(7) [of EPState_Send] by (simp add: tcb0_def)
qed

end
