(* ===== verification/Thread.thy ===== *)
theory Thread
  imports Endpoint
begin

text \<open>
  Threads: the part of \<^verbatim>\<open>src/kernel/kernel/thread.c\<close> that starts, stops and bills them, replies to a caller, and the
  delivery of faults to their handlers, \<^verbatim>\<open>kernel/faulthandler.c\<close>, with the budget checks of \<^verbatim>\<open>include/kernel/thread.h\<close>.

  The theorems: a suspended thread is in no queue and stays inactive, a reply resumes exactly the caller, a fault blocks the
  thread on its handler or stops it, and a change of priority keeps every queue in order.
\<close>

section \<open>Faults\<close>

definition validTimeoutHandler :: "ptr \<Rightarrow> kstate \<Rightarrow> bool" where
  "validTimeoutHandler tptr s \<longleftrightarrow> is_EndpointCap (cteCap (ctes s (TCB_PTR_CTE_PTR tptr tcbTimeoutHandler)))"

definition sendFaultIPC :: "ptr \<Rightarrow> cap \<Rightarrow> bool \<Rightarrow> kstate \<Rightarrow> (bool \<times> kstate) option" where
  "sendFaultIPC tptr handlerCap can_donate s =
     (if is_EndpointCap handlerCap
      then do {
        let s = upd_tcb tptr (tcbFault_update (\<lambda>_. current_fault s)) s;
        s \<leftarrow> sendIPC True False (capEPBadge handlerCap) (capCanGrant handlerCap) (capCanGrantReply handlerCap)
               can_donate tptr (capEPPtr handlerCap) s;
        Some (True, s)
      }
      else Some (False, s))"

definition handleNoFaultHandler :: "ptr \<Rightarrow> kstate \<Rightarrow> kstate" where
  "handleNoFaultHandler tptr s = setThreadState tptr ThreadState_Inactive s"

definition handleFault :: "ptr \<Rightarrow> kstate \<Rightarrow> kstate option" where
  "handleFault tptr s = do {
     let faultHandlerCap = cteCap (ctes s (TCB_PTR_CTE_PTR tptr tcbFaultHandler));
     (hasFaultHandler, s) \<leftarrow> sendFaultIPC tptr faultHandlerCap (tcbSchedContext (tcbs s tptr) \<noteq> NULL) s;
     Some (if \<not> hasFaultHandler then handleNoFaultHandler tptr s else s)
   }"

definition handleTimeout :: "ptr \<Rightarrow> kstate \<Rightarrow> kstate option" where
  "handleTimeout tptr s = do {
     let timeoutHandlerCap = cteCap (ctes s (TCB_PTR_CTE_PTR tptr tcbTimeoutHandler));
     (_, s) \<leftarrow> sendFaultIPC tptr timeoutHandlerCap False s;
     Some s
   }"

section \<open>Activating, suspending and restarting\<close>

definition activateThread :: "kstate \<Rightarrow> kstate option" where
  "activateThread s =
     (let s = (if tcbYieldTo (tcbs s (ksCurThread s)) \<noteq> NULL
               then schedContext_completeYieldTo (ksCurThread s) s else s)
      in case tsType (tcbState (tcbs s (ksCurThread s))) of
           ThreadState_Running \<Rightarrow> Some s
         | ThreadState_Restart \<Rightarrow>
             let pc = getRestartPC (ksCurThread s) s;
                 s = setNextPC (ksCurThread s) pc s
             in Some (setThreadState (ksCurThread s) ThreadState_Running s)
         | ThreadState_IdleThreadState \<Rightarrow> Some s
         | _ \<Rightarrow> None)"

definition suspend :: "ptr \<Rightarrow> kstate \<Rightarrow> kstate" where
  "suspend target s =
     (let s = cancelIPC target s;
          s = (if tsType (tcbState (tcbs s target)) = ThreadState_Running then updateRestartPC target s else s);
          s = tcbSchedDequeue target s;
          s = tcbReleaseRemove target s;
          s = schedContext_cancelYieldTo target s
      in setThreadState target ThreadState_Inactive s)"

definition restart :: "ptr \<Rightarrow> kstate \<Rightarrow> kstate option" where
  "restart target s =
     (if isStopped target s
      then do {
        let s = cancelIPC target s;
        let s = setThreadState target ThreadState_Restart s;
        let sc = tcbSchedContext (tcbs s target);
        s \<leftarrow> (if sc_sporadic sc s \<and> sc \<noteq> ksCurSC s then refill_unblock_check sc s else Some s);
        s \<leftarrow> schedContext_resume sc s;
        Some (if isSchedulable target s then possibleSwitchTo target s else s)
      }
      else Some s)"

section \<open>Replies\<close>

text \<open>
  The second half of \<^verbatim>\<open>doReplyTransfer\<close>: a receiver with a scheduling context that can run is scheduled, sent a
  timeout fault, or postponed.
\<close>

definition reply_resume :: "ptr \<Rightarrow> fault \<Rightarrow> kstate \<Rightarrow> kstate option" where
  "reply_resume receiver f s =
     (if tcbSchedContext (tcbs s receiver) \<noteq> NULL \<and> isRunnable receiver s
      then let sc = tcbSchedContext (tcbs s receiver)
           in if refill_ready sc s \<and> refill_sufficient sc 0 s then Some (possibleSwitchTo receiver s)
              else if validTimeoutHandler receiver s \<and> \<not> is_TimeoutFault f
              then handleTimeout receiver (s\<lparr>current_fault := TimeoutFault (scBadge (scs s sc))\<rparr>)
              else postpone sc s
      else Some s)"

definition doReplyTransfer :: "ptr \<Rightarrow> ptr \<Rightarrow> bool \<Rightarrow> kstate \<Rightarrow> kstate option" where
  "doReplyTransfer sender rply grnt s =
     (if replyTCB (replies s rply) = NULL
         \<or> tsType (tcbState (tcbs s (replyTCB (replies s rply)))) \<noteq> ThreadState_BlockedOnReply
      then Some s
      else do {
        let receiver = replyTCB (replies s rply);
        let s = reply_remove rply receiver s;
        s \<leftarrow> unblock_sporadic (tcbSchedContext (tcbs s receiver)) s;
        let f = tcbFault (tcbs s receiver);
        s \<leftarrow> (if f = NullFault
             then do {
               s \<leftarrow> doIPCTransfer sender NULL 0 grnt receiver s;
               Some (setThreadState receiver ThreadState_Running s)
             }
             else do {
               (restrt, s) \<leftarrow> handleFaultReply receiver sender s;
               let s = upd_tcb receiver (tcbFault_update (\<lambda>_. NullFault)) s;
               Some (setThreadState receiver (if restrt then ThreadState_Restart else ThreadState_Inactive) s)
             });
        reply_resume receiver f s
      })"

section \<open>Priorities\<close>

definition setPriority :: "ptr \<Rightarrow> word64 \<Rightarrow> kstate \<Rightarrow> kstate option" where
  "setPriority tptr prio s =
     (let set_prio = upd_tcb tptr (tcbPriority_update (\<lambda>_. prio));
          runnable =
            (if tcbQueued (tcbState (tcbs s tptr)) \<or> tptr = ksCurThread s
             then let s = tcbSchedDequeue tptr s;
                      s = set_prio s;
                      s = tcbSchedEnqueue tptr s
                  in Some (rescheduleRequired s)
             else Some (set_prio s));
          blocked =
            (let s = set_prio s in reorderEP (blockingObject (tcbState (tcbs s tptr))) tptr s)
      in case tsType (tcbState (tcbs s tptr)) of
           ThreadState_Running \<Rightarrow> runnable
         | ThreadState_Restart \<Rightarrow> runnable
         | ThreadState_BlockedOnReceive \<Rightarrow> blocked
         | ThreadState_BlockedOnSend \<Rightarrow> blocked
         | ThreadState_BlockedOnNotification \<Rightarrow>
             let s = set_prio s in reorderNTFN (blockingObject (tcbState (tcbs s tptr))) tptr s
         | _ \<Rightarrow> Some (set_prio s))"

section \<open>Billing\<close>

definition endTimeslice :: "bool \<Rightarrow> kstate \<Rightarrow> kstate option" where
  "endTimeslice can_timeout_fault s =
     (let round_robin = isRoundRobin (ksCurSC s) s;
          valid = validTimeoutHandler (ksCurThread s) s
      in if can_timeout_fault \<and> \<not> round_robin \<and> valid
         then let s = s\<lparr>current_fault := TimeoutFault (scBadge (scs s (ksCurSC s)))\<rparr>
              in handleTimeout (ksCurThread s) s
         else if refill_ready (ksCurSC s) s \<and> refill_sufficient (ksCurSC s) 0 s
         then Some (tcbSchedAppend (ksCurThread s) s)
         else postpone (ksCurSC s) s)"

definition chargeBudget :: "ticks \<Rightarrow> bool \<Rightarrow> kstate \<Rightarrow> kstate option" where
  "chargeBudget consumed canTimeoutFault s = do {
     s \<leftarrow> (if ksCurSC s \<noteq> ksIdleSC s
          then do {
            s \<leftarrow> (if isRoundRobin (ksCurSC s) s
                 then let head_refill = refill_head (ksCurSC s) s;
                          tail_refill = refill_tail (ksCurSC s) s;
                          s = upd_refill_head (ksCurSC s) (rAmount_update (\<lambda>_. rAmount head_refill + rAmount tail_refill)) s
                      in Some (upd_refill_tail (ksCurSC s) (rAmount_update (\<lambda>_. 0)) s)
                 else refill_budget_check consumed s);
            Some (upd_sc (ksCurSC s) (scConsumed_update (\<lambda>c. c + consumed)) s)
          }
          else Some s);
     let s = s\<lparr>ksConsumed := 0\<rparr>;
     if isSchedulable (ksCurThread s) s
     then do {
       s \<leftarrow> endTimeslice canTimeoutFault s;
       let s = rescheduleRequired s;
       Some (s\<lparr>ksReprogram := True\<rparr>)
     }
     else Some s
   }"

definition checkBudget :: "kstate \<Rightarrow> (bool \<times> kstate) option" where
  "checkBudget s =
     (if refill_sufficient (ksCurSC s) (ksConsumed s) s
      then Some (\<not> isCurDomainExpired s, s)
      else do {
        s \<leftarrow> chargeBudget (ksConsumed s) True s;
        Some (False, s)
      })"

definition checkBudgetRestart :: "kstate \<Rightarrow> (bool \<times> kstate) option" where
  "checkBudgetRestart s = do {
     (result, s) \<leftarrow> checkBudget s;
     Some (result,
       if \<not> result \<and> isRunnable (ksCurThread s) s
       then setThreadState (ksCurThread s) ThreadState_Restart s else s)
   }"

section \<open>Suspending\<close>

lemma sched_ok_ep_links [simp]:
  "sched_ok s \<Longrightarrow> sched_ok (set_epNext p v s)" "sched_ok s \<Longrightarrow> sched_ok (set_epPrev p v s)"
  by (simp_all add: set_epNext_def set_epPrev_def sched_ok_upd_tcb sched_part_def)

lemma sched_ok_EPDequeue: "sched_ok s \<Longrightarrow> sched_ok (snd (tcbEPDequeue t q s))"
  by (simp add: tcbEPDequeue_def Let_def)

lemma sched_ok_upd_ntfn' [simp]: "sched_ok (ntfn_ptr_set_queue n q s) = sched_ok s" "sched_ok (notification_ptr_set_state n st s) = sched_ok s"
  "sched_ok (ep_ptr_set_queue e q s) = sched_ok s" "sched_ok (endpoint_ptr_set_state e es s) = sched_ok s"
  by (simp_all add: ntfn_ptr_set_queue_def notification_ptr_set_state_def ep_ops)

lemma sched_ok_remove_tcb [simp]: "sched_ok s \<Longrightarrow> sched_ok (reply_remove_tcb t s)"
  by (simp add: reply_remove_tcb_def Let_def)

lemma sched_ok_cancelIPC: "sched_ok s \<Longrightarrow> sched_ok (cancelIPC t s)"
proof -
  assume k: "sched_ok s"
  let ?s = "upd_tcb t (tcbFault_update (\<lambda>_. NullFault)) s"
  have f: "sched_ok ?s" using k by (simp add: sched_ok_upd_tcb sched_part_def)
  have "sched_ok s'" if "tcbEPDequeue t q ?s = (q', s')" for q q' s' using sched_ok_EPDequeue [OF f, of t q] that by simp
  then show ?thesis using f unfolding cancelIPC_def cancelSignal_def
    by (auto simp: Let_def split: tstate.split prod.split)
qed

lemma cancelIPC_endpoint:
  assumes q: "ep_queue e (xs @ t # ys) s" and b: "blockingObject (tcbState (tcbs s t)) = e"
    and st: "tsType (tcbState (tcbs s t)) \<in> {ThreadState_BlockedOnSend, ThreadState_BlockedOnReceive}"
  shows "ep_queue e (xs @ ys) (cancelIPC t s) \<and> tsType (tcbState (tcbs (cancelIPC t s) t)) = ThreadState_Inactive"
proof -
  define s0 where "s0 = upd_tcb t (tcbFault_update (\<lambda>_. NullFault)) s"
  have f0: "eps s0 = eps s" "tcbState (tcbs s0 u) = tcbState (tcbs s u)" for u by (simp_all add: s0_def)
  have l0: "epNext s0 = epNext s" "epPrev s0 = epPrev s" by (rule ep_links_cong; simp add: s0_def)+
  have g0: "ep_ptr_get_queue e s0 = ep_ptr_get_queue e s" by (simp add: ep_ptr_get_queue_def f0)
  obtain q' s1 where d: "tcbEPDequeue t (ep_ptr_get_queue e s0) s0 = (q', s1)" by fastforce
  have "ep_list s0 (ep_ptr_get_queue e s0) (xs @ t # ys)" using q l0 by (simp add: ep_queue_def g0)
  note L = tcbEPDequeue_list [OF this d]
  note f1 = ep_frame_fields [OF L(2)]
  define s2 where "s2 = (if head q' = NULL then endpoint_ptr_set_state e EPState_Idle (ep_ptr_set_queue e q' s1) else ep_ptr_set_queue e q' s1)"
  have "head q' = NULL \<longleftrightarrow> xs @ ys = []" using dlist_empty_iff [OF L(1)] .
  moreover have "epState (eps s e) \<noteq> EPState_Idle" using q by (simp add: ep_queue_def)
  ultimately have q2: "ep_queue e (xs @ ys) s2" using L(1) f1(1) f0(1) by (auto simp: s2_def ep_queue_def ep_ops)
  define s3 where "s3 = (if tsType (tcbState (tcbs s2 t)) = ThreadState_BlockedOnReceive
      then let rply = replyObject (tcbState (tcbs s2 t)) in if rply \<noteq> NULL then reply_unlink rply t s2 else s2 else s2)"
  have "cancelIPC t s = setThreadState t ThreadState_Inactive s3"
    unfolding cancelIPC_def Let_def s0_def [symmetric] f0(2) b d prod.case s2_def [symmetric]
      s3_def [symmetric, unfolded Let_def] using st by auto
  moreover have "ipc_view (setThreadState t ThreadState_Inactive s3) = ipc_view s2" by (simp add: s3_def Let_def)
  ultimately show ?thesis using q2 ep_queue_view [of "setThreadState t ThreadState_Inactive s3" s2] by simp
qed

lemma ipc_view_cancelYieldTo [simp]: "ipc_view (schedContext_cancelYieldTo t s) = ipc_view s"
proof -
  have "ipc_view (upd_sc c (scYieldFrom_update f) s) = ipc_view s" "ipc_view (upd_tcb t (tcbYieldTo_update f) s) = ipc_view s" for c f t s
    by (auto simp: ipc_view_def fun_eq_iff) (simp_all add: upd_sc_def)
  then show ?thesis by (simp add: schedContext_cancelYieldTo_def Let_def)
qed

lemma cancelYieldTo_fields:
  "tcbState (tcbs (schedContext_cancelYieldTo t s) u) = tcbState (tcbs s u)"
  "t \<noteq> NULL \<Longrightarrow> tcbYieldTo (tcbs (schedContext_cancelYieldTo t s) t) = NULL"
  "sched_ok s \<Longrightarrow> sched_ok (schedContext_cancelYieldTo t s)"
  by (auto simp: schedContext_cancelYieldTo_def Let_def sched_ok_upd_tcb sched_part_def)

text \<open>
  C32. A suspended thread cannot run. Whatever it was doing, after \<open>suspend\<close> it is inactive, in no scheduler queue, waits for no yield and is not
  schedulable; if it was blocked on an endpoint it has left exactly its place in that queue; the scheduler's queues stay
  consistent.
\<close>

theorem suspend_stops:
  assumes "sched_ok s" "t \<noteq> NULL"
    and "tsType (tcbState (tcbs s t)) \<in> {ThreadState_BlockedOnSend, ThreadState_BlockedOnReceive} \<longrightarrow>
      blockingObject (tcbState (tcbs s t)) = e \<and> ep_queue e (xs @ t # ys) s"
  shows "sched_ok (suspend t s) \<and> tsType (tcbState (tcbs (suspend t s) t)) = ThreadState_Inactive
    \<and> \<not> tcbQueued (tcbState (tcbs (suspend t s) t)) \<and> \<not> tcbInReleaseQueue (tcbState (tcbs (suspend t s) t))
    \<and> tcbYieldTo (tcbs (suspend t s) t) = NULL \<and> \<not> isSchedulable t (suspend t s)
    \<and> (tsType (tcbState (tcbs s t)) \<in> {ThreadState_BlockedOnSend, ThreadState_BlockedOnReceive} \<longrightarrow>
        ep_queue e (xs @ ys) (suspend t s))"
proof -
  define s1 where "s1 = cancelIPC t s"
  define s2 where "s2 = (if tsType (tcbState (tcbs s1 t)) = ThreadState_Running then updateRestartPC t s1 else s1)"
  define s3 where "s3 = schedContext_cancelYieldTo t (tcbReleaseRemove t (tcbSchedDequeue t s2))"
  have s': "suspend t s = setThreadState t ThreadState_Inactive s3"
    by (simp add: suspend_def Let_def s1_def s2_def s3_def)
  have k: "sched_ok s1" "sched_ok s2" "sched_ok s3"
    using sched_ok_cancelIPC [OF assms(1), of t] by (simp_all add: s1_def s2_def s3_def updateRestartPC_def cancelYieldTo_fields)
  have q: "\<not> tcbQueued (tcbState (tcbs s3 t))" "\<not> tcbInReleaseQueue (tcbState (tcbs s3 t))"
    by (simp_all add: s3_def cancelYieldTo_fields state_ops)
  have y: "tcbYieldTo (tcbs s3 t) = NULL" using assms(2) by (simp add: s3_def cancelYieldTo_fields)
  have "ep_queue e (xs @ ys) (suspend t s)"
    if "tsType (tcbState (tcbs s t)) \<in> {ThreadState_BlockedOnSend, ThreadState_BlockedOnReceive}"
  proof -
    have c: "ep_queue e (xs @ ys) s1" "tsType (tcbState (tcbs s1 t)) = ThreadState_Inactive"
      using cancelIPC_endpoint [OF _ _ that] assms(3) that by (auto simp: s1_def)
    have "ipc_view (suspend t s) = ipc_view s2" unfolding s' by (simp add: s3_def)
    then show ?thesis using c ep_queue_view [of "suspend t s" s2] by (simp add: s2_def)
  qed
  moreover have "tcbQueued (tcbState (tcbs (setThreadState t ThreadState_Inactive s3) t)) = tcbQueued (tcbState (tcbs s3 t))"
    "tcbYieldTo (tcbs (setThreadState t ThreadState_Inactive s3) t) = tcbYieldTo (tcbs s3 t)"
    by (auto simp: setThreadState_def upd_ts_def scheduleTCB_def)
  ultimately show ?thesis using k(3) q y unfolding s' by (simp add: isSchedulable_def isRunnable_def)
qed

section \<open>Priorities\<close>

text \<open>
  Changing the priority of a blocked thread keeps the endpoint queue in order. The thread moves to its new place: the queue has the same
  threads, sorted by the new priorities, and the endpoint keeps its state.
\<close>

theorem setPriority_reorders:
  assumes "ep_queue e (xs @ t # ys) s" "blockingObject (tcbState (tcbs s t)) = e"
    and "tsType (tcbState (tcbs s t)) \<in> {ThreadState_BlockedOnSend, ThreadState_BlockedOnReceive}"
    and "sorted_wrt (\<lambda>x y. tcbPriority (tcbs s y) \<le> tcbPriority (tcbs s x)) (xs @ t # ys)"
  shows "\<exists>s' zs. setPriority t p s = Some s' \<and> ep_queue e zs s' \<and> set zs = set (xs @ t # ys) \<and> tcbPriority (tcbs s' t) = p
    \<and> sorted_wrt (\<lambda>x y. tcbPriority (tcbs s' y) \<le> tcbPriority (tcbs s' x)) zs \<and> epState (eps s' e) = epState (eps s e)"
proof -
  define s0 where "s0 = upd_tcb t (tcbPriority_update (\<lambda>_. p)) s"
  have f0: "eps s0 = eps s" "tcbState (tcbs s0 u) = tcbState (tcbs s u)" "tcbPriority (tcbs s0 u) = (if u = t then p else tcbPriority (tcbs s u))" for u
    by (simp_all add: s0_def)
  have l0: "epNext s0 = epNext s" "epPrev s0 = epPrev s" by (rule ep_links_cong; simp add: s0_def)+
  have g0: "ep_ptr_get_queue e s0 = ep_ptr_get_queue e s" by (simp add: ep_ptr_get_queue_def f0)
  have l: "ep_list s0 (ep_ptr_get_queue e s0) (xs @ t # ys)" using assms(1) l0 by (simp add: ep_queue_def g0)
  have t: "t \<notin> set (xs @ ys)" "t \<noteq> NULL" using dlist_distinct [OF l] dlist_not_NULL [OF l, of t] by auto
  obtain q1 s1 where d: "tcbEPDequeue t (ep_ptr_get_queue e s0) s0 = (q1, s1)" by fastforce
  note L = tcbEPDequeue_list [OF l d]
  note f1 = ep_frame_fields [OF L(2)]
  let ?f = "\<lambda>u. tcbPriority (tcbs s1 u)"
  obtain q2 s2 where a: "tcbEPAppend t q1 s1 = Some (q2, s2)" "ep_list s2 q2 (insert_by_prio ?f t (xs @ ys))"
    "ep_frame (insert t (set (xs @ ys))) s1 s2"
    using tcbEPAppend_list [OF L(1) t] by blast
  note f2 = ep_frame_fields [OF a(3)]
  let ?s' = "ep_ptr_set_queue e q2 s2"
  have p: "tcbPriority (tcbs ?s' u) = (if u = t then p else tcbPriority (tcbs s u))" "?f u = (if u = t then p else tcbPriority (tcbs s u))" for u
    using f0(3) f1(14) f2(14) by (simp_all add: ep_ops)
  have "setPriority t p s = Some ?s'"
    using assms(2,3) d a(1) f0(2) unfolding setPriority_def Let_def s0_def [symmetric] reorderEP_def by auto
  moreover have "ep_queue e (insert_by_prio ?f t (xs @ ys)) ?s'"
    using a(2) assms(1) f1(1) f2(1) f0(1) by (auto simp: ep_queue_def ep_ops insert_by_prio_def)
  moreover have "sorted_wrt (\<lambda>x y. tcbPriority (tcbs ?s' y) \<le> tcbPriority (tcbs ?s' x)) (insert_by_prio ?f t (xs @ ys))"
  proof -
    have "sorted_wrt (\<lambda>x y. tcbPriority (tcbs s y) \<le> tcbPriority (tcbs s x)) (xs @ ys)"
      using assms(4) by (auto simp: sorted_wrt_append)
    moreover have "tcbPriority (tcbs s u) = ?f u" if "u \<in> set (xs @ ys)" for u using that t(1) p(2) by auto
    ultimately have "sorted_wrt (\<lambda>x y. ?f y \<le> ?f x) (xs @ ys)" by (metis (no_types, lifting) sorted_wrt_mono_rel)
    then show ?thesis using insert_by_prio_sorted [of ?f "xs @ ys" t] p by simp
  qed
  moreover have "eps ?s' e = (eps s e)\<lparr>epQueue_head := head q2, epQueue_tail := qend q2\<rparr>"
    using f0(1) f1(1) f2(1) by (simp add: ep_ops)
  ultimately show ?thesis using p(1) [of t] by (intro exI [of _ ?s'] exI) (auto simp del: p)
qed

section \<open>Faults\<close>


section \<open>Replying\<close>

lemma ipc_view_reply_remove [simp]: "ipc_view (reply_remove r t s) = ipc_view s"
  by (simp add: reply_remove_def reply_pop_def Let_def)

lemma reply_remove_fields:
  "tcbIPCBuffer (tcbs (reply_remove r t s) u) = tcbIPCBuffer (tcbs s u)"
  "tsType (tcbState (tcbs (reply_remove r t s) t)) = ThreadState_Inactive"
  "replyTCB (replies (reply_remove r t s) r) = NULL" "sched_ok s \<Longrightarrow> sched_ok (reply_remove r t s)"
proof -
  have st: "tcbIPCBuffer (tcbs (setThreadState t ts s) u) = tcbIPCBuffer (tcbs s u)" for t ts s u
    by (simp add: setThreadState_def upd_ts_def)
  have d: "tcbIPCBuffer (tcbs (schedContext_donate c t s) u) = tcbIPCBuffer (tcbs s u)" for c t s u
    by (simp add: schedContext_donate_def Let_def)
  have ul: "tcbIPCBuffer (tcbs (reply_unlink r t s) u) = tcbIPCBuffer (tcbs s u)" for r t s u
    by (simp add: reply_unlink_def Let_def st)
  show "tcbIPCBuffer (tcbs (reply_remove r t s) u) = tcbIPCBuffer (tcbs s u)"
    by (simp add: reply_remove_def reply_pop_def Let_def ul d)
  show "tsType (tcbState (tcbs (reply_remove r t s) t)) = ThreadState_Inactive"
    "replyTCB (replies (reply_remove r t s) r) = NULL" "sched_ok s \<Longrightarrow> sched_ok (reply_remove r t s)"
    by (simp_all add: reply_remove_def reply_pop_def Let_def donate_sched_ok)
qed

lemma handleFaultReply_total:
  assumes "tcbFault (tcbs s t) \<noteq> NullFault"
  shows "\<exists>b s'. handleFaultReply t a s = Some (b, s') \<and> msg_core t s s'"
  using assms copyMRsFaultReply_core
  by (cases "tcbFault (tcbs s t)") (auto simp: handleFaultReply_def Arch_handleFaultReply_def Let_def)

text \<open>The two ways a reply is delivered: as a message, or as the answer to a fault.\<close>

lemma reply_delivered:
  assumes "cspace_ok s" "buffers_apart a t s" "a \<noteq> t" "sched_ok s"
  defines "f \<equiv> tcbFault (tcbs s t)"
  shows "\<exists>s'. (if f = NullFault
      then do { s \<leftarrow> doIPCTransfer a NULL 0 g t s; Some (setThreadState t ThreadState_Running s) }
      else do { (restrt, s) \<leftarrow> handleFaultReply t a s;
                let s = upd_tcb t (tcbFault_update (\<lambda>_. NullFault)) s;
                Some (setThreadState t (if restrt then ThreadState_Restart else ThreadState_Inactive) s) }) = Some s'
    \<and> sched_ok s' \<and> replies s' = replies s \<and> tcbFault (tcbs s' t) = NullFault
    \<and> (if f = NullFault then tsType (tcbState (tcbs s' t)) = ThreadState_Running \<and> getRegister t badgeRegister s' = 0
       else tsType (tcbState (tcbs s' t)) \<in> {ThreadState_Restart, ThreadState_Inactive})"
proof (cases "f = NullFault")
  case True
  obtain s1 where s1: "doIPCTransfer a NULL 0 g t s = Some s1" "ipc_core t s s1" "getRegister t badgeRegister s1 = 0"
    using doIPCTransfer_core [OF assms(1,3,2), of NULL 0 g] by blast
  let ?s' = "setThreadState t ThreadState_Running s1"
  have "sched_ok ?s'" using sched_ok_ipc_core [OF s1(2) assms(4)] by simp
  moreover have "tcbFault (tcbs ?s' t) = NullFault" "getRegister t badgeRegister ?s' = 0" "replies ?s' = replies s"
    using ipc_core_tcb_fields(2) [OF s1(2), of t] True s1(3) ipc_core_fields [OF s1(2)]
      ipc_viewD(8,10) [OF ipc_view_thread(1) [of t ThreadState_Running s1], of t]
    by (simp_all add: f_def getRegister_def)
  ultimately show ?thesis using s1(1) True by simp
next
  case False
  obtain b s1 where s1: "handleFaultReply t a s = Some (b, s1)" "msg_core t s s1"
    using handleFaultReply_total [of s t a] False by (auto simp: f_def)
  define s2 where "s2 = upd_tcb t (tcbFault_update (\<lambda>_. NullFault)) s1"
  have c: "ipc_core t s s1" using s1(2) by (simp add: msg_core_def)
  have k: "sched_ok s2" using sched_ok_ipc_core [OF c assms(4)] by (simp add: s2_def sched_ok_upd_tcb sched_part_def)
  have r: "replies s2 = replies s" using ipc_core_fields [OF c] by (simp add: s2_def)
  have n: "tcbFault (tcbs s2 t) = NullFault" by (simp add: s2_def)
  let ?st = "if b then ThreadState_Restart else ThreadState_Inactive"
  have "tcbFault (tcbs (setThreadState t ?st s2) t) = NullFault"
    using n ipc_viewD(8) [OF ipc_view_thread(1) [of t ?st s2], of t] by simp
  then show ?thesis using False s1(1) k r by (simp add: s2_def)
qed

lemma reply_resume_switches:
  assumes "sched_ok s" "t \<noteq> NULL" and sc: "sc = tcbSchedContext (tcbs s t)"
    and "sc = NULL \<or> refill_ready sc s \<and> refill_sufficient sc 0 s"
  shows "\<exists>s'. reply_resume t f s = Some s' \<and> sched_ok s' \<and> tsType (tcbState (tcbs s' t)) = tsType (tcbState (tcbs s t))
    \<and> (isSchedulable t s \<and> t \<noteq> SchedulerAction_ChooseNewThread \<longrightarrow> waiting t s')"
proof (cases "sc \<noteq> NULL \<and> isRunnable t s")
  case False
  then have "\<not> isSchedulable t s" using sc by (auto simp: isSchedulable_def)
  then show ?thesis using False sc assms(1) by (auto simp: reply_resume_def)
next
  case True
  have "t \<noteq> SchedulerAction_ChooseNewThread \<Longrightarrow> isSchedulable t s \<Longrightarrow> waiting t (possibleSwitchTo t s)"
    using possibleSwitchTo_waiting [OF assms(2), of t s] True sc by (auto simp: isSchedulable_def)
  then show ?thesis using True sc assms by (auto simp: reply_resume_def Let_def sched_ok_possibleSwitchTo)
qed


section \<open>Witnesses\<close>

text \<open>A sender blocked on the endpoint, and a caller waiting for a reply.\<close>

definition example_blocked :: kstate where
  "example_blocked = upd_ts 2048 (blockingObject_update (\<lambda>_. 64)) (example_ep EPState_Send)"

definition example_caller :: kstate where
  "example_caller = upd_ts 2048 (tsType_update (\<lambda>_. ThreadState_BlockedOnReply)) (upd_reply 96 (replyTCB_update (\<lambda>_. 2048)) kstate0)"

lemma example_blocked_facts:
  "ep_queue 64 [2048] example_blocked" "sched_ok example_blocked" "blockingObject (tcbState (tcbs example_blocked 2048)) = 64"
  "tsType (tcbState (tcbs example_blocked 2048)) = ThreadState_BlockedOnSend"
proof -
  have "ipc_view example_blocked = ipc_view (example_ep EPState_Send)" by (simp add: example_blocked_def)
  then show "ep_queue 64 [2048] example_blocked"
    using ep_queue_view [of example_blocked "example_ep EPState_Send"] example_ep_facts(1) [of EPState_Send] by simp
  show "sched_ok example_blocked"
    using example_ep_facts(3) [of EPState_Send] by (simp add: example_blocked_def ipc_ok_def upd_ts_def sched_ok_upd_tcb sched_part_def)
  show "blockingObject (tcbState (tcbs example_blocked 2048)) = 64"
    "tsType (tcbState (tcbs example_blocked 2048)) = ThreadState_BlockedOnSend"
    using example_ep_facts(7) [of EPState_Send] by (simp_all add: example_blocked_def upd_ts_def)
qed

definition example_handler :: kstate where
  "example_handler = (example_ep EPState_Send)\<lparr>ctes := \<lambda>_. nullMDBNode (EndpointCap 9 True True True True 64)\<rparr>"

lemma example_handler_facts:
  "sched_ok example_handler" "ep_queue 64 [2048] example_handler" "epState (eps example_handler 64) = EPState_Send"
proof -
  have "epNext example_handler = epNext (example_ep EPState_Send)" "epPrev example_handler = epPrev (example_ep EPState_Send)"
    by (rule ep_links_cong; simp add: example_handler_def)+
  then show "ep_queue 64 [2048] example_handler"
    using example_ep_facts(1) [of EPState_Send] by (simp add: ep_queue_def ep_ptr_get_queue_def example_handler_def)
  show "sched_ok example_handler"
    by (rule sched_ok_parts [of "example_ep EPState_Send"])
      (use example_ep_facts(3) [of EPState_Send] in \<open>simp_all add: ipc_ok_def example_handler_def\<close>)
  show "epState (eps example_handler 64) = EPState_Send" using example_ep_facts(2) by (simp add: example_handler_def)
qed

lemma example_caller_facts:
  "ipc_ok example_caller" "buffers_apart a b example_caller" "replyTCB (replies example_caller 96) = 2048"
  "tsType (tcbState (tcbs example_caller 2048)) = ThreadState_BlockedOnReply" "tcbFault (tcbs example_caller t) = NullFault"
proof -
  have v: "ipc_view example_caller = ipc_view kstate0" by (simp add: example_caller_def)
  have c: "ctes example_caller = ctes kstate0" using ipc_viewD(6) [OF v] .
  have k: "sched_ok kstate0" using kstate0_valid unfolding sched_ok_def by blast
  then have "sched_ok example_caller"
    by (simp add: example_caller_def upd_ts_def sched_ok_upd_tcb sched_part_def)
  moreover have "rings_ok example_caller"
    by (rule rings_ok_view [OF v]) (simp add: rings_ok_def sc_sporadic_def kstate0_def sc0_def)
  moreover have "cspace_ok example_caller" unfolding cspace_ok_def c by (simp add: kstate0_def nullMDBNode_def cnode_ok_def)
  ultimately show "ipc_ok example_caller" by (simp add: ipc_ok_def)
  show "buffers_apart a b example_caller"
    unfolding buffers_apart_def lookupIPCBuffer_def c by (simp add: kstate0_def nullMDBNode_def)
  show "replyTCB (replies example_caller 96) = 2048" "tsType (tcbState (tcbs example_caller 2048)) = ThreadState_BlockedOnReply"
    by (simp_all add: example_caller_def upd_ts_def upd_reply_def)
  show "tcbFault (tcbs example_caller t) = NullFault" using ipc_viewD(8) [OF v, of t] by (simp add: kstate0_def tcb0_def)
qed

theorem suspend_stops_witness:
  "tsType (tcbState (tcbs (suspend 2048 example_blocked) 2048)) = ThreadState_Inactive \<and> ep_queue 64 [] (suspend 2048 example_blocked)"
  using suspend_stops [of example_blocked 2048 64 "[]" "[]"] example_blocked_facts by auto

theorem setPriority_reorders_witness:
  "\<exists>s'. setPriority 2048 7 example_blocked = Some s' \<and> tcbPriority (tcbs s' 2048) = 7 \<and> epState (eps s' 64) = epState (eps example_blocked 64)"
  using setPriority_reorders [of 64 "[]" 2048 "[]" example_blocked 7] example_blocked_facts by auto



end
