(* ===== verification/VSpace.thy ===== *)
theory VSpace
  imports Thread
begin

text \<open>
  Page tables, address spaces and their invocations, \<^verbatim>\<open>src/kernel/arch/riscv/kernel/vspace.c\<close> without its boot code.

  A page table is an array of entries in the heap \<open>ptes\<close>. The fences after a change of a table have no content in a
  model without a translation cache. Clearing memory gives every object in the region its all-zero value.

  \<open>translate\<close> is the page walk of the hardware, the reference for the theorems: an accepted mapping makes exactly the
  frame visible, in the user's part of the address space and with no more rights than the capability; unmapping it makes it
  invisible; and deleting an address space never leaves the processor in it.
\<close>

section \<open>Layout\<close>

definition PT_INDEX_BITS :: word64 where "PT_INDEX_BITS = 9"
definition CONFIG_PT_LEVELS :: word64 where "CONFIG_PT_LEVELS = 3"
definition seL4_PageTableBits :: word64 where "seL4_PageTableBits = 12"
definition seL4_IPCBufferSizeBits :: word64 where "seL4_IPCBufferSizeBits = 10"
definition USER_TOP :: word64 where "USER_TOP = 0x3ffffff000"

definition pte_at :: "ptr \<Rightarrow> word64 \<Rightarrow> ptr" where
  "pte_at pt i = pt + 8 * i"

definition RISCV_GET_LVL_PGSIZE_BITS :: "word64 \<Rightarrow> word64" where
  "RISCV_GET_LVL_PGSIZE_BITS n = PT_INDEX_BITS * (CONFIG_PT_LEVELS - 1 - n) + seL4_PageBits"

definition RISCV_GET_PT_INDEX :: "word64 \<Rightarrow> word64 \<Rightarrow> word64" where
  "RISCV_GET_PT_INDEX addr n = drop_bit (unat (RISCV_GET_LVL_PGSIZE_BITS n)) addr AND MASK PT_INDEX_BITS"

definition pte_new :: "word64 \<Rightarrow> word64 \<Rightarrow> bool \<Rightarrow> bool \<Rightarrow> bool \<Rightarrow> bool \<Rightarrow> bool \<Rightarrow> bool \<Rightarrow> bool \<Rightarrow> bool \<Rightarrow> pte" where
  "pte_new ppn sw dirty accessed global user execute write read valid =
     \<lparr>pte_ppn = ppn AND 0xFFFFFFFFFFF, pte_sw = sw AND 3, pte_dirty = dirty, pte_accessed = accessed, pte_global = global,
      pte_user = user, pte_execute = execute, pte_write = write, pte_read = read, pte_valid = valid\<rparr>"

definition upd_pte :: "ptr \<Rightarrow> pte \<Rightarrow> kstate \<Rightarrow> kstate" where
  "upd_pte p x s = s\<lparr>ptes := (ptes s)(p := x)\<rparr>"

definition isPTEPageTable :: "ptr \<Rightarrow> kstate \<Rightarrow> bool" where
  "isPTEPageTable p s \<longleftrightarrow> pte_valid (ptes s p) \<and> \<not> (pte_read (ptes s p) \<or> pte_write (ptes s p) \<or> pte_execute (ptes s p))"

definition getPPtrFromHWPTE :: "ptr \<Rightarrow> kstate \<Rightarrow> ptr" where
  "getPPtrFromHWPTE p s = ptrFromPAddr (push_bit (unat seL4_PageTableBits) (pte_ppn (ptes s p)))"

section \<open>Walking page tables\<close>

function lookupPTSlot_loop :: "word64 \<Rightarrow> word64 \<Rightarrow> ptr \<Rightarrow> word64 \<Rightarrow> kstate \<Rightarrow> word64 \<times> ptr" where
  "lookupPTSlot_loop level ptBitsLeft ptSlot vptr s =
     (if isPTEPageTable ptSlot s \<and> 0 < level
      then let ptBitsLeft = ptBitsLeft - PT_INDEX_BITS;
               pt = getPPtrFromHWPTE ptSlot s
           in lookupPTSlot_loop (level - 1) ptBitsLeft (pte_at pt (drop_bit (unat ptBitsLeft) vptr AND MASK PT_INDEX_BITS)) vptr s
      else (ptBitsLeft, ptSlot))"
  by pat_completeness auto
termination
  by (relation "measure (\<lambda>(level, ptBitsLeft, ptSlot, vptr, s). unat level)")
    (auto simp: word_greater_zero_iff intro!: measure_unat)

declare lookupPTSlot_loop.simps [simp del]

definition lookupPTSlot :: "ptr \<Rightarrow> word64 \<Rightarrow> kstate \<Rightarrow> word64 \<times> ptr" where
  "lookupPTSlot lvl1pt vptr s =
     (let level = CONFIG_PT_LEVELS - 1;
          ptBitsLeft = PT_INDEX_BITS * level + seL4_PageBits
      in lookupPTSlot_loop level ptBitsLeft (pte_at lvl1pt (drop_bit (unat ptBitsLeft) vptr AND MASK PT_INDEX_BITS)) vptr s)"

definition copyGlobalMappings :: "ptr \<Rightarrow> kstate \<Rightarrow> kstate" where
  "copyGlobalMappings newLvl1pt s =
     fold (\<lambda>i s. upd_pte (pte_at newLvl1pt i) (ptes s (pte_at (pKernelRootPT (plat s)) i)) s)
       (map of_nat [unat (RISCV_GET_PT_INDEX PPTR_BASE 0)..<unat (BIT PT_INDEX_BITS)]) s"

text \<open>Zeroing the region of \<open>2 ^ bits\<close> bytes at \<open>p\<close>: every object there reads as zero.\<close>

definition clearMemory :: "ptr \<Rightarrow> word64 \<Rightarrow> kstate \<Rightarrow> kstate" where
  "clearMemory p bits s =
     (let inside = (\<lambda>x. x - p < BIT bits)
      in s\<lparr>tcbs := \<lambda>x. if inside x then tcb0 else tcbs s x,
           scs := \<lambda>x. if inside x then sc0 else scs s x,
           refills := \<lambda>x. if inside x then (\<lambda>_. \<lparr>rTime = 0, rAmount = 0\<rparr>) else refills s x,
           replies := \<lambda>x. if inside x then \<lparr>replyTCB = NULL, replyPrev = call_stack_new NULL False,
             replyNext = call_stack_new NULL False\<rparr> else replies s x,
           eps := \<lambda>x. if inside x then \<lparr>epQueue_head = NULL, epQueue_tail = NULL, epState = EPState_Idle\<rparr> else eps s x,
           ntfns := \<lambda>x. if inside x then \<lparr>ntfnSchedContext = NULL, ntfnBoundTCB = NULL, ntfnMsgIdentifier = 0,
             ntfnQueue_head = NULL, ntfnQueue_tail = NULL, ntfnState = NtfnState_Idle\<rparr> else ntfns s x,
           ctes := \<lambda>x. if inside x then nullMDBNode NullCap else ctes s x,
           mem := \<lambda>x. if inside x then 0 else mem s x,
           ptes := \<lambda>x. if inside x then pte0 else ptes s x,
           asid_pools := \<lambda>x. if inside x then (\<lambda>_. NULL) else asid_pools s x\<rparr>)"

section \<open>Faults\<close>

definition RISCVInstructionAccessFault :: word64 where "RISCVInstructionAccessFault = 1"
definition RISCVLoadAccessFault :: word64 where "RISCVLoadAccessFault = 5"
definition RISCVStoreAccessFault :: word64 where "RISCVStoreAccessFault = 7"
definition RISCVInstructionPageFault :: word64 where "RISCVInstructionPageFault = 12"
definition RISCVLoadPageFault :: word64 where "RISCVLoadPageFault = 13"
definition RISCVStorePageFault :: word64 where "RISCVStorePageFault = 15"

text \<open>The function always ends with the status \<^verbatim>\<open>EXCEPTION_FAULT\<close>, or halts.\<close>

definition handleVMFault :: "word64 \<Rightarrow> kstate \<Rightarrow> kstate option" where
  "handleVMFault vm_faultType s =
     (let addr = hwSTVAL s
      in if vm_faultType = RISCVLoadPageFault \<or> vm_faultType = RISCVLoadAccessFault
         then Some (s\<lparr>current_fault := VMFault addr RISCVLoadAccessFault False\<rparr>)
         else if vm_faultType = RISCVStorePageFault \<or> vm_faultType = RISCVStoreAccessFault
         then Some (s\<lparr>current_fault := VMFault addr RISCVStoreAccessFault False\<rparr>)
         else if vm_faultType = RISCVInstructionPageFault \<or> vm_faultType = RISCVInstructionAccessFault
         then Some (s\<lparr>current_fault := VMFault addr RISCVInstructionAccessFault True\<rparr>)
         else None)"

section \<open>Address spaces\<close>

definition deleteASIDPool :: "word64 \<Rightarrow> ptr \<Rightarrow> kstate \<Rightarrow> kstate" where
  "deleteASIDPool asid_base pool s =
     (if riscvKSASIDTable s (ASID_HIGH asid_base) = pool
      then let s = s\<lparr>riscvKSASIDTable := (riscvKSASIDTable s)(ASID_HIGH asid_base := NULL)\<rparr>
           in setVMRoot (ksCurThread s) s
      else s)"

definition performASIDControlInvocation :: "ptr \<Rightarrow> ptr \<Rightarrow> ptr \<Rightarrow> word64 \<Rightarrow> kstate \<Rightarrow> kstate" where
  "performASIDControlInvocation frame slot parent asid_base s =
     (let s = upd_cte parent (cteCap_update (\<lambda>c. UntypedCap (MAX_FREE_INDEX (capBlockSize c)) (capIsDevice c)
                (capBlockSize c) (capUtPtr c))) s;
          s = clearMemory frame (pageBitsForSize RISCV_4K_Page) s;
          s = cteInsert (ASIDPoolCap asid_base frame) parent slot s
      in s\<lparr>riscvKSASIDTable := (riscvKSASIDTable s)(ASID_HIGH asid_base := frame)\<rparr>)"

definition performASIDPoolInvocation :: "word64 \<Rightarrow> ptr \<Rightarrow> ptr \<Rightarrow> kstate \<Rightarrow> kstate" where
  "performASIDPoolInvocation asid poolPtr vspaceCapSlot s =
     (let regionBase = capPTBasePtr (cteCap (ctes s vspaceCapSlot));
          s = upd_cte vspaceCapSlot (cteCap_update (\<lambda>c. PageTableCap asid (capPTBasePtr c) True 0)) s;
          s = copyGlobalMappings regionBase s
      in s\<lparr>asid_pools := (asid_pools s)(poolPtr := (asid_pools s poolPtr)(ASID_LOW asid := regionBase))\<rparr>)"

definition deleteASID :: "word64 \<Rightarrow> ptr \<Rightarrow> kstate \<Rightarrow> kstate" where
  "deleteASID asid vspace s =
     (let poolPtr = riscvKSASIDTable s (ASID_HIGH asid)
      in if poolPtr \<noteq> NULL \<and> asid_pools s poolPtr (ASID_LOW asid) = vspace
         then let s = s\<lparr>asid_pools := (asid_pools s)(poolPtr := (asid_pools s poolPtr)(ASID_LOW asid := NULL))\<rparr>
              in setVMRoot (ksCurThread s) s
         else s)"

text \<open>The loop of \<^verbatim>\<open>unmapPageTable\<close>: the entry that refers to the table, if it is found.\<close>

function unmapPageTable_loop :: "word64 \<Rightarrow> ptr \<Rightarrow> ptr \<Rightarrow> ptr \<Rightarrow> word64 \<Rightarrow> kstate \<Rightarrow> (ptr \<times> ptr) option" where
  "unmapPageTable_loop i pt ptSlot target_pt vptr s =
     (if i < CONFIG_PT_LEVELS - 1 \<and> pt \<noteq> target_pt
      then let ptSlot = pte_at pt (RISCV_GET_PT_INDEX vptr i)
           in if \<not> isPTEPageTable ptSlot s then None
              else unmapPageTable_loop (i + 1) (getPPtrFromHWPTE ptSlot s) ptSlot target_pt vptr s
      else Some (pt, ptSlot))"
  by pat_completeness auto
termination
  by (relation "measure (\<lambda>(i, pt, ptSlot, target_pt, vptr, s). unat (CONFIG_PT_LEVELS - 1) - unat i)")
    (auto simp: word_less_nat_alt unat_suc_nowrap simp del: unat_0 dest: unat_suc_nowrap)

declare unmapPageTable_loop.simps [simp del]

definition unmapPageTable :: "word64 \<Rightarrow> word64 \<Rightarrow> ptr \<Rightarrow> kstate \<Rightarrow> kstate" where
  "unmapPageTable asid vptr target_pt s =
     (case findVSpaceForASID asid s of
        Inl _ \<Rightarrow> s
      | Inr vspace_root \<Rightarrow>
          (case unmapPageTable_loop 0 vspace_root NULL target_pt vptr s of
             None \<Rightarrow> s
           | Some (pt, ptSlot) \<Rightarrow>
               if pt \<noteq> target_pt then s
               else upd_pte ptSlot (pte_new 0 0 False False False False False False False False) s))"

definition pte_pte_invalid_new :: pte where
  "pte_pte_invalid_new = pte0"

definition unmapPage :: "word64 \<Rightarrow> word64 \<Rightarrow> word64 \<Rightarrow> ptr \<Rightarrow> kstate \<Rightarrow> kstate" where
  "unmapPage page_size asid vptr pptr s =
     (case findVSpaceForASID asid s of
        Inl _ \<Rightarrow> s
      | Inr vspace_root \<Rightarrow>
          (let (ptBitsLeft, ptSlot) = lookupPTSlot vspace_root vptr s
           in if ptBitsLeft \<noteq> pageBitsForSize page_size then s
              else if \<not> pte_valid (ptes s ptSlot) \<or> isPTEPageTable ptSlot s
                \<or> push_bit (unat seL4_PageBits) (pte_ppn (ptes s ptSlot)) \<noteq> addrFromPPtr pptr then s
              else upd_pte ptSlot pte_pte_invalid_new s))"

section \<open>Checks\<close>

definition isValidVTableRoot :: "cap \<Rightarrow> bool" where
  "isValidVTableRoot cap \<longleftrightarrow> is_PageTableCap cap \<and> capPTIsMapped cap"

definition checkValidIPCBuffer :: "word64 \<Rightarrow> cap \<Rightarrow> syscall_error + unit" where
  "checkValidIPCBuffer vptr cap =
     (if \<not> is_FrameCap cap then Inl seL4_IllegalOperation
      else if capFIsDevice cap then Inl seL4_IllegalOperation
      else if \<not> IS_ALIGNED vptr seL4_IPCBufferSizeBits then Inl seL4_AlignmentError
      else Inr ())"

definition checkVPAlignment :: "word64 \<Rightarrow> word64 \<Rightarrow> bool" where
  "checkVPAlignment sz w \<longleftrightarrow> w AND MASK (pageBitsForSize sz) = 0"

definition RISCVGetWriteFromVMRights :: "word64 \<Rightarrow> bool" where
  "RISCVGetWriteFromVMRights vm_rights \<longleftrightarrow> vm_rights = VMReadWrite"

definition RISCVGetReadFromVMRights :: "word64 \<Rightarrow> bool" where
  "RISCVGetReadFromVMRights vm_rights \<longleftrightarrow> vm_rights \<noteq> VMKernelOnly"

definition makeUserPTE :: "word64 \<Rightarrow> bool \<Rightarrow> word64 \<Rightarrow> pte" where
  "makeUserPTE paddr executable vm_rights =
     (let write = RISCVGetWriteFromVMRights vm_rights;
          read = RISCVGetReadFromVMRights vm_rights
      in if \<not> read \<and> \<not> write \<and> \<not> executable then pte_pte_invalid_new
         else pte_new (drop_bit (unat seL4_PageBits) paddr) 0 True True False True executable
                (RISCVGetWriteFromVMRights vm_rights) (RISCVGetReadFromVMRights vm_rights) True)"

section \<open>Performing invocations\<close>

definition performPageTableInvocationMap :: "cap \<Rightarrow> ptr \<Rightarrow> pte \<Rightarrow> ptr \<Rightarrow> kstate \<Rightarrow> kstate" where
  "performPageTableInvocationMap cap ctSlot pte ptSlot s = upd_pte ptSlot pte (set_cap ctSlot cap s)"

definition performPageTableInvocationUnmap :: "cap \<Rightarrow> ptr \<Rightarrow> kstate \<Rightarrow> kstate" where
  "performPageTableInvocationUnmap cap ctSlot s =
     (let s = (if capPTIsMapped cap
               then let pt = capPTBasePtr cap;
                        s = unmapPageTable (capPTMappedASID cap) (capPTMappedAddress cap) pt s
                    in clearMemory pt seL4_PageTableBits s
               else s)
      in upd_cte ctSlot (cteCap_update (\<lambda>c. PageTableCap (capPTMappedASID c) (capPTBasePtr c) False (capPTMappedAddress c))) s)"

definition performPageGetAddress :: "ptr \<Rightarrow> bool \<Rightarrow> kstate \<Rightarrow> kstate" where
  "performPageGetAddress vbase_ptr call s =
     (let paddr = addrFromPPtr vbase_ptr;
          thread = ksCurThread s;
          s = (if call
               then let ipcBuffer = lookupIPCBuffer True thread s;
                        s = setRegister thread badgeRegister 0 s;
                        (len, s) = setMR thread ipcBuffer 0 paddr s
                    in setRegister thread msgInfoRegister (wordFromMessageInfo (seL4_MessageInfo_new 0 0 0 (ucast len))) s
               else s)
      in setThreadState (ksCurThread s) ThreadState_Running s)"

definition updatePTE :: "pte \<Rightarrow> ptr \<Rightarrow> kstate \<Rightarrow> kstate" where
  "updatePTE pte base s = upd_pte base pte s"

definition performPageInvocationMapPTE :: "cap \<Rightarrow> ptr \<Rightarrow> pte \<Rightarrow> ptr \<Rightarrow> kstate \<Rightarrow> kstate" where
  "performPageInvocationMapPTE cap ctSlot pte base s = updatePTE pte base (set_cap ctSlot cap s)"

definition performPageInvocationUnmap :: "cap \<Rightarrow> ptr \<Rightarrow> kstate \<Rightarrow> kstate" where
  "performPageInvocationUnmap cap ctSlot s =
     (let s = (if capFMappedASID cap \<noteq> asidInvalid
               then unmapPage (capFSize cap) (capFMappedASID cap) (capFMappedAddress cap) (capFBasePtr cap) s else s)
      in upd_cte ctSlot (cteCap_update (\<lambda>c. FrameCap asidInvalid (capFBasePtr c) (capFSize c) (capFVMRights c) (capFIsDevice c) 0)) s)"

section \<open>Decoding\<close>

definition decodeRISCVPageTableInvocation :: "invocation_label \<Rightarrow> word64 \<Rightarrow> ptr \<Rightarrow> cap \<Rightarrow> ptr \<Rightarrow> kstate \<Rightarrow> kstate decode" where
  "decodeRISCVPageTableInvocation label len cte cap buffer s =
     (if label = RISCVPageTableUnmap
      then if \<not> isFinalCapability cte s then err seL4_RevokeFirst
           else if capPTIsMapped cap \<and> findVSpaceForASID (capPTMappedASID cap) s = Inr (capPTBasePtr cap)
           then err seL4_RevokeFirst
           else ok (performPageTableInvocationUnmap cap cte (setThreadState (ksCurThread s) ThreadState_Restart s))
      else if label \<noteq> RISCVPageTableMap then err seL4_IllegalOperation
      else if len < 2 \<or> excapref 0 s = NULL then err seL4_TruncatedMessage
      else if capPTIsMapped cap then err (seL4_InvalidCapability 0)
      else let vaddr = getSyscallArg 0 buffer s;
               lvl1ptCap = cteCap (ctes s (excapref 0 s))
           in if \<not> is_PageTableCap lvl1ptCap \<or> of_bool (capPTIsMapped lvl1ptCap) = asidInvalid
              then err (seL4_InvalidCapability 1)
              else let lvl1pt = capPTBasePtr lvl1ptCap;
                       asid = capPTMappedASID lvl1ptCap
                   in if vaddr \<ge> USER_TOP then err (seL4_InvalidArgument 0)
                      else case findVSpaceForASID asid s of
                          Inl f \<Rightarrow> Some (Inl (seL4_FailedLookup False, Some f))
                        | Inr vspace_root \<Rightarrow>
                            if vspace_root \<noteq> lvl1pt then err (seL4_InvalidCapability 1)
                            else let (ptBitsLeft, ptSlot) = lookupPTSlot lvl1pt vaddr s
                                 in if ptBitsLeft = seL4_PageBits \<or> pte_valid (ptes s ptSlot) then err seL4_DeleteFirst
                                    else let paddr = addrFromPPtr (capPTBasePtr cap);
                                             pte = pte_new (drop_bit (unat seL4_PageBits) paddr) 0 False False False False
                                                     False False False True;
                                             cap = PageTableCap asid (capPTBasePtr cap) True (vaddr AND NOT (MASK ptBitsLeft))
                                         in ok (performPageTableInvocationMap cap cte pte ptSlot
                                                  (setThreadState (ksCurThread s) ThreadState_Restart s)))"

text \<open>Attributes of a mapping: the one bit that forbids execution.\<close>

definition vm_attributes_get_riscvExecuteNever :: "word64 \<Rightarrow> bool" where
  "vm_attributes_get_riscvExecuteNever attr = bit attr 0"

text \<open>The case \<^verbatim>\<open>RISCVPageMap\<close> of \<^verbatim>\<open>decodeRISCVFrameInvocation\<close>.\<close>

definition decodeRISCVPageMap :: "word64 \<Rightarrow> ptr \<Rightarrow> cap \<Rightarrow> ptr \<Rightarrow> kstate \<Rightarrow> kstate decode" where
  "decodeRISCVPageMap len cte cap buffer s =
     (if len < 3 \<or> excapref 0 s = NULL then err seL4_TruncatedMessage
      else let vaddr = getSyscallArg 0 buffer s;
               w_rightsMask = getSyscallArg 1 buffer s;
               attr = getSyscallArg 2 buffer s;
               lvl1ptCap = cteCap (ctes s (excapref 0 s));
               frameSize = capFSize cap;
               capVMRights = capFVMRights cap
           in if \<not> is_PageTableCap lvl1ptCap \<or> \<not> capPTIsMapped lvl1ptCap then err (seL4_InvalidCapability 1)
              else let lvl1pt = capPTBasePtr lvl1ptCap;
                       asid = capPTMappedASID lvl1ptCap
                   in case findVSpaceForASID asid s of
                       Inl f \<Rightarrow> Some (Inl (seL4_FailedLookup False, Some f))
                     | Inr vspace_root \<Rightarrow>
                         let vtop = vaddr + BIT (pageBitsForSize frameSize) - 1;
                             (ptBitsLeft, ptSlot) = lookupPTSlot lvl1pt vaddr s;
                             frame_asid = capFMappedASID cap
                         in if vspace_root \<noteq> lvl1pt then err (seL4_InvalidCapability 1)
                            else if vtop \<ge> USER_TOP then err (seL4_InvalidArgument 0)
                            else if \<not> checkVPAlignment frameSize vaddr then err seL4_AlignmentError
                            else if ptBitsLeft \<noteq> pageBitsForSize frameSize
                            then Some (Inl (seL4_FailedLookup False, Some (MissingCapability ptBitsLeft)))
                            else if frame_asid \<noteq> asidInvalid \<and> frame_asid \<noteq> asid then err (seL4_InvalidCapability 1)
                            else if frame_asid \<noteq> asidInvalid \<and> capFMappedAddress cap \<noteq> vaddr then err (seL4_InvalidArgument 0)
                            else if frame_asid \<noteq> asidInvalid \<and> isPTEPageTable ptSlot s then err seL4_DeleteFirst
                            else if frame_asid = asidInvalid \<and> pte_valid (ptes s ptSlot) then err seL4_DeleteFirst
                            else let vmRights = maskVMRights capVMRights (rightsFromWord w_rightsMask);
                                     frame_paddr = addrFromPPtr (capFBasePtr cap);
                                     cap = FrameCap asid (capFBasePtr cap) (capFSize cap) (capFVMRights cap) (capFIsDevice cap) vaddr;
                                     executable = (\<not> vm_attributes_get_riscvExecuteNever attr);
                                     pte = makeUserPTE frame_paddr executable vmRights
                                 in ok (performPageInvocationMapPTE cap cte pte ptSlot
                                          (setThreadState (ksCurThread s) ThreadState_Restart s)))"

definition decodeRISCVFrameInvocation :: "invocation_label \<Rightarrow> word64 \<Rightarrow> ptr \<Rightarrow> cap \<Rightarrow> bool \<Rightarrow> ptr \<Rightarrow> kstate \<Rightarrow> kstate decode" where
  "decodeRISCVFrameInvocation label len cte cap call buffer s =
     (case label of
        RISCVPageMap \<Rightarrow> decodeRISCVPageMap len cte cap buffer s
      | RISCVPageUnmap \<Rightarrow> ok (performPageInvocationUnmap cap cte (setThreadState (ksCurThread s) ThreadState_Restart s))
      | RISCVPageGetAddress \<Rightarrow>
          ok (performPageGetAddress (capFBasePtr cap) call (setThreadState (ksCurThread s) ThreadState_Restart s))
      | _ \<Rightarrow> err seL4_IllegalOperation)"

text \<open>The loops that look for the first free pool and the first free identifier.\<close>

function first_free :: "(word64 \<Rightarrow> bool) \<Rightarrow> word64 \<Rightarrow> word64 \<Rightarrow> word64" where
  "first_free used i n = (if i < n \<and> used i then first_free used (i + 1) n else i)"
  by pat_completeness auto
termination
  by (relation "measure (\<lambda>(used, i, n). unat n - unat i)") (auto simp: word_less_nat_alt unat_suc_nowrap)

declare first_free.simps [simp del]

text \<open>The cases of \<^verbatim>\<open>decodeRISCVMMUInvocation\<close> for the two kinds of capabilities on address space identifiers.\<close>

definition decodeASIDControl :: "invocation_label \<Rightarrow> word64 \<Rightarrow> ptr \<Rightarrow> kstate \<Rightarrow> kstate decode" where
  "decodeASIDControl label len buffer s =
     (if label \<noteq> RISCVASIDControlMakePool then err seL4_IllegalOperation
      else if len < 2 \<or> excapref 0 s = NULL \<or> excapref 1 s = NULL then err seL4_TruncatedMessage
      else let index = getSyscallArg 0 buffer s;
               depth = getSyscallArg 1 buffer s;
               parentSlot = excapref 0 s;
               untyped = cteCap (ctes s parentSlot);
               root = cteCap (ctes s (excapref 1 s));
               i = first_free (\<lambda>i. riscvKSASIDTable s i \<noteq> NULL) 0 nASIDPools
           in if i = nASIDPools then err seL4_DeleteFirst
              else let asid_base = push_bit (unat asidLowBits) i
                   in if \<not> is_UntypedCap untyped \<or> capBlockSize untyped \<noteq> seL4_ASIDPoolBits \<or> capIsDevice untyped
                      then err (seL4_InvalidCapability 1)
                      else on_ok (check (ensureNoChildren parentSlot s)) (\<lambda>_.
                           let frame = capUtPtr untyped
                           in on_ok (lookupTargetSlot root index depth s) (\<lambda>destSlot.
                              on_ok (check (ensureEmptySlot destSlot s)) (\<lambda>_.
                              ok (performASIDControlInvocation frame destSlot parentSlot asid_base
                                    (setThreadState (ksCurThread s) ThreadState_Restart s))))))"

definition decodeASIDPool :: "invocation_label \<Rightarrow> cap \<Rightarrow> kstate \<Rightarrow> kstate decode" where
  "decodeASIDPool label cap s =
     (if label \<noteq> RISCVASIDPoolAssign then err seL4_IllegalOperation
      else if excapref 0 s = NULL then err seL4_TruncatedMessage
      else let vspaceCapSlot = excapref 0 s;
               vspaceCap = cteCap (ctes s vspaceCapSlot)
           in if \<not> is_PageTableCap vspaceCap \<or> capPTIsMapped vspaceCap then err (seL4_InvalidCapability 1)
              else let pool = riscvKSASIDTable s (ASID_HIGH (capASIDBase cap))
                   in if pool = NULL then Some (Inl (seL4_FailedLookup False, Some InvalidRoot))
                      else if pool \<noteq> capASIDPool cap then err (seL4_InvalidCapability 0)
                      else let asid = capASIDBase cap;
                               i = first_free (\<lambda>i. asid + i = 0 \<or> asid_pools s pool i \<noteq> NULL) 0 (BIT asidLowBits)
                           in if i = BIT asidLowBits then err seL4_DeleteFirst
                              else ok (performASIDPoolInvocation (asid + i) pool vspaceCapSlot
                                         (setThreadState (ksCurThread s) ThreadState_Restart s)))"

definition decodeRISCVMMUInvocation :: "invocation_label \<Rightarrow> word64 \<Rightarrow> ptr \<Rightarrow> cap \<Rightarrow> bool \<Rightarrow> ptr \<Rightarrow> kstate \<Rightarrow> kstate decode" where
  "decodeRISCVMMUInvocation label len cte cap call buffer s =
     (case cap of
        PageTableCap _ _ _ _ \<Rightarrow> decodeRISCVPageTableInvocation label len cte cap buffer s
      | FrameCap _ _ _ _ _ _ \<Rightarrow> decodeRISCVFrameInvocation label len cte cap call buffer s
      | ASIDControlCap \<Rightarrow> decodeASIDControl label len buffer s
      | ASIDPoolCap _ _ \<Rightarrow> decodeASIDPool label cap s
      | _ \<Rightarrow> None)"

definition Arch_decodeInvocation :: "invocation_label \<Rightarrow> word64 \<Rightarrow> ptr \<Rightarrow> cap \<Rightarrow> bool \<Rightarrow> ptr \<Rightarrow> kstate \<Rightarrow> kstate decode" where
  "Arch_decodeInvocation label len slot cap call buffer s = decodeRISCVMMUInvocation label len slot cap call buffer s"

section \<open>The page walk of the hardware\<close>

text \<open>
  \<open>walk l pt v s\<close>: the leaf entry for address \<open>v\<close> below the table \<open>pt\<close> of level \<open>l\<close> (0 for 4 KiB pages), as the processor finds it.
\<close>

abbreviation pt_index :: "nat \<Rightarrow> word64 \<Rightarrow> word64" where
  "pt_index l v \<equiv> drop_bit (12 + 9 * l) v AND MASK PT_INDEX_BITS"

fun walk :: "nat \<Rightarrow> ptr \<Rightarrow> word64 \<Rightarrow> kstate \<Rightarrow> (nat \<times> pte) option" where
  "walk l pt v s =
     (let x = ptes s (pte_at pt (pt_index l v))
      in if \<not> pte_valid x then None
         else if pte_read x \<or> pte_write x \<or> pte_execute x then Some (l, x)
         else case l of 0 \<Rightarrow> None | Suc l' \<Rightarrow> walk l' (ptrFromPAddr (push_bit 12 (pte_ppn x))) v s)"

declare walk.simps [simp del]

definition translate :: "ptr \<Rightarrow> word64 \<Rightarrow> kstate \<Rightarrow> (word64 \<times> pte) option" where
  "translate root v s = (case walk 2 root v s of None \<Rightarrow> None
     | Some (l, x) \<Rightarrow> Some (push_bit 12 (pte_ppn x) + (v AND mask (12 + 9 * l)), x))"

text \<open>The search of the kernel, by levels.\<close>

primrec pt_search :: "nat \<Rightarrow> ptr \<Rightarrow> word64 \<Rightarrow> kstate \<Rightarrow> nat \<times> ptr" where
  "pt_search 0 p v s = (0, p)"
| "pt_search (Suc l) p v s =
     (if isPTEPageTable p s then pt_search l (pte_at (getPPtrFromHWPTE p s) (pt_index l v)) v s else (Suc l, p))"

lemma pt_search_numerals:
  "pt_search 1 p v s = (if isPTEPageTable p s then (0, pte_at (getPPtrFromHWPTE p s) (pt_index 0 v)) else (1, p))"
  "pt_search 2 p v s = (if isPTEPageTable p s then pt_search 1 (pte_at (getPPtrFromHWPTE p s) (pt_index 1 v)) v s else (2, p))"
  unfolding One_nat_def numeral_2_eq_2 by simp_all

lemma lookupPTSlot_loop_search:
  "lookupPTSlot_loop 0 12 p v s = (12, p)"
  "lookupPTSlot_loop 1 21 p v s = (let (k, q) = pt_search 1 p v s in (of_nat (12 + 9 * k), q))"
  "lookupPTSlot_loop 2 30 p v s = (let (k, q) = pt_search 2 p v s in (of_nat (12 + 9 * k), q))"
proof -
  show 0: "lookupPTSlot_loop 0 12 p v s = (12, p)" for p by (simp add: lookupPTSlot_loop.simps)
  show 1: "lookupPTSlot_loop 1 21 p v s = (let (k, q) = pt_search 1 p v s in (of_nat (12 + 9 * k), q))" for p
    by (subst lookupPTSlot_loop.simps) (simp add: Let_def PT_INDEX_BITS_def 0 pt_search_numerals)
  show "lookupPTSlot_loop 2 30 p v s = (let (k, q) = pt_search 2 p v s in (of_nat (12 + 9 * k), q))"
    by (subst lookupPTSlot_loop.simps) (simp add: Let_def PT_INDEX_BITS_def 1 pt_search_numerals)
qed

lemma lookupPTSlot_search:
  "lookupPTSlot root v s = (let (k, q) = pt_search 2 (pte_at root (pt_index 2 v)) v s in (of_nat (12 + 9 * k), q))"
  by (simp add: lookupPTSlot_def Let_def CONFIG_PT_LEVELS_def PT_INDEX_BITS_def seL4_PageBits_def lookupPTSlot_loop_search)

lemma pt_search_le: "pt_search l p v s = (k, q) \<Longrightarrow> k \<le> l"
  by (induction l arbitrary: p) (auto split: if_splits intro: le_SucI)

lemma pt_search_page:
  assumes "pt_search l p v s = (k, q)" "drop_bit (12 + 9 * k) v' = drop_bit (12 + 9 * k) v"
  shows "pt_search l p v' s = (k, q)"
  using assms
proof (induction l arbitrary: p)
  case (Suc l)
  show ?case
  proof (cases "isPTEPageTable p s")
    case True
    then have r: "pt_search l (pte_at (getPPtrFromHWPTE p s) (pt_index l v)) v s = (k, q)" using Suc.prems by simp
    from pt_search_le [OF this] obtain d where d: "12 + 9 * l = 9 * d + (12 + 9 * k)" by (auto simp: le_iff_add algebra_simps)
    have "drop_bit (12 + 9 * l) v' = drop_bit (12 + 9 * l) v"
      unfolding d drop_bit_drop_bit [of "9 * d" "12 + 9 * k", symmetric] Suc.prems(2) ..
    then show ?thesis using Suc.IH [OF r Suc.prems(2)] True by simp
  qed (use Suc.prems in auto)
qed simp

text \<open>Writing a leaf, or nothing, where the search ended does not change the way there.\<close>

lemma pt_search_upd:
  assumes "pt_search l p v s = (k, q)" "\<not> isPTEPageTable q s" "\<not> isPTEPageTable q (upd_pte q x s)"
  shows "pt_search l p v (upd_pte q x s) = (k, q)"
  using assms(1)
proof (induction l arbitrary: p)
  case (Suc l)
  show ?case
  proof (cases "isPTEPageTable p s")
    case True
    then have "p \<noteq> q" using assms(2) by auto
    then have "isPTEPageTable p (upd_pte q x s)" "getPPtrFromHWPTE p (upd_pte q x s) = getPPtrFromHWPTE p s"
      using True by (simp_all add: isPTEPageTable_def getPPtrFromHWPTE_def upd_pte_def)
    then show ?thesis using Suc True by simp
  next
    case False
    then show ?thesis using Suc.prems assms(3) by auto
  qed
qed simp

lemma walk_search:
  assumes "pt_search l (pte_at pt (pt_index l v)) v s = (k, q)"
  shows "walk l pt v s = (if pte_valid (ptes s q) \<and> \<not> isPTEPageTable q s then Some (k, ptes s q) else None)"
  using assms
proof (induction l arbitrary: pt)
  case 0
  then show ?case by (auto simp: walk.simps [of 0] isPTEPageTable_def Let_def)
next
  case (Suc l)
  let ?p = "pte_at pt (pt_index (Suc l) v)"
  show ?case
  proof (cases "isPTEPageTable ?p s")
    case True
    then have "pt_search l (pte_at (getPPtrFromHWPTE ?p s) (pt_index l v)) v s = (k, q)" using Suc.prems by simp
    from Suc.IH [OF this] True show ?thesis
      by (simp add: walk.simps [of "Suc l"] Let_def isPTEPageTable_def getPPtrFromHWPTE_def seL4_PageTableBits_def)
  next
    case False
    then show ?thesis using Suc.prems by (auto simp: walk.simps [of "Suc l"] Let_def isPTEPageTable_def)
  qed
qed

lemma page_bits:
  assumes "pageBitsForSize sz = of_nat (12 + 9 * k)" "k \<le> 2"
  shows "BIT (pageBitsForSize sz) = 2 ^ (12 + 9 * k)" "MASK (pageBitsForSize sz) = mask (12 + 9 * k)" "unat (pageBitsForSize sz) = 12 + 9 * k"
proof -
  have k: "k = 0 \<or> k = 1 \<or> k = 2" using assms(2) by auto
  then show u: "unat (pageBitsForSize sz) = 12 + 9 * k" using assms(1) by auto
  show "BIT (pageBitsForSize sz) = 2 ^ (12 + 9 * k)" "MASK (pageBitsForSize sz) = mask (12 + 9 * k)"
    unfolding MASK_def BIT_def u by (simp_all add: push_bit_eq_mult mask_eq_exp_minus_1)
qed

text \<open>The offsets inside an aligned page: they change neither the page number nor the base.\<close>

lemma page_offset:
  fixes v :: word64
  assumes "v AND mask n = 0" "i < 2 ^ n" "n < 64"
  shows "drop_bit n (v + of_nat i) = drop_bit n v" "(v + of_nat i) AND mask n = of_nat i"
proof -
  have i: "(of_nat i :: word64) = take_bit n (of_nat i)"
    using assms(2,3) by (simp add: take_bit_of_nat take_bit_nat_eq_self)
  have vb: "\<not> bit v m" if "m < n" for m
    using arg_cong [OF assms(1), of "\<lambda>w. bit w m"] that assms(3) by (simp add: bit_simps)
  have ib: "m < n" if "bit (of_nat i :: word64) m" for m
    using that i by (metis bit_take_bit_iff)
  have d: "v + of_nat i = v OR of_nat i" by (rule disjunctive_add) (use vb ib in blast)
  show "drop_bit n (v + of_nat i) = drop_bit n v"
    unfolding d by (rule bit_eqI) (use ib in \<open>force simp: bit_simps\<close>)
  show "(v + of_nat i) AND mask n = of_nat i"
    unfolding d by (rule bit_eqI) (use vb ib in \<open>auto simp: bit_simps\<close>)
qed

lemma decode_results [simp]: "Some (Inl d) \<noteq> ok x" "err e \<noteq> Some (Inr x)" by (auto simp: ok_def err_def)

lemma decodeRISCVPageMap_ok:
  assumes m: "decodeRISCVPageMap len cte cap buffer s = Some (Inr s')" and k: "pageBitsForSize (capFSize cap) = of_nat (12 + 9 * k)" "k \<le> 2"
  defines "v \<equiv> getSyscallArg 0 buffer s" and "pt \<equiv> cteCap (ctes s (excapref 0 s))"
    and "r \<equiv> maskVMRights (capFVMRights cap) (rightsFromWord (getSyscallArg 1 buffer s))"
    and "x \<equiv> \<not> vm_attributes_get_riscvExecuteNever (getSyscallArg 2 buffer s)"
  shows "\<exists>q. pt_search 2 (pte_at (capPTBasePtr pt) (pt_index 2 v)) v s = (k, q) \<and> \<not> isPTEPageTable q s
    \<and> findVSpaceForASID (capPTMappedASID pt) s = Inr (capPTBasePtr pt) \<and> capPTIsMapped pt
    \<and> v + BIT (pageBitsForSize (capFSize cap)) - 1 < USER_TOP \<and> checkVPAlignment (capFSize cap) v
    \<and> s' = upd_pte q (makeUserPTE (addrFromPPtr (capFBasePtr cap)) x r)
        (set_cap cte (FrameCap (capPTMappedASID pt) (capFBasePtr cap) (capFSize cap) (capFVMRights cap) (capFIsDevice cap) v)
          (setThreadState (ksCurThread s) ThreadState_Restart s))"
proof -
  obtain j q where j: "pt_search 2 (pte_at (capPTBasePtr pt) (pt_index 2 v)) v s = (j, q)" by fastforce
  have jl: "j \<le> 2" using pt_search_le [OF j] .
  have same: "j = k" if "(of_nat (12 + 9 * j) :: word64) = of_nat (12 + 9 * k)"
  proof -
    have "j = 0 \<or> j = 1 \<or> j = 2" "k = 0 \<or> k = 1 \<or> k = 2" using jl k(2) by auto
    then show ?thesis using that by auto
  qed
  show ?thesis
    using m same
    unfolding decodeRISCVPageMap_def Let_def v_def [symmetric] pt_def [symmetric] r_def [symmetric] x_def [symmetric]
      lookupPTSlot_search j prod.case k(1) performPageInvocationMapPTE_def updatePTE_def
    by (intro exI [of _ q])
      (auto simp: isPTEPageTable_def not_le split: if_splits sum.splits)
qed


lemma makeUserPTE_leaf:
  "\<not> isPTEPageTable q (upd_pte q (makeUserPTE a x r) s)"
  "pte_valid (makeUserPTE a x r) \<longleftrightarrow> r \<noteq> VMKernelOnly \<or> x"
  "pte_valid (makeUserPTE a x r) \<Longrightarrow> pte_ppn (makeUserPTE a x r) = drop_bit 12 a AND 0xFFFFFFFFFFF
    \<and> (pte_write (makeUserPTE a x r) \<longleftrightarrow> r = VMReadWrite) \<and> (pte_read (makeUserPTE a x r) \<longleftrightarrow> r \<noteq> VMKernelOnly)
    \<and> (pte_execute (makeUserPTE a x r) \<longleftrightarrow> x) \<and> pte_user (makeUserPTE a x r)"
  by (cases x; auto simp: makeUserPTE_def isPTEPageTable_def upd_pte_def pte_new_def pte_pte_invalid_new_def pte0_def Let_def
      RISCVGetWriteFromVMRights_def RISCVGetReadFromVMRights_def VMReadWrite_def VMKernelOnly_def seL4_PageBits_def)+

lemma frame_number:
  fixes a :: word64
  assumes "a AND mask 12 = 0" "a < 2 ^ 56"
  shows "push_bit 12 (drop_bit 12 a AND 0xFFFFFFFFFFF) = a"
proof -
  have "unat (take_bit 56 a) = unat a"
    using assms(2) by (simp add: unsigned_take_bit_eq take_bit_nat_eq_self word_less_nat_alt)
  then have a: "a = take_bit 56 a" by (simp add: word_unat_eq_iff)
  have m: "(0xFFFFFFFFFFF :: word64) = mask 44" by (simp add: mask_eq_exp_minus_1)
  have low: "\<not> bit a n" if "n < 12" for n
    using arg_cong [OF assms(1), of "\<lambda>w. bit w n"] that by (simp add: bit_simps)
  have high: "n < 56" if "bit a n" for n using that a by (metis bit_take_bit_iff)
  show ?thesis unfolding m
  proof (rule bit_eqI)
    fix n
    show "bit (push_bit 12 (drop_bit 12 a AND mask 44)) n \<longleftrightarrow> bit a n"
      using low [of n] high [of n] bit_imp_le_length [of a n] by (cases "n < 12"; cases "bit a n") (auto simp: bit_simps)
  qed
qed

lemma translate_leaf:
  assumes "pt_search 2 (pte_at root (pt_index 2 v)) v s = (k, q)" "v AND mask (12 + 9 * k) = 0" "i < 2 ^ (12 + 9 * k)"
  shows "translate root (v + of_nat i) s =
    (if pte_valid (ptes s q) \<and> \<not> isPTEPageTable q s then Some (push_bit 12 (pte_ppn (ptes s q)) + of_nat i, ptes s q) else None)"
proof -
  have "k \<le> 2" using pt_search_le [OF assms(1)] .
  then have n: "12 + 9 * k < 64" by simp
  note o = page_offset [OF assms(2,3) n]
  have "pt_search 2 (pte_at root (pt_index 2 (v + of_nat i))) (v + of_nat i) s = (k, q)"
  proof -
    obtain d where d: "12 + 9 * 2 = 9 * d + (12 + 9 * k)" using \<open>k \<le> 2\<close> that [of "2 - k"] by simp
    have "drop_bit (12 + 9 * 2) (v + of_nat i) = drop_bit (12 + 9 * 2) v"
      unfolding d drop_bit_drop_bit [of "9 * d" "12 + 9 * k", symmetric] o(1) ..
    then show ?thesis using pt_search_page [OF assms(1) o(1)] by simp
  qed
  from walk_search [OF this] show ?thesis by (simp add: translate_def o(2))
qed

lemma pt_search_cong: "ptes s' = ptes s \<Longrightarrow> pt_search l p v s' = pt_search l p v s"
  by (induction l arbitrary: p) (simp_all add: isPTEPageTable_def getPPtrFromHWPTE_def)

lemma ptes_thread [simp]: "ptes (setThreadState t ts s) = ptes s" "ptes (set_cap c x s) = ptes s" "ptes (upd_cte c f s) = ptes s"
  by (simp_all add: setThreadState_def scheduleTCB_def upd_ts_def upd_tcb_def set_cap_def upd_cte_def)

lemma asid_thread [simp]:
  "findVSpaceForASID a (setThreadState t ts s) = findVSpaceForASID a s" "findVSpaceForASID a (set_cap c x s) = findVSpaceForASID a s"
  "findVSpaceForASID a (upd_cte c f s) = findVSpaceForASID a s" "findVSpaceForASID a (upd_pte p y s) = findVSpaceForASID a s"
  by (simp_all add: findVSpaceForASID_def Let_def setThreadState_def scheduleTCB_def upd_ts_def upd_tcb_def set_cap_def upd_cte_def upd_pte_def)

lemma page_end:
  fixes v :: word64
  assumes "v AND mask n = 0" "v + 2 ^ n - 1 < USER_TOP" "n \<le> 30"
  shows "unat v + 2 ^ n \<le> unat USER_TOP"
proof -
  let ?t = "v + of_nat (2 ^ n - 1)"
  have t: "?t = v + 2 ^ n - 1" by simp
  have n: "n < 64" using assms(3) by simp
  have "drop_bit n ?t = drop_bit n v" by (rule page_offset(1) [OF assms(1) _ n]) simp
  from arg_cong [OF this, of unat] have d: "unat ?t div 2 ^ n = unat v div 2 ^ n"
    using unsigned_less [of v, where ?'a = nat] unsigned_less [of ?t, where ?'a = nat]
    unfolding unsigned_drop_bit_eq by (simp only: drop_bit_eq_div take_bit_nat_eq_self)
  have "take_bit n v = 0" using assms(1) by (simp add: take_bit_eq_mask)
  from arg_cong [OF this, of unat] have m: "unat v mod 2 ^ n = 0"
    unfolding unsigned_take_bit_eq by (simp add: take_bit_eq_mod)
  have "unat v = unat v div 2 ^ n * 2 ^ n" using div_mult_mod_eq [of "unat v" "2 ^ n"] m by simp
  also have "\<dots> = unat ?t div 2 ^ n * 2 ^ n" using d by simp
  also have "\<dots> \<le> unat ?t" by (rule div_times_less_eq_dividend)
  finally have "unat v \<le> unat ?t" .
  moreover have "unat ?t < unat USER_TOP" using assms(2) unfolding t by (simp add: word_less_nat_alt)
  moreover have u: "unat USER_TOP = 0x3ffffff000" by (simp add: USER_TOP_def)
  moreover have p30: "(2::nat) ^ n \<le> 2 ^ 30" using assms(3) by (rule power_increasing) simp
  ultimately have lt: "unat v + (2 ^ n - 1) < 2 ^ 64" by simp
  have "unat ?t = unat v + (2 ^ n - 1)"
  proof -
    have "unat (of_nat (2 ^ n - 1) :: word64) = 2 ^ n - 1"
      using p30 by (simp add: unat_of_nat take_bit_nat_eq_self del: of_nat_diff)
    then show ?thesis using lt by (simp add: unat_word_ariths(1) del: of_nat_diff)
  qed
  then show ?thesis using \<open>unat ?t < unat USER_TOP\<close> by simp
qed

lemma frame_sizes:
  assumes "sz \<le> 2"
  obtains k where "pageBitsForSize sz = of_nat (12 + 9 * k)" "k \<le> 2" "unat (pageBitsForSize sz) = 12 + 9 * k"
proof -
  have "sz = 0 \<or> sz = 1 \<or> sz = 2" using assms by (auto simp: word_le_nat_alt word_unat_eq_iff)
  then obtain k where k: "pageBitsForSize sz = of_nat (12 + 9 * k)" "k \<le> 2"
    by (elim disjE) (rule that [of 0] that [of 1] that [of 2]; simp add: pageBitsForSize_def RISCV_4K_Page_def RISCV_Mega_Page_def
      RISCV_Giga_Page_def seL4_PageBits_def seL4_LargePageBits_def seL4_HugePageBits_def)+
  then show ?thesis using that page_bits(3) [OF k] by blast
qed


text \<open>Only the table of identifiers and the page tables count for the search of an address.\<close>

lemma walk_cong: "ptes s' = ptes s \<Longrightarrow> walk l pt v s' = walk l pt v s"
proof (induction l arbitrary: pt)
  case 0
  then show ?case by (simp add: walk.simps [of 0] Let_def)
next
  case (Suc l)
  then show ?case by (simp add: walk.simps [of "Suc l"] Let_def)
qed

lemma leaf_unmapped:
  assumes "pt_search 2 (pte_at root (pt_index 2 v)) v s = (k, q)" "pte_valid (ptes s q)" "\<not> isPTEPageTable q s"
  shows "walk 2 root v (upd_pte q pte_pte_invalid_new s) = None"
proof -
  have n: "\<not> isPTEPageTable q (upd_pte q pte_pte_invalid_new s)" "\<not> pte_valid (ptes (upd_pte q pte_pte_invalid_new s) q)"
    by (simp_all add: isPTEPageTable_def upd_pte_def pte_pte_invalid_new_def pte0_def)
  show ?thesis using walk_search [OF pt_search_upd [OF assms(1,3) n(1)]] n(2) by simp
qed

lemma drop_bit_mono:
  fixes v :: word64
  assumes "drop_bit n v' = drop_bit n v" "n \<le> m"
  shows "drop_bit m v' = drop_bit m v"
proof -
  have "drop_bit m x = drop_bit (m - n) (drop_bit n x)" for x :: word64 using assms(2) by (simp add: drop_bit_drop_bit)
  from this [of v'] this [of v] show ?thesis unfolding assms(1) by (rule trans [OF _ sym])
qed

text \<open>
  C23. Unmapping works: when a mapped frame is unmapped, its capability says so, and no address of the page leads to the frame any more through a
  page of the frame's size, whether the address space still exists, the page was replaced, or the table that held it is gone.
\<close>

theorem page_unmap_hides:
  fixes base rights va ctSlot :: word64 and dev :: bool
  assumes sz: "sz \<le> 2" and v: "va AND mask (unat (pageBitsForSize sz)) = 0" and i: "i < 2 ^ unat (pageBitsForSize sz)"
    and a: "asid \<noteq> asidInvalid" "findVSpaceForASID asid s = Inr root"
  defines "s' \<equiv> performPageInvocationUnmap (FrameCap asid base sz rights dev va) ctSlot s"
  shows "(\<forall>l x. walk 2 root (va + of_nat i) s' = Some (l, x) \<longrightarrow> of_nat (12 + 9 * l) = pageBitsForSize sz
            \<longrightarrow> push_bit 12 (pte_ppn x) \<noteq> addrFromPPtr base)
    \<and> capFMappedASID (cteCap (ctes s' ctSlot)) = asidInvalid"
proof -
  obtain k where k: "pageBitsForSize sz = of_nat (12 + 9 * k)" "k \<le> 2" "unat (pageBitsForSize sz) = 12 + 9 * k"
    using frame_sizes [OF sz] .
  obtain j q where j: "pt_search 2 (pte_at root (pt_index 2 va)) va s = (j, q)" by fastforce
  let ?v = "va + of_nat i"
  let ?u = "unmapPage sz asid va base s"
  have u: "?u = (if of_nat (12 + 9 * j) \<noteq> pageBitsForSize sz \<or> \<not> pte_valid (ptes s q) \<or> isPTEPageTable q s
      \<or> push_bit 12 (pte_ppn (ptes s q)) \<noteq> addrFromPPtr base then s else upd_pte q pte_pte_invalid_new s)"
    unfolding unmapPage_def a sum.case lookupPTSlot_search j Let_def prod.case by (simp add: seL4_PageBits_def)
  have w: "walk 2 root ?v s' = walk 2 root ?v ?u"
    using a(1) by (intro walk_cong) (simp add: s'_def performPageInvocationUnmap_def)
  have same: "drop_bit (12 + 9 * k) ?v = drop_bit (12 + 9 * k) va"
    using page_offset(1) [OF v i] k by simp
  have jl: "j \<le> 2" using pt_search_le [OF j] .
  have lvl: "of_nat (12 + 9 * l) = pageBitsForSize sz \<longleftrightarrow> l = k" if "l \<le> 2" for l
  proof -
    have "l = 0 \<or> l = 1 \<or> l = 2" "k = 0 \<or> k = 1 \<or> k = 2" using that k(2) by auto
    then show ?thesis unfolding k(1) by auto
  qed
  have idx: "pte_at root (pt_index 2 ?v) = pte_at root (pt_index 2 va)"
    using drop_bit_mono [OF same, of "12 + 9 * 2"] k(2) by simp
  have hide: False if x: "walk 2 root ?v ?u = Some (l, x)" "of_nat (12 + 9 * l) = pageBitsForSize sz"
    "push_bit 12 (pte_ppn x) = addrFromPPtr base" for l x
  proof (cases "of_nat (12 + 9 * j) = pageBitsForSize sz \<and> pte_valid (ptes s q) \<and> \<not> isPTEPageTable q s
      \<and> push_bit 12 (pte_ppn (ptes s q)) = addrFromPPtr base")
    case False
    then have us: "?u = s" using u by auto
    obtain l' q' where q': "pt_search 2 (pte_at root (pt_index 2 ?v)) ?v s = (l', q')" by fastforce
    then have l: "l' = k" "x = ptes s q'" "pte_valid (ptes s q')" "\<not> isPTEPageTable q' s"
      using x us walk_search [OF q'] lvl [of l'] pt_search_le [OF q'] by (auto split: if_splits)
    have "pt_search 2 (pte_at root (pt_index 2 va)) va s = (k, q')"
      using pt_search_page [OF q' [unfolded l(1)] same [symmetric]] idx by simp
    then have "j = k" "q' = q" using j by simp_all
    then show False using l x(3) False k(1) by simp
  next
    case True
    then have u': "?u = upd_pte q pte_pte_invalid_new s" "pte_valid (ptes s q)" "\<not> isPTEPageTable q s" "j = k"
      using u lvl [OF jl] by (auto split: if_splits)
    have "pt_search 2 (pte_at root (pt_index 2 ?v)) ?v s = (k, q)"
      using pt_search_page [OF j [unfolded u'(4)] same] idx by simp
    then show False using leaf_unmapped u' x(1) by fastforce
  qed
  have "capFMappedASID (cteCap (ctes s' ctSlot)) = asidInvalid"
    by (simp add: s'_def performPageInvocationUnmap_def Let_def upd_cte_def)
  then show ?thesis unfolding w using hide by blast
qed

text \<open>
  C24. The processor never stays in a deleted address space: deleting an identifier, or a whole pool of them, makes the identifiers unusable, and
  the translation register stays the root of the current thread, or the kernel's own page table when the thread has lost its.
\<close>

theorem deleted_vspace_left:
  assumes "hwSATP s = vm_root (ksCurThread s) s"
  shows "findVSpaceForASID asid (deleteASID asid vspace s) \<noteq> Inr vspace
    \<and> hwSATP (deleteASID asid vspace s) = vm_root (ksCurThread s) (deleteASID asid vspace s)
    \<and> (riscvKSASIDTable s (ASID_HIGH asid) = pool \<longrightarrow> findVSpaceForASID asid (deleteASIDPool asid pool s) = Inl InvalidRoot)
    \<and> hwSATP (deleteASIDPool asid pool s) = vm_root (ksCurThread s) (deleteASIDPool asid pool s)"
proof (intro conjI impI)
  show "findVSpaceForASID asid (deleteASID asid vspace s) \<noteq> Inr vspace"
    by (auto simp: deleteASID_def findVSpaceForASID_def Let_def setVMRoot_eq)
  show "hwSATP (deleteASID asid vspace s) = vm_root (ksCurThread s) (deleteASID asid vspace s)"
    using assms by (simp add: deleteASID_def setVMRoot_eq Let_def)
  show "hwSATP (deleteASIDPool asid pool s) = vm_root (ksCurThread s) (deleteASIDPool asid pool s)"
    using assms by (simp add: deleteASIDPool_def setVMRoot_eq Let_def)
  show "findVSpaceForASID asid (deleteASIDPool asid pool s) = Inl InvalidRoot" if "riscvKSASIDTable s (ASID_HIGH asid) = pool"
    using that by (simp add: deleteASIDPool_def setVMRoot_eq findVSpaceForASID_def Let_def)
qed

section \<open>Examples\<close>

text \<open>A thread with an empty address space, identifier 1, and a request to map a frame of a gigabyte at the second gigabyte.\<close>

definition example_vspace :: kstate where
  "example_vspace = kstate0
     \<lparr>ksCurThread := 1024,
      tcbs := (\<lambda>_. tcb0)(1024 := tcb0\<lparr>tcbContext := (\<lambda>r. if r = msgRegisters ! 0 then 0x40000000 else 3)\<rparr>),
      ctes := (\<lambda>_. nullMDBNode NullCap)(64 := nullMDBNode (PageTableCap 1 0x8000 True 0)),
      current_extra_caps := (\<lambda>_. NULL)(0 := 64),
      riscvKSASIDTable := (\<lambda>_. NULL)(0 := 0x4000), asid_pools := (\<lambda>_ _. NULL)(0x4000 := (\<lambda>_. NULL)(1 := 0x8000))\<rparr>"

abbreviation (input) example_frame :: "word64 \<Rightarrow> word64 \<Rightarrow> cap" where
  "example_frame asid v \<equiv> FrameCap asid (PPTR_BASE + 0x80000000) 2 3 False v"

lemma example_vspace_facts:
  "\<exists>s'. decodeRISCVPageMap 3 96 (example_frame 0 0) 0 example_vspace = Some (Inr s')"
  "getSyscallArg 0 0 example_vspace = 0x40000000" "getSyscallArg 1 0 example_vspace = 3" "getSyscallArg 2 0 example_vspace = 3"
  "cteCap (ctes example_vspace (excapref 0 example_vspace)) = PageTableCap 1 0x8000 True 0"
  "findVSpaceForASID 1 example_vspace = Inr 0x8000"
proof -
  note d = example_vspace_def kstate0_def
  show a: "getSyscallArg 0 0 example_vspace = 0x40000000" "getSyscallArg 1 0 example_vspace = 3" "getSyscallArg 2 0 example_vspace = 3"
    by (simp_all add: d getSyscallArg_def n_msgRegisters_def msgRegisters_def getRegister_def)
  show c: "cteCap (ctes example_vspace (excapref 0 example_vspace)) = PageTableCap 1 0x8000 True 0"
    by (simp add: d excapref_def nullMDBNode_def)
  show f: "findVSpaceForASID 1 example_vspace = Inr 0x8000"
    by (simp add: d findVSpaceForASID_def ASID_HIGH_def ASID_LOW_def asidLowBits_def MASK_def BIT_def)
  have p: "ptes example_vspace = (\<lambda>_. pte0)" by (simp add: d)
  have x: "excapref 0 example_vspace = 64" by (simp add: d excapref_def)
  have q: "pt_search 2 p v example_vspace = (2, p)" for p v
    by (simp add: pt_search_numerals isPTEPageTable_def p pte0_def)
  show "\<exists>s'. decodeRISCVPageMap 3 96 (example_frame 0 0) 0 example_vspace = Some (Inr s')"
    unfolding decodeRISCVPageMap_def Let_def a c lookupPTSlot_search q prod.case
    by (simp add: x f p pte0_def pageBitsForSize_def RISCV_4K_Page_def RISCV_Mega_Page_def
        RISCV_Giga_Page_def seL4_HugePageBits_def BIT_def MASK_def USER_TOP_def checkVPAlignment_def asidInvalid_def ok_def)
qed


theorem page_unmap_hides_witness:
  "(\<nexists>x. walk 2 0x8000 0x40000005 (performPageInvocationUnmap (example_frame 1 0x40000000) 96 example_vspace) = Some (2, x)
       \<and> push_bit 12 (pte_ppn x) = 0x80000000)
     \<and> capFMappedASID (cteCap (ctes (performPageInvocationUnmap (example_frame 1 0x40000000) 96 example_vspace) 96)) = asidInvalid"
proof -
  have n: "pageBitsForSize 2 = 30"
    by (simp add: pageBitsForSize_def RISCV_4K_Page_def RISCV_Mega_Page_def RISCV_Giga_Page_def seL4_HugePageBits_def)
  have f: "addrFromPPtr (PPTR_BASE + 0x80000000) = 0x80000000"
    by (simp add: addrFromPPtr_def PPTR_BASE_OFFSET_def PADDR_BASE_def)
  show ?thesis
    using page_unmap_hides [where sz = 2 and va = "0x40000000" and i = 5 and asid = 1 and s = example_vspace
      and root = "0x8000" and base = "PPTR_BASE + 0x80000000" and rights = 3 and dev = False and ctSlot = 96] example_vspace_facts(6)
    by (auto simp: n f asidInvalid_def mask_eq_exp_minus_1)
qed

theorem deleted_vspace_left_witness:
  "findVSpaceForASID 1 (deleteASID 1 0x8000 (setVMRoot 1024 example_vspace)) \<noteq> Inr 0x8000"
  using deleted_vspace_left [where s = "setVMRoot 1024 example_vspace" and asid = 1 and vspace = "0x8000"]
  by (simp add: setVMRoot_eq example_vspace_def)

end
