(* ===== verification/Finalise.thy ===== *)
theory Finalise
  imports VSpace
begin

text \<open>
  Deleting and revoking capabilities: \<^verbatim>\<open>finaliseCap\<close> of \<^verbatim>\<open>src/kernel/object/objecttype.c\<close>, the second half of
  \<^verbatim>\<open>object/cnode.c\<close>, the preemption point of \<^verbatim>\<open>model/preemption.c\<close>, and the operations on capability nodes.

  Deletion is a loop that nests: emptying a capability node deletes the capabilities in it. It is a partial function, with
  \<open>None\<close> for a call that does not return; the two functions that call it back are written out in its body, and
  \<open>finaliseSlot_eq\<close> shows that the body is the one of the code. A long deletion stops at a preemption point with the
  status \<open>EXCEPTION_PREEMPTED\<close>, in a state from which it can go on.

  Revoking a capability other than an untyped one always returns, and removes the capabilities derived from it, one by one from
  the front, without touching any object; with the status \<open>EXCEPTION_NONE\<close> none is left.
\<close>

section \<open>Preemption\<close>

definition SIP_STIP :: nat where "SIP_STIP = 5"
definition SIP_SEIP :: nat where "SIP_SEIP = 9"

text \<open>Reading the clock and the pending bits: the next answer of the hardware.\<close>

definition getCurrentTime :: "kstate \<Rightarrow> ticks \<times> kstate" where
  "getCurrentTime s = (hwTime s (hwReads s), s\<lparr>hwReads := hwReads s + 1\<rparr>)"

definition read_sip :: "kstate \<Rightarrow> word64 \<times> kstate" where
  "read_sip s = (hwSIP s (hwReads s), s\<lparr>hwReads := hwReads s + 1\<rparr>)"

definition isIRQPending :: "kstate \<Rightarrow> bool \<times> kstate" where
  "isIRQPending s = (let (sip, s) = read_sip s in (bit sip SIP_STIP \<or> bit sip SIP_SEIP, s))"

definition preemptionPoint :: "kstate \<Rightarrow> exception \<times> kstate" where
  "preemptionPoint s =
     (let s = s\<lparr>ksWorkUnitsCompleted := ksWorkUnitsCompleted s + 1\<rparr>
      in if ksWorkUnitsCompleted s \<ge> pMaxWorkUnits (plat s)
         then let s = s\<lparr>ksWorkUnitsCompleted := 0\<rparr>;
                  (now, s) = getCurrentTime s;
                  s = updateTimestamp now s;
                  (pending, s) = isIRQPending s
              in if pending \<or> isCurDomainExpired s
                    \<or> \<not> (sc_active (ksCurSC s) s \<and> refill_sufficient (ksCurSC s) (ksConsumed s) s)
                 then (EXCEPTION_PREEMPTED, s) else (EXCEPTION_NONE, s)
         else (EXCEPTION_NONE, s))"

section \<open>Finalising a capability\<close>

record finaliseCap_ret =
  remainder :: cap
  cleanupInfo :: cap

definition fc_null :: finaliseCap_ret where
  "fc_null = \<lparr>remainder = NullCap, cleanupInfo = NullCap\<rparr>"

definition Arch_finaliseCap :: "cap \<Rightarrow> bool \<Rightarrow> kstate \<Rightarrow> finaliseCap_ret \<times> kstate" where
  "Arch_finaliseCap cap final s =
     (fc_null,
      case cap of
        FrameCap asid p sz _ _ v \<Rightarrow> if asid \<noteq> 0 then unmapPage sz asid v p s else s
      | PageTableCap asid pte mapped v \<Rightarrow>
          if final \<and> mapped
          then if findVSpaceForASID asid s = Inr pte then deleteASID asid pte s else unmapPageTable asid v pte s
          else s
      | ASIDPoolCap asid_base pool \<Rightarrow> if final then deleteASIDPool asid_base pool s else s
      | _ \<Rightarrow> s)"

text \<open>The capabilities in the first switch of \<^verbatim>\<open>finaliseCap\<close>, which it can finalise at once.\<close>

definition finalised_at_once :: "cap \<Rightarrow> bool" where
  "finalised_at_once cap \<longleftrightarrow>
     (case cap of EndpointCap _ _ _ _ _ _ \<Rightarrow> True | NotificationCap _ _ _ _ \<Rightarrow> True | ReplyCap _ _ \<Rightarrow> True
      | NullCap \<Rightarrow> True | DomainCap \<Rightarrow> True | _ \<Rightarrow> isArchCap cap)"

text \<open>\<^verbatim>\<open>finaliseCap\<close> with the flag \<^verbatim>\<open>exposed\<close>: any other capability halts the kernel.\<close>

definition finaliseCap_exposed :: "cap \<Rightarrow> bool \<Rightarrow> kstate \<Rightarrow> (finaliseCap_ret \<times> kstate) option" where
  "finaliseCap_exposed cap final s =
     (if isArchCap cap then Some (Arch_finaliseCap cap final s)
      else case cap of
        EndpointCap _ _ _ _ _ epptr \<Rightarrow>
          if final then do { s \<leftarrow> cancelAllIPC epptr s; Some (fc_null, s) } else Some (fc_null, s)
      | NotificationCap _ _ _ ntfn \<Rightarrow>
          if final
          then do {
            let s = schedContextMaybeUnbindNtfn ntfn s;
            let s = unbindMaybeNotification ntfn s;
            s \<leftarrow> cancelAllSignals ntfn s;
            Some (fc_null, s)
          }
          else Some (fc_null, s)
      | ReplyCap rply _ \<Rightarrow>
          if final \<and> rply \<noteq> NULL \<and> replyTCB (replies s rply) \<noteq> NULL
          then let tcb = replyTCB (replies s rply)
               in if tsType (tcbState (tcbs s tcb)) = ThreadState_BlockedOnReply then Some (fc_null, reply_remove rply tcb s)
                  else if tsType (tcbState (tcbs s tcb)) = ThreadState_BlockedOnReceive then Some (fc_null, cancelIPC tcb s)
                  else None
          else Some (fc_null, s)
      | NullCap \<Rightarrow> Some (fc_null, s)
      | DomainCap \<Rightarrow> Some (fc_null, s)
      | _ \<Rightarrow> None)"

definition cteDeleteOne :: "ptr \<Rightarrow> kstate \<Rightarrow> kstate option" where
  "cteDeleteOne slot s =
     (if cteCap (ctes s slot) \<noteq> NullCap
      then do {
        let final = isFinalCapability slot s;
        (fc_ret, s) \<leftarrow> finaliseCap_exposed (cteCap (ctes s slot)) final s;
        Some (emptySlot slot NullCap s)
      }
      else Some s)"

definition deletingIRQHandler :: "word64 \<Rightarrow> kstate \<Rightarrow> kstate option" where
  "deletingIRQHandler irq s = cteDeleteOne (cte_at (intStateIRQNode s) irq) s"

definition finaliseCap :: "cap \<Rightarrow> bool \<Rightarrow> bool \<Rightarrow> kstate \<Rightarrow> (finaliseCap_ret \<times> kstate) option" where
  "finaliseCap cap final exposed s =
     (if finalised_at_once cap then finaliseCap_exposed cap final s
      else if exposed then None
      else case cap of
        CNodeCap radix _ _ p \<Rightarrow>
          if final then Some (\<lparr>remainder = Zombie_new (BIT radix) radix p, cleanupInfo = NullCap\<rparr>, s) else Some (fc_null, s)
      | ThreadCap tcb \<Rightarrow>
          if final
          then let cte_ptr = TCB_PTR_CTE_PTR tcb tcbCTable;
                   s = unbindNotification tcb s;
                   sc = tcbSchedContext (tcbs s tcb);
                   s = (if sc \<noteq> NULL
                        then let s = schedContext_unbindTCB sc s
                             in if scYieldFrom (scs s sc) \<noteq> NULL then schedContext_completeYieldTo (scYieldFrom (scs s sc)) s else s
                        else s);
                   s = suspend tcb s
               in Some (\<lparr>remainder = Zombie_new tcbCNodeEntries ZombieType_ZombieTCB cte_ptr, cleanupInfo = NullCap\<rparr>, s)
          else Some (fc_null, s)
      | SchedContextCap sc _ \<Rightarrow>
          if final
          then let s = schedContext_unbindAllTCBs sc s;
                   s = schedContext_unbindNtfn sc s;
                   s = schedContext_unbindReply sc s;
                   s = (if scYieldFrom (scs s sc) \<noteq> NULL then schedContext_completeYieldTo (scYieldFrom (scs s sc)) s else s);
                   s = upd_sc sc (scRefillMax_update (\<lambda>_. 0)) s;
                   s = upd_sc sc (scSporadic_update (\<lambda>_. False)) s
               in Some (fc_null, s)
          else Some (fc_null, s)
      | ZombieCap _ _ \<Rightarrow> Some (\<lparr>remainder = cap, cleanupInfo = NullCap\<rparr>, s)
      | IRQHandlerCap irq \<Rightarrow>
          if final
          then do {
            s \<leftarrow> deletingIRQHandler irq s;
            Some (\<lparr>remainder = NullCap, cleanupInfo = cap\<rparr>, s)
          }
          else Some (fc_null, s)
      | _ \<Rightarrow> Some (fc_null, s))"

section \<open>Deleting\<close>

record finaliseSlot_ret =
  fs_status :: exception
  fs_success :: bool
  fs_cleanupInfo :: cap

definition fs_failed :: "exception \<Rightarrow> finaliseSlot_ret" where
  "fs_failed status = \<lparr>fs_status = status, fs_success = False, fs_cleanupInfo = NullCap\<rparr>"

text \<open>What \<^verbatim>\<open>reduceZombie\<close> does after it has deleted the last slot of the zombie.\<close>

definition shrink_zombie :: "ptr \<Rightarrow> cap \<Rightarrow> kstate \<Rightarrow> kstate option" where
  "shrink_zombie slot zombie s =
     (case cteCap (ctes s slot) of
        NullCap \<Rightarrow> Some s
      | ZombieCap _ _ \<Rightarrow>
          let n = cap_zombie_cap_get_capZombieNumber zombie
          in if cap_zombie_cap_get_capZombiePtr zombie = cap_zombie_cap_get_capZombiePtr (cteCap (ctes s slot))
                \<and> cap_zombie_cap_get_capZombieNumber (cteCap (ctes s slot)) = n
                \<and> capZombieType (cteCap (ctes s slot)) = capZombieType zombie
             then Some (set_cap slot (cap_zombie_cap_set_capZombieNumber (cteCap (ctes s slot)) (n - 1)) s)
             else Some s
      | _ \<Rightarrow> None)"

partial_function (option) finaliseSlot :: "ptr \<Rightarrow> bool \<Rightarrow> kstate \<Rightarrow> (finaliseSlot_ret \<times> kstate) option" where
  "finaliseSlot slot immediate s =
     (if cteCap (ctes s slot) = NullCap
      then Some (\<lparr>fs_status = EXCEPTION_NONE, fs_success = True, fs_cleanupInfo = NullCap\<rparr>, s)
      else do {
        (fc_ret, s) \<leftarrow> finaliseCap (cteCap (ctes s slot)) (isFinalCapability slot s) False s;
        removable \<leftarrow> capRemovable (remainder fc_ret) slot;
        (if removable
         then Some (\<lparr>fs_status = EXCEPTION_NONE, fs_success = True, fs_cleanupInfo = cleanupInfo fc_ret\<rparr>, s)
         else do {
           let s = set_cap slot (remainder fc_ret) s;
           (if \<not> immediate \<and> capCyclicZombie (remainder fc_ret) slot
            then Some (\<lparr>fs_status = EXCEPTION_NONE, fs_success = False, fs_cleanupInfo = cleanupInfo fc_ret\<rparr>, s)
            else do {
              let zombie = cteCap (ctes s slot);
              let p = cap_zombie_cap_get_capZombiePtr zombie;
              (status, s) \<leftarrow>
                (if immediate
                 then do {
                   let endSlot = cte_at p (cap_zombie_cap_get_capZombieNumber zombie - 1);
                   (fs_ret, s) \<leftarrow> finaliseSlot endSlot False s;
                   (if fs_status fs_ret \<noteq> EXCEPTION_NONE then Some (fs_status fs_ret, s)
                    else do {
                      let s = (if fs_success fs_ret then emptySlot endSlot (fs_cleanupInfo fs_ret) s else s);
                      s \<leftarrow> shrink_zombie slot zombie s;
                      Some (EXCEPTION_NONE, s)
                    })
                 }
                 else Some (EXCEPTION_NONE, capSwapForDelete p slot s));
              (if status \<noteq> EXCEPTION_NONE then Some (fs_failed status, s)
               else do {
                 let (status, s) = preemptionPoint s;
                 (if status \<noteq> EXCEPTION_NONE then Some (fs_failed status, s)
                  else finaliseSlot slot immediate s)
               })
            })
         })
      })"

declare finaliseSlot.simps [simp del, code del]

definition cteDelete :: "ptr \<Rightarrow> bool \<Rightarrow> kstate \<Rightarrow> (exception \<times> kstate) option" where
  "cteDelete slot exposed s = do {
     (fs_ret, s) \<leftarrow> finaliseSlot slot exposed s;
     (if fs_status fs_ret \<noteq> EXCEPTION_NONE then Some (fs_status fs_ret, s)
      else Some (EXCEPTION_NONE, if exposed \<or> fs_success fs_ret then emptySlot slot (fs_cleanupInfo fs_ret) s else s))
   }"

definition reduceZombie :: "ptr \<Rightarrow> bool \<Rightarrow> kstate \<Rightarrow> (exception \<times> kstate) option" where
  "reduceZombie slot immediate s = do {
     let zombie = cteCap (ctes s slot);
     let p = cap_zombie_cap_get_capZombiePtr zombie;
     (if immediate
      then do {
        let endSlot = cte_at p (cap_zombie_cap_get_capZombieNumber zombie - 1);
        (status, s) \<leftarrow> cteDelete endSlot False s;
        (if status \<noteq> EXCEPTION_NONE then Some (status, s)
         else do {
           s \<leftarrow> shrink_zombie slot zombie s;
           Some (EXCEPTION_NONE, s)
         })
      }
      else Some (EXCEPTION_NONE, capSwapForDelete p slot s))
   }"

partial_function (option) cteRevoke :: "ptr \<Rightarrow> kstate \<Rightarrow> (exception \<times> kstate) option" where
  "cteRevoke slot s = do {
     let nextPtr = mdbNext (ctes s slot);
     (if nextPtr \<noteq> NULL \<and> isMDBParentOf slot nextPtr s
      then do {
        (status, s) \<leftarrow> cteDelete nextPtr True s;
        (if status \<noteq> EXCEPTION_NONE then Some (status, s)
         else let (status, s) = preemptionPoint s
              in if status \<noteq> EXCEPTION_NONE then Some (status, s) else cteRevoke slot s)
      }
      else Some (EXCEPTION_NONE, s))
   }"

declare cteRevoke.simps [simp del, code del]

text \<open>The bodies in the form of the code.\<close>

lemma finaliseCap_exposed_eq: "finaliseCap cap final True s = finaliseCap_exposed cap final s"
  by (cases cap) (simp_all add: finaliseCap_def finaliseCap_exposed_def finalised_at_once_def)

lemma finaliseSlot_eq:
  "finaliseSlot slot immediate s =
     (if cteCap (ctes s slot) = NullCap
      then Some (\<lparr>fs_status = EXCEPTION_NONE, fs_success = True, fs_cleanupInfo = NullCap\<rparr>, s)
      else do {
        (fc_ret, s) \<leftarrow> finaliseCap (cteCap (ctes s slot)) (isFinalCapability slot s) False s;
        removable \<leftarrow> capRemovable (remainder fc_ret) slot;
        (if removable
         then Some (\<lparr>fs_status = EXCEPTION_NONE, fs_success = True, fs_cleanupInfo = cleanupInfo fc_ret\<rparr>, s)
         else do {
           let s = set_cap slot (remainder fc_ret) s;
           (if \<not> immediate \<and> capCyclicZombie (remainder fc_ret) slot
            then Some (\<lparr>fs_status = EXCEPTION_NONE, fs_success = False, fs_cleanupInfo = cleanupInfo fc_ret\<rparr>, s)
            else do {
              (status, s) \<leftarrow> reduceZombie slot immediate s;
              (if status \<noteq> EXCEPTION_NONE then Some (fs_failed status, s)
               else do {
                 let (status, s) = preemptionPoint s;
                 (if status \<noteq> EXCEPTION_NONE then Some (fs_failed status, s)
                  else finaliseSlot slot immediate s)
               })
            })
         })
      })"
proof -
  have r: "(do {
      (status, s) \<leftarrow> cteDelete e False s;
      (if status \<noteq> EXCEPTION_NONE then Some (status, s) else do { s \<leftarrow> shrink_zombie slot z s; Some (EXCEPTION_NONE, s) }) }) =
    (do {
      (fs_ret, s) \<leftarrow> finaliseSlot e False s;
      (if fs_status fs_ret \<noteq> EXCEPTION_NONE then Some (fs_status fs_ret, s)
       else do {
         let s = (if fs_success fs_ret then emptySlot e (fs_cleanupInfo fs_ret) s else s);
         s \<leftarrow> shrink_zombie slot z s;
         Some (EXCEPTION_NONE, s) }) })" for e z s
    by (auto simp: cteDelete_def Option.bind_assoc split: Option.bind_splits if_splits)
  show ?thesis
    apply (subst finaliseSlot.simps)
    unfolding reduceZombie_def Let_def r by (rule refl)
qed

section \<open>Preemption keeps the objects\<close>

text \<open>What the kernel keeps of objects and capabilities, apart from the clock and the work count.\<close>

definition objects :: "kstate \<Rightarrow> kstate" where
  "objects s = s\<lparr>ctes := \<lambda>_. nullMDBNode NullCap, ksWorkUnitsCompleted := 0, hwReads := 0, ksCurTime := 0, ksConsumed := 0, ksDomainTime := 0\<rparr>"

lemma updateTimestamp_eq:
  "updateTimestamp now s = s\<lparr>ksCurTime := now, ksConsumed := ksConsumed (updateTimestamp now s), ksDomainTime := ksDomainTime (updateTimestamp now s)\<rparr>"
  by (simp add: updateTimestamp_def Let_def)

lemma preemptionPoint_eq:
  "\<exists>w r t c d. snd (preemptionPoint s) = s\<lparr>ksWorkUnitsCompleted := w, hwReads := r, ksCurTime := t, ksConsumed := c, ksDomainTime := d\<rparr>"
proof (cases "ksWorkUnitsCompleted s + 1 \<ge> pMaxWorkUnits (plat s)")
  case True
  let ?s = "s\<lparr>ksWorkUnitsCompleted := 0, hwReads := hwReads s + 1\<rparr>"
  obtain t c d where u: "updateTimestamp (hwTime s (hwReads s)) ?s = ?s\<lparr>ksCurTime := t, ksConsumed := c, ksDomainTime := d\<rparr>"
    using updateTimestamp_eq by blast
  have "snd (preemptionPoint s) = s\<lparr>ksWorkUnitsCompleted := 0, hwReads := hwReads s + 2, ksCurTime := t, ksConsumed := c, ksDomainTime := d\<rparr>"
    using True u by (simp add: preemptionPoint_def Let_def getCurrentTime_def isIRQPending_def read_sip_def)
  then show ?thesis by blast
next
  case False
  then have "snd (preemptionPoint s) = s\<lparr>ksWorkUnitsCompleted := ksWorkUnitsCompleted s + 1, hwReads := hwReads s,
     ksCurTime := ksCurTime s, ksConsumed := ksConsumed s, ksDomainTime := ksDomainTime s\<rparr>"
    by (simp add: preemptionPoint_def)
  then show ?thesis by blast
qed

lemma preemptionPoint_keeps:
  "ctes (snd (preemptionPoint s)) = ctes s" "objects (snd (preemptionPoint s)) = objects s"
  "fst (preemptionPoint s) \<in> {EXCEPTION_NONE, EXCEPTION_PREEMPTED}"
proof -
  obtain w r t c d where e: "snd (preemptionPoint s) = s\<lparr>ksWorkUnitsCompleted := w, hwReads := r, ksCurTime := t, ksConsumed := c, ksDomainTime := d\<rparr>"
    using preemptionPoint_eq by blast
  show "ctes (snd (preemptionPoint s)) = ctes s" "objects (snd (preemptionPoint s)) = objects s"
    unfolding e by (simp_all add: objects_def)
  show "fst (preemptionPoint s) \<in> {EXCEPTION_NONE, EXCEPTION_PREEMPTED}"
    by (simp add: preemptionPoint_def Let_def split: prod.splits)
qed

section \<open>Emptying a slot\<close>

lemma emptySlot_ctes:
  assumes "cteCap (ctes s slot) \<noteq> NullCap"
  shows "cteCap (ctes (emptySlot slot i s) p) = (if p = slot then NullCap else cteCap (ctes s p))"
    and "p \<noteq> slot \<Longrightarrow> mdbRevocable (ctes (emptySlot slot i s) p) = mdbRevocable (ctes s p)"
    and "p \<noteq> slot \<Longrightarrow> mdbFirstBadged (ctes (emptySlot slot i s) p) =
      (mdbFirstBadged (ctes s p) \<or> p = cteNext s slot \<and> p \<noteq> NULL \<and> mdbFirstBadged (ctes s slot))"
  using assms by (auto simp: emptySlot_def Let_def cteNext_def set_cteNext_def set_ctePrev_def upd_cte_def)

lemma emptySlot_objects: "objects (emptySlot slot NullCap s) = objects s"
  by (simp add: emptySlot_def Let_def set_cteNext_def set_ctePrev_def upd_cte_def postCapDeletion_def objects_def)

section \<open>Revoking copies\<close>

text \<open>
  Every descendant of a capability that is not untyped, not of the architecture and not the control of interrupts is a
  capability to the same object, so that deleting it while its ancestor remains finalises nothing.
\<close>

definition copies_only :: "cap \<Rightarrow> bool" where
  "copies_only c \<longleftrightarrow> \<not> is_UntypedCap c \<and> \<not> isArchCap c \<and> c \<noteq> IRQControlCap"

lemma copy_of:
  assumes "copies_only c" "sameRegionAs c d"
  shows "sameObjectAs c d" "d \<noteq> NullCap" "finaliseCap d False False s = Some (fc_null, s)"
  using assms by (cases c; cases d;
      simp add: copies_only_def sameObjectAs_def finaliseCap_def finaliseCap_exposed_def finalised_at_once_def)+

lemma cteDelete_not_final:
  assumes "cteCap (ctes s slot) \<noteq> NullCap" "\<not> isFinalCapability slot s"
    "finaliseCap (cteCap (ctes s slot)) False False s = Some (fc_null, s)"
  shows "cteDelete slot True s = Some (EXCEPTION_NONE, emptySlot slot NullCap s)"
  using assms by (simp add: cteDelete_def finaliseSlot_eq [of slot] fc_null_def capRemovable_def)

lemma delete_copy:
  assumes l: "mdb_list (xs @ slot # y # ys) s" and c: "copies_only (cteCap (ctes s slot))" and p: "isMDBParentOf slot y s"
  shows "cteCap (ctes s y) \<noteq> NullCap" "cteDelete y True s = Some (EXCEPTION_NONE, emptySlot y NullCap s)"
    "mdb_list (xs @ slot # ys) (emptySlot y NullCap s)"
    "q \<in> set ys \<Longrightarrow> isMDBParentOf slot q (emptySlot y NullCap s) = isMDBParentOf slot q s"
proof -
  have same: "sameRegionAs (cteCap (ctes s slot)) (cteCap (ctes s y))"
    using p by (simp add: isMDBParentOf_def Let_def split: if_splits)
  note d = copy_of [OF c same]
  have l': "mdb_list ((xs @ [slot]) @ y # ys) s" using l by simp
  note m = mdb_list_mid [OF l']
  show ne: "cteCap (ctes s y) \<noteq> NullCap" using d(2) .
  have "\<not> isFinalCapability y s"
    using m(2) mdb_list_mid(3) [OF l] d(1) by (simp add: isFinalCapability_def Let_def ctePrev_def)
  then show "cteDelete y True s = Some (EXCEPTION_NONE, emptySlot y NullCap s)"
    using cteDelete_not_final [OF ne] d(3) by blast
  show "mdb_list (xs @ slot # ys) (emptySlot y NullCap s)" using mdb_empty_list [OF l' ne] by simp
  show "isMDBParentOf slot q (emptySlot y NullCap s) = isMDBParentOf slot q s" if "q \<in> set ys"
  proof -
    have "q \<noteq> y" "slot \<noteq> y" using m(4) that by auto
    note e = emptySlot_ctes [OF ne, where i = NullCap]
    show ?thesis
      using p \<open>q \<noteq> y\<close> \<open>slot \<noteq> y\<close> e(3) [of q]
      by (cases "cteCap (ctes s slot)") (auto simp: isMDBParentOf_def Let_def e(1,2) split: if_splits)
  qed
qed

lemma cteRevoke_copies:
  assumes "mdb_list (xs @ slot # ys) s" "copies_only (cteCap (ctes s slot))"
  shows "\<exists>st s' k. cteRevoke slot s = Some (st, s') \<and> (st = EXCEPTION_NONE \<or> st = EXCEPTION_PREEMPTED)
    \<and> k \<le> length (takeWhile (\<lambda>p. isMDBParentOf slot p s) ys)
    \<and> (st = EXCEPTION_NONE \<longrightarrow> k = length (takeWhile (\<lambda>p. isMDBParentOf slot p s) ys))
    \<and> mdb_list (xs @ slot # drop k ys) s' \<and> objects s' = objects s
    \<and> (\<forall>p. cteCap (ctes s' p) = (if p \<in> set (take k ys) then NullCap else cteCap (ctes s p)))"
  using assms
proof (induction ys arbitrary: s)
  case Nil
  then have "mdbNext (ctes s slot) = NULL" using mdb_list_mid(1) [of xs slot "[]" s] by (simp add: cteNext_def)
  then show ?case using Nil by (simp add: cteRevoke.simps [of slot s])
next
  case (Cons y ys)
  have nx: "mdbNext (ctes s slot) = y" "y \<noteq> NULL"
    using mdb_list_mid(1,5) [OF Cons.prems(1)] by (auto simp: cteNext_def)
  show ?case
  proof (cases "isMDBParentOf slot y s")
    case False
    then show ?thesis using Cons.prems nx by (auto simp: cteRevoke.simps [of slot s] intro!: exI [of _ 0])
  next
    case True
    let ?s1 = "emptySlot y NullCap s"
    obtain st s2 where pp: "preemptionPoint ?s1 = (st, s2)" by fastforce
    note d = delete_copy [OF Cons.prems True]
    note k = preemptionPoint_keeps [of ?s1, unfolded pp fst_conv snd_conv]
    have dist: "distinct (xs @ slot # y # ys)" using mdb_list_mid(4) [OF Cons.prems(1)] .
    have o: "objects s2 = objects s" using k(2) emptySlot_objects by simp
    have links: "cteNext s2 = cteNext ?s1" "ctePrev s2 = ctePrev ?s1" using k(1) by (auto simp: fun_eq_iff cteNext_def ctePrev_def)
    have l2: "mdb_list (xs @ slot # ys) s2" using mdb_list_frame [OF d(3)] links by simp
    have cp: "cteCap (ctes s2 p) = (if p = y then NullCap else cteCap (ctes s p))" for p
      using emptySlot_ctes(1) [OF d(1)] k(1) by simp
    have par: "isMDBParentOf slot p s2 = isMDBParentOf slot p s" if "p \<in> set ys" for p
      using d(4) [OF that] unfolding isMDBParentOf_def k(1) .
    have tw: "takeWhile (\<lambda>p. isMDBParentOf slot p s2) ys = takeWhile (\<lambda>p. isMDBParentOf slot p s) ys"
      using par by (intro takeWhile_cong) auto
    have unf: "cteRevoke slot s = (if st \<noteq> EXCEPTION_NONE then Some (st, s2) else cteRevoke slot s2)"
      using True nx d(2) pp by (subst cteRevoke.simps) simp
    show ?thesis
    proof (cases "st = EXCEPTION_NONE")
      case False
      then show ?thesis using unf k(3) l2 o cp True by (intro exI [of _ st] exI [of _ s2] exI [of _ 1]) auto
    next
      case st: True
      have "copies_only (cteCap (ctes s2 slot))" using Cons.prems(2) cp dist by auto
      from Cons.IH [OF l2 this] obtain st' s' j where r: "cteRevoke slot s2 = Some (st', s')"
        "st' = EXCEPTION_NONE \<or> st' = EXCEPTION_PREEMPTED" "j \<le> length (takeWhile (\<lambda>p. isMDBParentOf slot p s) ys)"
        "st' = EXCEPTION_NONE \<longrightarrow> j = length (takeWhile (\<lambda>p. isMDBParentOf slot p s) ys)"
        "mdb_list (xs @ slot # drop j ys) s'" "objects s' = objects s2"
        "\<forall>p. cteCap (ctes s' p) = (if p \<in> set (take j ys) then NullCap else cteCap (ctes s2 p))"
        unfolding tw by blast
      then show ?thesis using unf st o cp True by (intro exI [of _ st'] exI [of _ s'] exI [of _ "Suc j"]) auto
    qed
  qed
qed


section \<open>Invocations of capability nodes\<close>

text \<open>The result of an invocation that may be preempted.\<close>

type_synonym pstate = "exception \<times> kstate"

definition invokeCNodeRevoke :: "ptr \<Rightarrow> kstate \<Rightarrow> pstate option" where
  "invokeCNodeRevoke destSlot s = cteRevoke destSlot s"

definition invokeCNodeDelete :: "ptr \<Rightarrow> kstate \<Rightarrow> pstate option" where
  "invokeCNodeDelete destSlot s = cteDelete destSlot True s"

definition invokeCNodeCancelBadgedSends :: "cap \<Rightarrow> kstate \<Rightarrow> kstate option" where
  "invokeCNodeCancelBadgedSends cap s =
     (let badge = capEPBadge cap
      in if badge \<noteq> 0 then cancelBadgedSends (capEPPtr cap) badge s else Some s)"

text \<open>The result of an operation that cannot fail with an error of the caller.\<close>

definition perform :: "'a option \<Rightarrow> 'a decode" where
  "perform r = do { x \<leftarrow> r; ok x }"

text \<open>The capability that the four transfer operations put into the destination, with whether it moves.\<close>

definition cnode_new_cap :: "invocation_label \<Rightarrow> word64 \<Rightarrow> ptr \<Rightarrow> ptr \<Rightarrow> kstate \<Rightarrow> (cap \<times> bool) decode" where
  "cnode_new_cap invLabel len srcSlot buffer s =
     (let srcCap = cteCap (ctes s srcSlot)
      in case invLabel of
        CNodeCopy \<Rightarrow>
          if len < 5 then err seL4_TruncatedMessage
          else let cap_rights = rightsFromWord (getSyscallArg 4 buffer s)
               in on_ok (check (deriveCap srcSlot (maskCapRights cap_rights srcCap) s)) (\<lambda>c. ok (c, False))
      | CNodeMint \<Rightarrow>
          if len < 6 then err seL4_TruncatedMessage
          else let cap_rights = rightsFromWord (getSyscallArg 4 buffer s);
                   capData = getSyscallArg 5 buffer s
               in on_ok (check (deriveCap srcSlot (updateCapData False capData (maskCapRights cap_rights srcCap)) s))
                    (\<lambda>c. ok (c, False))
      | CNodeMove \<Rightarrow> ok (srcCap, True)
      | CNodeMutate \<Rightarrow>
          if len < 5 then err seL4_TruncatedMessage
          else ok (updateCapData True (getSyscallArg 4 buffer s) srcCap, True)
      | _ \<Rightarrow> None)"

text \<open>The cases of \<^verbatim>\<open>decodeCNodeInvocation\<close> that copy or move one capability, and the rotation.\<close>

definition decodeCNodeTransfer :: "invocation_label \<Rightarrow> word64 \<Rightarrow> ptr \<Rightarrow> ptr \<Rightarrow> kstate \<Rightarrow> pstate decode" where
  "decodeCNodeTransfer invLabel len destSlot buffer s =
     (if len < 4 \<or> excapref 0 s = NULL then err seL4_TruncatedMessage
      else let srcIndex = getSyscallArg 2 buffer s;
               srcDepth = getSyscallArg 3 buffer s;
               srcRoot = cteCap (ctes s (excapref 0 s))
           in on_ok (check (ensureEmptySlot destSlot s)) (\<lambda>_.
              on_ok (lookupSourceSlot srcRoot srcIndex srcDepth s) (\<lambda>srcSlot.
              if cteCap (ctes s srcSlot) = NullCap
              then Some (Inl (seL4_FailedLookup True, Some (MissingCapability srcDepth)))
              else on_ok (cnode_new_cap invLabel len srcSlot buffer s) (\<lambda>(newCap, isMove).
                if newCap = NullCap then err seL4_IllegalOperation
                else let s = setThreadState (ksCurThread s) ThreadState_Restart s
                     in ok (EXCEPTION_NONE,
                          if isMove then invokeCNodeMove newCap srcSlot destSlot s
                          else invokeCNodeInsert newCap srcSlot destSlot s)))))"

definition decodeCNodeRotate :: "word64 \<Rightarrow> ptr \<Rightarrow> ptr \<Rightarrow> kstate \<Rightarrow> pstate decode" where
  "decodeCNodeRotate len destSlot buffer s =
     (if len < 8 \<or> excapref 0 s = NULL \<or> excapref 1 s = NULL then err seL4_TruncatedMessage
      else let pivotNewData = getSyscallArg 2 buffer s;
               pivotIndex = getSyscallArg 3 buffer s;
               pivotDepth = getSyscallArg 4 buffer s;
               srcNewData = getSyscallArg 5 buffer s;
               srcIndex = getSyscallArg 6 buffer s;
               srcDepth = getSyscallArg 7 buffer s;
               pivotRoot = cteCap (ctes s (excapref 0 s));
               srcRoot = cteCap (ctes s (excapref 1 s))
           in on_ok (lookupSourceSlot srcRoot srcIndex srcDepth s) (\<lambda>srcSlot.
              on_ok (lookupPivotSlot pivotRoot pivotIndex pivotDepth s) (\<lambda>pivotSlot.
              if pivotSlot = srcSlot \<or> pivotSlot = destSlot then err seL4_IllegalOperation
              else on_ok (if srcSlot \<noteq> destSlot then check (ensureEmptySlot destSlot s) else ok ()) (\<lambda>_.
                if cteCap (ctes s srcSlot) = NullCap
                then Some (Inl (seL4_FailedLookup True, Some (MissingCapability srcDepth)))
                else if cteCap (ctes s pivotSlot) = NullCap
                then Some (Inl (seL4_FailedLookup False, Some (MissingCapability pivotDepth)))
                else let newSrcCap = updateCapData True srcNewData (cteCap (ctes s srcSlot));
                         newPivotCap = updateCapData True pivotNewData (cteCap (ctes s pivotSlot))
                     in if newSrcCap = NullCap \<or> newPivotCap = NullCap then err seL4_IllegalOperation
                        else let s = setThreadState (ksCurThread s) ThreadState_Restart s
                             in ok (EXCEPTION_NONE, invokeCNodeRotate newSrcCap newPivotCap srcSlot pivotSlot destSlot s)))))"

definition decodeCNodeInvocation :: "invocation_label \<Rightarrow> word64 \<Rightarrow> cap \<Rightarrow> ptr \<Rightarrow> kstate \<Rightarrow> pstate decode" where
  "decodeCNodeInvocation invLabel len cap buffer s =
     (if invLabel \<notin> {CNodeRevoke, CNodeDelete, CNodeCancelBadgedSends, CNodeCopy, CNodeMint, CNodeMove, CNodeMutate, CNodeRotate}
      then err seL4_IllegalOperation
      else if len < 2 then err seL4_TruncatedMessage
      else let index = getSyscallArg 0 buffer s;
               w_bits = getSyscallArg 1 buffer s
           in on_ok (lookupTargetSlot cap index w_bits s) (\<lambda>destSlot.
              case invLabel of
                CNodeRevoke \<Rightarrow> perform (invokeCNodeRevoke destSlot (setThreadState (ksCurThread s) ThreadState_Restart s))
              | CNodeDelete \<Rightarrow> perform (invokeCNodeDelete destSlot (setThreadState (ksCurThread s) ThreadState_Restart s))
              | CNodeCancelBadgedSends \<Rightarrow>
                  let destCap = cteCap (ctes s destSlot)
                  in if \<not> hasCancelSendRights destCap then err seL4_IllegalOperation
                     else perform (do {
                       s \<leftarrow> invokeCNodeCancelBadgedSends destCap (setThreadState (ksCurThread s) ThreadState_Restart s);
                       Some (EXCEPTION_NONE, s) })
              | CNodeRotate \<Rightarrow> decodeCNodeRotate len destSlot buffer s
              | _ \<Rightarrow> decodeCNodeTransfer invLabel len destSlot buffer s))"

section \<open>No authority from nothing\<close>

text \<open>
  \<open>mdb_ok\<close>: the mapping database is well formed and empty slots are outside it, as the comment in \<^verbatim>\<open>cteRevoke\<close>
  says. \<open>caps_from s' s\<close>: every capability of \<open>s'\<close> has no more authority than some capability of \<open>s\<close>; an
  untyped capability may have been marked as full.
\<close>

definition mdb_ok :: "kstate \<Rightarrow> bool" where
  "mdb_ok s \<longleftrightarrow> valid_mdb s \<and> cteCap (ctes s NULL) = NullCap
     \<and> (\<forall>p. p \<noteq> NULL \<longrightarrow> cteCap (ctes s p) = NullCap \<longrightarrow> mdb_list [p] s)"

fun full_untyped :: "cap \<Rightarrow> cap" where
  "full_untyped (UntypedCap i dev sz p) = UntypedCap (MAX_FREE_INDEX sz) dev sz p"
| "full_untyped c = c"

definition caps_from :: "kstate \<Rightarrow> kstate \<Rightarrow> bool" where
  "caps_from s' s \<longleftrightarrow> (\<forall>p. \<exists>q. cap_le (cteCap (ctes s' p)) (cteCap (ctes s q)) \<or> cteCap (ctes s' p) = full_untyped (cteCap (ctes s q)))"

lemma cap_setUntyped:
  "cteCap (ctes (setUntypedCapAsFull srcCap c src s) p) \<in> {cteCap (ctes s p), full_untyped (cteCap (ctes s p))}"
  if "srcCap = cteCap (ctes s src)"
  using that by (auto simp: setUntypedCapAsFull_def cap_upd_cte split: cap.splits)

lemma cteInsert_caps:
  "p \<noteq> dest \<Longrightarrow> cteCap (ctes (cteInsert c src dest s) p) \<in> {cteCap (ctes s p), full_untyped (cteCap (ctes s p))}"
  "cteCap (ctes (cteInsert c src dest s) dest) = c"
  using cap_setUntyped [where srcCap = "cteCap (ctes s src)" and src = src and s = s and c = c and p = p] by (auto simp: cteInsert_def Let_def cap_upd_cte)

lemma cteMove_caps:
  "src \<noteq> dest \<Longrightarrow> cteCap (ctes (cteMove c src dest s) p) = (if p = dest then c else if p = src then NullCap else cteCap (ctes s p))"
  by (simp add: cteMove_def Let_def cap_upd_cte)

lemma cteSwap_caps:
  "a \<noteq> b \<Longrightarrow> cteCap (ctes (cteSwap c a d b s) p) = (if p = a then d else if p = b then c else cteCap (ctes s p))"
  by (auto simp: cteSwap_def Let_def cap_upd_cte)

lemma links_cong: "ctes s' = ctes s \<Longrightarrow> cteNext s' = cteNext s \<and> ctePrev s' = ctePrev s"
  by (auto simp: fun_eq_iff cteNext_def ctePrev_def)

lemma mdb_ok_cong:
  assumes "ctes s' = ctes s"
  shows "mdb_ok s' = mdb_ok s"
proof -
  have "mdb_list L s' = mdb_list L s" for L using links_cong [OF assms] by (simp add: mdb_list_def)
  then show ?thesis unfolding mdb_ok_def valid_mdb_def assms by simp
qed

lemma ctes_setThreadState [simp]: "ctes (setThreadState t ts s) = ctes s"
  by (simp add: setThreadState_def scheduleTCB_def upd_ts_def upd_tcb_def)

lemma full_untyped_Null [simp]: "full_untyped c = NullCap \<longleftrightarrow> c = NullCap" "NullCap = full_untyped c \<longleftrightarrow> c = NullCap"
  by (cases c; simp)+

lemma mdb_ok_insert:
  assumes ok: "mdb_ok s" and c: "cteCap (ctes s src) \<noteq> NullCap" "cteCap (ctes s dest) = NullCap" "dest \<noteq> NULL" "c \<noteq> NullCap"
  shows "mdb_ok (cteInsert c src dest s)" (is "mdb_ok ?s'")
proof -
  have v: "valid_mdb s" "src \<noteq> NULL" "src \<noteq> dest" "mdb_list [dest] s" using assms by (auto simp: mdb_ok_def)
  have n: "cteNext ?s' = (cteNext s)(dest := cteNext s src, src := dest)"
    and pv: "ctePrev ?s' = (if cteNext s src \<noteq> NULL then (ctePrev s)(dest := src, cteNext s src := dest)
        else (ctePrev s)(dest := src))" using v(3) by (auto simp: cteInsert_links)
  obtain xs ys where l: "mdb_list (xs @ src # ys) s" using v(1,2) by (rule valid_mdbE)
  have "mdb_list [p] ?s'" if p: "p \<noteq> NULL" "cteCap (ctes ?s' p) = NullCap" for p
  proof -
    have pd: "p \<noteq> dest" using p(2) c(4) cteInsert_caps(2) by metis
    then have "cteCap (ctes s p) = NullCap" using cteInsert_caps(1) [OF pd, of c src s] p(2) by auto
    then show ?thesis using mdb_insert_apart [OF l _ _ _ n pv, of "[p]"] ok p(1) pd c(1) by (auto simp: mdb_ok_def)
  qed
  moreover have "cteCap (ctes ?s' NULL) = NullCap" using cteInsert_caps(1) [of NULL dest c src s] ok c(3) by (auto simp: mdb_ok_def)
  ultimately show ?thesis using valid_mdb_insert [OF v n pv] by (simp add: mdb_ok_def)
qed

lemma mdb_ok_move:
  assumes ok: "mdb_ok s" and c: "cteCap (ctes s src) \<noteq> NullCap" "cteCap (ctes s dest) = NullCap" "dest \<noteq> NULL" "c \<noteq> NullCap"
  shows "mdb_ok (cteMove c src dest s)" (is "mdb_ok ?s'")
proof -
  have v: "valid_mdb s" "src \<noteq> NULL" "src \<noteq> dest" "mdb_list [dest] s" using assms by (auto simp: mdb_ok_def)
  obtain xs ys where l: "mdb_list (xs @ src # ys) s" using v(1,2) by (rule valid_mdbE)
  have e: "mdb_list [src] ?s'" using v mdb_list_mid [OF l] valid_mdb_acyclic [OF v(1,2,2)]
    valid_mdb_links [OF v(1,2,2)] by (auto simp: cteMove_links)
  have "mdb_list [p] ?s'" if p: "p \<noteq> NULL" "cteCap (ctes ?s' p) = NullCap" "p \<noteq> src" for p
  proof -
    have "p \<noteq> dest" "cteCap (ctes s p) = NullCap" using p c(4) v(3) by (auto simp: cteMove_caps split: if_splits)
    then show ?thesis using mdb_move_apart [OF l _ _ _ v(3), of "[p]"] ok p(1,3) by (auto simp: mdb_ok_def)
  qed
  then show ?thesis using e valid_mdb_move [OF v] ok c(3) v(2,3) by (auto simp: mdb_ok_def cteMove_caps)
qed

lemma mdb_ok_swap:
  assumes ok: "mdb_ok s" and c: "cteCap (ctes s a) \<noteq> NullCap" "cteCap (ctes s b) \<noteq> NullCap" "a \<noteq> b" "c \<noteq> NullCap" "d \<noteq> NullCap"
  shows "mdb_ok (cteSwap c a d b s)" (is "mdb_ok ?s'")
proof -
  have v: "valid_mdb s" "a \<noteq> NULL" "b \<noteq> NULL" using assms by (auto simp: mdb_ok_def)
  have "mdb_list [p] ?s'" if p: "p \<noteq> NULL" "cteCap (ctes ?s' p) = NullCap" for p
  proof -
    have "p \<noteq> a" "p \<noteq> b" "cteCap (ctes s p) = NullCap" using p c by (auto simp: cteSwap_caps split: if_splits)
    then show ?thesis using mdb_swap_list [OF v(1) c(3) v(2,3), of "[p]"] ok p(1) by (auto simp: mdb_ok_def swap_slots_def)
  qed
  then show ?thesis using valid_mdb_swap [OF v(1) c(3) v(2,3)] ok v(2,3) c(3) by (auto simp: mdb_ok_def cteSwap_caps)
qed

lemma cnode_new_cap_le:
  assumes "cnode_new_cap l len src buffer s = Some (Inr (c, mv))"
  shows "cap_le c (cteCap (ctes s src))"
proof -
  note t = cap_le_trans [OF cap_le_derive cap_le_mask] cap_le_trans [OF cap_le_derive cap_le_trans [OF cap_le_update cap_le_mask]]
  show ?thesis
    using assms by (cases l) (auto simp: cnode_new_cap_def Let_def cap_le_refl cap_le_update split: if_splits elim!: on_ok_cases dest: t)
qed

lemma caps_fromI:
  assumes "\<And>p. cteCap (ctes s' p) = NullCap \<or> (\<exists>q. cap_le (cteCap (ctes s' p)) (cteCap (ctes s q))) \<or> cteCap (ctes s' p) = full_untyped (cteCap (ctes s p))"
  shows "caps_from s' s"
  unfolding caps_from_def using assms by (metis cap_le.simps(1))

text \<open>The two kinds of transfer, by cases on what the decoding found.\<close>

lemma decodeCNodeTransfer_ok:
  assumes d: "decodeCNodeTransfer l len dest buffer s = Some (Inr (st, s'))" and ok: "mdb_ok s" "dest \<noteq> NULL"
  shows "st = EXCEPTION_NONE \<and> mdb_ok s' \<and> caps_from s' s"
proof -
  from d obtain src c mv where n: "cnode_new_cap l len src buffer s = Some (Inr (c, mv))"
    and r: "cteCap (ctes s dest) = NullCap" "cteCap (ctes s src) \<noteq> NullCap" "c \<noteq> NullCap" "st = EXCEPTION_NONE"
    and s': "s' = (let s1 = setThreadState (ksCurThread s) ThreadState_Restart s in if mv then cteMove c src dest s1 else cteInsert c src dest s1)"
    by (auto simp: decodeCNodeTransfer_def Let_def ensureEmptySlot_def invokeCNodeMove_def invokeCNodeInsert_def
        split: if_splits elim!: on_ok_cases)
  have le: "cap_le c (cteCap (ctes s src))" using cnode_new_cap_le [OF n] .
  let ?s = "setThreadState (ksCurThread s) ThreadState_Restart s"
  have ok1: "mdb_ok ?s" using ok(1) mdb_ok_cong [of ?s s] by simp
  have ne: "src \<noteq> dest" using r by auto
  have "mdb_ok s'" using mdb_ok_move [OF ok1, of src dest c] mdb_ok_insert [OF ok1, of src dest c] r ok(2) by (auto simp: s' Let_def)
  moreover have "caps_from s' s"
  proof (rule caps_fromI)
    fix p
    show "cteCap (ctes s' p) = NullCap \<or> (\<exists>q. cap_le (cteCap (ctes s' p)) (cteCap (ctes s q))) \<or> cteCap (ctes s' p) = full_untyped (cteCap (ctes s p))"
    proof (cases "p = dest")
      case True
      then have "cteCap (ctes s' p) = c" using ne by (simp add: s' Let_def cteMove_caps cteInsert_caps)
      then show ?thesis using le by auto
    next
      case False
      then show ?thesis using ne cteInsert_caps(1) [OF False, of c src ?s] cap_le_refl [of "cteCap (ctes s p)"]
        by (auto simp: s' Let_def cteMove_caps)
    qed
  qed
  ultimately show ?thesis using r(4) by blast
qed

lemma decodeCNodeRotate_ok:
  assumes d: "decodeCNodeRotate len dest buffer s = Some (Inr (st, s'))" and ok: "mdb_ok s" "dest \<noteq> NULL"
  shows "st = EXCEPTION_NONE \<and> mdb_ok s' \<and> caps_from s' s"
proof -
  let ?s = "setThreadState (ksCurThread s) ThreadState_Restart s"
  from d obtain src pivot w1 w2 c1 c2 where ne: "pivot \<noteq> src" "pivot \<noteq> dest" "src \<noteq> dest \<longrightarrow> cteCap (ctes s dest) = NullCap"
    "cteCap (ctes s src) \<noteq> NullCap" "cteCap (ctes s pivot) \<noteq> NullCap" "st = EXCEPTION_NONE"
    and u: "c1 = updateCapData True w1 (cteCap (ctes s src))" "c2 = updateCapData True w2 (cteCap (ctes s pivot))"
    and c: "c1 \<noteq> NullCap" "c2 \<noteq> NullCap" and s': "s' = invokeCNodeRotate c1 c2 src pivot dest ?s"
    by (auto simp: decodeCNodeRotate_def Let_def ensureEmptySlot_def split: if_splits elim!: on_ok_cases)
  have ok1: "mdb_ok ?s" using ok(1) mdb_ok_cong [of ?s s] by simp
  have le: "cap_le c1 (cteCap (ctes s src))" "cap_le c2 (cteCap (ctes s pivot))" unfolding u by (rule cap_le_update)+
  show ?thesis
  proof (cases "src = dest")
    case True
    then have s'': "s' = cteSwap c1 src c2 pivot ?s" by (simp add: s' invokeCNodeRotate_def)
    have "mdb_ok s'" unfolding s'' using ok1 ne c by (intro mdb_ok_swap) auto
    moreover have "caps_from s' s"
      by (rule caps_fromI) (use ne(1) le cap_le_refl in \<open>auto simp: s'' cteSwap_caps\<close>)
    ultimately show ?thesis using ne(6) by blast
  next
    case False
    let ?s1 = "cteMove c2 pivot dest ?s"
    have s'': "s' = cteMove c1 src pivot ?s1" using False by (simp add: s' invokeCNodeRotate_def)
    have cp: "cteCap (ctes ?s1 p) = (if p = dest then c2 else if p = pivot then NullCap else cteCap (ctes s p))" for p
      using ne(2) by (simp add: cteMove_caps)
    have ok2: "mdb_ok ?s1" using ok1 ok(2) ne False c by (intro mdb_ok_move) auto
    have "pivot \<noteq> NULL" using ne(5) ok(1) by (auto simp: mdb_ok_def)
    then have "mdb_ok s'" unfolding s'' using ne False c by (intro mdb_ok_move [OF ok2]) (auto simp: cp)
    moreover have "caps_from s' s"
      by (rule caps_fromI) (use ne(1) le cap_le_refl in \<open>auto simp: s'' cteMove_caps cp\<close>)
    ultimately show ?thesis using ne(6) by blast
  qed
qed

text \<open>
  C15. The operations on capability nodes that copy and move capabilities create no authority: when a copy, mint, move, mutate or
  rotate is accepted, every capability in the system afterwards has at most the authority of some capability before, and
  the mapping database is well formed again, with every empty slot outside it.
\<close>

theorem decodeCNode_no_new_authority:
  assumes "decodeCNodeInvocation label len cap buffer s = Some (Inr (st, s'))"
    and "label \<in> {CNodeCopy, CNodeMint, CNodeMove, CNodeMutate, CNodeRotate}" and "mdb_ok s"
    and "lookupTargetSlot cap (getSyscallArg 0 buffer s) (getSyscallArg 1 buffer s) s \<noteq> Some (Inr NULL)"
  shows "st = EXCEPTION_NONE \<and> mdb_ok s' \<and> caps_from s' s"
proof -
  from assms(1,2,4) obtain dest where "dest \<noteq> NULL"
    "decodeCNodeTransfer label len dest buffer s = Some (Inr (st, s')) \<or> decodeCNodeRotate len dest buffer s = Some (Inr (st, s'))"
    by (auto simp: decodeCNodeInvocation_def Let_def split: if_splits elim!: on_ok_cases)
  then show ?thesis using decodeCNodeTransfer_ok decodeCNodeRotate_ok assms(3) by blast
qed

section \<open>Examples\<close>

text \<open>An endpoint with an unbadged capability in slot 32 and a copy of it in slot 64.\<close>

definition example_copies :: kstate where
  "example_copies = insertNewCap 32 64 (EndpointCap 0 True True True True 4096)
     (upd_cte 32 (\<lambda>_. nullMDBNode (EndpointCap 0 True True True True 4096)\<lparr>mdbRevocable := True\<rparr>) kstate0)"



text \<open>A capability node of two slots, an endpoint in the first; the thread asks to move it to the second.\<close>

definition example_cnode :: kstate where
  "example_cnode = kstate0
     \<lparr>ksCurThread := 1024,
      tcbs := (\<lambda>_. tcb0)(1024 := tcb0\<lparr>tcbContext := (\<lambda>r. if r = msgRegisters ! 2 then 0 else 1)\<rparr>),
      ctes := (\<lambda>_. nullMDBNode NullCap)(64 := nullMDBNode (CNodeCap 1 0 0 4096),
        4096 := nullMDBNode (EndpointCap 0 True True True True 8192)),
      current_extra_caps := (\<lambda>_. NULL)(0 := 64)\<rparr>"

lemma example_cnode_facts:
  "mdb_ok example_cnode" "lookupTargetSlot (CNodeCap 1 0 0 4096) 1 1 example_cnode = Some (Inr 4128)"
  "getSyscallArg 0 0 example_cnode = 1" "getSyscallArg 1 0 example_cnode = 1"
  "\<exists>s'. decodeCNodeInvocation CNodeMove 4 (CNodeCap 1 0 0 4096) 0 example_cnode = Some (Inr (EXCEPTION_NONE, s'))"
proof -
  note d = example_cnode_def kstate0_def nullMDBNode_def
  have l: "cteNext example_cnode = (\<lambda>_. NULL)" "ctePrev example_cnode = (\<lambda>_. NULL)"
    by (auto simp: d cteNext_def ctePrev_def fun_eq_iff)
  then have "mdb_list [p] example_cnode" if "p \<noteq> NULL" for p using that by simp
  then have "valid_mdb example_cnode" unfolding valid_mdb_def by (metis list.set_intros(1))
  then show "mdb_ok example_cnode" using l by (auto simp: mdb_ok_def) (simp add: d)
  have m: "MASK 0 = 0" "MASK 1 = 1" "MASK 6 = 0x3f" by (simp_all add: MASK_def BIT_def)
  have look: "lookupSlotForCNodeOp b (CNodeCap 1 0 0 4096) i 1 example_cnode = Some (Inr (4096 + 32 * i))" if "i = 0 \<or> i = 1" for b i
    using that m by (auto simp: lookupSlotForCNodeOp_def resolveAddressBits_def resolve_loop.simps cnode_step_def
        cte_at_def sizeof_cte_def drop_bit_eq_div)
  then show t: "lookupTargetSlot (CNodeCap 1 0 0 4096) 1 1 example_cnode = Some (Inr 4128)" by (simp add: lookupTargetSlot_def)
  have s: "lookupSourceSlot (CNodeCap 1 0 0 4096) 0 1 example_cnode = Some (Inr 4096)" using look by (simp add: lookupSourceSlot_def)
  show a: "getSyscallArg 0 0 example_cnode = 1" "getSyscallArg 1 0 example_cnode = 1"
    by (simp_all add: d getSyscallArg_def n_msgRegisters_def msgRegisters_def getRegister_def)
  have a2: "getSyscallArg 2 0 example_cnode = 0" "getSyscallArg 3 0 example_cnode = 1"
    by (simp_all add: d getSyscallArg_def n_msgRegisters_def msgRegisters_def getRegister_def)
  have x: "excapref 0 example_cnode = 64" "cteCap (ctes example_cnode 64) = CNodeCap 1 0 0 4096"
    "cteCap (ctes example_cnode 4096) = EndpointCap 0 True True True True 8192" "cteCap (ctes example_cnode 4128) = NullCap"
    by (simp_all add: d excapref_def)
  show "\<exists>s'. decodeCNodeInvocation CNodeMove 4 (CNodeCap 1 0 0 4096) 0 example_cnode = Some (Inr (EXCEPTION_NONE, s'))"
    by (simp add: decodeCNodeInvocation_def a t decodeCNodeTransfer_def Let_def a2 x s ensureEmptySlot_def cnode_new_cap_def ok_def)
qed

theorem decodeCNode_no_new_authority_witness:
  "\<exists>s'. decodeCNodeInvocation CNodeMove 4 (CNodeCap 1 0 0 4096) 0 example_cnode = Some (Inr (EXCEPTION_NONE, s'))
     \<and> mdb_ok s' \<and> caps_from s' example_cnode"
proof -
  obtain s' where s': "decodeCNodeInvocation CNodeMove 4 (CNodeCap 1 0 0 4096) 0 example_cnode = Some (Inr (EXCEPTION_NONE, s'))"
    using example_cnode_facts(5) by blast
  then show ?thesis using decodeCNode_no_new_authority [OF s' _ example_cnode_facts(1)] example_cnode_facts(2-4) by auto
qed

end
