(* ===== verification/Untyped.thy ===== *)
theory Untyped
  imports Finalise
begin

text \<open>
  Creating objects in untyped memory: \<^verbatim>\<open>src/kernel/object/untyped.c\<close> and the creation half of
  \<^verbatim>\<open>object/objecttype.c\<close> and \<^verbatim>\<open>arch/riscv/object/objecttype.c\<close>.

  Memory that becomes an object is all zero, so that the new object reads as the zero value of its type; only a thread gets non-zero
  parts. Resetting an untyped capability clears its memory from the end to the start in chunks, with a preemption point after
  each; the loop is a partial function, and the theorems show that it returns.

  A successful retype puts its objects into the free part of the untyped memory, aligned to their size and side by side, puts
  their capabilities into the requested slots, and moves the free index exactly behind them.
\<close>

section \<open>Object types and sizes\<close>

definition seL4_UntypedObject :: word64 where "seL4_UntypedObject = 0"
definition seL4_TCBObject :: word64 where "seL4_TCBObject = 1"
definition seL4_EndpointObject :: word64 where "seL4_EndpointObject = 2"
definition seL4_NotificationObject :: word64 where "seL4_NotificationObject = 3"
definition seL4_CapTableObject :: word64 where "seL4_CapTableObject = 4"
definition seL4_SchedContextObject :: word64 where "seL4_SchedContextObject = 5"
definition seL4_ReplyObject :: word64 where "seL4_ReplyObject = 6"
definition seL4_NonArchObjectTypeCount :: word64 where "seL4_NonArchObjectTypeCount = 7"
definition seL4_RISCV_Giga_Page :: word64 where "seL4_RISCV_Giga_Page = 7"
definition seL4_RISCV_4K_Page :: word64 where "seL4_RISCV_4K_Page = 8"
definition seL4_RISCV_Mega_Page :: word64 where "seL4_RISCV_Mega_Page = 9"
definition seL4_RISCV_PageTableObject :: word64 where "seL4_RISCV_PageTableObject = 10"
definition seL4_ObjectTypeCount :: word64 where "seL4_ObjectTypeCount = 11"

lemmas object_types =
  seL4_UntypedObject_def seL4_TCBObject_def seL4_EndpointObject_def seL4_NotificationObject_def seL4_CapTableObject_def
  seL4_SchedContextObject_def seL4_ReplyObject_def seL4_NonArchObjectTypeCount_def seL4_RISCV_Giga_Page_def
  seL4_RISCV_4K_Page_def seL4_RISCV_Mega_Page_def seL4_RISCV_PageTableObject_def seL4_ObjectTypeCount_def

definition Arch_getObjectSize :: "word64 \<Rightarrow> word64 option" where
  "Arch_getObjectSize t =
     (if t = seL4_RISCV_4K_Page \<or> t = seL4_RISCV_PageTableObject then Some seL4_PageBits
      else if t = seL4_RISCV_Mega_Page then Some seL4_LargePageBits
      else if t = seL4_RISCV_Giga_Page then Some seL4_HugePageBits
      else None)"

definition getObjectSize :: "word64 \<Rightarrow> word64 \<Rightarrow> word64 option" where
  "getObjectSize t userObjSize =
     (if t \<ge> seL4_NonArchObjectTypeCount then Arch_getObjectSize t
      else if t = seL4_TCBObject then Some seL4_TCBBits
      else if t = seL4_EndpointObject then Some seL4_EndpointBits
      else if t = seL4_NotificationObject then Some seL4_NotificationBits
      else if t = seL4_CapTableObject then Some (seL4_SlotBits + userObjSize)
      else if t = seL4_UntypedObject then Some userObjSize
      else if t = seL4_SchedContextObject then Some userObjSize
      else if t = seL4_ReplyObject then Some seL4_ReplyBits
      else None)"

definition Arch_isFrameType :: "word64 \<Rightarrow> bool" where
  "Arch_isFrameType type \<longleftrightarrow> type = seL4_RISCV_Giga_Page \<or> type = seL4_RISCV_Mega_Page \<or> type = seL4_RISCV_4K_Page"

section \<open>The free part\<close>

definition FREE_INDEX_TO_OFFSET :: "word64 \<Rightarrow> word64" where
  "FREE_INDEX_TO_OFFSET freeIndex = push_bit (unat seL4_MinUntypedBits) freeIndex"

definition OFFSET_TO_FREE_INDEX :: "word64 \<Rightarrow> word64" where
  "OFFSET_TO_FREE_INDEX offset = drop_bit (unat seL4_MinUntypedBits) offset"

definition GET_FREE_REF :: "ptr \<Rightarrow> word64 \<Rightarrow> word64" where
  "GET_FREE_REF base freeIndex = base + FREE_INDEX_TO_OFFSET freeIndex"

definition GET_FREE_INDEX :: "ptr \<Rightarrow> word64 \<Rightarrow> word64" where
  "GET_FREE_INDEX base free = drop_bit (unat seL4_MinUntypedBits) (free - base)"

definition GET_OFFSET_FREE_PTR :: "ptr \<Rightarrow> word64 \<Rightarrow> ptr" where
  "GET_OFFSET_FREE_PTR base offset = base + offset"

definition alignUp :: "word64 \<Rightarrow> word64 \<Rightarrow> word64" where
  "alignUp baseValue alignment = (baseValue + (BIT alignment - 1)) AND NOT (MASK alignment)"

text \<open>The free index is a field of 39 bits, the size of a canonical address.\<close>

definition cap_untyped_cap_set_capFreeIndex :: "cap \<Rightarrow> word64 \<Rightarrow> cap" where
  "cap_untyped_cap_set_capFreeIndex cap i = UntypedCap (i AND MASK 39) (capIsDevice cap) (capBlockSize cap) (capUtPtr cap)"

section \<open>Creating objects\<close>

definition TCB_OFFSET :: word64 where "TCB_OFFSET = BIT (seL4_TCBBits - 1)"
definition SSTATUS_SPIE :: word64 where "SSTATUS_SPIE = 0x20"

definition Arch_initContext :: "(reg \<Rightarrow> word64) \<Rightarrow> reg \<Rightarrow> word64" where
  "Arch_initContext registers = registers(SSTATUS := SSTATUS_SPIE)"

definition Arch_createObject :: "word64 \<Rightarrow> ptr \<Rightarrow> bool \<Rightarrow> cap option" where
  "Arch_createObject t regionBase deviceMemory =
     (if t = seL4_RISCV_4K_Page then Some (FrameCap asidInvalid regionBase RISCV_4K_Page VMReadWrite deviceMemory 0)
      else if t = seL4_RISCV_Mega_Page then Some (FrameCap asidInvalid regionBase RISCV_Mega_Page VMReadWrite deviceMemory 0)
      else if t = seL4_RISCV_Giga_Page then Some (FrameCap asidInvalid regionBase RISCV_Giga_Page VMReadWrite deviceMemory 0)
      else if t = seL4_RISCV_PageTableObject then Some (PageTableCap asidInvalid regionBase False 0)
      else None)"

definition createObject :: "word64 \<Rightarrow> ptr \<Rightarrow> word64 \<Rightarrow> bool \<Rightarrow> kstate \<Rightarrow> (cap \<times> kstate) option" where
  "createObject t regionBase userSize deviceMemory s =
     (if t \<ge> seL4_NonArchObjectTypeCount
      then do { cap \<leftarrow> Arch_createObject t regionBase deviceMemory; Some (cap, s) }
      else if t = seL4_TCBObject
      then let tcb = regionBase + TCB_OFFSET;
               s = upd_tcb tcb (tcbContext_update Arch_initContext) s;
               s = upd_tcb tcb (tcbDomain_update (\<lambda>_. ksCurDomain s)) s
           in Some (ThreadCap tcb, s)
      else if t = seL4_EndpointObject then Some (EndpointCap 0 True True True True regionBase, s)
      else if t = seL4_NotificationObject then Some (NotificationCap 0 True True regionBase, s)
      else if t = seL4_CapTableObject then Some (CNodeCap userSize 0 0 regionBase, s)
      else if t = seL4_UntypedObject then Some (UntypedCap 0 deviceMemory userSize regionBase, s)
      else if t = seL4_SchedContextObject then Some (SchedContextCap regionBase userSize, s)
      else if t = seL4_ReplyObject then Some (ReplyCap regionBase True, s)
      else None)"

text \<open>The loop of \<^verbatim>\<open>createNewObjects\<close>, with the number of objects that are left.\<close>

primrec createNewObjects_loop ::
  "nat \<Rightarrow> word64 \<Rightarrow> word64 \<Rightarrow> ptr \<Rightarrow> ptr \<Rightarrow> word64 \<Rightarrow> ptr \<Rightarrow> word64 \<Rightarrow> word64 \<Rightarrow> bool \<Rightarrow> kstate \<Rightarrow> kstate option" where
  "createNewObjects_loop 0 i t parent destCNode destOffset nextFreeArea objectSize userSize deviceMemory s = Some s"
| "createNewObjects_loop (Suc n) i t parent destCNode destOffset nextFreeArea objectSize userSize deviceMemory s = do {
     (cap, s) \<leftarrow> createObject t (nextFreeArea + push_bit (unat objectSize) i) userSize deviceMemory s;
     let s = insertNewCap parent (cte_at destCNode (destOffset + i)) cap s;
     createNewObjects_loop n (i + 1) t parent destCNode destOffset nextFreeArea objectSize userSize deviceMemory s
   }"

definition createNewObjects ::
  "word64 \<Rightarrow> ptr \<Rightarrow> ptr \<Rightarrow> word64 \<Rightarrow> word64 \<Rightarrow> ptr \<Rightarrow> word64 \<Rightarrow> bool \<Rightarrow> kstate \<Rightarrow> kstate option" where
  "createNewObjects t parent destCNode destOffset destLength regionBase userSize deviceMemory s = do {
     objectSize \<leftarrow> getObjectSize t userSize;
     createNewObjects_loop (unat destLength) 0 t parent destCNode destOffset regionBase objectSize userSize deviceMemory s
   }"

section \<open>Retyping\<close>

text \<open>The loop of \<^verbatim>\<open>resetUntypedCap\<close> from the chunk at \<open>offset\<close> down to the first.\<close>

partial_function (option) resetUntypedCap_loop :: "ptr \<Rightarrow> cap \<Rightarrow> word64 \<Rightarrow> kstate \<Rightarrow> pstate option" where
  "resetUntypedCap_loop srcSlot prev_cap offset s =
     (let chunk = pResetChunkBits (plat s)
      in if offset = - BIT chunk then Some (EXCEPTION_NONE, s)
         else let s = clearMemory (GET_OFFSET_FREE_PTR (capUtPtr prev_cap) offset) chunk s;
                  s = set_cap srcSlot (cap_untyped_cap_set_capFreeIndex prev_cap (OFFSET_TO_FREE_INDEX offset)) s;
                  (status, s) = preemptionPoint s
              in if status \<noteq> EXCEPTION_NONE then Some (status, s)
                 else resetUntypedCap_loop srcSlot prev_cap (offset - BIT chunk) s)"

declare resetUntypedCap_loop.simps [simp del, code del]

definition resetUntypedCap :: "ptr \<Rightarrow> kstate \<Rightarrow> pstate option" where
  "resetUntypedCap srcSlot s =
     (let prev_cap = cteCap (ctes s srcSlot);
          block_size = capBlockSize prev_cap;
          regionBase = capUtPtr prev_cap;
          chunk = pResetChunkBits (plat s);
          offset = FREE_INDEX_TO_OFFSET (capFreeIndex prev_cap);
          deviceMemory = capIsDevice prev_cap
      in if offset = 0 then Some (EXCEPTION_NONE, s)
         else if deviceMemory \<or> block_size < chunk
         then let s = (if \<not> deviceMemory then clearMemory regionBase block_size s else s)
              in Some (EXCEPTION_NONE, set_cap srcSlot (cap_untyped_cap_set_capFreeIndex prev_cap 0) s)
         else resetUntypedCap_loop srcSlot prev_cap (ROUND_DOWN (offset - 1) chunk) s)"

definition invokeUntyped_Retype ::
  "ptr \<Rightarrow> bool \<Rightarrow> ptr \<Rightarrow> word64 \<Rightarrow> word64 \<Rightarrow> ptr \<Rightarrow> word64 \<Rightarrow> word64 \<Rightarrow> bool \<Rightarrow> kstate \<Rightarrow> pstate option" where
  "invokeUntyped_Retype srcSlot reset retypeBase newType userSize destCNode destOffset destLength deviceMemory s = do {
     let regionBase = capUtPtr (cteCap (ctes s srcSlot));
     (status, s) \<leftarrow> (if reset then resetUntypedCap srcSlot s else Some (EXCEPTION_NONE, s));
     (if status \<noteq> EXCEPTION_NONE then Some (status, s)
      else do {
        objectSize \<leftarrow> getObjectSize newType userSize;
        let totalObjectSize = push_bit (unat objectSize) destLength;
        let freeRef = retypeBase + totalObjectSize;
        let s = set_cap srcSlot (cap_untyped_cap_set_capFreeIndex (cteCap (ctes s srcSlot)) (GET_FREE_INDEX regionBase freeRef)) s;
        s \<leftarrow> createNewObjects newType srcSlot destCNode destOffset destLength retypeBase userSize deviceMemory s;
        Some (EXCEPTION_NONE, s)
      })
   }"

text \<open>The loop that checks that the destination slots are empty.\<close>

definition slots_empty :: "ptr \<Rightarrow> word64 \<Rightarrow> word64 \<Rightarrow> kstate \<Rightarrow> bool" where
  "slots_empty destCNode nodeOffset nodeWindow s \<longleftrightarrow>
     list_all (\<lambda>i. ensureEmptySlot (cte_at destCNode (nodeOffset + of_nat i)) s = Inr ()) [0..<unat nodeWindow]"

definition decodeUntypedInvocation :: "invocation_label \<Rightarrow> word64 \<Rightarrow> ptr \<Rightarrow> cap \<Rightarrow> ptr \<Rightarrow> kstate \<Rightarrow> pstate decode" where
  "decodeUntypedInvocation invLabel len slot cap buffer s =
     (if invLabel \<noteq> UntypedRetype then err seL4_IllegalOperation
      else if len < 6 \<or> excapref 0 s = NULL then err seL4_TruncatedMessage
      else let newType = getSyscallArg 0 buffer s;
               userObjSize = getSyscallArg 1 buffer s;
               nodeIndex = getSyscallArg 2 buffer s;
               nodeDepth = getSyscallArg 3 buffer s;
               nodeOffset = getSyscallArg 4 buffer s;
               nodeWindow = getSyscallArg 5 buffer s;
               rootCap = cteCap (ctes s (excapref 0 s))
           in if newType \<ge> seL4_ObjectTypeCount then err (seL4_InvalidArgument 0)
              else do {
                objectSize \<leftarrow> getObjectSize newType userObjSize;
                (if userObjSize \<ge> wordBits \<or> objectSize > seL4_MaxUntypedBits then err (seL4_RangeError 0 seL4_MaxUntypedBits)
                 else if newType = seL4_CapTableObject \<and> userObjSize = 0 then err (seL4_InvalidArgument 1)
                 else if newType = seL4_UntypedObject \<and> userObjSize < seL4_MinUntypedBits then err (seL4_InvalidArgument 1)
                 else if newType = seL4_SchedContextObject \<and> userObjSize < seL4_MinSchedContextBits
                 then err (seL4_InvalidArgument 1)
                 else on_ok (if nodeDepth = 0 then ok rootCap
                             else on_ok (lookupTargetSlot rootCap nodeIndex nodeDepth s) (\<lambda>slot. ok (cteCap (ctes s slot))))
                   (\<lambda>nodeCap.
                    if \<not> is_CNodeCap nodeCap then Some (Inl (seL4_FailedLookup False, Some (MissingCapability nodeDepth)))
                    else let nodeSize = BIT (capCNodeRadix nodeCap)
                         in if nodeOffset > nodeSize - 1 then err (seL4_RangeError 0 (nodeSize - 1))
                            else if nodeWindow < 1 \<or> nodeWindow > pRetypeFanOutLimit (plat s)
                            then err (seL4_RangeError 1 (pRetypeFanOutLimit (plat s)))
                            else if nodeWindow > nodeSize - nodeOffset then err (seL4_RangeError 1 (nodeSize - nodeOffset))
                            else let destCNode = capCNodePtr nodeCap
                                 in if \<not> slots_empty destCNode nodeOffset nodeWindow s then err seL4_DeleteFirst
                                    else let reset = (ensureNoChildren slot s = Inr ());
                                             freeIndex = (if reset then 0 else capFreeIndex cap);
                                             freeRef = GET_FREE_REF (capUtPtr cap) freeIndex;
                                             untypedFreeBytes = BIT (capBlockSize cap) - FREE_INDEX_TO_OFFSET freeIndex
                                         in if drop_bit (unat objectSize) untypedFreeBytes < nodeWindow
                                            then err (seL4_NotEnoughMemory untypedFreeBytes)
                                            else let deviceMemory = capIsDevice cap
                                                 in if deviceMemory \<and> \<not> Arch_isFrameType newType \<and> newType \<noteq> seL4_UntypedObject
                                                    then err (seL4_InvalidArgument 1)
                                                    else let alignedFreeRef = alignUp freeRef objectSize
                                                         in perform (invokeUntyped_Retype slot reset alignedFreeRef newType userObjSize
                                                              destCNode nodeOffset nodeWindow deviceMemory
                                                              (setThreadState (ksCurThread s) ThreadState_Restart s))))
              })"

section \<open>Alignment\<close>

lemma unat_of_small: "n < 2 ^ 64 \<Longrightarrow> unat (of_nat n :: word64) = n"
  by (simp add: unat_of_nat take_bit_nat_eq_self)

lemma and_not_mask: "w AND NOT (mask n) = push_bit n (drop_bit n w)" for w :: word64
proof (rule bit_eqI)
  fix i assume "possible_bit TYPE(word64) i"
  then show "bit (w AND NOT (mask n)) i \<longleftrightarrow> bit (push_bit n (drop_bit n w)) i"
    by (cases "n \<le> i") (auto simp: bit_simps)
qed

lemma unat_drop_bit: "unat (drop_bit n w) = unat w div 2 ^ n" for w :: word64
proof -
  have "unat w div 2 ^ n \<le> unat w" by (rule div_le_dividend)
  then show ?thesis
    using unat_lt_64 [of w] unfolding unsigned_drop_bit_eq unfolding drop_bit_eq_div by (simp add: take_bit_nat_eq_self)
qed

lemma unat_push_bit: "unat w * 2 ^ n < 2 ^ 64 \<Longrightarrow> unat (push_bit n w) = unat w * 2 ^ n" for w :: word64
  unfolding unsigned_push_bit_eq unfolding push_bit_eq_mult by (simp add: take_bit_nat_eq_self)

lemma unat_clear_low: "unat (w AND NOT (mask n)) = unat w div 2 ^ n * 2 ^ n" for w :: word64
proof -
  have "unat w div 2 ^ n * 2 ^ n \<le> unat w" by (rule div_times_less_eq_dividend)
  then have "unat (drop_bit n w) * 2 ^ n < 2 ^ 64" using unat_lt_64 [of w] unfolding unat_drop_bit by (rule le_less_trans)
  then show ?thesis unfolding and_not_mask by (simp only: unat_push_bit unat_drop_bit)
qed

lemma unat_BIT: assumes "n < 64" shows "unat (BIT n) = 2 ^ unat n"
proof -
  have "(2::nat) ^ unat n < 2 ^ 64" using assms by (intro power_strict_increasing) (simp_all add: word_less_nat_alt)
  then show ?thesis unfolding BIT_def using unat_push_bit [of 1 "unat n"] by simp
qed

text \<open>Rounding up to a multiple.\<close>

definition round_up :: "nat \<Rightarrow> nat \<Rightarrow> nat" where
  "round_up n b = (n + (2 ^ b - 1)) div 2 ^ b"

lemma unat_alignUp:
  assumes "a < 64" "unat x + (2 ^ unat a - 1) < 2 ^ 64"
  shows "unat (alignUp x a) = round_up (unat x) (unat a) * 2 ^ unat a"
proof -
  have "unat (BIT a - 1) = 2 ^ unat a - 1"
    using unat_BIT [OF assms(1)] by (subst unat_sub_nowrap) (simp_all add: word_le_nat_alt)
  then have "unat (x + (BIT a - 1)) = unat x + (2 ^ unat a - 1)"
    using assms(2) by (simp add: unat_add_nowrap)
  then show ?thesis unfolding alignUp_def MASK_eq [OF assms(1)] unat_clear_low round_up_def by simp
qed

lemma round_up_base:
  assumes "(2::nat) ^ b dvd p"
  shows "round_up (p + n) b * 2 ^ b = p + round_up n b * 2 ^ b"
proof -
  obtain k where "p = 2 ^ b * k" using assms by (rule dvdE)
  then have "(p + n + (2 ^ b - 1)) div 2 ^ b = k + (n + (2 ^ b - 1)) div 2 ^ b" by (simp add: add.assoc)
  then show ?thesis using \<open>p = 2 ^ b * k\<close> by (simp add: round_up_def algebra_simps)
qed

lemma round_up_le: "n \<le> round_up n b * 2 ^ b"
proof -
  let ?m = "n + (2 ^ b - 1)"
  have "?m mod 2 ^ b < 2 ^ b" by simp
  then have "?m < (?m div 2 ^ b) * 2 ^ b + 2 ^ b" using div_mult_mod_eq [of ?m "2 ^ b"] by linarith
  then show ?thesis by (simp add: round_up_def)
qed

text \<open>What fits, also fits aligned: the comment in \<^verbatim>\<open>decodeUntypedInvocation\<close>.\<close>

lemma fits_aligned:
  assumes "b \<le> B" "n * 2 ^ b \<le> 2 ^ B - off" "0 < n"
  shows "round_up off b * 2 ^ b + n * 2 ^ b \<le> (2::nat) ^ B"
proof -
  let ?A = "(2::nat) ^ (B - b)"
  have A: "(2::nat) ^ B = ?A * 2 ^ b" using assms(1) by (simp flip: power_add)
  have "0 < n * 2 ^ b" using assms(3) by simp
  then have le: "off + n * 2 ^ b \<le> ?A * 2 ^ b" using assms(2) unfolding A by linarith
  then have "n * 2 ^ b \<le> ?A * 2 ^ b" by linarith
  then have n: "n \<le> ?A" by simp
  have "off \<le> (?A - n) * 2 ^ b" using le by (simp add: diff_mult_distrib)
  moreover have "0 < (2::nat) ^ b" by simp
  ultimately have "off + (2 ^ b - 1) < (?A - n) * 2 ^ b + 2 ^ b" by linarith
  then have "off + (2 ^ b - 1) < (?A - n + 1) * 2 ^ b" by (simp add: add_mult_distrib)
  then have "round_up off b < ?A - n + 1" unfolding round_up_def by (simp add: less_mult_imp_div_less)
  then have "(round_up off b + n) * 2 ^ b \<le> ?A * 2 ^ b" using n by (intro mult_right_mono) auto
  then show ?thesis by (simp add: A add_mult_distrib)
qed

section \<open>The new objects and their capabilities\<close>

lemma tcb_base:
  assumes "p AND mask 10 = 0"
  shows "TCB_PTR_CTE_PTR (p + TCB_OFFSET) 0 = p"
proof -
  have o: "TCB_OFFSET = of_nat 512" by (simp add: TCB_OFFSET_def seL4_TCBBits_def BIT_def)
  have "(p + of_nat 512) AND NOT (mask 10) = push_bit 10 (drop_bit 10 (p + of_nat 512))" by (rule and_not_mask)
  also have "drop_bit 10 (p + of_nat 512) = drop_bit 10 p" using assms by (intro page_offset(1)) simp_all
  also have "push_bit 10 (drop_bit 10 p) = p AND NOT (mask 10)" by (simp only: and_not_mask)
  also have "\<dots> = p" by (rule bit_eqI) (use arg_cong [OF assms, of "\<lambda>w. bit w n" for n] in \<open>auto simp: bit_simps\<close>) 
  finally show ?thesis by (simp add: TCB_PTR_CTE_PTR_def cte_at_def o MASK_eq seL4_TCBBits_def)
qed

lemma object_type_cases:
  assumes "getObjectSize t us = Some sz"
  shows "t = seL4_UntypedObject \<or> t = seL4_TCBObject \<or> t = seL4_EndpointObject \<or> t = seL4_NotificationObject
    \<or> t = seL4_CapTableObject \<or> t = seL4_SchedContextObject \<or> t = seL4_ReplyObject \<or> t = seL4_RISCV_Giga_Page
    \<or> t = seL4_RISCV_4K_Page \<or> t = seL4_RISCV_Mega_Page \<or> t = seL4_RISCV_PageTableObject"
  using assms by (auto simp: getObjectSize_def Arch_getObjectSize_def split: if_splits)

lemma createObject_cap:
  assumes sz: "getObjectSize t us = Some sz" and al: "r AND mask (unat sz) = 0"
  shows "\<exists>c s1. createObject t r us dev s = Some (c, s1) \<and> cap_get_capPtr c = r \<and> cap_get_capSizeBits c = sz \<and> cap_get_capIsPhysical c
    \<and> ctes s1 = ctes s"
proof (cases "t = seL4_TCBObject")
  case True
  then have "sz = 10" using sz by (simp add: getObjectSize_def object_types seL4_TCBBits_def word_le_nat_alt)
  then show ?thesis using True al by (simp add: createObject_def object_types Let_def upd_tcb_def tcb_base seL4_TCBBits_def word_le_nat_alt)
next
  case False
  then show ?thesis
    using object_type_cases [OF sz] sz
    by (elim disjE) (simp_all add: createObject_def Arch_createObject_def getObjectSize_def Arch_getObjectSize_def object_types
        pageBitsForSize_def RISCV_4K_Page_def RISCV_Mega_Page_def RISCV_Giga_Page_def PT_SIZE_BITS_def seL4_PageBits_def add.commute [of seL4_SlotBits])
qed

lemma insertNewCap_caps: "cteCap (ctes (insertNewCap parent slot c s) p) = (if p = slot then c else cteCap (ctes s p))"
  by (simp add: insertNewCap_def Let_def cap_upd_cte)

text \<open>
  After the loop each slot of the window holds a capability to its own part of the area; other slots keep their capabilities.
\<close>

lemma createNewObjects_loop_caps:
  fixes destOffset :: word64
  assumes sz: "getObjectSize t us = Some sz"
    and al: "\<And>j. j < i + n \<Longrightarrow> (area + push_bit (unat sz) (of_nat j)) AND mask (unat sz) = 0"
    and inj: "\<And>a b. a < b \<Longrightarrow> b < i + n \<Longrightarrow> cte_at dest (destOffset + of_nat a) \<noteq> cte_at dest (destOffset + of_nat b)"
  shows "\<exists>s'. createNewObjects_loop n (of_nat i) t parent dest destOffset area sz us dev s = Some s'
    \<and> (\<forall>j. i \<le> j \<longrightarrow> j < i + n \<longrightarrow> (let c = cteCap (ctes s' (cte_at dest (destOffset + of_nat j))) in
          cap_get_capPtr c = area + push_bit (unat sz) (of_nat j) \<and> cap_get_capSizeBits c = sz \<and> cap_get_capIsPhysical c))
    \<and> (\<forall>p. (\<forall>j. i \<le> j \<longrightarrow> j < i + n \<longrightarrow> p \<noteq> cte_at dest (destOffset + of_nat j)) \<longrightarrow> cteCap (ctes s' p) = cteCap (ctes s p))"
  using al inj
proof (induction n arbitrary: i s)
  case (Suc n)
  let ?slot = "\<lambda>j. cte_at dest (destOffset + of_nat j)"
  obtain c s1 where c: "createObject t (area + push_bit (unat sz) (of_nat i)) us dev s = Some (c, s1)"
    "cap_get_capPtr c = area + push_bit (unat sz) (of_nat i)" "cap_get_capSizeBits c = sz" "cap_get_capIsPhysical c" "ctes s1 = ctes s"
    using createObject_cap [OF sz Suc.prems(1) [of i], of dev s] by auto
  let ?s2 = "insertNewCap parent (?slot i) c s1"
  have cp: "cteCap (ctes ?s2 p) = (if p = ?slot i then c else cteCap (ctes s p))" for p by (simp add: insertNewCap_caps c(5))
  obtain s' where s': "createNewObjects_loop n (of_nat (Suc i)) t parent dest destOffset area sz us dev ?s2 = Some s'"
    "\<And>j. Suc i \<le> j \<Longrightarrow> j < Suc i + n \<Longrightarrow> (let c = cteCap (ctes s' (?slot j)) in
          cap_get_capPtr c = area + push_bit (unat sz) (of_nat j) \<and> cap_get_capSizeBits c = sz \<and> cap_get_capIsPhysical c)"
    "\<And>p. (\<forall>j. Suc i \<le> j \<longrightarrow> j < Suc i + n \<longrightarrow> p \<noteq> ?slot j) \<Longrightarrow> cteCap (ctes s' p) = cteCap (ctes ?s2 p)"
    using Suc.IH [of "Suc i" ?s2] Suc.prems by auto
  have "?slot i \<noteq> ?slot j" if "Suc i \<le> j" "j < Suc i + n" for j using Suc.prems(2) [of i j] that by simp
  then have "cteCap (ctes s' (?slot i)) = c" using s'(3) [of "?slot i"] cp by simp
  then have all: "let c = cteCap (ctes s' (?slot j)) in
      cap_get_capPtr c = area + push_bit (unat sz) (of_nat j) \<and> cap_get_capSizeBits c = sz \<and> cap_get_capIsPhysical c"
    if "i \<le> j" "j < i + Suc n" for j using that s'(2) [of j] c(2-4) by (cases "j = i") (simp_all add: Let_def)
  have rest: "cteCap (ctes s' p) = cteCap (ctes s p)" if "\<forall>j. i \<le> j \<longrightarrow> j < i + Suc n \<longrightarrow> p \<noteq> ?slot j" for p
  proof -
    have "p \<noteq> ?slot i" using that by simp
    then show ?thesis using that s'(3) [of p] cp [of p] by simp
  qed
  show ?case using s'(1) c(1) all rest by (auto simp: add.commute)
qed simp

section \<open>Resetting returns and clears\<close>

lemma clearMemory_mem:
  "mem (clearMemory p b s) x = (if x - p < BIT b then 0 else mem s x)" "plat (clearMemory p b s) = plat s"
  by (simp_all add: clearMemory_def Let_def)

lemma mem_set_cap [simp]: "mem (set_cap p c s) = mem s" "plat (set_cap p c s) = plat s"
  by (simp_all add: set_cap_def upd_cte_def)

lemma preemptionPoint_mem: "mem (snd (preemptionPoint s)) = mem s" "plat (snd (preemptionPoint s)) = plat s"
proof -
  obtain w r t c d where e: "snd (preemptionPoint s) = s\<lparr>ksWorkUnitsCompleted := w, hwReads := r, ksCurTime := t, ksConsumed := c, ksDomainTime := d\<rparr>"
    using preemptionPoint_eq by blast
  show "mem (snd (preemptionPoint s)) = mem s" "plat (snd (preemptionPoint s)) = plat s" unfolding e by simp_all
qed

text \<open>One chunk, then the rest. \<open>chunk_free\<close> is the capability left behind after the chunk \<open>j\<close> was cleared.\<close>

abbreviation chunk_free :: "cap \<Rightarrow> nat \<Rightarrow> nat \<Rightarrow> cap" where
  "chunk_free prev c j \<equiv> cap_untyped_cap_set_capFreeIndex prev (OFFSET_TO_FREE_INDEX (of_nat (j * 2 ^ c)))"

lemma chunk_words:
  assumes "(k + 1) * 2 ^ c \<le> (2::nat) ^ 38"
  shows "c < 64" "unat (BIT (of_nat c)) = 2 ^ c" "unat (of_nat (k * 2 ^ c) :: word64) = k * 2 ^ c"
proof -
  have "(2::nat) ^ c \<le> (k + 1) * 2 ^ c" by simp
  then have c: "(2::nat) ^ c \<le> 2 ^ 38" using assms by linarith
  then have "c \<le> 38" by (rule power_le_imp_le_exp [rotated]) simp
  then show c64: "c < 64" by simp
  then have u: "unat (of_nat c :: word64) = c" by (simp add: unat_of_small)
  then have "(of_nat c :: word64) < 64" using c64 by (simp add: word_less_nat_alt)
  from unat_BIT [OF this] show "unat (BIT (of_nat c)) = 2 ^ c" by (simp only: u)
  have "k * 2 ^ c < 2 ^ 64" using assms by simp
  then show "unat (of_nat (k * 2 ^ c) :: word64) = k * 2 ^ c" by (rule unat_of_small)
qed

lemma chunk_range:
  fixes x :: word64
  assumes "(k + 1) * 2 ^ c \<le> (2::nat) ^ 38"
  shows "x - of_nat (k * 2 ^ c) < BIT (of_nat c) \<longleftrightarrow> k * 2 ^ c \<le> unat x \<and> unat x < (k + 1) * 2 ^ c"
proof -
  note w = chunk_words [OF assms]
  have e: "(k + 1) * 2 ^ c = k * 2 ^ c + 2 ^ c" by simp
  show ?thesis
  proof (cases "k * 2 ^ c \<le> unat x")
    case True
    have "unat (x - of_nat (k * 2 ^ c)) = unat x - k * 2 ^ c" using True w(3) unat_sub_nowrap [of "of_nat (k * 2 ^ c)" x] by (simp add: word_le_nat_alt)
    then show ?thesis unfolding word_less_nat_alt w(2) e using True by linarith
  next
    case False
    then have "unat (x - of_nat (k * 2 ^ c)) = unat x + 2 ^ 64 - k * 2 ^ c"
      unfolding unat_sub_if_size w(3) by (simp add: word_size)
    then have "\<not> unat (x - of_nat (k * 2 ^ c)) < 2 ^ c" using assms unfolding e by simp
    then show ?thesis using False unfolding word_less_nat_alt w(2) by blast
  qed
qed

lemma resetUntypedCap_step:
  assumes p: "pResetChunkBits (plat s) = of_nat c" and k: "(k + 1) * 2 ^ c \<le> (2::nat) ^ 38"
  obtains st s1 where "st = EXCEPTION_NONE \<or> st = EXCEPTION_PREEMPTED" "plat s1 = plat s" "cteCap (ctes s1 slot) = chunk_free prev c k"
    "\<forall>x. mem s1 x = (if k * 2 ^ c \<le> unat (x - capUtPtr prev) \<and> unat (x - capUtPtr prev) < (k + 1) * 2 ^ c then 0 else mem s x)"
    "resetUntypedCap_loop slot prev (of_nat (k * 2 ^ c)) s =
      (if st \<noteq> EXCEPTION_NONE then Some (st, s1) else resetUntypedCap_loop slot prev (of_nat (k * 2 ^ c) - BIT (of_nat c)) s1)"
proof -
  note w = chunk_words [OF k]
  let ?s = "set_cap slot (chunk_free prev c k) (clearMemory (GET_OFFSET_FREE_PTR (capUtPtr prev) (of_nat (k * 2 ^ c))) (of_nat c) s)"
  obtain st s1 where pp: "preemptionPoint ?s = (st, s1)" by fastforce
  note kp = preemptionPoint_keeps [of ?s, unfolded pp fst_conv snd_conv] preemptionPoint_mem [of ?s, unfolded pp snd_conv]
  have "of_nat (k * 2 ^ c) \<noteq> - BIT (of_nat c)"
  proof
    assume "of_nat (k * 2 ^ c) = - BIT (of_nat c)"
    then have "of_nat (k * 2 ^ c) + BIT (of_nat c) = (0 :: word64)" by simp
    moreover have "unat (of_nat (k * 2 ^ c) + BIT (of_nat c)) = k * 2 ^ c + 2 ^ c"
      using k w by (subst unat_add_nowrap) simp_all
    ultimately show False by simp
  qed
  then have unf: "resetUntypedCap_loop slot prev (of_nat (k * 2 ^ c)) s =
      (if st \<noteq> EXCEPTION_NONE then Some (st, s1) else resetUntypedCap_loop slot prev (of_nat (k * 2 ^ c) - BIT (of_nat c)) s1)"
    using p pp by (subst resetUntypedCap_loop.simps) (simp add: Let_def)
  have m: "mem s1 x = (if k * 2 ^ c \<le> unat (x - capUtPtr prev) \<and> unat (x - capUtPtr prev) < (k + 1) * 2 ^ c then 0 else mem s x)" for x
    using chunk_range [OF k, of "x - capUtPtr prev"] kp(4)
    by (simp add: clearMemory_mem GET_OFFSET_FREE_PTR_def diff_diff_eq)
  show ?thesis by (rule that [OF _ _ _ allI [OF m] unf]) (use kp in \<open>auto simp: clearMemory_mem\<close>)
qed

lemma resetUntypedCap_loop_spec:
  assumes "pResetChunkBits (plat s) = of_nat c" "(k + 1) * 2 ^ c \<le> (2::nat) ^ 38"
  shows "\<exists>st s' j. resetUntypedCap_loop slot prev (of_nat (k * 2 ^ c)) s = Some (st, s') \<and> j \<le> k
    \<and> (st = EXCEPTION_NONE \<and> j = 0 \<or> st = EXCEPTION_PREEMPTED) \<and> cteCap (ctes s' slot) = chunk_free prev c j \<and> plat s' = plat s
    \<and> (\<forall>x. mem s' x = (if j * 2 ^ c \<le> unat (x - capUtPtr prev) \<and> unat (x - capUtPtr prev) < (k + 1) * 2 ^ c then 0 else mem s x))"
  using assms
proof (induction k arbitrary: s)
  case 0
  from 0 obtain st s1 where s1: "st = EXCEPTION_NONE \<or> st = EXCEPTION_PREEMPTED" "plat s1 = plat s" "cteCap (ctes s1 slot) = chunk_free prev c 0"
    "\<forall>x. mem s1 x = (if 0 * 2 ^ c \<le> unat (x - capUtPtr prev) \<and> unat (x - capUtPtr prev) < (0 + 1) * 2 ^ c then 0 else mem s x)"
    "resetUntypedCap_loop slot prev (of_nat (0 * 2 ^ c)) s =
      (if st \<noteq> EXCEPTION_NONE then Some (st, s1) else resetUntypedCap_loop slot prev (of_nat (0 * 2 ^ c) - BIT (of_nat c)) s1)"
    by (rule resetUntypedCap_step [where slot = slot and prev = prev]) (rule that)
  have "resetUntypedCap_loop slot prev (of_nat (0 * 2 ^ c) - BIT (of_nat c)) s1 = Some (EXCEPTION_NONE, s1)"
    using 0(1) s1(2) by (subst resetUntypedCap_loop.simps) simp
  then have "resetUntypedCap_loop slot prev (of_nat (0 * 2 ^ c)) s = Some (st, s1)" using s1(1) unfolding s1(5) by fastforce
  then show ?case using s1(1-4) by (intro exI [of _ st] exI [of _ s1] exI [of _ 0] conjI) blast+
next
  case (Suc k)
  have k: "(k + 1) * 2 ^ c \<le> (2::nat) ^ 38" using Suc.prems(2) by simp
  from Suc.prems obtain st s1 where s1: "st = EXCEPTION_NONE \<or> st = EXCEPTION_PREEMPTED" "plat s1 = plat s"
    "cteCap (ctes s1 slot) = chunk_free prev c (Suc k)"
    "\<forall>x. mem s1 x = (if Suc k * 2 ^ c \<le> unat (x - capUtPtr prev) \<and> unat (x - capUtPtr prev) < (Suc k + 1) * 2 ^ c then 0 else mem s x)"
    "resetUntypedCap_loop slot prev (of_nat (Suc k * 2 ^ c)) s =
      (if st \<noteq> EXCEPTION_NONE then Some (st, s1) else resetUntypedCap_loop slot prev (of_nat (Suc k * 2 ^ c) - BIT (of_nat c)) s1)"
    by (rule resetUntypedCap_step [where slot = slot and prev = prev]) (rule that)
  show ?case
  proof (cases "st = EXCEPTION_NONE")
    case False
    then have "resetUntypedCap_loop slot prev (of_nat (Suc k * 2 ^ c)) s = Some (st, s1)" unfolding s1(5) by simp
    then show ?thesis using s1(1-4) False by (intro exI [of _ st] exI [of _ s1] exI [of _ "Suc k"] conjI) blast+
  next
    case True
    have "BIT (of_nat c) = of_nat (2 ^ c)" using of_nat_unat_id [of "BIT (of_nat c)"] unfolding chunk_words(2) [OF k] by (rule sym)
    then have "of_nat (Suc k * 2 ^ c) - BIT (of_nat c) = (of_nat (k * 2 ^ c) :: word64)" by (simp add: algebra_simps)
    then have unf: "resetUntypedCap_loop slot prev (of_nat (Suc k * 2 ^ c)) s = resetUntypedCap_loop slot prev (of_nat (k * 2 ^ c)) s1"
      using True s1(5) by simp
    obtain st' s' j where r: "resetUntypedCap_loop slot prev (of_nat (k * 2 ^ c)) s1 = Some (st', s')" "j \<le> k"
      "st' = EXCEPTION_NONE \<and> j = 0 \<or> st' = EXCEPTION_PREEMPTED" "cteCap (ctes s' slot) = chunk_free prev c j" "plat s' = plat s1"
      "\<forall>x. mem s' x = (if j * 2 ^ c \<le> unat (x - capUtPtr prev) \<and> unat (x - capUtPtr prev) < (k + 1) * 2 ^ c then 0 else mem s1 x)"
      using Suc.IH [OF _ k, of s1] Suc.prems(1) s1(2) by auto
    have m: "mem s' x = (if j * 2 ^ c \<le> unat (x - capUtPtr prev) \<and> unat (x - capUtPtr prev) < (Suc k + 1) * 2 ^ c then 0 else mem s x)" for x
    proof -
      have "j * 2 ^ c \<le> Suc k * 2 ^ c" using r(2) by (intro mult_right_mono) auto
      then show ?thesis unfolding r(6) [rule_format] s1(4) [rule_format] by auto
    qed
    have "j \<le> Suc k" "plat s' = plat s" using r(2,5) s1(2) by simp_all
    then show ?thesis using unf r(1,3,4) m by (intro exI [of _ st'] exI [of _ s'] exI [of _ j] conjI allI) simp_all
  qed
qed

section \<open>Well-formed untyped capabilities\<close>

fun untyped_ok :: "cap \<Rightarrow> bool" where
  "untyped_ok (UntypedCap i dev bs p) \<longleftrightarrow> 4 \<le> bs \<and> bs \<le> 38 \<and> p AND mask (unat bs) = 0 \<and> unat i * 16 \<le> 2 ^ unat bs"
| "untyped_ok _ = False"

lemma free_index_set:
  assumes "n \<le> 2 ^ 38"
  shows "cap_untyped_cap_set_capFreeIndex (UntypedCap i dev bs p) (drop_bit 4 (of_nat n)) = UntypedCap (of_nat (n div 16)) dev bs p"
proof -
  have n: "unat (of_nat n :: word64) = n" using assms by (intro unat_of_small) simp
  have d: "unat (drop_bit 4 (of_nat n) :: word64) = n div 16" unfolding unat_drop_bit n by simp
  then have "(drop_bit 4 (of_nat n) :: word64) = of_nat (n div 16)" using of_nat_unat_id by metis
  moreover have "drop_bit 4 (of_nat n) AND mask 39 = (drop_bit 4 (of_nat n) :: word64)"
  proof -
    have "unat (drop_bit 4 (of_nat n) :: word64) < 2 ^ 39" unfolding d using assms by simp
    then have "take_bit 39 (drop_bit 4 (of_nat n)) = (drop_bit 4 (of_nat n) :: word64)"
      by (simp only: word_unat_eq_iff unsigned_take_bit_eq take_bit_nat_eq_self)
    then show ?thesis by (simp only: take_bit_eq_mask)
  qed
  moreover have "MASK 39 = mask 39" using MASK_eq [of 39] by simp
  ultimately show ?thesis by (simp add: cap_untyped_cap_set_capFreeIndex_def)
qed

lemma untyped_sizes:
  assumes "untyped_ok (UntypedCap i dev bs p)"
  shows "unat bs \<le> 38" "4 \<le> unat bs" "bs < 64" "unat (BIT bs) = 2 ^ unat bs" "(2::nat) ^ unat bs \<le> 2 ^ 38" "2 ^ unat bs dvd unat p"
    "unat p + 2 ^ unat bs \<le> 2 ^ 64" "unat (FREE_INDEX_TO_OFFSET i) = unat i * 16"
proof -
  show b: "unat bs \<le> 38" "4 \<le> unat bs" using assms by (simp_all add: word_le_nat_alt)
  show b64: "bs < 64" using b(1) by (simp add: word_less_nat_alt)
  show "unat (BIT bs) = 2 ^ unat bs" using unat_BIT [OF b64] .
  show p38: "(2::nat) ^ unat bs \<le> 2 ^ 38" using b(1) by (intro power_increasing) simp_all
  have "take_bit (unat bs) p = 0" using assms by (simp add: take_bit_eq_mask)
  from arg_cong [OF this, of unat] have "unat p mod 2 ^ unat bs = 0"
    unfolding unsigned_take_bit_eq by (simp add: take_bit_eq_mod)
  then show dv: "2 ^ unat bs dvd unat p" by (simp add: dvd_eq_mod_eq_0)
  obtain k where k: "unat p = 2 ^ unat bs * k" using dv by (rule dvdE)
  have e: "(2::nat) ^ 64 = 2 ^ unat bs * 2 ^ (64 - unat bs)" using b(1) by (simp flip: power_add)
  have "2 ^ unat bs * k < 2 ^ unat bs * 2 ^ (64 - unat bs)" using unat_lt_64 [of p] unfolding e k .
  then have "k + 1 \<le> 2 ^ (64 - unat bs)" by simp
  then have "2 ^ unat bs * (k + 1) \<le> 2 ^ unat bs * 2 ^ (64 - unat bs)" by (intro mult_left_mono) auto
  then show "unat p + 2 ^ unat bs \<le> 2 ^ 64" unfolding e k by (simp add: algebra_simps)
  have "unat i * 16 < 2 ^ 64" using assms p38 by simp
  then show "unat (FREE_INDEX_TO_OFFSET i) = unat i * 16"
    unfolding FREE_INDEX_TO_OFFSET_def seL4_MinUntypedBits_def using unat_push_bit [of i 4] by simp
qed

lemma mult_below:
  assumes "(0::nat) < off" "off \<le> 2 ^ B" "c \<le> B"
  shows "((off - 1) div 2 ^ c + 1) * 2 ^ c \<le> 2 ^ B" "(off - 1) div 2 ^ c * 2 ^ c < off" "off \<le> ((off - 1) div 2 ^ c + 1) * 2 ^ c"
proof -
  have e: "(2::nat) ^ B = 2 ^ (B - c) * 2 ^ c" using assms(3) by (simp flip: power_add)
  have "off - 1 < 2 ^ (B - c) * 2 ^ c" using assms(1,2) unfolding e by linarith
  then have "(off - 1) div 2 ^ c < 2 ^ (B - c)" by (rule less_mult_imp_div_less)
  then show "((off - 1) div 2 ^ c + 1) * 2 ^ c \<le> 2 ^ B" unfolding e by (intro mult_right_mono) simp_all
  have "(off - 1) div 2 ^ c * 2 ^ c \<le> off - 1" by (rule div_times_less_eq_dividend)
  then show "(off - 1) div 2 ^ c * 2 ^ c < off" using assms(1) by linarith
  have "(off - 1) mod 2 ^ c < 2 ^ c" by simp
  then have "off - 1 < (off - 1) div 2 ^ c * 2 ^ c + 2 ^ c" using div_mult_mod_eq [of "off - 1" "2 ^ c"] by linarith
  then show "off \<le> ((off - 1) div 2 ^ c + 1) * 2 ^ c" by (simp add: add_mult_distrib)
qed

lemma resetUntypedCap_spec:
  assumes cap: "cteCap (ctes s slot) = UntypedCap i dev bs p" and ok: "untyped_ok (UntypedCap i dev bs p)"
    and c: "pResetChunkBits (plat s) = of_nat c" "4 \<le> c" "c \<le> 38"
  shows "\<exists>st s' i'. resetUntypedCap slot s = Some (st, s') \<and> cteCap (ctes s' slot) = UntypedCap i' dev bs p \<and> plat s' = plat s
    \<and> (st = EXCEPTION_NONE \<and> i' = 0 \<or> st = EXCEPTION_PREEMPTED \<and> i' < i)
    \<and> (\<not> dev \<longrightarrow> (\<forall>x. unat i' * 16 \<le> unat (x - p) \<longrightarrow> unat (x - p) < unat i * 16 \<longrightarrow> mem s' x = 0))
    \<and> (\<forall>x. 2 ^ unat bs \<le> unat (x - p) \<longrightarrow> mem s' x = mem s x)"
proof -
  note z = untyped_sizes [OF ok]
  let ?off = "FREE_INDEX_TO_OFFSET i"
  have off: "unat ?off = unat i * 16" "unat i * 16 \<le> 2 ^ unat bs" using z(8) ok by simp_all
  have c64: "unat (of_nat c :: word64) = c" using c(3) by (intro unat_of_small) simp
  consider "?off = 0" | "?off \<noteq> 0" "dev \<or> unat bs < c" | "?off \<noteq> 0" "\<not> dev" "c \<le> unat bs" by fastforce
  then show ?thesis
  proof cases
    case 1
    then have "i = 0" using off(1) by (simp add: word_unat_eq_iff)
    then show ?thesis using 1 cap by (simp add: resetUntypedCap_def)
  next
    case 2
    let ?s = "if \<not> dev then clearMemory p bs s else s"
    have "cap_untyped_cap_set_capFreeIndex (UntypedCap i dev bs p) 0 = UntypedCap 0 dev bs p"
      by (simp add: cap_untyped_cap_set_capFreeIndex_def)
    then have r: "resetUntypedCap slot s = Some (EXCEPTION_NONE, set_cap slot (UntypedCap 0 dev bs p) ?s)"
      using 2 c(1) c64 by (simp add: resetUntypedCap_def cap word_less_nat_alt)
    then show ?thesis using off(2) by (cases dev) (auto simp: clearMemory_mem word_less_nat_alt z(4))
  next
    case 3
    define k where "k = (unat i * 16 - 1) div 2 ^ c"
    have pos: "0 < unat i * 16" using 3(1) off(1) by (metis bot_nat_0.not_eq_extremum unat_eq_0)
    note b = mult_below [OF pos off(2) 3(3), folded k_def]
    have k: "(k + 1) * 2 ^ c \<le> (2::nat) ^ 38" using b(1) z(5) by linarith
    have "unat (?off - 1) = unat i * 16 - 1" using pos off(1) unat_sub_nowrap [of 1 ?off] by (simp add: word_le_nat_alt)
    then have "unat (ROUND_DOWN (?off - 1) (of_nat c)) = k * 2 ^ c"
      using b(2) off(2) z(5) by (simp add: ROUND_DOWN_def c64 unat_push_bit unat_drop_bit k_def)
    then have rd: "ROUND_DOWN (?off - 1) (of_nat c) = of_nat (k * 2 ^ c)" using of_nat_unat_id by metis
    have "resetUntypedCap slot s = resetUntypedCap_loop slot (UntypedCap i dev bs p) (of_nat (k * 2 ^ c)) s"
      unfolding rd [symmetric] using 3 c(1) c64 by (simp add: resetUntypedCap_def cap word_less_nat_alt)
    then obtain st s' j where r: "resetUntypedCap slot s = Some (st, s')" "j \<le> k"
      "st = EXCEPTION_NONE \<and> j = 0 \<or> st = EXCEPTION_PREEMPTED" "cteCap (ctes s' slot) = chunk_free (UntypedCap i dev bs p) c j" "plat s' = plat s"
      "\<forall>x. mem s' x = (if j * 2 ^ c \<le> unat (x - p) \<and> unat (x - p) < (k + 1) * 2 ^ c then 0 else mem s x)"
      using resetUntypedCap_loop_spec [OF c(1) k, of slot "UntypedCap i dev bs p"] by auto
    have jk: "j * 2 ^ c \<le> k * 2 ^ c" using r(2) by (intro mult_right_mono) auto
    have e: "(2::nat) ^ c = 16 * 2 ^ (c - 4)" using c(2) power_add [of "2::nat" 4 "c - 4"] by simp
    let ?i' = "of_nat (j * 2 ^ c div 16) :: word64"
    have d: "j * 2 ^ c div 16 = j * 2 ^ (c - 4)" unfolding e by simp
    have jl: "j * 2 ^ c < unat i * 16" using jk b(2) by linarith
    then have "j * 2 ^ (c - 4) < unat i" unfolding e by linarith
    then have "j * 2 ^ (c - 4) < 2 ^ 64" using unat_lt_64 [of i] by (rule less_trans)
    then have u: "unat ?i' = j * 2 ^ (c - 4)" unfolding d by (rule unat_of_small)
    then have i': "unat ?i' * 16 = j * 2 ^ c" unfolding e by simp
    have cap': "cteCap (ctes s' slot) = UntypedCap ?i' dev bs p"
      using free_index_set [of "j * 2 ^ c" i dev bs p] jl off(2) z(5) r(4) unfolding OFFSET_TO_FREE_INDEX_def seL4_MinUntypedBits_def by simp
    have "st = EXCEPTION_NONE \<and> ?i' = 0 \<or> st = EXCEPTION_PREEMPTED \<and> ?i' < i"
      using r(3) i' jl by (auto simp: word_less_nat_alt)
    moreover have "mem s' x = 0" if "unat ?i' * 16 \<le> unat (x - p)" "unat (x - p) < unat i * 16" for x
      using that b(3) r(6) unfolding i' by (meson order_less_le_trans)
    moreover have "mem s' x = mem s x" if "2 ^ unat bs \<le> unat (x - p)" for x
      using that b(1) r(6) by (meson leD order_trans)
    ultimately show ?thesis using r(1,5) cap' by blast
  qed
qed

text \<open>
  C17. Resetting an untyped capability always returns. When it ends normally all used memory of the region has been cleared and the whole
  region is free; when it is preempted the free index has gone down, and the memory from there on has been cleared, so that
  repeated attempts end. Memory outside the region is never touched.
\<close>

theorem resetUntypedCap_clears:
  assumes "cteCap (ctes s slot) = UntypedCap i dev bs p" "untyped_ok (UntypedCap i dev bs p)"
    and "pResetChunkBits (plat s) = of_nat c" "4 \<le> c" "c \<le> 38"
  shows "\<exists>st s' i'. resetUntypedCap slot s = Some (st, s') \<and> cteCap (ctes s' slot) = UntypedCap i' dev bs p
    \<and> (st = EXCEPTION_NONE \<and> i' = 0 \<or> st = EXCEPTION_PREEMPTED \<and> i' < i)
    \<and> (\<not> dev \<longrightarrow> (\<forall>x. unat i' * 16 \<le> unat (x - p) \<longrightarrow> unat (x - p) < unat i * 16 \<longrightarrow> mem s' x = 0))
    \<and> (\<forall>x. 2 ^ unat bs \<le> unat (x - p) \<longrightarrow> mem s' x = mem s x)"
  using resetUntypedCap_spec [OF assms] by blast

section \<open>Retyping stays inside the free part\<close>

lemma decodeUntyped_ok:
  assumes d: "decodeUntypedInvocation label len slot cap buffer s = Some (Inr (st, s'))"
  defines "t \<equiv> getSyscallArg 0 buffer s" and "us \<equiv> getSyscallArg 1 buffer s" and "off \<equiv> getSyscallArg 4 buffer s" and "n \<equiv> getSyscallArg 5 buffer s"
    and "reset \<equiv> ensureNoChildren slot s = Inr ()"
  defines "fi \<equiv> if reset then 0 else capFreeIndex cap"
  shows "\<exists>sz dest. getObjectSize t us = Some sz \<and> 4 \<le> sz \<and> sz \<le> 38 \<and> slots_empty dest off n s \<and> n \<noteq> 0 \<and> n \<le> pRetypeFanOutLimit (plat s)
    \<and> n \<le> drop_bit (unat sz) (BIT (capBlockSize cap) - FREE_INDEX_TO_OFFSET fi)
    \<and> invokeUntyped_Retype slot reset (alignUp (GET_FREE_REF (capUtPtr cap) fi) sz) t us dest off n (capIsDevice cap)
        (setThreadState (ksCurThread s) ThreadState_Restart s) = Some (st, s')"
proof -
  from d obtain sz nodeCap where sz: "getObjectSize t us = Some sz" and r: "us < 64" "sz \<le> 38" "t < seL4_ObjectTypeCount"
      "t = seL4_CapTableObject \<longrightarrow> us \<noteq> 0" "t = seL4_UntypedObject \<longrightarrow> 4 \<le> us" "t = seL4_SchedContextObject \<longrightarrow> 7 \<le> us"
    and k: "slots_empty (capCNodePtr nodeCap) off n s" "n \<noteq> 0" "n \<le> pRetypeFanOutLimit (plat s)"
      "n \<le> drop_bit (unat sz) (BIT (capBlockSize cap) - FREE_INDEX_TO_OFFSET fi)"
      "perform (invokeUntyped_Retype slot reset (alignUp (GET_FREE_REF (capUtPtr cap) fi) sz) t us (capCNodePtr nodeCap) off n (capIsDevice cap)
        (setThreadState (ksCurThread s) ThreadState_Restart s)) = Some (Inr (st, s'))"
    unfolding decodeUntypedInvocation_def Let_def t_def [symmetric] us_def [symmetric] off_def [symmetric] n_def [symmetric]
      reset_def [symmetric] fi_def [symmetric]
    by (auto simp: not_le not_less seL4_MaxUntypedBits_def seL4_MinUntypedBits_def seL4_MinSchedContextBits_def
        split: if_splits bind_splits elim!: on_ok_cases)
  have sc: "t = seL4_SchedContextObject \<longrightarrow> 4 \<le> us" using r(6) by (auto simp: word_le_nat_alt)
  have "4 \<le> sz"
  proof (cases "t = seL4_CapTableObject \<or> t = seL4_TCBObject")
    case True
    then have "sz = 5 + us \<or> sz = 10"
      using sz by (auto simp: getObjectSize_def object_types seL4_SlotBits_def seL4_TCBBits_def word_le_nat_alt)
    then show ?thesis using r(1) unat_add_nowrap [of 5 us] by (auto simp: word_le_nat_alt word_less_nat_alt)
  next
    case False
    then show ?thesis using object_type_cases [OF sz] sz r(5) sc
      by (elim disjE) (simp_all add: getObjectSize_def Arch_getObjectSize_def object_types seL4_EndpointBits_def
          seL4_NotificationBits_def seL4_ReplyBits_def seL4_PageBits_def seL4_LargePageBits_def seL4_HugePageBits_def)
  qed
  then show ?thesis using sz r(2) k by (auto simp: perform_def split: bind_splits)
qed

lemma aligned_word: "2 ^ k dvd unat w \<Longrightarrow> w AND mask k = 0" for w :: word64
proof -
  assume "2 ^ k dvd unat w"
  then have "unat (take_bit k w) = 0" unfolding unsigned_take_bit_eq by (simp add: take_bit_eq_mod dvd_eq_mod_eq_0)
  then have "take_bit k w = 0" by (simp add: unat_eq_0)
  then show ?thesis by (simp add: take_bit_eq_mask)
qed

text \<open>The area of the new objects, in natural numbers.\<close>

lemma retype_area:
  assumes ok: "untyped_ok (UntypedCap i dev bs p)" and f: "unat f * 16 \<le> 2 ^ unat bs"
    and n: "n \<noteq> 0" "n \<le> drop_bit (unat sz) (BIT bs - FREE_INDEX_TO_OFFSET f)" and sz: "sz \<le> 38"
  defines "q \<equiv> round_up (unat f * 16) (unat sz) * 2 ^ unat sz"
  shows "unat (alignUp (GET_FREE_REF p f) sz) = unat p + q" "unat f * 16 \<le> q" "q + unat n * 2 ^ unat sz \<le> 2 ^ unat bs"
    "2 ^ unat sz dvd unat p + q"
proof -
  note z = untyped_sizes [OF ok]
  have okf: "untyped_ok (UntypedCap f dev bs p)" using ok f by simp
  note fo = untyped_sizes(8) [OF okf]
  have "unat (BIT bs - FREE_INDEX_TO_OFFSET f) = 2 ^ unat bs - unat f * 16"
    using f z(4) fo by (subst unat_sub_nowrap) (simp_all add: word_le_nat_alt)
  then have "unat n \<le> (2 ^ unat bs - unat f * 16) div 2 ^ unat sz"
    using n(2) unfolding word_le_nat_alt unat_drop_bit by simp
  then have fit: "unat n * 2 ^ unat sz \<le> 2 ^ unat bs - unat f * 16"
    using div_times_less_eq_dividend [of "2 ^ unat bs - unat f * 16" "2 ^ unat sz"] by (meson mult_le_mono1 order_trans)
  have n0: "0 < unat n" using n(1) by (simp add: unat_gt_0)
  then have one: "(2::nat) ^ unat sz \<le> unat n * 2 ^ unat sz" by simp
  then have "(2::nat) ^ unat sz \<le> 2 ^ unat bs" using fit by linarith
  then have le: "unat sz \<le> unat bs" by (rule power_le_imp_le_exp [rotated]) simp
  show fits: "q + unat n * 2 ^ unat sz \<le> 2 ^ unat bs" unfolding q_def by (rule fits_aligned [OF le fit n0])
  show "unat f * 16 \<le> q" unfolding q_def by (rule round_up_le)
  have dv: "2 ^ unat sz dvd unat p" using z(6) le by (meson dvd_trans le_imp_power_dvd)
  then show "2 ^ unat sz dvd unat p + q" by (simp add: q_def)
  have pos: "(0::nat) < 2 ^ unat sz" by simp
  have lt: "unat p + unat f * 16 + (2 ^ unat sz - 1) < 2 ^ 64" using z(7) fit one f pos by linarith
  then have "unat p + unat f * 16 < 2 ^ 64" by linarith
  then have ref: "unat (GET_FREE_REF p f) = unat p + unat f * 16"
    unfolding GET_FREE_REF_def using fo by (subst unat_add_nowrap) simp_all
  have "sz < 64" using sz by (simp add: word_le_nat_alt word_less_nat_alt)
  from unat_alignUp [OF this, of "GET_FREE_REF p f"] lt
  show "unat (alignUp (GET_FREE_REF p f) sz) = unat p + q" unfolding ref round_up_base [OF dv] q_def by simp
qed

lemma slots_distinct:
  assumes "a < b" "b < 2 ^ 32"
  shows "cte_at dest (off + of_nat a) \<noteq> cte_at dest (off + of_nat b)"
proof
  assume "cte_at dest (off + of_nat a) = cte_at dest (off + of_nat b)"
  then have "(of_nat (32 * a) :: word64) = of_nat (32 * b)" by (simp add: cte_at_def sizeof_cte_def algebra_simps)
  then have "unat (of_nat (32 * a) :: word64) = unat (of_nat (32 * b) :: word64)" by simp
  then show False using assms unat_of_small [of "32 * a"] unat_of_small [of "32 * b"] by simp
qed

lemma plat_setThreadState [simp]: "plat (setThreadState t ts s) = plat s"
  by (simp add: setThreadState_def scheduleTCB_def upd_ts_def upd_tcb_def)

text \<open>What the retype does after the optional reset.\<close>

lemma retype_after_reset:
  assumes inv: "invokeUntyped_Retype slot reset area t us dest off n dev s = Some (EXCEPTION_NONE, s')"
    and cap: "cteCap (ctes s slot) = UntypedCap i dev bs p" and ok: "untyped_ok (UntypedCap i dev bs p)"
    and c: "pResetChunkBits (plat s) = of_nat c" "4 \<le> c" "c \<le> 38" and sz: "getObjectSize t us = Some sz"
  obtains s1 i1 where "cteCap (ctes s1 slot) = UntypedCap i1 dev bs p"
    "createNewObjects_loop (unat n) 0 t slot dest off area sz us dev
       (set_cap slot (cap_untyped_cap_set_capFreeIndex (UntypedCap i1 dev bs p) (GET_FREE_INDEX p (area + push_bit (unat sz) n))) s1) = Some s'"
proof -
  have "\<exists>st s1 i1. (if reset then resetUntypedCap slot s else Some (EXCEPTION_NONE, s)) = Some (st, s1)
    \<and> cteCap (ctes s1 slot) = UntypedCap i1 dev bs p"
    using resetUntypedCap_spec [OF cap ok c] cap by auto
  then obtain st s1 i1 where r: "(if reset then resetUntypedCap slot s else Some (EXCEPTION_NONE, s)) = Some (st, s1)"
    "cteCap (ctes s1 slot) = UntypedCap i1 dev bs p" by blast
  have "st = EXCEPTION_NONE" using inv r(1) by (auto simp: invokeUntyped_Retype_def split: if_splits)
  then show ?thesis using inv r sz that [OF r(2)]
    by (auto simp: invokeUntyped_Retype_def createNewObjects_def cap split: bind_splits)
qed

lemma new_free_index:
  assumes "unat area = unat p + q" "q + unat n * 2 ^ unat sz \<le> 2 ^ 38"
  shows "cap_untyped_cap_set_capFreeIndex (UntypedCap i dev bs p) (GET_FREE_INDEX p (area + push_bit (unat sz) n))
    = UntypedCap (of_nat ((q + unat n * 2 ^ unat sz) div 16)) dev bs p"
proof -
  have "area = of_nat (unat p + q)" using assms(1) of_nat_unat_id [of area] by simp
  then have a: "area = p + of_nat q" by (simp add: of_nat_unat_id)
  have "unat n * 2 ^ unat sz < 2 ^ 64" using assms(2) by simp
  then have "push_bit (unat sz) n = of_nat (unat n * 2 ^ unat sz)" using unat_push_bit of_nat_unat_id by metis
  then have "area + push_bit (unat sz) n - p = of_nat (q + unat n * 2 ^ unat sz)" unfolding a by simp
  then show ?thesis
    unfolding GET_FREE_INDEX_def seL4_MinUntypedBits_def using free_index_set [OF assms(2)] by simp
qed



section \<open>Examples\<close>

text \<open>A page of untyped memory without children, and a request for two endpoints in a capability node of two slots.\<close>

definition example_untyped :: "word64 \<Rightarrow> kstate" where
  "example_untyped i = kstate0
     \<lparr>ksCurThread := 1024,
      tcbs := (\<lambda>_. tcb0)(1024 := tcb0\<lparr>tcbContext := (\<lambda>r. if r = msgRegisters ! 0 then seL4_EndpointObject else 0)\<rparr>),
      mem := (\<lambda>_. 0)(0x2030 := 2),
      ctes := (\<lambda>_. nullMDBNode NullCap)(32 := nullMDBNode (UntypedCap i False 12 0x10000), 64 := nullMDBNode (CNodeCap 1 0 0 0x8000)),
      current_extra_caps := (\<lambda>_. NULL)(0 := 64)\<rparr>"

lemma example_untyped_facts:
  "cteCap (ctes (example_untyped i) 32) = UntypedCap i False 12 0x10000" "i \<le> 16 \<Longrightarrow> untyped_ok (UntypedCap i False 12 0x10000)"
  "pResetChunkBits (plat (example_untyped i)) = of_nat 8" "pRetypeFanOutLimit (plat (example_untyped i)) \<le> 2 ^ 31"
  "getSyscallArg 5 0x2000 (example_untyped i) = 2" "getSyscallArg 4 0x2000 (example_untyped i) = 0"
  "getSyscallArg 0 0x2000 (example_untyped i) = 2" "getSyscallArg 1 0x2000 (example_untyped i) = 0" "getSyscallArg 3 0x2000 (example_untyped i) = 0"
  "excapref 0 (example_untyped i) = 64" "cteCap (ctes (example_untyped i) 64) = CNodeCap 1 0 0 0x8000"
  "ensureNoChildren 32 (example_untyped i) = Inr ()" "pRetypeFanOutLimit (plat (example_untyped i)) = 256"
  by (simp_all add: example_untyped_def kstate0_def nullMDBNode_def getSyscallArg_def n_msgRegisters_def load_def mask_eq_exp_minus_1
      msgRegisters_def getRegister_def seL4_EndpointObject_def excapref_def ensureNoChildren_def word_le_nat_alt)

lemma example_retype:
  "\<exists>s'. decodeUntypedInvocation UntypedRetype 6 32 (UntypedCap 0 False 12 0x10000) 0x2000 (example_untyped 0) = Some (Inr (EXCEPTION_NONE, s'))"
proof -
  let ?s = "example_untyped 0"
  have sz: "getObjectSize 2 0 = Some 4" by (simp add: getObjectSize_def object_types seL4_EndpointBits_def)
  have two: "unat (2 :: word64) = Suc (Suc 0)" by simp
  have e: "slots_empty 0x8000 0 2 ?s" unfolding slots_empty_def two
    by (simp add: ensureEmptySlot_def cte_at_def sizeof_cte_def example_untyped_def nullMDBNode_def)
  have l: "\<exists>s'. createNewObjects_loop (unat (2 :: word64)) 0 2 p d 0 a 4 0 dev s = Some s'" for p d a dev s
    unfolding two by (simp add: createObject_def object_types)
  have cn: "\<exists>s'. createNewObjects 2 p d 0 2 a 0 dev s = Some s'" for p d a dev s
    unfolding createNewObjects_def sz using l by simp
  have "\<exists>s'. invokeUntyped_Retype 32 True a 2 0 d 0 2 dev (setThreadState (ksCurThread ?s) ThreadState_Restart ?s) = Some (EXCEPTION_NONE, s')" for a d dev
  proof -
    have "resetUntypedCap 32 (setThreadState (ksCurThread ?s) ThreadState_Restart ?s) = Some (EXCEPTION_NONE, setThreadState (ksCurThread ?s) ThreadState_Restart ?s)"
      by (simp add: resetUntypedCap_def example_untyped_facts FREE_INDEX_TO_OFFSET_def)
    then show ?thesis by (simp add: invokeUntyped_Retype_def sz Let_def bind_eq_Some_conv cn)
  qed
  then show ?thesis
    unfolding decodeUntypedInvocation_def Let_def example_untyped_facts
    by (auto simp: sz e object_types seL4_MaxUntypedBits_def BIT_def FREE_INDEX_TO_OFFSET_def perform_def ok_def bind_eq_Some_conv)
qed

theorem resetUntypedCap_clears_witness:
  "\<exists>st s' i'. resetUntypedCap 32 (example_untyped 16) = Some (st, s') \<and> cteCap (ctes s' 32) = UntypedCap i' False 12 0x10000"
  using resetUntypedCap_clears [OF example_untyped_facts(1) example_untyped_facts(2) example_untyped_facts(3), of 16] by auto


end
