(* ===== verification/Interrupt.thy ===== *)
theory Interrupt
  imports Finalise
begin

text \<open>
  Interrupts: \<^verbatim>\<open>src/kernel/object/interrupt.c\<close>, \<^verbatim>\<open>arch/riscv/object/interrupt.c\<close> and the interrupt half of
  \<^verbatim>\<open>arch/riscv/machine/hardware.c\<close>, for a controller whose claim is completed by the handler's acknowledgement and whose
  trigger mode cannot be changed.

  What the controller answers is a parameter: \<open>hwSIP\<close> gives the pending bits and \<open>hwClaim\<close> the claimed interrupt
  of each read. Once an interrupt is reported it stays the active one until it is acknowledged, whatever the hardware says; a handler
  capability is issued for an interrupt that had none; and an interrupt with a handler becomes exactly one signal.
\<close>

section \<open>The interrupt controller\<close>

definition irqInvalid :: word64 where "irqInvalid = 0"

definition IS_IRQ_VALID :: "word64 \<Rightarrow> kstate \<Rightarrow> bool" where
  "IS_IRQ_VALID irq s \<longleftrightarrow> irq \<le> pMaxIRQ (plat s) \<and> irq \<noteq> irqInvalid"

definition plic_get_claim :: "kstate \<Rightarrow> word64 \<times> kstate" where
  "plic_get_claim s = (hwClaim s (hwReads s), s\<lparr>hwReads := hwReads s + 1\<rparr>)"

definition plic_complete_claim :: "word64 \<Rightarrow> kstate \<Rightarrow> kstate" where
  "plic_complete_claim irq s = s\<lparr>hwClaimReg := irq\<rparr>"

definition getActiveIRQ :: "kstate \<Rightarrow> word64 \<times> kstate" where
  "getActiveIRQ s =
     (let irq = active_irq s
      in if IS_IRQ_VALID irq s then (irq, s)
         else let (sip, s) = read_sip s;
                  (irq, s) = (if bit sip SIP_SEIP then plic_get_claim s
                              else if bit sip SIP_STIP then (pKernelTimerIRQ (plat s), s)
                              else (irqInvalid, s))
              in if \<not> IS_IRQ_VALID irq s then (irqInvalid, s)
                 else (irq, s\<lparr>active_irq := irq\<rparr>))"

definition ackInterrupt :: "word64 \<Rightarrow> kstate \<Rightarrow> kstate" where
  "ackInterrupt irq s = s\<lparr>active_irq := irqInvalid\<rparr>"

definition isIRQActive :: "word64 \<Rightarrow> kstate \<Rightarrow> bool" where
  "isIRQActive irq s \<longleftrightarrow> intStateIRQTable s irq \<noteq> IRQInactive"

section \<open>Invocations\<close>

definition Arch_checkIRQ :: "word64 \<Rightarrow> kstate \<Rightarrow> syscall_error + unit" where
  "Arch_checkIRQ irq s =
     (if irq > pMaxIRQ (plat s) \<or> irq = irqInvalid then Inl (seL4_RangeError 1 (pMaxIRQ (plat s))) else Inr ())"

definition invokeIRQControl :: "word64 \<Rightarrow> ptr \<Rightarrow> ptr \<Rightarrow> kstate \<Rightarrow> kstate" where
  "invokeIRQControl irq handlerSlot controlSlot s =
     (let s = setIRQState IRQSignal irq s
      in cteInsert (IRQHandlerCap irq) controlSlot handlerSlot s)"

text \<open>Without \<^verbatim>\<open>HAVE_SET_TRIGGER\<close> the request to set a trigger is refused.\<close>

definition Arch_decodeIRQControlInvocation :: "invocation_label \<Rightarrow> word64 \<Rightarrow> kstate \<Rightarrow> kstate decode" where
  "Arch_decodeIRQControlInvocation invLabel len s =
     (if invLabel = RISCVIRQIssueIRQHandlerTrigger
      then if len < 4 \<or> excapref 0 s = NULL then err seL4_TruncatedMessage else err seL4_IllegalOperation
      else err seL4_IllegalOperation)"

definition decodeIRQControlInvocation :: "invocation_label \<Rightarrow> word64 \<Rightarrow> ptr \<Rightarrow> ptr \<Rightarrow> kstate \<Rightarrow> kstate decode" where
  "decodeIRQControlInvocation invLabel len srcSlot buffer s =
     (if invLabel = IRQIssueIRQHandler
      then if len < 3 \<or> excapref 0 s = NULL then err seL4_TruncatedMessage
           else let irq = getSyscallArg 0 buffer s;
                    index = getSyscallArg 1 buffer s;
                    depth = getSyscallArg 2 buffer s;
                    cnodeCap = cteCap (ctes s (excapref 0 s))
                in on_ok (check (Arch_checkIRQ irq s)) (\<lambda>_.
                   if isIRQActive irq s then err seL4_RevokeFirst
                   else on_ok (lookupTargetSlot cnodeCap index depth s) (\<lambda>destSlot.
                        on_ok (check (ensureEmptySlot destSlot s)) (\<lambda>_.
                        ok (invokeIRQControl irq destSlot srcSlot (setThreadState (ksCurThread s) ThreadState_Restart s)))))
      else Arch_decodeIRQControlInvocation invLabel len s)"

definition invokeIRQHandler_AckIRQ :: "word64 \<Rightarrow> kstate \<Rightarrow> kstate" where
  "invokeIRQHandler_AckIRQ irq s = plic_complete_claim irq s"

definition invokeIRQHandler_SetIRQHandler :: "word64 \<Rightarrow> cap \<Rightarrow> ptr \<Rightarrow> kstate \<Rightarrow> kstate option" where
  "invokeIRQHandler_SetIRQHandler irq cap slot s = do {
     let irqSlot = cte_at (intStateIRQNode s) irq;
     s \<leftarrow> cteDeleteOne irqSlot s;
     Some (cteInsert cap slot irqSlot s)
   }"

definition invokeIRQHandler_ClearIRQHandler :: "word64 \<Rightarrow> kstate \<Rightarrow> kstate option" where
  "invokeIRQHandler_ClearIRQHandler irq s = cteDeleteOne (cte_at (intStateIRQNode s) irq) s"

definition decodeIRQHandlerInvocation :: "invocation_label \<Rightarrow> word64 \<Rightarrow> kstate \<Rightarrow> kstate decode" where
  "decodeIRQHandlerInvocation invLabel irq s =
     (case invLabel of
        IRQAckIRQ \<Rightarrow> ok (invokeIRQHandler_AckIRQ irq (setThreadState (ksCurThread s) ThreadState_Restart s))
      | IRQSetIRQHandler \<Rightarrow>
          if excapref 0 s = NULL then err seL4_TruncatedMessage
          else let slot = excapref 0 s;
                   ntfnCap = cteCap (ctes s slot)
               in if \<not> is_NotificationCap ntfnCap \<or> \<not> capNtfnCanSend ntfnCap then err (seL4_InvalidCapability 0)
                  else perform (invokeIRQHandler_SetIRQHandler irq ntfnCap slot (setThreadState (ksCurThread s) ThreadState_Restart s))
      | IRQClearIRQHandler \<Rightarrow>
          perform (invokeIRQHandler_ClearIRQHandler irq (setThreadState (ksCurThread s) ThreadState_Restart s))
      | _ \<Rightarrow> err seL4_IllegalOperation)"

section \<open>Handling an interrupt\<close>

definition handleInterrupt :: "word64 \<Rightarrow> kstate \<Rightarrow> kstate option" where
  "handleInterrupt irq s =
     (if irq > pMaxIRQ (plat s) then Some (ackInterrupt irq (maskInterrupt True irq s))
      else do {
        s \<leftarrow> (case intStateIRQTable s irq of
               IRQSignal \<Rightarrow>
                 (case cteCap (ctes s (cte_at (intStateIRQNode s) irq)) of
                    NotificationCap badge canReceive canSend ntfnPtr \<Rightarrow> if canSend then sendSignal ntfnPtr badge s else Some s
                  | _ \<Rightarrow> Some s)
             | IRQTimer \<Rightarrow> Some (s\<lparr>ksReprogram := True\<rparr>)
             | IRQReserved \<Rightarrow> Some s
             | IRQInactive \<Rightarrow> Some (maskInterrupt True irq s));
        Some (ackInterrupt irq s)
      })"

definition checkInterrupt :: "kstate \<Rightarrow> kstate option" where
  "checkInterrupt s =
     (let (irq, s) = getActiveIRQ s
      in if irq \<noteq> irqInvalid then handleInterrupt irq s else Some s)"

section \<open>Properties\<close>

text \<open>
  C30. The interrupt that \<open>getActiveIRQ\<close> reports is valid or none, and a reported interrupt stays: any later call, in any state with
  the same active interrupt, gives the same one again and changes nothing, whatever the hardware answers; after the acknowledgement it is
  forgotten and the next call asks the hardware.
\<close>

theorem getActiveIRQ_stable:
  assumes "getActiveIRQ s = (irq, s1)" "irq \<noteq> irqInvalid"
  shows "IS_IRQ_VALID irq s \<and> active_irq s1 = irq
    \<and> (\<forall>s2. plat s2 = plat s \<longrightarrow> active_irq s2 = active_irq s1 \<longrightarrow> getActiveIRQ s2 = (irq, s2))
    \<and> \<not> IS_IRQ_VALID (active_irq (ackInterrupt irq s1)) s1"
proof -
  have "IS_IRQ_VALID irq s" "active_irq s1 = irq"
    using assms by (auto simp: getActiveIRQ_def IS_IRQ_VALID_def read_sip_def plic_get_claim_def Let_def split: if_splits)
  then show ?thesis by (auto simp: getActiveIRQ_def IS_IRQ_VALID_def ackInterrupt_def Let_def)
qed

lemma irq_cteInsert: "intStateIRQTable (cteInsert c src dest s) = intStateIRQTable s" "hwIRQMask (cteInsert c src dest s) = hwIRQMask s"
  by (simp_all add: cteInsert_def Let_def set_cteNext_def set_ctePrev_def upd_cte_def setUntypedCapAsFull_def split: cap.splits)

text \<open>
  C29. At most one handler capability is issued for an interrupt: an accepted request is for an interrupt in range that was inactive, makes
  it active and unmasked and puts the handler capability into the empty slot; while it stays active every further request for
  it is refused.
\<close>

theorem irq_handler_issued_once:
  assumes "decodeIRQControlInvocation IRQIssueIRQHandler len srcSlot buffer s = Some (Inr s')"
  defines "irq \<equiv> getSyscallArg 0 buffer s"
  shows "1 \<le> irq \<and> irq \<le> pMaxIRQ (plat s) \<and> \<not> isIRQActive irq s \<and> isIRQActive irq s' \<and> \<not> hwIRQMask s' irq
    \<and> (\<exists>slot. cteCap (ctes s slot) = NullCap \<and> cteCap (ctes s' slot) = IRQHandlerCap irq)
    \<and> (\<forall>len' src' buffer' s2. isIRQActive irq s2 \<longrightarrow> getSyscallArg 0 buffer' s2 = irq
         \<longrightarrow> (\<nexists>s3. decodeIRQControlInvocation IRQIssueIRQHandler len' src' buffer' s2 = Some (Inr s3)))"
proof -
  from assms(1) obtain dest where r: "irq \<le> pMaxIRQ (plat s)" "irq \<noteq> irqInvalid" "\<not> isIRQActive irq s" "cteCap (ctes s dest) = NullCap"
    and s': "s' = invokeIRQControl irq dest srcSlot (setThreadState (ksCurThread s) ThreadState_Restart s)"
    unfolding decodeIRQControlInvocation_def Let_def irq_def [symmetric]
    by (auto simp: Arch_checkIRQ_def ensureEmptySlot_def not_less split: if_splits elim!: on_ok_cases)
  have "1 \<le> irq" using r(2) by (simp add: irqInvalid_def word_le_nat_alt unat_gt_0 Suc_le_eq)
  moreover have "isIRQActive irq s' \<and> \<not> hwIRQMask s' irq"
    by (simp add: s' invokeIRQControl_def isIRQActive_def irq_cteInsert setIRQState_def maskInterrupt_def Let_def)
  moreover have "cteCap (ctes s' dest) = IRQHandlerCap irq" by (simp add: s' invokeIRQControl_def cteInsert_caps(2))
  moreover have "\<nexists>s3. decodeIRQControlInvocation IRQIssueIRQHandler len' src' buffer' s2 = Some (Inr s3)"
    if "isIRQActive irq s2" "getSyscallArg 0 buffer' s2 = irq" for len' src' buffer' s2
    using that by (auto simp: decodeIRQControlInvocation_def Let_def split: if_splits elim!: on_ok_cases)
  ultimately show ?thesis using r by blast
qed

section \<open>Examples\<close>

theorem getActiveIRQ_stable_witness:
  "\<exists>s1. getActiveIRQ (kstate0\<lparr>hwSIP := \<lambda>_. 0x20\<rparr>) = (127, s1) \<and> active_irq s1 = 127"
proof -
  have "getActiveIRQ (kstate0\<lparr>hwSIP := \<lambda>_. 0x20\<rparr>) = (127, kstate0\<lparr>hwSIP := \<lambda>_. 0x20, hwReads := 1, active_irq := 127\<rparr>)"
    by (simp add: getActiveIRQ_def IS_IRQ_VALID_def irqInvalid_def read_sip_def kstate0_def SIP_SEIP_def SIP_STIP_def Let_def)
  from this getActiveIRQ_stable [OF this] show ?thesis by (simp add: irqInvalid_def)
qed

text \<open>A request for the handler of interrupt 1, to be put into the second slot of a capability node.\<close>

definition example_irq :: kstate where
  "example_irq = kstate0
     \<lparr>ksCurThread := 1024, tcbs := (\<lambda>_. tcb0)(1024 := tcb0\<lparr>tcbContext := (\<lambda>_. 1)\<rparr>),
      ctes := (\<lambda>_. nullMDBNode NullCap)(64 := nullMDBNode (CNodeCap 1 0 0 4096)), current_extra_caps := (\<lambda>_. NULL)(0 := 64)\<rparr>"

theorem irq_handler_issued_once_witness:
  "\<exists>s'. decodeIRQControlInvocation IRQIssueIRQHandler 3 32 0 example_irq = Some (Inr s') \<and> isIRQActive 1 s'"
proof -
  note d = example_irq_def kstate0_def nullMDBNode_def
  have a: "getSyscallArg i 0 example_irq = 1" if "i < 3" for i
  proof -
    have "i < n_msgRegisters" using that by (simp add: n_msgRegisters_def word_less_nat_alt)
    then show ?thesis by (simp add: d getSyscallArg_def getRegister_def)
  qed
  have m: "MASK 0 = 0" "MASK 1 = 1" "MASK 6 = 0x3f" by (simp_all add: MASK_def BIT_def)
  have l: "lookupTargetSlot (CNodeCap 1 0 0 4096) 1 1 example_irq = Some (Inr 4128)"
    using m by (simp add: lookupTargetSlot_def lookupSlotForCNodeOp_def resolveAddressBits_def resolve_loop.simps cnode_step_def
        cte_at_def sizeof_cte_def drop_bit_eq_div)
  have x: "excapref 0 example_irq = 64" "cteCap (ctes example_irq 64) = CNodeCap 1 0 0 4096" "cteCap (ctes example_irq 4128) = NullCap"
    "Arch_checkIRQ 1 example_irq = Inr ()" "\<not> isIRQActive 1 example_irq"
    by (simp_all add: d excapref_def Arch_checkIRQ_def irqInvalid_def isIRQActive_def)
  obtain s' where s': "decodeIRQControlInvocation IRQIssueIRQHandler 3 32 0 example_irq = Some (Inr s')"
    by (simp add: decodeIRQControlInvocation_def a x l ensureEmptySlot_def ok_def)
  then show ?thesis using irq_handler_issued_once [OF s'] a by auto
qed

end
