(* ===== verification/TcbInv.thy ===== *)
theory TcbInv
  imports Finalise
begin

text \<open>
  Invocations of thread capabilities, the second half of \<^verbatim>\<open>src/kernel/object/tcb.c\<close>: decoding, and the operations that
  configure, suspend, resume, read and write a thread. The architecture's transfer of extra registers does nothing on RISC-V.

  A thread's priority and maximum priority never rise above the maximum of the thread whose capability is
  presented as the authority, and the registers that one invocation writes are the ones that another reads.
\<close>

section \<open>Simple operations\<close>

definition seL4_MinPrio :: word64 where "seL4_MinPrio = 0"
definition NULL_PRIO :: word64 where "NULL_PRIO = 0"
definition seL4_TCBFlag_MASK :: word64 where "seL4_TCBFlag_MASK = 0"

definition checkPrio :: "word64 \<Rightarrow> ptr \<Rightarrow> kstate \<Rightarrow> syscall_error + unit" where
  "checkPrio prio auth s =
     (let mcp = tcbMCP (tcbs s auth)
      in if prio > mcp then Inl (seL4_RangeError seL4_MinPrio mcp) else Inr ())"

definition invokeSetTLSBase :: "ptr \<Rightarrow> word64 \<Rightarrow> kstate \<Rightarrow> kstate" where
  "invokeSetTLSBase thread tls_base s =
     (let s = setRegister thread TLS_BASE tls_base s
      in if thread = ksCurThread s then rescheduleRequired s else s)"

definition decodeSetTLSBase :: "cap \<Rightarrow> word64 \<Rightarrow> ptr \<Rightarrow> kstate \<Rightarrow> kstate decode" where
  "decodeSetTLSBase cap len buffer s =
     (if len < 1 then err seL4_TruncatedMessage
      else let tls_base = getSyscallArg 0 buffer s
           in ok (invokeSetTLSBase (capTCBPtr cap) tls_base (setThreadState (ksCurThread s) ThreadState_Restart s)))"

definition invokeSetFlags :: "ptr \<Rightarrow> word64 \<Rightarrow> word64 \<Rightarrow> bool \<Rightarrow> kstate \<Rightarrow> kstate" where
  "invokeSetFlags thread clr st call s =
     (let cur_thread = ksCurThread s;
          flags = tcbFlags (tcbs s thread) AND NOT clr OR st AND seL4_TCBFlag_MASK;
          s = upd_tcb thread (tcbFlags_update (\<lambda>_. flags)) s;
          s = (if call
               then let ipcBuffer = lookupIPCBuffer True cur_thread s;
                        s = setRegister cur_thread badgeRegister 0 s;
                        (len, s) = setMR cur_thread ipcBuffer 0 flags s
                    in setRegister cur_thread msgInfoRegister
                         (wordFromMessageInfo (seL4_MessageInfo_new 0 0 0 (ucast len))) s
               else s)
      in setThreadState cur_thread ThreadState_Running s)"

definition decodeSetFlags :: "cap \<Rightarrow> word64 \<Rightarrow> bool \<Rightarrow> ptr \<Rightarrow> kstate \<Rightarrow> kstate decode" where
  "decodeSetFlags cap len call buffer s =
     (let thread = capTCBPtr cap
      in if len < 2 then err seL4_TruncatedMessage
         else let clr = getSyscallArg 0 buffer s;
                  st = getSyscallArg 1 buffer s
              in ok (invokeSetFlags thread clr st call (setThreadState (ksCurThread s) ThreadState_Restart s)))"

definition invokeTCB_Suspend :: "ptr \<Rightarrow> kstate \<Rightarrow> kstate" where
  "invokeTCB_Suspend thread s = suspend thread s"

definition invokeTCB_Resume :: "ptr \<Rightarrow> kstate \<Rightarrow> kstate option" where
  "invokeTCB_Resume thread s = restart thread s"

definition invokeTCB_NotificationControl :: "ptr \<Rightarrow> ptr \<Rightarrow> kstate \<Rightarrow> kstate" where
  "invokeTCB_NotificationControl tcb ntfnPtr s =
     (if ntfnPtr \<noteq> NULL then bindNotification tcb ntfnPtr s else unbindNotification tcb s)"

definition decodeBindNotification :: "cap \<Rightarrow> kstate \<Rightarrow> kstate decode" where
  "decodeBindNotification cap s =
     (if excapref 0 s = NULL then err seL4_TruncatedMessage
      else let tcb = capTCBPtr cap
           in if tcbBoundNotification (tcbs s tcb) \<noteq> NULL then err seL4_IllegalOperation
              else case cteCap (ctes s (excapref 0 s)) of
                NotificationCap badge canReceive canSend ntfnPtr \<Rightarrow>
                  if \<not> canReceive then err seL4_IllegalOperation
                  else if ntfnQueue_head (ntfns s ntfnPtr) \<noteq> NULL \<or> ntfnBoundTCB (ntfns s ntfnPtr) \<noteq> NULL
                  then err seL4_IllegalOperation
                  else ok (invokeTCB_NotificationControl tcb ntfnPtr (setThreadState (ksCurThread s) ThreadState_Restart s))
              | _ \<Rightarrow> err seL4_IllegalOperation)"

definition decodeUnbindNotification :: "cap \<Rightarrow> kstate \<Rightarrow> kstate decode" where
  "decodeUnbindNotification cap s =
     (let tcb = capTCBPtr cap
      in if tcbBoundNotification (tcbs s tcb) = NULL then err seL4_IllegalOperation
         else ok (invokeTCB_NotificationControl tcb NULL (setThreadState (ksCurThread s) ThreadState_Restart s)))"

section \<open>Registers\<close>

text \<open>The loops copy the registers at the positions of \<^verbatim>\<open>frameRegisters\<close> and \<^verbatim>\<open>gpRegisters\<close>.\<close>

abbreviation (input) n_frameRegisters :: nat where "n_frameRegisters \<equiv> length frameRegisters"
abbreviation (input) n_gpRegisters :: nat where "n_gpRegisters \<equiv> length gpRegisters"

definition copy_registers :: "ptr \<Rightarrow> ptr \<Rightarrow> reg list \<Rightarrow> kstate \<Rightarrow> kstate" where
  "copy_registers src dest = fold (\<lambda>r s. setRegister dest r (getRegister src r s) s)"

definition invokeTCB_CopyRegisters :: "ptr \<Rightarrow> ptr \<Rightarrow> bool \<Rightarrow> bool \<Rightarrow> bool \<Rightarrow> bool \<Rightarrow> kstate \<Rightarrow> kstate option" where
  "invokeTCB_CopyRegisters dest tcb_src suspendSource resumeTarget transferFrame transferInteger s = do {
     let s = (if suspendSource then suspend tcb_src s else s);
     s \<leftarrow> (if resumeTarget then restart dest s else Some s);
     let s = (if transferFrame
              then let s = copy_registers tcb_src dest frameRegisters s;
                       pc = getRestartPC dest s
                   in setNextPC dest pc s
              else s);
     let s = (if transferInteger then copy_registers tcb_src dest gpRegisters s else s);
     Some (if dest = ksCurThread s then rescheduleRequired s else s)
   }"

definition decodeCopyRegisters :: "cap \<Rightarrow> word64 \<Rightarrow> ptr \<Rightarrow> kstate \<Rightarrow> kstate decode" where
  "decodeCopyRegisters cap len buffer s =
     (if len < 1 \<or> excapref 0 s = NULL then err seL4_TruncatedMessage
      else let flags = getSyscallArg 0 buffer s
           in case cteCap (ctes s (excapref 0 s)) of
                ThreadCap srcTCB \<Rightarrow>
                  perform (invokeTCB_CopyRegisters (capTCBPtr cap) srcTCB (bit flags 0) (bit flags 1) (bit flags 2) (bit flags 3)
                    (setThreadState (ksCurThread s) ThreadState_Restart s))
              | _ \<Rightarrow> err (seL4_InvalidCapability 1))"

text \<open>
  \<open>read_regs\<close> sends the registers at positions \<open>i, ..., m - 1\<close> of a list, as message words \<open>off + i, ...\<close>, through the
  message registers; \<open>read_buf\<close> does it through the IPC buffer.
\<close>

definition read_regs :: "ptr \<Rightarrow> ptr \<Rightarrow> reg list \<Rightarrow> nat \<Rightarrow> nat \<Rightarrow> nat \<Rightarrow> kstate \<Rightarrow> kstate" where
  "read_regs thread tcb_src regs off i m =
     fold (\<lambda>j s. setRegister thread (msgRegisters ! (j + off)) (getRegister tcb_src (regs ! j) s) s) [i..<m]"

definition read_buf :: "ptr \<Rightarrow> ptr \<Rightarrow> reg list \<Rightarrow> nat \<Rightarrow> nat \<Rightarrow> nat \<Rightarrow> kstate \<Rightarrow> kstate" where
  "read_buf ipcBuffer tcb_src regs off i m =
     fold (\<lambda>j s. store ipcBuffer (of_nat (j + off + 1)) (getRegister tcb_src (regs ! j) s) s) [i..<m]"

definition invokeTCB_ReadRegisters :: "ptr \<Rightarrow> bool \<Rightarrow> word64 \<Rightarrow> bool \<Rightarrow> kstate \<Rightarrow> kstate" where
  "invokeTCB_ReadRegisters tcb_src suspendSource n call s =
     (let thread = ksCurThread s;
          s = (if suspendSource then suspend tcb_src s else s);
          s = (if call
               then let ipcBuffer = lookupIPCBuffer True thread s;
                        s = setRegister thread badgeRegister 0 s;
                        n = unat n;
                        i = min n (min n_frameRegisters (unat n_msgRegisters));
                        s = read_regs thread tcb_src frameRegisters 0 0 i s;
                        j = (if ipcBuffer \<noteq> NULL \<and> i < n \<and> i < n_frameRegisters then min n n_frameRegisters else i);
                        s = read_buf ipcBuffer tcb_src frameRegisters 0 i j s;
                        i = min n_gpRegisters (min (n - n_frameRegisters) (unat n_msgRegisters - n_frameRegisters));
                        s = read_regs thread tcb_src gpRegisters n_frameRegisters 0 i s;
                        k = (if ipcBuffer \<noteq> NULL \<and> i < n_gpRegisters \<and> i + n_frameRegisters < n
                             then min n_gpRegisters (n - n_frameRegisters) else i);
                        s = read_buf ipcBuffer tcb_src gpRegisters n_frameRegisters i k s
                    in setRegister thread msgInfoRegister
                         (wordFromMessageInfo (seL4_MessageInfo_new 0 0 0 (of_nat (k + j)))) s
               else s)
      in setThreadState thread ThreadState_Running s)"

definition decodeReadRegisters :: "cap \<Rightarrow> word64 \<Rightarrow> bool \<Rightarrow> ptr \<Rightarrow> kstate \<Rightarrow> kstate decode" where
  "decodeReadRegisters cap len call buffer s =
     (if len < 2 then err seL4_TruncatedMessage
      else let flags = getSyscallArg 0 buffer s;
               n = getSyscallArg 1 buffer s;
               n_regs = of_nat (n_frameRegisters + n_gpRegisters)
           in if n < 1 \<or> n > n_regs then err (seL4_RangeError 1 n_regs)
              else let thread = capTCBPtr cap
                   in if thread = ksCurThread s then err seL4_IllegalOperation
                      else ok (invokeTCB_ReadRegisters thread (bit flags 0) n call
                                 (setThreadState (ksCurThread s) ThreadState_Restart s)))"

definition write_regs :: "ptr \<Rightarrow> reg list \<Rightarrow> nat \<Rightarrow> nat \<Rightarrow> bool \<Rightarrow> ptr \<Rightarrow> kstate \<Rightarrow> kstate" where
  "write_regs dest regs off m archInfo buffer =
     fold (\<lambda>i s. setRegister dest (regs ! i)
       (sanitiseRegister (regs ! i) (getSyscallArg (of_nat (i + off + 2)) buffer s) archInfo) s) [0..<m]"

definition invokeTCB_WriteRegisters :: "ptr \<Rightarrow> bool \<Rightarrow> word64 \<Rightarrow> ptr \<Rightarrow> kstate \<Rightarrow> kstate option" where
  "invokeTCB_WriteRegisters dest resumeTarget n buffer s = do {
     let n = (if n > of_nat (n_frameRegisters + n_gpRegisters) then n_frameRegisters + n_gpRegisters else unat n);
     let archInfo = Arch_getSanitiseRegisterInfo dest;
     let s = write_regs dest frameRegisters 0 (min n_frameRegisters n) archInfo buffer s;
     let s = write_regs dest gpRegisters n_frameRegisters (min n_gpRegisters (n - n_frameRegisters)) archInfo buffer s;
     let pc = getRestartPC dest s;
     let s = setNextPC dest pc s;
     s \<leftarrow> (if resumeTarget then restart dest s else Some s);
     Some (if dest = ksCurThread s then rescheduleRequired s else s)
   }"

definition decodeWriteRegisters :: "cap \<Rightarrow> word64 \<Rightarrow> ptr \<Rightarrow> kstate \<Rightarrow> kstate decode" where
  "decodeWriteRegisters cap len buffer s =
     (if len < 2 then err seL4_TruncatedMessage
      else let flags = getSyscallArg 0 buffer s;
               w = getSyscallArg 1 buffer s
           in if len - 2 < w then err seL4_TruncatedMessage
              else let thread = capTCBPtr cap
                   in if thread = ksCurThread s then err seL4_IllegalOperation
                      else perform (invokeTCB_WriteRegisters thread (bit flags 0) w buffer
                                      (setThreadState (ksCurThread s) ThreadState_Restart s)))"

section \<open>Configuring a thread\<close>

definition thread_control_caps_update_ipc_buffer :: word64 where "thread_control_caps_update_ipc_buffer = 1"
definition thread_control_caps_update_space :: word64 where "thread_control_caps_update_space = 2"
definition thread_control_caps_update_fault :: word64 where "thread_control_caps_update_fault = 4"
definition thread_control_caps_update_timeout :: word64 where "thread_control_caps_update_timeout = 8"

definition thread_control_sched_update_priority :: word64 where "thread_control_sched_update_priority = 1"
definition thread_control_sched_update_mcp :: word64 where "thread_control_sched_update_mcp = 2"
definition thread_control_sched_update_sc :: word64 where "thread_control_sched_update_sc = 4"
definition thread_control_sched_update_fault :: word64 where "thread_control_sched_update_fault = 8"

lemmas thread_control_flags = thread_control_caps_update_ipc_buffer_def thread_control_caps_update_space_def
  thread_control_caps_update_fault_def thread_control_caps_update_timeout_def thread_control_sched_update_priority_def
  thread_control_sched_update_mcp_def thread_control_sched_update_sc_def thread_control_sched_update_fault_def

fun validFaultHandler :: "cap \<Rightarrow> bool" where
  "validFaultHandler (EndpointCap badge canGrantReply canGrant canSend canReceive ep) \<longleftrightarrow>
     canSend \<and> (canGrant \<or> canGrantReply)"
| "validFaultHandler NullCap \<longleftrightarrow> True"
| "validFaultHandler _ \<longleftrightarrow> False"

definition installTCBCap :: "ptr \<Rightarrow> cap \<Rightarrow> ptr \<Rightarrow> word64 \<Rightarrow> cap \<Rightarrow> ptr \<Rightarrow> kstate \<Rightarrow> pstate option" where
  "installTCBCap target tCap slot index newCap srcSlot s = do {
     let rootSlot = TCB_PTR_CTE_PTR target index;
     (e, s) \<leftarrow> cteDelete rootSlot True s;
     if e \<noteq> EXCEPTION_NONE then Some (e, s)
     else Some (e,
       if newCap \<noteq> NullCap \<and> sameObjectAs newCap (cteCap (ctes s srcSlot)) \<and> sameObjectAs tCap (cteCap (ctes s slot))
       then cteInsert newCap srcSlot rootSlot s else s)
   }"

text \<open>Continue after a step that may have been preempted.\<close>

definition if_none :: "pstate option \<Rightarrow> (kstate \<Rightarrow> pstate option) \<Rightarrow> pstate option" where
  "if_none r f = do { (e, s) \<leftarrow> r; if e \<noteq> EXCEPTION_NONE then Some (e, s) else f s }"

text \<open>The part of \<open>invokeTCB_ThreadControlCaps\<close> that replaces the IPC buffer.\<close>

definition update_ipc_buffer :: "ptr \<Rightarrow> cap \<Rightarrow> ptr \<Rightarrow> word64 \<Rightarrow> cap \<Rightarrow> ptr \<Rightarrow> kstate \<Rightarrow> pstate option" where
  "update_ipc_buffer target tCap slot bufferAddr bufferCap bufferSrcSlot s =
     (let bufferSlot = TCB_PTR_CTE_PTR target tcbBuffer
      in if_none (cteDelete bufferSlot True s) (\<lambda>s.
           let s = upd_tcb target (tcbIPCBuffer_update (\<lambda>_. bufferAddr)) s;
               s = (if bufferSrcSlot \<noteq> NULL \<and> sameObjectAs bufferCap (cteCap (ctes s bufferSrcSlot))
                       \<and> sameObjectAs tCap (cteCap (ctes s slot))
                    then cteInsert bufferCap bufferSrcSlot bufferSlot s else s)
           in Some (EXCEPTION_NONE, if target = ksCurThread s then rescheduleRequired s else s)))"

definition invokeTCB_ThreadControlCaps ::
  "ptr \<Rightarrow> ptr \<Rightarrow> cap \<Rightarrow> ptr \<Rightarrow> cap \<Rightarrow> ptr \<Rightarrow> cap \<Rightarrow> ptr \<Rightarrow> cap \<Rightarrow> ptr \<Rightarrow> word64 \<Rightarrow> cap \<Rightarrow> ptr \<Rightarrow> word64
    \<Rightarrow> kstate \<Rightarrow> pstate option" where
  "invokeTCB_ThreadControlCaps target slot fh_newCap fh_srcSlot th_newCap th_srcSlot cRoot_newCap cRoot_srcSlot
     vRoot_newCap vRoot_srcSlot bufferAddr bufferCap bufferSrcSlot updateFlags s =
     (let tCap = ThreadCap target
      in if_none (if updateFlags AND thread_control_caps_update_fault \<noteq> 0
                  then installTCBCap target tCap slot tcbFaultHandler fh_newCap fh_srcSlot s
                  else Some (EXCEPTION_NONE, s)) (\<lambda>s.
         if_none (if updateFlags AND thread_control_caps_update_timeout \<noteq> 0
                  then installTCBCap target tCap slot tcbTimeoutHandler th_newCap th_srcSlot s
                  else Some (EXCEPTION_NONE, s)) (\<lambda>s.
         if_none (if updateFlags AND thread_control_caps_update_space \<noteq> 0
                  then if_none (installTCBCap target tCap slot tcbCTable cRoot_newCap cRoot_srcSlot s) (\<lambda>s.
                       installTCBCap target tCap slot tcbVTable vRoot_newCap vRoot_srcSlot s)
                  else Some (EXCEPTION_NONE, s)) (\<lambda>s.
         if updateFlags AND thread_control_caps_update_ipc_buffer \<noteq> 0
         then update_ipc_buffer target tCap slot bufferAddr bufferCap bufferSrcSlot s
         else Some (EXCEPTION_NONE, s)))))"

definition invokeTCB_ThreadControlSched ::
  "ptr \<Rightarrow> ptr \<Rightarrow> cap \<Rightarrow> ptr \<Rightarrow> word64 \<Rightarrow> word64 \<Rightarrow> ptr \<Rightarrow> word64 \<Rightarrow> kstate \<Rightarrow> pstate option" where
  "invokeTCB_ThreadControlSched target slot fh_newCap fh_srcSlot mcp priority sc updateFlags s =
     if_none (if updateFlags AND thread_control_sched_update_fault \<noteq> 0
              then installTCBCap target (ThreadCap target) slot tcbFaultHandler fh_newCap fh_srcSlot s
              else Some (EXCEPTION_NONE, s)) (\<lambda>s. do {
       let s = (if updateFlags AND thread_control_sched_update_mcp \<noteq> 0 then setMCPriority target mcp s else s);
       s \<leftarrow> (if updateFlags AND thread_control_sched_update_priority \<noteq> 0 then setPriority target priority s else Some s);
       s \<leftarrow> (if updateFlags AND thread_control_sched_update_sc \<noteq> 0
            then if sc \<noteq> NULL then schedContext_bindTCB sc target s
                 else Some (schedContext_unbindTCB (tcbSchedContext (tcbs s target)) s)
            else Some s);
       Some (EXCEPTION_NONE, s)
     })"

section \<open>Decoding\<close>

definition decodeSetPriority :: "cap \<Rightarrow> word64 \<Rightarrow> ptr \<Rightarrow> kstate \<Rightarrow> pstate decode" where
  "decodeSetPriority cap len buffer s =
     (if len < 1 \<or> excapref 0 s = NULL then err seL4_TruncatedMessage
      else let newPrio = getSyscallArg 0 buffer s
           in case cteCap (ctes s (excapref 0 s)) of
                ThreadCap authTCB \<Rightarrow>
                  on_ok (check (checkPrio newPrio authTCB s)) (\<lambda>_.
                  perform (invokeTCB_ThreadControlSched (capTCBPtr cap) NULL NullCap NULL NULL_PRIO newPrio NULL
                    thread_control_sched_update_priority (setThreadState (ksCurThread s) ThreadState_Restart s)))
              | _ \<Rightarrow> err (seL4_InvalidCapability 1))"

definition decodeSetMCPriority :: "cap \<Rightarrow> word64 \<Rightarrow> ptr \<Rightarrow> kstate \<Rightarrow> pstate decode" where
  "decodeSetMCPriority cap len buffer s =
     (if len < 1 \<or> excapref 0 s = NULL then err seL4_TruncatedMessage
      else let newMcp = getSyscallArg 0 buffer s
           in case cteCap (ctes s (excapref 0 s)) of
                ThreadCap authTCB \<Rightarrow>
                  on_ok (check (checkPrio newMcp authTCB s)) (\<lambda>_.
                  perform (invokeTCB_ThreadControlSched (capTCBPtr cap) NULL NullCap NULL newMcp NULL_PRIO NULL
                    thread_control_sched_update_mcp (setThreadState (ksCurThread s) ThreadState_Restart s)))
              | _ \<Rightarrow> err (seL4_InvalidCapability 1))"

definition decodeSetTimeoutEndpoint :: "cap \<Rightarrow> ptr \<Rightarrow> kstate \<Rightarrow> pstate decode" where
  "decodeSetTimeoutEndpoint cap slot s =
     (if excapref 0 s = NULL then err seL4_TruncatedMessage
      else let thSlot = excapref 0 s;
               thCap = cteCap (ctes s thSlot)
           in if \<not> validFaultHandler thCap then err (seL4_InvalidCapability 1)
              else perform (invokeTCB_ThreadControlCaps (capTCBPtr cap) slot NullCap NULL thCap thSlot NullCap NULL
                     NullCap NULL 0 NullCap NULL thread_control_caps_update_timeout
                     (setThreadState (ksCurThread s) ThreadState_Restart s)))"

text \<open>The scheduling context that the second extra capability of \<open>decodeSetSchedParams\<close> names.\<close>

definition sched_params_sc :: "ptr \<Rightarrow> cap \<Rightarrow> kstate \<Rightarrow> ptr decode" where
  "sched_params_sc tcb scCap s =
     (case scCap of
        SchedContextCap sc sizeBits \<Rightarrow>
          if tcbSchedContext (tcbs s tcb) \<noteq> sc \<and> (tcbSchedContext (tcbs s tcb) \<noteq> NULL \<or> scTcb (scs s sc) \<noteq> NULL)
          then err seL4_IllegalOperation
          else if isBlocked tcb s \<and> \<not> sc_released sc s then err seL4_IllegalOperation
          else ok sc
      | NullCap \<Rightarrow> if tcb = ksCurThread s then err seL4_IllegalOperation else ok NULL
      | _ \<Rightarrow> err (seL4_InvalidCapability 2))"

definition decodeSetSchedParams :: "cap \<Rightarrow> word64 \<Rightarrow> ptr \<Rightarrow> ptr \<Rightarrow> kstate \<Rightarrow> pstate decode" where
  "decodeSetSchedParams cap len slot buffer s =
     (if len < 2 \<or> excapref 0 s = NULL \<or> excapref 1 s = NULL \<or> excapref 2 s = NULL then err seL4_TruncatedMessage
      else let newMcp = getSyscallArg 0 buffer s;
               newPrio = getSyscallArg 1 buffer s;
               scCap = cteCap (ctes s (excapref 1 s));
               fhSlot = excapref 2 s;
               fhCap = cteCap (ctes s fhSlot);
               tcb = capTCBPtr cap
           in case cteCap (ctes s (excapref 0 s)) of
                ThreadCap authTCB \<Rightarrow>
                  on_ok (check (checkPrio newMcp authTCB s)) (\<lambda>_.
                  on_ok (check (checkPrio newPrio authTCB s)) (\<lambda>_.
                  on_ok (sched_params_sc tcb scCap s) (\<lambda>sc.
                  let update_flags = thread_control_sched_update_mcp OR thread_control_sched_update_priority
                        OR thread_control_sched_update_fault;
                      update_flags = (if tcbSchedContext (tcbs s tcb) \<noteq> sc then update_flags OR thread_control_sched_update_sc
                        else update_flags)
                  in if \<not> validFaultHandler fhCap then err (seL4_InvalidCapability 3)
                     else perform (invokeTCB_ThreadControlSched tcb slot fhCap fhSlot newMcp newPrio sc update_flags
                            (setThreadState (ksCurThread s) ThreadState_Restart s)))))
              | _ \<Rightarrow> err (seL4_InvalidCapability 1))"

text \<open>The buffer capability that a thread may be given for its address: derived and checked, or none.\<close>

definition decode_buffer :: "word64 \<Rightarrow> ptr \<Rightarrow> kstate \<Rightarrow> (cap \<times> ptr) decode" where
  "decode_buffer bufferAddr bufferSlot s =
     (let bufferCap = cteCap (ctes s bufferSlot)
      in if bufferAddr = 0 then ok (bufferCap, NULL)
         else on_ok (check (deriveCap bufferSlot bufferCap s)) (\<lambda>bufferCap.
              on_ok (check (checkValidIPCBuffer bufferAddr bufferCap)) (\<lambda>_.
              ok (bufferCap, bufferSlot))))"

text \<open>The checks on the new roots that \<open>decodeTCBConfigure\<close> and \<open>decodeSetSpace\<close> share.\<close>

definition decode_roots :: "ptr \<Rightarrow> word64 \<Rightarrow> ptr \<Rightarrow> word64 \<Rightarrow> ptr \<Rightarrow> kstate \<Rightarrow> (cap \<times> cap) decode" where
  "decode_roots tcb cRootData cRootSlot vRootData vRootSlot s =
     (let cRootCap = cteCap (ctes s cRootSlot);
          vRootCap = cteCap (ctes s vRootSlot)
      in if slotCapLongRunningDelete (TCB_PTR_CTE_PTR tcb tcbCTable) s \<or> slotCapLongRunningDelete (TCB_PTR_CTE_PTR tcb tcbVTable) s
         then err seL4_IllegalOperation
         else let cRootCap = (if cRootData \<noteq> 0 then updateCapData False cRootData cRootCap else cRootCap)
              in on_ok (check (deriveCap cRootSlot cRootCap s)) (\<lambda>cRootCap.
                 if \<not> is_CNodeCap cRootCap then err seL4_IllegalOperation
                 else let vRootCap = (if vRootData \<noteq> 0 then updateCapData False vRootData vRootCap else vRootCap)
                      in on_ok (check (deriveCap vRootSlot vRootCap s)) (\<lambda>vRootCap.
                         if \<not> isValidVTableRoot vRootCap then err seL4_IllegalOperation
                         else ok (cRootCap, vRootCap))))"

definition decodeTCBConfigure :: "cap \<Rightarrow> word64 \<Rightarrow> ptr \<Rightarrow> ptr \<Rightarrow> kstate \<Rightarrow> pstate decode" where
  "decodeTCBConfigure cap len slot buffer s =
     (if len < 3 \<or> excapref 0 s = NULL \<or> excapref 1 s = NULL \<or> excapref 2 s = NULL then err seL4_TruncatedMessage
      else let cRootData = getSyscallArg 0 buffer s;
               vRootData = getSyscallArg 1 buffer s;
               bufferAddr = getSyscallArg 2 buffer s;
               cRootSlot = excapref 0 s;
               vRootSlot = excapref 1 s
           in on_ok (decode_buffer bufferAddr (excapref 2 s) s) (\<lambda>(bufferCap, bufferSlot).
              on_ok (decode_roots (capTCBPtr cap) cRootData cRootSlot vRootData vRootSlot s) (\<lambda>(cRootCap, vRootCap).
              perform (invokeTCB_ThreadControlCaps (capTCBPtr cap) slot NullCap NULL NullCap NULL cRootCap cRootSlot
                vRootCap vRootSlot bufferAddr bufferCap bufferSlot
                (thread_control_caps_update_space OR thread_control_caps_update_ipc_buffer)
                (setThreadState (ksCurThread s) ThreadState_Restart s)))))"

definition decodeSetIPCBuffer :: "cap \<Rightarrow> word64 \<Rightarrow> ptr \<Rightarrow> ptr \<Rightarrow> kstate \<Rightarrow> pstate decode" where
  "decodeSetIPCBuffer cap len slot buffer s =
     (if len < 1 \<or> excapref 0 s = NULL then err seL4_TruncatedMessage
      else let cptr_bufferPtr = getSyscallArg 0 buffer s
           in on_ok (decode_buffer cptr_bufferPtr (excapref 0 s) s) (\<lambda>(bufferCap, bufferSlot).
              perform (invokeTCB_ThreadControlCaps (capTCBPtr cap) slot NullCap NULL NullCap NULL NullCap NULL NullCap NULL
                cptr_bufferPtr bufferCap bufferSlot thread_control_caps_update_ipc_buffer
                (setThreadState (ksCurThread s) ThreadState_Restart s))))"

definition decodeSetSpace :: "cap \<Rightarrow> word64 \<Rightarrow> ptr \<Rightarrow> ptr \<Rightarrow> kstate \<Rightarrow> pstate decode" where
  "decodeSetSpace cap len slot buffer s =
     (if len < 2 \<or> excapref 0 s = NULL \<or> excapref 1 s = NULL \<or> excapref 2 s = NULL then err seL4_TruncatedMessage
      else let cRootData = getSyscallArg 0 buffer s;
               vRootData = getSyscallArg 1 buffer s;
               fhSlot = excapref 0 s;
               fhCap = cteCap (ctes s fhSlot);
               cRootSlot = excapref 1 s;
               vRootSlot = excapref 2 s
           in on_ok (decode_roots (capTCBPtr cap) cRootData cRootSlot vRootData vRootSlot s) (\<lambda>(cRootCap, vRootCap).
              if \<not> validFaultHandler fhCap then err (seL4_InvalidCapability 1)
              else perform (invokeTCB_ThreadControlCaps (capTCBPtr cap) slot fhCap fhSlot NullCap NULL cRootCap cRootSlot
                     vRootCap vRootSlot 0 NullCap NULL
                     (thread_control_caps_update_space OR thread_control_caps_update_fault)
                     (setThreadState (ksCurThread s) ThreadState_Restart s))))"

text \<open>An invocation that is never preempted, as the result of one that may be.\<close>

definition atomic :: "kstate decode \<Rightarrow> pstate decode" where
  "atomic r = on_ok r (\<lambda>s. ok (EXCEPTION_NONE, s))"

definition decodeTCBInvocation :: "invocation_label \<Rightarrow> word64 \<Rightarrow> cap \<Rightarrow> ptr \<Rightarrow> bool \<Rightarrow> ptr \<Rightarrow> kstate \<Rightarrow> pstate decode" where
  "decodeTCBInvocation invLabel len cap slot call buffer s =
     (case invLabel of
        TCBReadRegisters \<Rightarrow> atomic (decodeReadRegisters cap len call buffer s)
      | TCBWriteRegisters \<Rightarrow> atomic (decodeWriteRegisters cap len buffer s)
      | TCBCopyRegisters \<Rightarrow> atomic (decodeCopyRegisters cap len buffer s)
      | TCBSuspend \<Rightarrow> atomic (ok (invokeTCB_Suspend (capTCBPtr cap) (setThreadState (ksCurThread s) ThreadState_Restart s)))
      | TCBResume \<Rightarrow> atomic (perform (invokeTCB_Resume (capTCBPtr cap) (setThreadState (ksCurThread s) ThreadState_Restart s)))
      | TCBConfigure \<Rightarrow> decodeTCBConfigure cap len slot buffer s
      | TCBSetPriority \<Rightarrow> decodeSetPriority cap len buffer s
      | TCBSetMCPriority \<Rightarrow> decodeSetMCPriority cap len buffer s
      | TCBSetSchedParams \<Rightarrow> decodeSetSchedParams cap len slot buffer s
      | TCBSetIPCBuffer \<Rightarrow> decodeSetIPCBuffer cap len slot buffer s
      | TCBSetSpace \<Rightarrow> decodeSetSpace cap len slot buffer s
      | TCBBindNotification \<Rightarrow> atomic (decodeBindNotification cap s)
      | TCBUnbindNotification \<Rightarrow> atomic (decodeUnbindNotification cap s)
      | TCBSetTimeoutEndpoint \<Rightarrow> decodeSetTimeoutEndpoint cap slot s
      | TCBSetTLSBase \<Rightarrow> atomic (decodeSetTLSBase cap len buffer s)
      | TCBSetFlags \<Rightarrow> atomic (decodeSetFlags cap len call buffer s)
      | _ \<Rightarrow> err seL4_IllegalOperation)"

section \<open>Reading back the registers that were written\<close>

text \<open>All registers that the two lists name, in the order of a message.\<close>

definition user_registers :: "reg list" where
  "user_registers = frameRegisters @ gpRegisters"

lemma user_registers_facts:
  "distinct user_registers" "length user_registers = 32" "NextIP \<notin> set user_registers" "length frameRegisters = 16" "length gpRegisters = 16"
  by (simp_all add: user_registers_def frameRegisters_def gpRegisters_def FaultIP_def NextIP_def)

lemma user_registers_nth:
  "i < 16 \<Longrightarrow> frameRegisters ! i = user_registers ! i" "gpRegisters ! i = user_registers ! (i + 16)"
  by (simp_all add: user_registers_def nth_append user_registers_facts)

text \<open>Two loops over the two lists are one loop over both.\<close>

lemma fold_frame_gp:
  fixes f :: "nat \<Rightarrow> 'a \<Rightarrow> 'a"
  assumes "n \<le> 32" "m \<le> 16"
  shows "fold (\<lambda>i. f (i + 16)) [0..<min 16 (n - 16)] (fold f [m..<min n 16] s) = fold f [m..<max m n] s"
proof -
  have "fold (\<lambda>i. f (i + 16)) [0..<k] x = fold f [16..<k + 16] x" for k x
    using fun_cong [OF fold_map [of f "\<lambda>i. i + 16" "[0..<k]"], of x] unfolding map_add_upt comp_def by simp
  moreover have "n - 16 \<le> 16" using assms(1) by simp
  moreover have "[m..<max m n] = [m..<min n 16] @ [16..<n - 16 + 16]"
    if "16 < n" using that assms(2) upt_add_eq_append [of m 16 "n - 16"] by (simp add: min_def max_def)
  ultimately show ?thesis using assms by (cases "16 < n") (auto simp: min_def max_def not_less)
qed

lemma getSyscallArg_word:
  "ksCurThread s = c \<Longrightarrow> i < 100 \<Longrightarrow> getSyscallArg (of_nat i) buffer s = message_word c buffer i s"
proof -
  assume a: "ksCurThread s = c" "i < 100"
  then have "unat (of_nat i :: word64) = i" by (simp add: unat_of_nat take_bit_nat_eq_self)
  then have "(of_nat i :: word64) < 4 \<longleftrightarrow> i < 4" by (simp only: word_less_nat_alt) simp
  then show ?thesis using a \<open>unat (of_nat i :: word64) = i\<close>
    by (simp add: getSyscallArg_def message_word_def n_msgRegisters_def add.commute)
qed

lemma write_regs_eq:
  assumes "ksCurThread s = c" "m + off < 90"
  shows "write_regs dest regs off m a buffer s
      = fold (\<lambda>i s. setRegister dest (regs ! i) (message_word c buffer (i + off + 2) s) s) [0..<m] s
    \<and> ksCurThread (write_regs dest regs off m a buffer s) = c"
  using assms
proof (induction m)
  case 0
  then show ?case by (simp add: write_regs_def)
next
  case (Suc m)
  let ?w = "write_regs dest regs off m a buffer s"
  have ih: "?w = fold (\<lambda>i s. setRegister dest (regs ! i) (message_word c buffer (i + off + 2) s) s) [0..<m] s" "ksCurThread ?w = c"
    using Suc by auto
  have "write_regs dest regs off (Suc m) a buffer s = setRegister dest (regs ! m) (message_word c buffer (m + off + 2) ?w) ?w"
    using getSyscallArg_word [OF ih(2), of "m + off + 2"] Suc.prems by (simp add: write_regs_def sanitiseRegister_def)
  then show ?case using ih by simp
qed


lemma write_both:
  fixes buffer :: ptr and a :: bool
  assumes c: "ksCurThread s = c" "c \<noteq> dest" and n: "n \<le> 32"
  defines "s' \<equiv> write_regs dest gpRegisters n_frameRegisters (min n_gpRegisters (n - n_frameRegisters)) a buffer
    (write_regs dest frameRegisters 0 (min n_frameRegisters n) a buffer s)"
  shows "s' = fold (\<lambda>i s. setRegister dest (user_registers ! i) (message_word c buffer (i + 2) s) s) [0..<n] s"
proof -
  let ?f = "\<lambda>i s. setRegister dest (user_registers ! i) (message_word c buffer (i + 2) s) s"
  define s1 where "s1 = write_regs dest frameRegisters 0 (min 16 n) a buffer s"
  have s1: "s1 = fold (\<lambda>i s. setRegister dest (frameRegisters ! i) (message_word c buffer (i + 2) s) s) [0..<min 16 n] s" "ksCurThread s1 = c"
    using write_regs_eq [OF c(1), of "min 16 n" 0 dest frameRegisters a buffer] unfolding s1_def by (auto simp: min_def)
  have "s1 = fold ?f [0..<min n 16] s" unfolding s1(1) by (auto intro!: fold_cong simp: user_registers_nth min.commute)
  moreover have "s' = fold (\<lambda>i. ?f (i + 16)) [0..<min 16 (n - 16)] s1"
    using write_regs_eq [OF s1(2), of "min 16 (n - 16)" 16 dest gpRegisters a buffer]
    unfolding s'_def user_registers_facts s1_def [symmetric] by (simp add: user_registers_nth ac_simps)
  ultimately show ?thesis using fold_frame_gp [OF n, of 0 ?f s] by simp
qed

text \<open>What a thread reads of another: its registers in the order of the lists, as far as the message reaches.\<close>

lemma read_both:
  fixes buf :: ptr and s :: kstate
  assumes n: "n \<le> 32" and t: "t \<noteq> src"
  defines "k \<equiv> min n 4"
  defines "s1 \<equiv> read_regs t src frameRegisters 0 0 k s"
  defines "s2 \<equiv> read_buf buf src gpRegisters 16 0 (min 16 (n - 16)) (read_buf buf src frameRegisters 0 k (min n 16) s1)"
  shows "(\<forall>i < k. message_word t buf i s1 = getRegister src (user_registers ! i) s)
    \<and> (\<forall>i < n. message_word t buf i s2 = getRegister src (user_registers ! i) s)
    \<and> tcbs s2 = tcbs s1 \<and> ctes s2 = ctes s1"
proof -
  let ?g = "\<lambda>i s. getRegister src (user_registers ! i) s"
  let ?f = "\<lambda>i s. store buf (of_nat i + 1) (?g i s) s"
  have s1: "s1 = fold (\<lambda>i s. setRegister t (msgRegisters ! i) (?g i s) s) [0..<k] s"
    unfolding s1_def read_regs_def by (auto intro!: fold_cong simp: user_registers_nth k_def)
  have w1: "\<And>i. i < k \<Longrightarrow> getRegister t (msgRegisters ! i) s1 = ?g i s" "\<And>i. ?g i s1 = ?g i s"
    using set_regs_fold [of ?g t msgRegisters k 0 s] t msgRegisters_facts unfolding s1 k_def by auto
  have "read_buf buf src frameRegisters 0 k (min n 16) s1 = fold ?f [k..<min n 16] s1"
    unfolding read_buf_def by (auto intro!: fold_cong simp: user_registers_nth ac_simps)
  moreover have "read_buf buf src gpRegisters 16 0 m x = fold (\<lambda>i. ?f (i + 16)) [0..<m] x" for m x
    unfolding read_buf_def by (simp add: user_registers_nth ac_simps)
  ultimately have "s2 = fold ?f [k..<n] s1"
    using fold_frame_gp [OF n, of k ?f s1] by (simp add: s2_def k_def max_def)
  then have w2: "\<And>i. k \<le> i \<Longrightarrow> i < n \<Longrightarrow> load buf (of_nat i + 1) s2 = ?g i s" "tcbs s2 = tcbs s1" "ctes s2 = ctes s1"
    using store_fold [of ?g buf n k s1] w1(2) n by (auto simp: getRegister_def store_def)
  have "message_word t buf i s2 = ?g i s" if "i < n" for i
    using w1(1) [of i] w2 that by (cases "i < 4") (auto simp: message_word_def getRegister_def k_def ac_simps)
  then show ?thesis using w1(1) w2(2,3) by (auto simp: message_word_def k_def)
qed


lemma new_info_length: "n < 128 \<Longrightarrow> seL4_MessageInfo_get_length (seL4_MessageInfo_new 0 0 0 (of_nat n)) = of_nat n"
proof -
  assume n: "n < 128"
  have "(of_nat n :: word64) = take_bit 7 (of_nat n)" using n by (simp add: take_bit_of_nat take_bit_nat_eq_self)
  then show ?thesis unfolding seL4_MessageInfo_get_length_def seL4_MessageInfo_new_def info_masks
    by (simp flip: take_bit_eq_mask)
qed

lemma invokeTCB_ReadRegisters_words:
  fixes s :: kstate and n :: word64
  defines "t \<equiv> ksCurThread s"
  defines "buf \<equiv> lookupIPCBuffer True t s"
  assumes t: "t \<noteq> src" and n: "n \<le> 32"
  defines "s' \<equiv> invokeTCB_ReadRegisters src False n True s"
  defines "k \<equiv> if buf = NULL then min (unat n) 4 else unat n"
  shows "(\<forall>i < k. message_word t buf i s' = getRegister src (user_registers ! i) s)
    \<and> seL4_MessageInfo_get_length (getRegister t msgInfoRegister s') = of_nat k
    \<and> ksCurThread s' = t \<and> tcbContext (tcbs s' src) = tcbContext (tcbs s src)"
proof -
  have n': "unat n \<le> 32" using n by (simp add: word_le_nat_alt)
  define s0 where "s0 = setRegister t badgeRegister 0 s"
  define s1 where "s1 = read_regs t src frameRegisters 0 0 (min (unat n) 4) s0"
  define s2 where "s2 = (if buf = NULL then s1 else read_buf buf src gpRegisters 16 0 (min 16 (unat n - 16))
    (read_buf buf src frameRegisters 0 (min (unat n) 4) (min (unat n) 16) s1))"
  have i: "min (unat n) (min 16 (unat n_msgRegisters)) = min (unat n) 4" "min 16 (min (unat n - 16) (unat n_msgRegisters - 16)) = 0"
    by (simp_all add: n_msgRegisters_def)
  have e: "read_regs t src gpRegisters 16 0 0 x = x" "read_buf b src r off m m x = x" for b r off m x
    by (simp_all add: read_regs_def read_buf_def)
  define j where "j = (if buf \<noteq> NULL \<and> min (unat n) 4 < unat n \<and> min (unat n) 4 < 16 then min (unat n) 16 else min (unat n) 4)"
  define k' where "k' = (if buf \<noteq> NULL \<and> 0 < (16 :: nat) \<and> 0 + 16 < unat n then min 16 (unat n - 16) else 0)"
  have jk: "k' + j = k" "buf \<noteq> NULL \<Longrightarrow> j = min (unat n) 16 \<and> k' = min 16 (unat n - 16)" "buf = NULL \<Longrightarrow> j = min (unat n) 4 \<and> k' = 0"
    using n' by (auto simp: j_def k'_def k_def)
  have "s' = setThreadState t ThreadState_Running
      (setRegister t msgInfoRegister (wordFromMessageInfo (seL4_MessageInfo_new 0 0 0 (of_nat (k' + j))))
        (read_buf buf src gpRegisters 16 0 k' (read_buf buf src frameRegisters 0 (min (unat n) 4) j s1)))"
    unfolding s'_def invokeTCB_ReadRegisters_def Let_def t_def [symmetric] buf_def [symmetric] user_registers_facts i e if_True if_False
    unfolding s1_def s0_def j_def k'_def ..
  then have s': "s' = setThreadState t ThreadState_Running
      (setRegister t msgInfoRegister (wordFromMessageInfo (seL4_MessageInfo_new 0 0 0 (of_nat k))) s2)"
    unfolding jk(1) s2_def using jk(2,3) e(2) by (cases "buf = NULL") simp_all
  note r = read_both [OF n' t, where s = s0 and buf = buf, folded s1_def]
  have m: "msgInfoRegister \<noteq> msgRegisters ! i" if "i < 4" for i
    using that by (auto simp: msgRegisters_def msgInfoRegister_def nth_Cons split: nat.splits)
  have w: "message_word t buf i s2 = getRegister src (user_registers ! i) s" if "i < k" for i
    using r that t by (auto simp: s2_def k_def s0_def split: if_splits)
  have "message_word t buf i s' = message_word t buf i s2" for i
    using m [of i] by (auto simp: message_word_def s' load_def)
  moreover have "msg_core t s s2"
    unfolding s2_def s1_def s0_def read_regs_def read_buf_def by (auto intro!: fold_core)
  then have "tcbs s2 src = tcbs s src" "ksCurThread s2 = t"
    using t ipc_core_tcb(1) [of t s s2 src] ipc_core_fields(10) [of t s s2] by (auto simp: msg_core_def t_def)
  ultimately show ?thesis
    using w t new_info_length [of k] n' by (auto simp: s' k_def wordFromMessageInfo_def getRegister_def fun_eq_iff setRegister_def)
qed

text \<open>
  C28. Registers written to a thread by one invocation are the ones that another invocation reads: for up to 32 registers, the words of
  the answer are the words that followed the first two arguments of the write, as many of them as were written (the first four when the
  caller has no IPC buffer), and the answer's length says how many.
\<close>

theorem registers_roundtrip:
  fixes s :: kstate and n :: word64
  assumes "dest \<noteq> ksCurThread s" "n \<le> 32"
  shows "\<exists>s1. invokeTCB_WriteRegisters dest False n buffer s = Some s1
    \<and> (let buf = lookupIPCBuffer True (ksCurThread s) s;
           k = (if buf = NULL then min (unat n) 4 else unat n);
           s2 = invokeTCB_ReadRegisters dest False n True s1
       in (\<forall>i < k. getSyscallArg (of_nat i) buf s2 = getSyscallArg (of_nat (i + 2)) buffer s)
        \<and> seL4_MessageInfo_get_length (getRegister (ksCurThread s) msgInfoRegister s2) = of_nat k)"
proof -
  let ?c = "ksCurThread s"
  let ?g = "\<lambda>i s. message_word ?c buffer (i + 2) s"
  have n: "unat n \<le> 32" using assms(2) by (simp add: word_le_nat_alt)
  define s0 where "s0 = fold (\<lambda>i s. setRegister dest (user_registers ! i) (?g i s) s) [0..<unat n] s"
  define s1 where "s1 = setNextPC dest (getRestartPC dest s0) s0"
  have w: "\<And>i. i < unat n \<Longrightarrow> getRegister dest (user_registers ! i) s0 = ?g i s" "\<And>u. u \<noteq> dest \<Longrightarrow> tcbs s0 u = tcbs s u"
    using set_regs_fold [of ?g dest user_registers "unat n" 0 s] assms(1) n user_registers_facts
    unfolding s0_def by (auto simp: message_word_def load_def)
  have "msg_core dest s s0" unfolding s0_def by (auto intro!: fold_core)
  then have f: "ksCurThread s0 = ?c" "ctes s0 = ctes s" using ipc_core_fields(10) by (auto simp: msg_core_def)
  have "\<not> 32 < n" using assms(2) by simp
  then have "invokeTCB_WriteRegisters dest False n buffer s = Some s1"
    using write_both [OF refl _ n, of s dest _ buffer] assms(1) f(1)
    by (simp add: invokeTCB_WriteRegisters_def user_registers_facts s1_def s0_def Let_def setNextPC_def Arch_getSanitiseRegisterInfo_def)
  moreover have f1: "ksCurThread s1 = ?c" "lookupIPCBuffer True ?c s1 = lookupIPCBuffer True ?c s"
    using f w(2) assms(1) by (simp_all add: s1_def setNextPC_def lookupIPCBuffer_def setRegister_def)
  moreover have "getRegister dest (user_registers ! i) s1 = ?g i s" if "i < unat n" for i
    using w(1) [OF that] that n user_registers_facts by (auto simp: s1_def setNextPC_def in_set_conv_nth)
  moreover have "getSyscallArg (of_nat (i + 2)) buffer s = ?g i s" if "i < 32" for i
    using getSyscallArg_word [OF refl, of "i + 2" buffer s] that by simp
  ultimately show ?thesis
    using invokeTCB_ReadRegisters_words [of s1 dest n] assms n getSyscallArg_word [of "invokeTCB_ReadRegisters dest False n True s1"]
    by (auto simp: Let_def)
qed

theorem registers_roundtrip_witness:
  "\<exists>s1. invokeTCB_WriteRegisters 0x400 False 1 0 (setRegister 0 13 7 kstate0) = Some s1
    \<and> getSyscallArg 0 0 (invokeTCB_ReadRegisters 0x400 False 1 True s1) = 7"
proof -
  let ?s = "setRegister 0 13 7 kstate0"
  have c: "ksCurThread kstate0 = 0" "lookupIPCBuffer True 0 ?s = NULL"
    by (simp_all add: kstate0_def lookupIPCBuffer_def nullMDBNode_def)
  have a: "getSyscallArg 2 0 ?s = 7" by (simp add: getSyscallArg_def n_msgRegisters_def msgRegisters_def kstate0_def)
  show ?thesis using registers_roundtrip [where dest = "0x400" and s = ?s and n = 1 and buffer = 0] by (auto simp: c a Let_def)
qed

section \<open>Priorities stay within the authority\<close>

text \<open>The priority and the maximum controlled priority of a thread.\<close>

definition prios :: "kstate \<Rightarrow> ptr \<Rightarrow> word64 \<times> word64" where
  "prios s u = (tcbPriority (tcbs s u), tcbMCP (tcbs s u))"

lemma prios_core: "sched_core s s' \<Longrightarrow> prios s' = prios s"
  by (simp add: prios_def sched_core_tcb fun_eq_iff)

lemma prios_ops [simp]:
  "prios (setThreadState t ts s) = prios s" "prios (tcbSchedDequeue t s) = prios s" "prios (tcbSchedEnqueue t s) = prios s"
  "prios (rescheduleRequired s) = prios s" "prios (upd_ep e f s) = prios s" "prios (upd_ntfn e g s) = prios s"
  "prios (set_epNext t v s) = prios s" "prios (set_epPrev t v s) = prios s"
  "prios (upd_tcb t (tcbPriority_update (\<lambda>_. p)) s) = (prios s)(t := (p, snd (prios s t)))"
  "prios (upd_tcb t (tcbMCP_update (\<lambda>_. p)) s) = (prios s)(t := (fst (prios s t), p))"
  by (simp_all add: prios_core) (auto simp: prios_def fun_eq_iff setThreadState_def scheduleTCB_def upd_ts_def upd_ep_def set_epNext_def set_epPrev_def)

lemma prios_tcbEPDequeue: "prios (snd (tcbEPDequeue t q s)) = prios s"
  by (simp add: tcbEPDequeue_def Let_def)

lemma prios_tcbEPAppend: "tcbEPAppend t q s = Some (q', s') \<Longrightarrow> prios s' = prios s"
  by (auto simp: tcbEPAppend_def Let_def split: bind_splits if_splits prod.splits)

lemma prios_reorder:
  "reorderEP e t s = Some s' \<Longrightarrow> prios s' = prios s" "reorderNTFN e t s = Some s' \<Longrightarrow> prios s' = prios s"
  by (auto simp: reorderEP_def reorderNTFN_def ep_ptr_set_queue_def ntfn_ptr_set_queue_def Let_def prios_tcbEPDequeue
      split: bind_splits prod.splits dest!: prios_tcbEPAppend) (metis prios_tcbEPDequeue snd_conv)+

lemma setPriority_prios:
  assumes "setPriority t p s = Some s'"
  shows "prios s' = (prios s)(t := (p, snd (prios s t)))"
  using assms by (auto simp: setPriority_def Let_def prios_reorder split: tstate.splits if_splits)

lemma setPriority_returns: "\<not> isBlocked t s \<Longrightarrow> \<exists>s'. setPriority t p s = Some s'"
  by (auto simp: setPriority_def isBlocked_def Let_def split: tstate.splits)

lemma ThreadControlSched_one:
  "invokeTCB_ThreadControlSched t slot c src m p sc thread_control_sched_update_priority s =
     do { s \<leftarrow> setPriority t p s; Some (EXCEPTION_NONE, s) }"
  "invokeTCB_ThreadControlSched t slot c src m p sc thread_control_sched_update_mcp s = Some (EXCEPTION_NONE, setMCPriority t m s)"
  by (simp_all add: invokeTCB_ThreadControlSched_def if_none_def thread_control_flags)

text \<open>
  C27. Setting the priority, or the maximum priority, of a thread: the requested value is compared with the maximum priority of the thread
  whose capability is presented as the authority. Above it, the invocation fails with the permitted range and changes nothing; otherwise
  exactly the target's value becomes the requested one and no other thread's priority changes, and for a target that is not blocked the
  invocation succeeds.
\<close>

theorem priority_within_authority:
  fixes s :: kstate and buffer slot t :: ptr and call :: bool
  assumes "l \<in> {TCBSetPriority, TCBSetMCPriority}" "0 < len" "excapref 0 s \<noteq> NULL" "cteCap (ctes s (excapref 0 s)) = ThreadCap auth"
  defines "p \<equiv> getSyscallArg 0 buffer s"
  defines "r \<equiv> decodeTCBInvocation l len (ThreadCap t) slot call buffer s"
  shows "(tcbMCP (tcbs s auth) < p \<longrightarrow> r = err (seL4_RangeError 0 (tcbMCP (tcbs s auth))))
    \<and> (\<forall>e s'. r = Some (Inr (e, s')) \<longrightarrow> e = EXCEPTION_NONE \<and> p \<le> tcbMCP (tcbs s auth)
        \<and> (\<forall>u. tcbPriority (tcbs s' u) = (if u = t \<and> l = TCBSetPriority then p else tcbPriority (tcbs s u))
             \<and> tcbMCP (tcbs s' u) = (if u = t \<and> l = TCBSetMCPriority then p else tcbMCP (tcbs s u))))
    \<and> (p \<le> tcbMCP (tcbs s auth) \<longrightarrow> \<not> isBlocked t s \<longrightarrow> (\<exists>s'. r = Some (Inr (EXCEPTION_NONE, s'))))"
proof -
  let ?s = "setThreadState (ksCurThread s) ThreadState_Restart s"
  let ?P = "do { s \<leftarrow> setPriority t p ?s; Some (EXCEPTION_NONE, s) }"
  have "len \<noteq> 0" using assms(2) by auto
  then have "\<not> len < 1" by (metis word_less_1)
  then have r: "r = (if p > tcbMCP (tcbs s auth) then err (seL4_RangeError 0 (tcbMCP (tcbs s auth)))
      else if l = TCBSetPriority then perform ?P else ok (EXCEPTION_NONE, setMCPriority t p ?s))"
  proof (cases "l = TCBSetPriority")
    case True
    then show ?thesis using \<open>\<not> len < 1\<close> assms(3,4) unfolding r_def p_def decodeTCBInvocation_def decodeSetPriority_def
      by (simp add: checkPrio_def Let_def ThreadControlSched_one seL4_MinPrio_def)
  next
    case False
    then have "l = TCBSetMCPriority" using assms(1) by simp
    then show ?thesis using \<open>\<not> len < 1\<close> assms(3,4) unfolding r_def p_def decodeTCBInvocation_def decodeSetMCPriority_def
      by (simp add: checkPrio_def Let_def ThreadControlSched_one seL4_MinPrio_def perform_def)
  qed
  have b: "\<not> isBlocked t s \<Longrightarrow> \<not> isBlocked t ?s"
    by (auto simp: isBlocked_def setThreadState_def scheduleTCB_def upd_ts_def)
  have v: "prios s' = (prios s)(t := if l = TCBSetPriority then (p, snd (prios s t)) else (fst (prios s t), p))"
    if "r = Some (Inr (e, s'))" for e s'
    using that setPriority_prios [of t p ?s] unfolding r
    by (auto simp: perform_def setMCPriority_def split: if_splits bind_splits)
  have "tcbPriority (tcbs s' u) = (if u = t \<and> l = TCBSetPriority then p else tcbPriority (tcbs s u))
      \<and> tcbMCP (tcbs s' u) = (if u = t \<and> l = TCBSetMCPriority then p else tcbMCP (tcbs s u))"
    if "r = Some (Inr (e, s'))" for e s' u
  proof -
    have "l = TCBSetPriority \<or> l = TCBSetMCPriority" using assms(1) by simp
    then show ?thesis using fun_cong [OF v [OF that], of u] by (cases "u = t") (elim disjE; simp add: prios_def)+
  qed
  moreover have "e = EXCEPTION_NONE \<and> p \<le> tcbMCP (tcbs s auth)" if "r = Some (Inr (e, s'))" for e s'
    using that unfolding r by (auto simp: perform_def split: if_splits bind_splits)
  moreover have "\<exists>s'. r = Some (Inr (EXCEPTION_NONE, s'))" if "p \<le> tcbMCP (tcbs s auth)" "\<not> isBlocked t s"
    using that(1) setPriority_returns [OF b [OF that(2)], of p] unfolding r by (auto simp: perform_def ok_def)
  moreover have "r = err (seL4_RangeError 0 (tcbMCP (tcbs s auth)))" if "tcbMCP (tcbs s auth) < p" using that unfolding r by simp
  ultimately show ?thesis by blast
qed

definition example_auth :: kstate where
  "example_auth = setRegister 0 11 50 (kstate0\<lparr>ctes := (\<lambda>_. nullMDBNode NullCap)(0x1000 := nullMDBNode (ThreadCap 0x400)),
     tcbs := (\<lambda>_. tcb0)(0x400 := tcb0\<lparr>tcbMCP := 100\<rparr>), current_extra_caps := (\<lambda>_. NULL)(0 := 0x1000)\<rparr>)"

theorem priority_within_authority_witness:
  "\<exists>s'. decodeTCBInvocation TCBSetPriority 1 (ThreadCap 0x800) 0 True 0 example_auth = Some (Inr (EXCEPTION_NONE, s'))
    \<and> tcbPriority (tcbs s' 0x800) = 50"
proof -
  let ?r = "decodeTCBInvocation TCBSetPriority 1 (ThreadCap 0x800) 0 True 0 example_auth"
  have f: "excapref 0 example_auth = 0x1000" "cteCap (ctes example_auth 0x1000) = ThreadCap 0x400"
    "getSyscallArg 0 0 example_auth = 50" "tcbMCP (tcbs example_auth 0x400) = 100" "\<not> isBlocked 0x800 example_auth"
    by (simp_all add: example_auth_def kstate0_def excapref_def nullMDBNode_def getSyscallArg_def n_msgRegisters_def
        msgRegisters_def setRegister_def getRegister_def tcb0_def isBlocked_def upd_tcb_def)
  note t = priority_within_authority [where l = TCBSetPriority and len = 1 and s = example_auth and auth = "0x400"
      and buffer = 0 and t = "0x800" and slot = 0 and call = True, unfolded f(1-4)]
  obtain s' where s': "?r = Some (Inr (EXCEPTION_NONE, s'))" using t f(5) by (auto simp: word_le_nat_alt)
  then have "tcbPriority (tcbs s' 0x800) = 50" using t by auto
  then show ?thesis using s' by blast
qed

end
