(* ===== verification/Syscall.thy ===== *)
theory Syscall
  imports Domain Untyped Interrupt TcbInv
begin

text \<open>
  System calls and the entry points of the kernel: \<^verbatim>\<open>src/kernel/api/syscall.c\<close>, \<^verbatim>\<open>decodeInvocation\<close> of
  \<^verbatim>\<open>object/objecttype.c\<close>, and the C half of the trap handlers of \<^verbatim>\<open>arch/riscv/c_traps.c\<close>. Each entry point handles its event,
  chooses a thread and activates it.

  The numbers of system calls and of invocation labels are generated by the build; \<open>labels\<close> and \<open>syscalls\<close> are the functions that
  read them, as parameters of the definitions. The system call that faults a thread is any number that names none.
\<close>

section \<open>Invoking a capability\<close>

definition performInvocation_Endpoint :: "ptr \<Rightarrow> word64 \<Rightarrow> bool \<Rightarrow> bool \<Rightarrow> bool \<Rightarrow> bool \<Rightarrow> bool \<Rightarrow> kstate \<Rightarrow> kstate option" where
  "performInvocation_Endpoint ep badge canGrant canGrantReply block call canDonate s =
     sendIPC block call badge canGrant canGrantReply canDonate (ksCurThread s) ep s"

definition performInvocation_Notification :: "ptr \<Rightarrow> word64 \<Rightarrow> kstate \<Rightarrow> kstate option" where
  "performInvocation_Notification ntfn badge s = sendSignal ntfn badge s"

definition performInvocation_Reply :: "ptr \<Rightarrow> ptr \<Rightarrow> bool \<Rightarrow> kstate \<Rightarrow> kstate option" where
  "performInvocation_Reply thread rply canGrant s = doReplyTransfer thread rply canGrant s"

definition decodeInvocation ::
  "invocation_label \<Rightarrow> word64 \<Rightarrow> ptr \<Rightarrow> cap \<Rightarrow> bool \<Rightarrow> bool \<Rightarrow> bool \<Rightarrow> bool \<Rightarrow> ptr \<Rightarrow> kstate \<Rightarrow> pstate decode" where
  "decodeInvocation invLabel len slot cap block call canDonate firstPhase buffer s =
     (if isArchCap cap then atomic (Arch_decodeInvocation invLabel len slot cap call buffer s)
      else case cap of
        NullCap \<Rightarrow> err (seL4_InvalidCapability 0)
      | ZombieCap _ _ \<Rightarrow> err (seL4_InvalidCapability 0)
      | EndpointCap badge canGrantReply canGrant canSend canReceive ep \<Rightarrow>
          if \<not> canSend then err (seL4_InvalidCapability 0)
          else atomic (perform (performInvocation_Endpoint ep badge canGrant canGrantReply block call canDonate
                 (setThreadState (ksCurThread s) ThreadState_Restart s)))
      | NotificationCap badge canReceive canSend ntfn \<Rightarrow>
          if \<not> canSend then err (seL4_InvalidCapability 0)
          else atomic (perform (performInvocation_Notification ntfn badge (setThreadState (ksCurThread s) ThreadState_Restart s)))
      | ReplyCap rply canGrant \<Rightarrow>
          atomic (perform (performInvocation_Reply (ksCurThread s) rply canGrant
            (setThreadState (ksCurThread s) ThreadState_Restart s)))
      | ThreadCap _ \<Rightarrow>
          if firstPhase then err (seL4_InvalidCapability 0) else decodeTCBInvocation invLabel len cap slot call buffer s
      | DomainCap \<Rightarrow>
          if firstPhase then err (seL4_InvalidCapability 0) else atomic (decodeDomainInvocation invLabel len buffer s)
      | CNodeCap _ _ _ _ \<Rightarrow>
          if firstPhase then err (seL4_InvalidCapability 0) else decodeCNodeInvocation invLabel len cap buffer s
      | UntypedCap _ _ _ _ \<Rightarrow> decodeUntypedInvocation invLabel len slot cap buffer s
      | IRQControlCap \<Rightarrow> atomic (decodeIRQControlInvocation invLabel len slot buffer s)
      | IRQHandlerCap irq \<Rightarrow> atomic (decodeIRQHandlerInvocation invLabel irq s)
      | SchedControlCap _ \<Rightarrow>
          if firstPhase then err (seL4_InvalidCapability 0) else atomic (decodeSchedControlInvocation invLabel cap len buffer s)
      | SchedContextCap sc _ \<Rightarrow>
          if firstPhase then err (seL4_InvalidCapability 0) else atomic (decodeSchedContextInvocation invLabel sc call s)
      | _ \<Rightarrow> None)"

text \<open>The second half of \<open>handleInvocation\<close>: what is done with the status of the invocation.\<close>

definition finish_invocation :: "ptr \<Rightarrow> bool \<Rightarrow> decode_error + pstate \<Rightarrow> kstate \<Rightarrow> pstate" where
  "finish_invocation thread isCall r s =
     (case r of
        Inl (e, f) \<Rightarrow>
          let s = (case f of Some f \<Rightarrow> s\<lparr>current_lookup_fault := f\<rparr> | None \<Rightarrow> s)
          in (EXCEPTION_NONE, if isCall then replyFromKernel_error thread (e, f) s else s)
      | Inr (status, s) \<Rightarrow>
          if status = EXCEPTION_PREEMPTED then (status, s)
          else if tsType (tcbState (tcbs s thread)) = ThreadState_Restart
          then (EXCEPTION_NONE, setThreadState thread ThreadState_Running (if isCall then replyFromKernel_success_empty thread s else s))
          else (EXCEPTION_NONE, s))"

definition handleInvocation ::
  "(word64 \<Rightarrow> invocation_label) \<Rightarrow> bool \<Rightarrow> bool \<Rightarrow> bool \<Rightarrow> bool \<Rightarrow> word64 \<Rightarrow> kstate \<Rightarrow> pstate option" where
  "handleInvocation labels isCall isBlocking canDonate firstPhase cptr s = do {
     let thread = ksCurThread s;
     let info = messageInfoFromWord (getRegister thread msgInfoRegister s);
     lu_ret \<leftarrow> lookupCapAndSlot thread cptr s;
     (case lu_ret of
        Inl f \<Rightarrow> do {
          let s = s\<lparr>current_lookup_fault := f, current_fault := CapFault cptr False\<rparr>;
          s \<leftarrow> (if isBlocking then handleFault thread s else Some s);
          Some (EXCEPTION_NONE, s)
        }
      | Inr (cap, slot) \<Rightarrow> do {
          let buffer = lookupIPCBuffer False thread s;
          (status, s) \<leftarrow> lookupExtraCaps thread buffer info s;
          (case status of
             Inl f \<Rightarrow> do {
               let s = s\<lparr>current_lookup_fault := f\<rparr>;
               s \<leftarrow> (if isBlocking then handleFault thread s else Some s);
               Some (EXCEPTION_NONE, s)
             }
           | Inr _ \<Rightarrow> do {
               let len = seL4_MessageInfo_get_length info;
               let len = (if len > n_msgRegisters \<and> buffer = NULL then n_msgRegisters else len);
               r \<leftarrow> decodeInvocation (labels (seL4_MessageInfo_get_label info)) len slot cap isBlocking isCall canDonate
                      firstPhase buffer s;
               Some (finish_invocation thread isCall r s)
             })
        })
   }"

section \<open>Receiving\<close>

text \<open>A fault of the current thread in the receive phase.\<close>

definition recv_fault :: "word64 \<Rightarrow> lookup_fault \<Rightarrow> kstate \<Rightarrow> kstate option" where
  "recv_fault cptr f s = handleFault (ksCurThread s) (s\<lparr>current_lookup_fault := f, current_fault := CapFault cptr True\<rparr>)"

definition lookupReply :: "kstate \<Rightarrow> (cap option \<times> kstate) option" where
  "lookupReply s = do {
     let replyCPtr = getRegister (ksCurThread s) replyRegister s;
     lu_ret \<leftarrow> lookupCap (ksCurThread s) replyCPtr s;
     (case lu_ret of
        Inl f \<Rightarrow> do { s \<leftarrow> recv_fault replyCPtr f s; Some (None, s) }
      | Inr cap \<Rightarrow>
          if \<not> is_ReplyCap cap
          then do { s \<leftarrow> handleFault (ksCurThread s) (s\<lparr>current_fault := CapFault replyCPtr True\<rparr>); Some (None, s) }
          else Some (Some cap, s))
   }"

definition handleRecv :: "bool \<Rightarrow> bool \<Rightarrow> kstate \<Rightarrow> kstate option" where
  "handleRecv isBlocking canReply s = do {
     let epCPtr = getRegister (ksCurThread s) capRegister s;
     lu_ret \<leftarrow> lookupCap (ksCurThread s) epCPtr s;
     (case lu_ret of
        Inl f \<Rightarrow> recv_fault epCPtr f s
      | Inr cap \<Rightarrow>
          (case cap of
             EndpointCap badge canGrantReply canGrant canSend canReceive ep \<Rightarrow>
               if \<not> canReceive then recv_fault epCPtr (MissingCapability 0) s
               else if canReply
               then do {
                 (r, s) \<leftarrow> lookupReply s;
                 (case r of None \<Rightarrow> Some s | Some reply_cap \<Rightarrow> receiveIPC (ksCurThread s) cap isBlocking reply_cap s)
               }
               else receiveIPC (ksCurThread s) cap isBlocking NullCap s
           | NotificationCap badge canReceive canSend ntfnPtr \<Rightarrow>
               let boundTCB = ntfnBoundTCB (ntfns s ntfnPtr)
               in if \<not> canReceive \<or> boundTCB \<noteq> NULL \<and> boundTCB \<noteq> ksCurThread s
                  then recv_fault epCPtr (MissingCapability 0) s
                  else receiveSignal (ksCurThread s) cap isBlocking s
           | _ \<Rightarrow> recv_fault epCPtr (MissingCapability 0) s))
   }"

section \<open>Budgets\<close>

definition mcsPreemptionPoint :: "kstate \<Rightarrow> kstate option" where
  "mcsPreemptionPoint s =
     (if isSchedulable (ksCurThread s) s then do { (_, s) \<leftarrow> checkBudget s; Some s }
      else if sc_active (ksCurSC s) s then chargeBudget (ksConsumed s) False s
      else Some (s\<lparr>ksConsumed := 0\<rparr>))"

definition handleYield :: "kstate \<Rightarrow> kstate option" where
  "handleYield s = do {
     let consumed = scConsumed (scs s (ksCurSC s)) + ksConsumed s;
     let hd_refill = refill_head (ksCurSC s) s;
     s \<leftarrow> chargeBudget (rAmount hd_refill) False s;
     Some (upd_sc (ksCurSC s) (scConsumed_update (\<lambda>_. consumed)) s)
   }"

text \<open>\<^verbatim>\<open>updateTimestamp\<close> with the time that the clock shows.\<close>

definition update_time :: "kstate \<Rightarrow> kstate" where
  "update_time s = (let (now, s) = getCurrentTime s in updateTimestamp now s)"

definition MCS_DO_IF_BUDGET :: "(kstate \<Rightarrow> kstate option) \<Rightarrow> kstate \<Rightarrow> kstate option" where
  "MCS_DO_IF_BUDGET block s = do {
     (enough, s) \<leftarrow> checkBudgetRestart (update_time s);
     if enough then block s else Some s
   }"

section \<open>Entering the kernel\<close>

datatype syscall = SysCall | SysReplyRecv | SysNBSendRecv | SysNBSendWait | SysSend | SysNBSend | SysRecv | SysNBRecv
  | SysWait | SysNBWait | SysYield

text \<open>After an invocation: a preempted one handles the interrupt, and one of two phases goes on to receive.\<close>

definition after_invocation :: "pstate \<Rightarrow> (kstate \<Rightarrow> kstate option) \<Rightarrow> kstate option" where
  "after_invocation r f =
     (case r of (ret, s) \<Rightarrow>
        if ret \<noteq> EXCEPTION_NONE then do { s \<leftarrow> mcsPreemptionPoint s; checkInterrupt s } else f s)"

definition getNBSendRecvDest :: "kstate \<Rightarrow> word64" where
  "getNBSendRecvDest s = getRegister (ksCurThread s) nbsendRecvDest s"

definition do_syscall :: "(word64 \<Rightarrow> invocation_label) \<Rightarrow> syscall \<Rightarrow> kstate \<Rightarrow> kstate option" where
  "do_syscall labels syscall s =
     (let capReg = getRegister (ksCurThread s) capRegister s;
          replyReg = getRegister (ksCurThread s) replyRegister s
      in case syscall of
        SysSend \<Rightarrow> do { r \<leftarrow> handleInvocation labels False True False False capReg s; after_invocation r Some }
      | SysNBSend \<Rightarrow> do { r \<leftarrow> handleInvocation labels False False False False capReg s; after_invocation r Some }
      | SysCall \<Rightarrow> do { r \<leftarrow> handleInvocation labels True True True False capReg s; after_invocation r Some }
      | SysRecv \<Rightarrow> handleRecv True True s
      | SysWait \<Rightarrow> handleRecv True False s
      | SysNBWait \<Rightarrow> handleRecv False False s
      | SysReplyRecv \<Rightarrow> do {
          (_, s) \<leftarrow> handleInvocation labels False False True True replyReg s;
          handleRecv True True s
        }
      | SysNBSendRecv \<Rightarrow> do {
          r \<leftarrow> handleInvocation labels False False True True (getNBSendRecvDest s) s;
          after_invocation r (handleRecv True True)
        }
      | SysNBSendWait \<Rightarrow> do {
          r \<leftarrow> handleInvocation labels False False True True replyReg s;
          after_invocation r (handleRecv True False)
        }
      | SysNBRecv \<Rightarrow> handleRecv False True s
      | SysYield \<Rightarrow> handleYield s)"

text \<open>The end of every entry point: choose a thread and let it run.\<close>

definition leave_kernel :: "kstate \<Rightarrow> kstate option" where
  "leave_kernel s = do { s \<leftarrow> schedule s; activateThread s }"

definition handleSyscall :: "(word64 \<Rightarrow> invocation_label) \<Rightarrow> syscall \<Rightarrow> kstate \<Rightarrow> kstate option" where
  "handleSyscall labels syscall s = do {
     s \<leftarrow> MCS_DO_IF_BUDGET (do_syscall labels syscall) s;
     leave_kernel s
   }"

definition handleInterruptEntry :: "kstate \<Rightarrow> kstate option" where
  "handleInterruptEntry s = do {
     (_, s) \<leftarrow> checkBudget (update_time s);
     s \<leftarrow> checkInterrupt s;
     leave_kernel s
   }"

definition handleUnknownSyscall :: "word64 \<Rightarrow> kstate \<Rightarrow> kstate option" where
  "handleUnknownSyscall w s = do {
     s \<leftarrow> MCS_DO_IF_BUDGET (\<lambda>s. handleFault (ksCurThread s) (s\<lparr>current_fault := UnknownSyscall w\<rparr>)) s;
     leave_kernel s
   }"

definition handleUserLevelFault :: "word64 \<Rightarrow> word64 \<Rightarrow> kstate \<Rightarrow> kstate option" where
  "handleUserLevelFault w_a w_b s = do {
     s \<leftarrow> MCS_DO_IF_BUDGET (\<lambda>s. handleFault (ksCurThread s) (s\<lparr>current_fault := UserException w_a w_b\<rparr>)) s;
     leave_kernel s
   }"

definition handleVMFaultEvent :: "word64 \<Rightarrow> kstate \<Rightarrow> kstate option" where
  "handleVMFaultEvent vm_faultType s = do {
     s \<leftarrow> MCS_DO_IF_BUDGET (\<lambda>s. do { s \<leftarrow> handleVMFault vm_faultType s; handleFault (ksCurThread s) s }) s;
     leave_kernel s
   }"

definition c_handle_interrupt :: "kstate \<Rightarrow> kstate option" where
  "c_handle_interrupt s = handleInterruptEntry s"

definition c_handle_exception :: "word64 \<Rightarrow> kstate \<Rightarrow> kstate option" where
  "c_handle_exception scause s =
     (if scause \<in> {RISCVInstructionAccessFault, RISCVLoadAccessFault, RISCVStoreAccessFault, RISCVLoadPageFault,
          RISCVStorePageFault, RISCVInstructionPageFault}
      then handleVMFaultEvent scause s else handleUserLevelFault scause 0 s)"

definition slowpath :: "(word64 \<Rightarrow> invocation_label) \<Rightarrow> (word64 \<Rightarrow> syscall option) \<Rightarrow> word64 \<Rightarrow> kstate \<Rightarrow> kstate option" where
  "slowpath labels syscalls w s =
     (case syscalls w of None \<Rightarrow> handleUnknownSyscall w s | Some sysc \<Rightarrow> handleSyscall labels sysc s)"

section \<open>What a refused invocation leaves behind\<close>

text \<open>\<open>only_message t s s'\<close>: the states differ at most in the registers of thread \<open>t\<close> and in the words of user memory.\<close>

definition only_message :: "ptr \<Rightarrow> kstate \<Rightarrow> kstate \<Rightarrow> bool" where
  "only_message t s s' \<longleftrightarrow>
     (\<exists>C M. s' = s\<lparr>tcbs := (tcbs s)(t := (tcbs s t)\<lparr>tcbContext := C\<rparr>), mem := M\<rparr>)"

lemma only_message_refl [simp]: "only_message t s s"
  unfolding only_message_def by (rule exI [of _ "tcbContext (tcbs s t)"], rule exI [of _ "mem s"]) simp

lemma only_message_trans [trans]: "only_message t s s' \<Longrightarrow> only_message t s' s'' \<Longrightarrow> only_message t s s''"
  unfolding only_message_def by (elim exE) (hypsubst, simp, blast)

lemma tcbContext_set: "tcbContext_update f x = x\<lparr>tcbContext := f (tcbContext x)\<rparr>" for x :: tcb
  by (rule tcb.equality) simp_all

lemma only_message_steps [simp]: "only_message t s (setRegister t r v s)" "only_message t s (store b i v s)"
  unfolding only_message_def setRegister_def upd_tcb_def
   apply (rule exI [of _ "(tcbContext (tcbs s t))(r := v)"], rule exI [of _ "mem s"], simp add: tcbContext_set [of "\<lambda>c. c(r := v)"])
  apply (rule exI [of _ "tcbContext (tcbs s t)"], rule exI [of _ "(mem s)(b + 8 * i := v)"], simp add: store_def)
  done

lemma only_message_setMR [simp]: "only_message t s (snd (setMR t b i v s))"
  by (simp add: setMR_def)

lemma only_message_setMRI: "setMR t b i v s = (n, s') \<Longrightarrow> only_message t s s'"
  by (metis only_message_setMR snd_conv)

lemma only_message_lookup_failure: "setMRs_lookup_failure t b luf i s = (n, s') \<Longrightarrow> only_message t s s'"
  unfolding setMRs_lookup_failure_def Let_def
  by (auto split: lookup_fault.splits prod.splits dest!: only_message_setMRI intro: only_message_trans)

lemma only_message_syscall_error: "setMRs_syscall_error t b e s = (n, s') \<Longrightarrow> only_message t s s'"
  unfolding setMRs_syscall_error_def Let_def
  by (auto split: syscall_error.splits prod.splits dest!: only_message_setMRI only_message_lookup_failure intro: only_message_trans)

lemma syscall_error_type_bound: "syscall_error_type e < 16"
  by (cases e) simp_all

lemma replyFromKernel_error_effect:
  "only_message t s (replyFromKernel_error t e s)"
  "seL4_MessageInfo_get_label (getRegister t msgInfoRegister (replyFromKernel_error t e s)) = syscall_error_type (fst e)"
  by (auto simp: replyFromKernel_error_def Let_def wordFromMessageInfo_def new_info_label [OF syscall_error_type_bound]
      split: prod.splits dest!: only_message_syscall_error intro: only_message_trans [OF only_message_steps(1)]
        only_message_trans [OF _ only_message_steps(1)])

lemma lookupExtraCaps_loop_only:
  "lookupExtraCaps_loop t b i len s = Some (Inr x, s1) \<Longrightarrow> \<exists>E. s1 = s\<lparr>current_extra_caps := E\<rparr>"
proof (induction t b i len s rule: lookupExtraCaps_loop.induct)
  case (1 t b i len s)
  show ?case
  proof (cases "i < len")
    case True
    then obtain slot where "lookupSlot t (getExtraCPtr b i s) s = Some (Inr slot)"
      "lookupExtraCaps_loop t b (i + 1) len (s\<lparr>current_extra_caps := (current_extra_caps s)(unat i := slot)\<rparr>) = Some (Inr x, s1)"
      using 1(2) unfolding lookupExtraCaps_loop.simps [of t b i len s] by (auto simp: Let_def split: bind_splits sum.splits)
    then show ?thesis using 1(1) [OF True refl] by fastforce
  next
    case False
    then have "s1 = s \<or> s1 = s\<lparr>current_extra_caps := (current_extra_caps s)(unat i := NULL)\<rparr>"
      using 1(2) unfolding lookupExtraCaps_loop.simps [of t b i len s] by (auto split: if_splits)
    then show ?thesis by (auto intro: exI [of _ "current_extra_caps s"])
  qed
qed

lemma lookupExtraCaps_only: "lookupExtraCaps t b info s = Some (Inr x, s1) \<Longrightarrow> \<exists>E. s1 = s\<lparr>current_extra_caps := E\<rparr>"
  by (auto simp: lookupExtraCaps_def split: if_splits dest: lookupExtraCaps_loop_only)



section \<open>No work without budget\<close>

text \<open>
  C26. A thread that has run out of budget, or whose domain has run out of time, does no work in the kernel: the event is handled the same
  way whichever system call or fault caused it, namely not at all, and the thread, if it can still run, is left to restart
  the instruction when it has time again.
\<close>

theorem no_budget_no_syscall:
  fixes s :: kstate
  defines "s1 \<equiv> update_time s"
  assumes "\<not> refill_sufficient (ksCurSC s1) (ksConsumed s1) s1 \<or> isCurDomainExpired s1"
  shows "handleSyscall labels c s = handleSyscall labels' c' s \<and> handleUnknownSyscall w s = handleSyscall labels c s
    \<and> handleUserLevelFault a b s = handleSyscall labels c s \<and> handleVMFaultEvent v s = handleSyscall labels c s
    \<and> (\<forall>s2. MCS_DO_IF_BUDGET (do_syscall labels c) s = Some s2 \<longrightarrow> isRunnable (ksCurThread s2) s2
         \<longrightarrow> tsType (tcbState (tcbs s2 (ksCurThread s2))) = ThreadState_Restart)"
proof -
  have "\<exists>s2. checkBudgetRestart s1 = Some (False, s2)
      \<and> (isRunnable (ksCurThread s2) s2 \<longrightarrow> tsType (tcbState (tcbs s2 (ksCurThread s2))) = ThreadState_Restart)"
    if "checkBudgetRestart s1 \<noteq> None"
    using that assms(2)
    by (auto simp: checkBudgetRestart_def checkBudget_def setThreadState_def scheduleTCB_def upd_ts_def split: bind_splits if_splits)
  then show ?thesis
    by (cases "checkBudgetRestart s1")
      (auto simp: handleSyscall_def handleUnknownSyscall_def handleUserLevelFault_def handleVMFaultEvent_def MCS_DO_IF_BUDGET_def s1_def)
qed

section \<open>Concrete system calls\<close>

text \<open>A thread that calls an empty slot of its capability space.\<close>

definition example_call :: kstate where
  "example_call = kstate0\<lparr>ctes := (\<lambda>_. nullMDBNode NullCap)(0x10000 := nullMDBNode (CNodeCap 1 63 0 0x20000)), ksCurThread := 0x10000\<rparr>"


theorem no_budget_no_syscall_witness:
  "handleSyscall (\<lambda>_. OtherLabel) SysYield kstate0 = handleSyscall (\<lambda>_. OtherLabel) SysCall kstate0"
proof -
  let ?s = "update_time kstate0"
  have "\<not> refill_sufficient (ksCurSC ?s) (ksConsumed ?s) ?s"
    by (simp add: update_time_def getCurrentTime_def updateTimestamp_def Let_def kstate0_def refill_sufficient_def refill_capacity_def
        refill_head_def refill_index_def MIN_BUDGET_def)
  then show ?thesis using no_budget_no_syscall [of kstate0] by blast
qed

end
