(* ===== verification/KernelExit.thy ===== *)
theory KernelExit
  imports Syscall
begin

text \<open>
  Leaving the kernel: every entry point ends with \<^verbatim>\<open>schedule\<close> and \<^verbatim>\<open>activateThread\<close>. The theorem composes the release queue, the
  domain schedule, the ready queues, the switch of scheduling contexts with its refills and the activation of the chosen
  thread: under the invariants of these components the whole sequence returns and a thread runs.
\<close>

section \<open>Activating the current thread\<close>

lemma replyFromKernel_consumed_core: "msg_core t s (replyFromKernel_consumed t n s)"
proof -
  obtain k s1 where m: "mode_setTimeArg 0 n (lookupIPCBuffer True t s) t (setRegister t badgeRegister 0 s) = (k, s1)" by fastforce
  have "msg_core t s (setRegister t badgeRegister 0 s)" by simp
  also have "msg_core t (setRegister t badgeRegister 0 s) s1"
    using m by (auto simp: mode_setTimeArg_def Let_def split: prod.splits dest!: setMR_coreI)
  also have "msg_core t s1 (replyFromKernel_consumed t n s)" by (simp add: replyFromKernel_consumed_def Let_def m)
  finally show ?thesis .
qed

lemma setConsumed_core: "msg_core t s (setConsumed sc t w s)"
  unfolding setConsumed_def Let_def
  by (auto split: prod.splits dest!: updateConsumed_core [where r = t] intro: msg_core_trans [OF _ replyFromKernel_consumed_core])

lemma completeYieldTo_facts:
  assumes "t \<noteq> NULL"
  shows "ksCurThread (schedContext_completeYieldTo t s) = ksCurThread s"
    "tcbState (tcbs (schedContext_completeYieldTo t s) u) = tcbState (tcbs s u)"
    "tcbYieldTo (tcbs (schedContext_completeYieldTo t s) t) = NULL"
    "ksCurDomain (schedContext_completeYieldTo t s) = ksCurDomain s" "ksIdleThread (schedContext_completeYieldTo t s) = ksIdleThread s"
    "tcbDomain (tcbs (schedContext_completeYieldTo t s) u) = tcbDomain (tcbs s u)"
    "tcbPriority (tcbs (schedContext_completeYieldTo t s) u) = tcbPriority (tcbs s u)"
proof -
  let ?s1 = "setConsumed (tcbYieldTo (tcbs s t)) t True s"
  have "ipc_core t s ?s1" using setConsumed_core by (simp add: msg_core_def)
  note c = ipc_core_fields(10,11,15) [OF this] ipc_core_tcb_fields(1,4,5,13) [OF this]
  show "ksCurThread (schedContext_completeYieldTo t s) = ksCurThread s"
    "tcbState (tcbs (schedContext_completeYieldTo t s) u) = tcbState (tcbs s u)"
    "tcbYieldTo (tcbs (schedContext_completeYieldTo t s) t) = NULL"
    "ksCurDomain (schedContext_completeYieldTo t s) = ksCurDomain s" "ksIdleThread (schedContext_completeYieldTo t s) = ksIdleThread s"
    "tcbDomain (tcbs (schedContext_completeYieldTo t s) u) = tcbDomain (tcbs s u)"
    "tcbPriority (tcbs (schedContext_completeYieldTo t s) u) = tcbPriority (tcbs s u)"
    using assms by (auto simp: schedContext_completeYieldTo_def schedContext_cancelYieldTo_def Let_def c upd_sc_def)
qed

lemma best_current_cong:
  assumes "ksCurDomain s' = ksCurDomain s" "ksCurThread s' = ksCurThread s" "ksIdleThread s' = ksIdleThread s"
    "\<And>u. tcbQueued (tcbState (tcbs s' u)) = tcbQueued (tcbState (tcbs s u))" "\<And>u. tcbDomain (tcbs s' u) = tcbDomain (tcbs s u)"
    "\<And>u. tcbPriority (tcbs s' u) = tcbPriority (tcbs s u)"
  shows "best_current s' = best_current s"
  using assms by (simp add: best_current_def queued_def)

lemma activateThread_runs:
  assumes "ksCurThread s \<noteq> NULL"
    "tsType (tcbState (tcbs s (ksCurThread s))) \<in> {ThreadState_Running, ThreadState_Restart, ThreadState_IdleThreadState}"
  shows "\<exists>s'. activateThread s = Some s' \<and> ksCurThread s' = ksCurThread s \<and> tcbYieldTo (tcbs s' (ksCurThread s)) = NULL
    \<and> tsType (tcbState (tcbs s' (ksCurThread s))) \<in> {ThreadState_Running, ThreadState_IdleThreadState}
    \<and> best_current s' = best_current s"
proof -
  let ?t = "ksCurThread s"
  define s1 where "s1 = (if tcbYieldTo (tcbs s ?t) \<noteq> NULL then schedContext_completeYieldTo ?t s else s)"
  have s1: "ksCurThread s1 = ?t" "tcbYieldTo (tcbs s1 ?t) = NULL" "tcbState (tcbs s1 ?t) = tcbState (tcbs s ?t)"
    using completeYieldTo_facts [OF assms(1)] by (simp_all add: s1_def)
  define s2 where "s2 = setThreadState ?t ThreadState_Running (setNextPC ?t (getRestartPC ?t s1) s1)"
  have b1: "best_current s1 = best_current s"
    using completeYieldTo_facts [OF assms(1), of s] unfolding s1_def by (intro best_current_cong) simp_all
  have b2: "best_current s2 = best_current s1" unfolding s2_def
    by (intro best_current_cong) (auto simp: setThreadState_def scheduleTCB_def upd_ts_def setNextPC_def setRegister_def)
  have "activateThread s = Some (if tsType (tcbState (tcbs s1 ?t)) = ThreadState_Restart then s2 else s1)"
    using assms(2) s1(1,3) unfolding activateThread_def s1_def [symmetric] s2_def by (auto simp: Let_def setNextPC_def)
  moreover have "ksCurThread s2 = ?t" "tcbYieldTo (tcbs s2 ?t) = NULL" "tsType (tcbState (tcbs s2 ?t)) = ThreadState_Running"
    using s1 by (auto simp: s2_def setThreadState_def scheduleTCB_def upd_ts_def setNextPC_def setRegister_def)
  ultimately show ?thesis using assms(2) s1 b1 b2 by auto
qed

section \<open>Choosing a thread always succeeds\<close>

text \<open>
  \<open>able u s\<close>: thread \<open>u\<close> can run and its scheduling context has refills. \<open>known u s\<close>: the scheduler has a reference to
  it, from a ready queue, the release queue or as the candidate. \<open>core_eq s s'\<close>: what decides whether threads can run is the same.
\<close>

definition able :: "ptr \<Rightarrow> kstate \<Rightarrow> bool" where
  "able u s \<longleftrightarrow> isRunnable u s \<and> sc_active (tcbSchedContext (tcbs s u)) s"

definition candidate :: "ptr \<Rightarrow> kstate \<Rightarrow> bool" where
  "candidate u s \<longleftrightarrow> ksSchedulerAction s = u \<and> u \<noteq> SchedulerAction_ResumeCurrentThread \<and> u \<noteq> SchedulerAction_ChooseNewThread"

definition known :: "ptr \<Rightarrow> kstate \<Rightarrow> bool" where
  "known u s \<longleftrightarrow> tcbQueued (tcbState (tcbs s u)) \<or> tcbInReleaseQueue (tcbState (tcbs s u)) \<or> candidate u s"

definition core_eq :: "kstate \<Rightarrow> kstate \<Rightarrow> bool" where
  "core_eq s s' \<longleftrightarrow> (\<forall>u. tsType (tcbState (tcbs s' u)) = tsType (tcbState (tcbs s u)) \<and> tcbSchedContext (tcbs s' u) = tcbSchedContext (tcbs s u))
     \<and> scs s' = scs s \<and> refills s' = refills s \<and> plat s' = plat s \<and> ksIdleThread s' = ksIdleThread s \<and> ksCurSC s' = ksCurSC s"

lemma core_eq_refl [simp]: "core_eq s s"
  by (simp add: core_eq_def)

lemma core_eq_trans [trans]: "core_eq s s' \<Longrightarrow> core_eq s' s'' \<Longrightarrow> core_eq s s''"
  by (simp add: core_eq_def)

lemma core_eq_core: "sched_core s s' \<Longrightarrow> core_eq s s'"
  by (simp add: core_eq_def sched_coreD)

lemma able_core: "core_eq s s' \<Longrightarrow> able u s' = able u s"
  by (simp add: core_eq_def able_def isRunnable_def sc_active_def)

lemma schedulable_able: "isSchedulable u s \<Longrightarrow> able u s \<and> \<not> tcbInReleaseQueue (tcbState (tcbs s u))"
  by (auto simp: isSchedulable_def able_def)

lemma chooseThread_current:
  assumes "valid_sched Q R s" "ksCurDomain s < numDomains s"
  shows "core_eq s (chooseThread s)" "ksCurThread (chooseThread s) = ksIdleThread s \<or> tcbQueued (tcbState (tcbs s (ksCurThread (chooseThread s))))"
proof -
  show "core_eq s (chooseThread s)" using core_eq_core [OF chooseThread_core, of s] by (simp add: core_eq_def)
  show "ksCurThread (chooseThread s) = ksIdleThread s \<or> tcbQueued (tcbState (tcbs s (ksCurThread (chooseThread s))))"
    using chooseThread_best(2) [OF assms] by (auto simp: runs_best_def queued_def split: if_splits)
qed

lemma scheduleChooseNewThread_current:
  assumes v: "valid_sched Q R s" and d: "valid_dom_schedule s"
  defines "s' \<equiv> scheduleChooseNewThread s"
  shows "core_eq s s'" "ksCurThread s' = ksIdleThread s \<or> tcbQueued (tcbState (tcbs s (ksCurThread s')))"
proof -
  define s0 where "s0 = (if ksDomainTime s = 0 then nextDomain s else s)"
  have s': "s' = chooseThread s0" by (simp add: s'_def s0_def scheduleChooseNewThread_def)
  have e: "core_eq s s0" by (simp add: s0_def core_eq_def nextDomain_def Let_def)
  have "valid_sched Q R s0" "ksCurDomain s0 < numDomains s0" "tcbs s0 = tcbs s"
    using v valid_nextDomain d nextDomain_valid(1) [OF d] by (auto simp: s0_def valid_dom_schedule_def)
  note c = chooseThread_current [OF this(1,2), folded s']
  show "core_eq s s'" using core_eq_trans [OF e c(1)] .
  show "ksCurThread s' = ksIdleThread s \<or> tcbQueued (tcbState (tcbs s (ksCurThread s')))"
    using c(2) e \<open>tcbs s0 = tcbs s\<close> by (simp add: core_eq_def)
qed

lemma possibleSwitchTo_known:
  assumes "\<And>v. candidate v s \<Longrightarrow> \<not> tcbInReleaseQueue (tcbState (tcbs s v))" "known u (possibleSwitchTo t s)" "t \<noteq> NULL"
  shows "u = t \<or> known u s"
  using assms
  by (auto simp: known_def candidate_def possibleSwitchTo_def state_ops reschedule_state action_codes split: if_splits)

lemma possibleSwitchTo_candidate:
  assumes "\<And>v. candidate v s \<Longrightarrow> \<not> tcbInReleaseQueue (tcbState (tcbs s v))" "candidate v (possibleSwitchTo t s)"
  shows "\<not> tcbInReleaseQueue (tcbState (tcbs (possibleSwitchTo t s) v))"
  using assms by (auto simp: candidate_def possibleSwitchTo_def state_ops reschedule_state action_codes split: if_splits)

text \<open>The candidate is not waiting for its release.\<close>

definition cand_ok :: "kstate \<Rightarrow> bool" where
  "cand_ok s \<longleftrightarrow> (\<forall>v. candidate v s \<longrightarrow> \<not> tcbInReleaseQueue (tcbState (tcbs s v)))"

lemma awaken_known:
  assumes "awaken s = Some s'"
  shows "valid_sched Q R s \<Longrightarrow> cand_ok s \<Longrightarrow> cand_ok s' \<and> (known u s' \<longrightarrow> known u s)"
proof (induction arbitrary: Q R rule: awaken.raw_induct [OF _ assms])
  case (1 f s s')
  show ?case
  proof (cases "release_q_non_empty_and_ready s")
    case False
    then show ?thesis using 1 by simp
  next
    case True
    let ?t = "head (ksReleaseQueue s)"
    let ?s1 = "tcbReleaseRemove ?t s"
    have t: "?t \<noteq> NULL" using True by (simp add: release_q_non_empty_and_ready_def)
    have "R \<noteq> []" "hd R = ?t" using dlist_head [OF valid_schedD(5) [OF 1(3)]] t by (auto split: list.splits)
    then have "?t \<in> set R" by (metis list.set_sel(1))
    then have r: "tcbInReleaseQueue (tcbState (tcbs s ?t))" using valid_schedD(7) [OF 1(3)] by blast
    obtain Q' where v: "valid_sched Q' (remove1 ?t R) (possibleSwitchTo ?t ?s1)"
      using possibleSwitchTo_valid [OF tcbReleaseRemove_valid [OF 1(3)] t] by blast
    have c1: "cand_ok ?s1" using 1(4) by (auto simp: cand_ok_def candidate_def state_ops)
    then have c2: "cand_ok (possibleSwitchTo ?t ?s1)" using possibleSwitchTo_candidate unfolding cand_ok_def by blast
    have k1: "known u ?s1 \<Longrightarrow> known u s" by (auto simp: known_def candidate_def state_ops split: if_splits)
    have k2: "known u (possibleSwitchTo ?t ?s1) \<Longrightarrow> known u s"
      using possibleSwitchTo_known [OF _ _ t, of ?s1 u] c1 k1 r unfolding cand_ok_def by (auto simp: known_def)
    have "f (possibleSwitchTo ?t ?s1) = Some s'" using 1(2) True by (simp add: tcbReleaseDequeue_def Let_def)
    then show ?thesis using 1(1) [OF _ v c2] k2 by blast
  qed
qed

lemma schedule_action_current:
  assumes v: "valid_sched Q R s" and d: "valid_dom_schedule s" and cur: "ksCurThread s \<noteq> NULL" and idle: "ksIdleThread s \<noteq> NULL"
    and k: "\<And>u. known u s \<Longrightarrow> able u s" and c: "cand_ok s"
  defines "s' \<equiv> schedule_action s"
  shows "core_eq s s' \<and> ksCurThread s' \<noteq> NULL
    \<and> (ksCurThread s' = ksIdleThread s \<or> able (ksCurThread s') s
       \<or> ksSchedulerAction s = SchedulerAction_ResumeCurrentThread \<and> ksCurThread s' = ksCurThread s)
    \<and> (ksSchedulerAction s = SchedulerAction_ChooseNewThread \<longrightarrow> best_current s')"
proof (cases "ksSchedulerAction s = SchedulerAction_ResumeCurrentThread")
  case True
  then show ?thesis using cur by (simp add: s'_def schedule_action_def action_codes)
next
  case False
  let ?run = "isSchedulable (ksCurThread s) s" and ?c = "ksSchedulerAction s"
  define s1 where "s1 = (if ?run then tcbSchedEnqueue (ksCurThread s) s else s)"
  have core1: "sched_core s s1" by (simp add: s1_def)
  have "\<exists>Q1. valid_sched Q1 R s1"
    using tcbSchedEnqueue_valid [OF v cur _ refl refl] v by (auto simp: s1_def isSchedulable_def)
  then obtain Q1 where v1: "valid_sched Q1 R s1" by blast
  have d1: "valid_dom_schedule s1" using d valid_dom_core [OF core1] by simp
  have q1: "tcbQueued (tcbState (tcbs s1 u)) \<Longrightarrow> able u s" for u
    using k schedulable_able by (auto simp: s1_def state_ops known_def split: if_splits)
  have choose: "core_eq s (scheduleChooseNewThread s2) \<and> ksCurThread (scheduleChooseNewThread s2) \<noteq> NULL
      \<and> (ksCurThread (scheduleChooseNewThread s2) = ksIdleThread s \<or> able (ksCurThread (scheduleChooseNewThread s2)) s)"
    if s2: "valid_sched Q2 R s2" "valid_dom_schedule s2" "core_eq s s2" "\<And>u. tcbQueued (tcbState (tcbs s2 u)) \<Longrightarrow> able u s" for Q2 s2
  proof -
    note n = scheduleChooseNewThread_current [OF s2(1,2)]
    have "u \<noteq> NULL" if "tcbQueued (tcbState (tcbs s2 u))" for u
    proof -
      have "u \<in> set (Q2 (tcbDomain (tcbs s2 u)) (tcbPriority (tcbs s2 u)))" using valid_schedD(6) [OF s2(1)] that by blast
      then show ?thesis
        using dlist_not_NULL [OF valid_schedD(4) [OF s2(1) valid_schedD(2) [OF s2(1)] valid_schedD(3) [OF s2(1)]]] by blast
    qed
    then show ?thesis using core_eq_trans [OF s2(3) n(1)] n(2) s2(3,4) idle by (auto simp: core_eq_def)
  qed
  show ?thesis
  proof (cases "?c = SchedulerAction_ChooseNewThread")
    case True
    have "s' = scheduleChooseNewThread s1" using True by (simp add: s'_def schedule_action_def action_codes s1_def Let_def)
    then show ?thesis
      using choose [OF v1 d1 core_eq_core [OF core1] q1] scheduleChooseNewThread_best(3) [OF v1 d1] by blast
  next
    case Cand: False
    have cd: "candidate ?c s" using False Cand by (simp add: candidate_def)
    then have a: "able ?c s" "\<not> tcbInReleaseQueue (tcbState (tcbs s1 ?c))" "?c \<noteq> NULL"
      using k c False by (auto simp: known_def cand_ok_def s1_def state_ops action_codes)
    let ?choose = "\<lambda>s2. scheduleChooseNewThread (s2\<lparr>ksSchedulerAction := SchedulerAction_ChooseNewThread\<rparr>)"
    have alt: "core_eq s (?choose s2) \<and> ksCurThread (?choose s2) \<noteq> NULL \<and> (ksCurThread (?choose s2) = ksIdleThread s \<or> able (ksCurThread (?choose s2)) s)"
      if s2: "s2 = tcbSchedEnqueue ?c s1 \<or> s2 = tcbSchedAppend ?c s1" for s2
    proof -
      have c2: "sched_core s1 s2" using s2 by auto
      obtain Q2 where v2: "valid_sched Q2 R s2"
        using s2 tcbSchedEnqueue_valid [OF v1 a(3,2) refl refl] tcbSchedAppend_valid [OF v1 a(3,2) refl refl] by blast
      show ?thesis
      proof (rule choose)
        show "valid_sched Q2 R (s2\<lparr>ksSchedulerAction := SchedulerAction_ChooseNewThread\<rparr>)"
          by (rule valid_sched_cong [OF v2]) simp_all
        show "valid_dom_schedule (s2\<lparr>ksSchedulerAction := SchedulerAction_ChooseNewThread\<rparr>)"
          using d1 valid_dom_core [OF c2] by (simp add: valid_dom_schedule_def)
        show "core_eq s (s2\<lparr>ksSchedulerAction := SchedulerAction_ChooseNewThread\<rparr>)"
          using core_eq_core [OF sched_core_trans [OF core1 c2]] by (simp add: core_eq_def)
        show "able u s" if "tcbQueued (tcbState (tcbs (s2\<lparr>ksSchedulerAction := SchedulerAction_ChooseNewThread\<rparr>) u))" for u
          using that s2 q1 [of u] a(1) by (auto simp: state_ops split: if_splits)
      qed
    qed
    have sw: "core_eq s (switchToThread ?c s1) \<and> ksCurThread (switchToThread ?c s1) = ?c"
      using core_eq_core [OF sched_core_trans [OF core1 sched_core_ops(3) [of s1 ?c]]] by (simp add: switchToThread_eq core_eq_def)
    have "s' = ?choose (tcbSchedEnqueue ?c s1) \<or> s' = ?choose (tcbSchedAppend ?c s1) \<or> s' = switchToThread ?c s1"
      using False Cand by (auto simp: s'_def schedule_action_def s1_def Let_def)
    then show ?thesis using alt [of "tcbSchedEnqueue ?c s1"] alt [of "tcbSchedAppend ?c s1"] sw a Cand by auto
  qed
qed

text \<open>
  \<open>sc_ok\<close>: the refills of a scheduling context are usable: a round-robin context, or a ring of good refills worth at least the
  minimum budget. \<open>time_only s s'\<close>: the states differ only in refills, in scheduling contexts and in the accounting of time.
\<close>

definition sc_ok :: "ptr \<Rightarrow> kstate \<Rightarrow> bool" where
  "sc_ok sc s \<longleftrightarrow> isRoundRobin sc s \<or> (\<exists>rs. refill_queue sc rs s \<and> good_refills rs \<and> unat (MIN_BUDGET s) \<le> budget rs)"

definition time_only :: "kstate \<Rightarrow> kstate \<Rightarrow> bool" where
  "time_only s s' \<longleftrightarrow> (\<exists>S F c r. s' = s\<lparr>scs := S, refills := F, ksConsumed := c, ksReprogram := r\<rparr>)"

lemma time_only_refl [simp]: "time_only s s"
  unfolding time_only_def
  by (rule exI [of _ "scs s"], rule exI [of _ "refills s"], rule exI [of _ "ksConsumed s"], rule exI [of _ "ksReprogram s"]) simp

lemma time_only_trans [trans]: "time_only s s' \<Longrightarrow> time_only s' s'' \<Longrightarrow> time_only s s''"
  unfolding time_only_def by (elim exE) (hypsubst, simp, blast)

lemma time_only_steps [simp]:
  "time_only s (s\<lparr>ksReprogram := b\<rparr>)" "time_only s (s\<lparr>ksConsumed := c\<rparr>)" "time_only s (upd_sc sc f s)"
  "time_only s (upd_refill_head sc g s)" "time_only s (upd_refill_tail sc g s)"
  unfolding time_only_def upd_sc_def upd_refill_head_def upd_refill_tail_def upd_refill_def
      apply (rule exI [of _ "scs s"], rule exI [of _ "refills s"], rule exI [of _ "ksConsumed s"], rule exI [of _ b], simp)
     apply (rule exI [of _ "scs s"], rule exI [of _ "refills s"], rule exI [of _ c], rule exI [of _ "ksReprogram s"], simp)
    apply (rule exI, rule exI [of _ "refills s"], rule exI [of _ "ksConsumed s"], rule exI [of _ "ksReprogram s"], simp)
   apply (rule exI [of _ "scs s"], rule exI, rule exI [of _ "ksConsumed s"], rule exI [of _ "ksReprogram s"], simp)
  apply (rule exI [of _ "scs s"], rule exI, rule exI [of _ "ksConsumed s"], rule exI [of _ "ksReprogram s"], simp)
  done

lemma time_only_frame: "refill_frame sc s s' \<Longrightarrow> time_only s s'"
  unfolding refill_frame_def time_only_def
  by (elim exE, rule exI, rule exI, rule exI [of _ "ksConsumed s"], rule exI [of _ "ksReprogram s"]) simp

lemma time_only_fields:
  assumes "time_only s s'"
  shows "tcbs s' = tcbs s" "ksCurThread s' = ksCurThread s" "ksCurSC s' = ksCurSC s" "plat s' = plat s" "ksIdleThread s' = ksIdleThread s"
    "ksCurDomain s' = ksCurDomain s" "ksIdleSC s' = ksIdleSC s"
  using assms unfolding time_only_def by auto

lemma rslot_cong: "scs s' sc = scs s sc \<Longrightarrow> rslot sc s' = rslot sc s"
  by (simp add: rslot_def fun_eq_iff)

lemma sc_ok_cong:
  assumes "scs s' sc = scs s sc" "refills s' sc = refills s sc" "plat s' = plat s"
  shows "sc_ok sc s' = sc_ok sc s"
  using assms rslot_cong [OF assms(1)] by (simp add: sc_ok_def isRoundRobin_def refill_queue_def MIN_BUDGET_def)

lemma refill_unblock_check_returns:
  assumes "sc_ok sc s"
  shows "\<exists>s' b. refill_unblock_check sc s = Some s' \<and> refill_frame sc (s\<lparr>ksReprogram := b\<rparr>) s'"
proof (cases "isRoundRobin sc s \<or> \<not> refill_ready sc s")
  case True
  then have "refill_unblock_check sc s = Some s" by (auto simp: refill_unblock_check_def)
  moreover have "s\<lparr>ksReprogram := ksReprogram s\<rparr> = s" by simp
  ultimately show ?thesis using refill_frame_refl [of sc s] by metis
next
  case False
  then obtain rs where rs: "refill_queue sc rs s" "good_refills rs" using assms by (auto simp: sc_ok_def)
  obtain r rs1 where r: "rs = r # rs1" using rs(2) by (cases rs) (auto simp: good_refills_def)
  let ?s = "(upd_refill_head sc (rTime_update (\<lambda>_. ksCurTime s)) s)\<lparr>ksReprogram := True\<rparr>"
  have "refill_queue sc (r\<lparr>rTime := ksCurTime s\<rparr> # rs1) ?s"
    using refill_queue_upd_head [OF rs(1) [unfolded r], of "rTime_update (\<lambda>_. ksCurTime s)"]
    by (simp add: refill_queue_def rslot_def)
  moreover have "good_refills (r\<lparr>rTime := ksCurTime s\<rparr> # rs1)" using rs(2) by (simp add: r good_refills_def)
  ultimately obtain s' where s': "merge_overlapping_loop sc ?s = Some s'" "refill_frame sc ?s s'"
    using merge_overlapping_total by blast
  have "?s = upd_refill_head sc (rTime_update (\<lambda>_. ksCurTime s)) (s\<lparr>ksReprogram := True\<rparr>)"
    by (simp add: upd_refill_head_def upd_refill_def)
  then have "refill_frame sc (s\<lparr>ksReprogram := True\<rparr>) ?s" by simp
  then show ?thesis using s'(1) False refill_frame_trans [OF _ s'(2)] by (auto simp: refill_unblock_check_def Let_def)
qed

lemma commitTime_returns:
  assumes "sc_active (ksCurSC s) s \<Longrightarrow> sc_ok (ksCurSC s) s"
  shows "\<exists>s'. commitTime s = Some s' \<and> time_only s s'"
proof -
  let ?sc = "ksCurSC s"
  have b: "\<exists>s'. refill_budget_check (ksConsumed s) s = Some s' \<and> time_only s s'" if a: "sc_active ?sc s" "\<not> isRoundRobin ?sc s"
  proof -
    obtain rs where rs: "refill_queue ?sc rs s" "good_refills rs" "unat (MIN_BUDGET s) \<le> budget rs"
      using assms [OF a(1)] a(2) by (auto simp: sc_ok_def)
    then show ?thesis using refill_budget_check_total [OF rs, of "ksConsumed s"] time_only_frame by blast
  qed
  let ?rr = "upd_refill_tail ?sc (rAmount_update (\<lambda>a. a + ksConsumed s)) (upd_refill_head ?sc (rAmount_update (\<lambda>a. a - ksConsumed s)) s)"
  have h: "ksConsumed (upd_refill_head ?sc g s) = ksConsumed s" for g by (simp add: upd_refill_head_def upd_refill_def)
  have rr: "time_only s ?rr" by (rule time_only_trans [OF time_only_steps(4,5)])
  define c where "c = (if ksConsumed s > 0
    then if isRoundRobin ?sc s then Some ?rr else refill_budget_check (ksConsumed s) s else Some s)"
  have c: "\<exists>s1. c = Some s1 \<and> time_only s s1" if "sc_active ?sc s"
    using b [OF that] rr by (auto simp: c_def)
  have e: "commitTime s = do { s \<leftarrow> (if sc_active ?sc s \<and> ?sc \<noteq> ksIdleSC s
      then do { s1 \<leftarrow> c; Some (upd_sc ?sc (scConsumed_update (\<lambda>x. x + ksConsumed s1)) s1) } else Some s); Some (s\<lparr>ksConsumed := 0\<rparr>) }"
    by (simp add: commitTime_def c_def Let_def h)
  show ?thesis
  proof (cases "sc_active ?sc s \<and> ?sc \<noteq> ksIdleSC s")
    case False
    then show ?thesis unfolding e if_not_P [OF False] by simp
  next
    case True
    obtain s1 where s1: "c = Some s1" "time_only s s1" using c True by blast
    have "time_only s ((upd_sc ?sc (scConsumed_update (\<lambda>x. x + ksConsumed s1)) s1)\<lparr>ksConsumed := 0\<rparr>)"
      by (rule time_only_trans [OF s1(2) time_only_trans [OF time_only_steps(3,2)]])
    then show ?thesis unfolding e if_P [OF True] s1(1) by simp
  qed
qed


lemma switchSchedContext_returns:
  assumes new: "ksCurSC s \<noteq> tcbSchedContext (tcbs s (ksCurThread s)) \<Longrightarrow> sc_ok (tcbSchedContext (tcbs s (ksCurThread s))) s"
    and old: "sc_active (ksCurSC s) s \<Longrightarrow> sc_ok (ksCurSC s) s"
  shows "\<exists>s' s2. switchSchedContext s = Some s' \<and> time_only s s2 \<and> s' = s2\<lparr>ksCurSC := ksCurSC s'\<rparr>"
proof -
  let ?sc = "tcbSchedContext (tcbs s (ksCurThread s))"
  define c where "c = (if ksCurSC s \<noteq> ?sc then let s = s\<lparr>ksReprogram := True\<rparr>
    in if sc_constant_bandwidth ?sc s then refill_unblock_check ?sc s else Some s else Some s)"
  have "\<exists>s1. c = Some s1 \<and> time_only s s1 \<and> (sc_active (ksCurSC s1) s1 \<longrightarrow> sc_ok (ksCurSC s1) s1)"
  proof (cases "ksCurSC s \<noteq> ?sc \<and> sc_constant_bandwidth ?sc s")
    case True
    let ?s = "s\<lparr>ksReprogram := True\<rparr>"
    have n: "sc_ok ?sc ?s" using new True sc_ok_cong [of ?s ?sc s] by simp
    obtain s1 b where s1: "refill_unblock_check ?sc ?s = Some s1" "refill_frame ?sc (?s\<lparr>ksReprogram := b\<rparr>) s1"
      using refill_unblock_check_returns [OF n] by blast
    have f: "ksCurSC s1 = ksCurSC s" "scs s1 (ksCurSC s) = scs s (ksCurSC s)" "refills s1 (ksCurSC s) = refills s (ksCurSC s)" "plat s1 = plat s"
      using s1(2) True by (auto simp: refill_frame_def)
    have "c = Some s1" using True s1(1) by (simp add: c_def sc_constant_bandwidth_def)
    moreover have "time_only s s1"
      by (rule time_only_trans [OF time_only_steps(1)]) (use time_only_frame [OF s1(2)] in simp)
    ultimately show ?thesis using f old sc_ok_cong [OF f(2,3,4)] by (simp add: sc_active_def)
  next
    case False
    have "sc_ok (ksCurSC s) (s\<lparr>ksReprogram := True\<rparr>) = sc_ok (ksCurSC s) s" by (rule sc_ok_cong) simp_all
    then show ?thesis using False old by (auto simp: c_def sc_constant_bandwidth_def sc_active_def)
  qed
  then obtain s1 where s1: "c = Some s1" "time_only s s1" "sc_active (ksCurSC s1) s1 \<Longrightarrow> sc_ok (ksCurSC s1) s1" by blast
  obtain s2 where s2: "(if ksReprogram s1 then commitTime s1 else Some s1) = Some s2" "time_only s1 s2"
    using commitTime_returns [OF s1(3)] by (cases "ksReprogram s1") auto
  have "switchSchedContext s = Some (s2\<lparr>ksCurSC := tcbSchedContext (tcbs s2 (ksCurThread s2))\<rparr>)"
    using s1(1) s2(1) unfolding switchSchedContext_def Let_def c_def by simp
  then show ?thesis using time_only_trans [OF s1(2) s2(2)] by auto
qed

lemma awaken_action:
  assumes "awaken s = Some s'"
  shows "(ksSchedulerAction s = SchedulerAction_ChooseNewThread \<longrightarrow> ksSchedulerAction s' = SchedulerAction_ChooseNewThread)
    \<and> (ksSchedulerAction s' = SchedulerAction_ResumeCurrentThread \<longrightarrow> ksSchedulerAction s = SchedulerAction_ResumeCurrentThread)"
proof (induction rule: awaken.raw_induct [OF _ assms])
  case (1 f s s')
  have "(ksSchedulerAction s = SchedulerAction_ChooseNewThread \<longrightarrow> ksSchedulerAction (possibleSwitchTo t s) = SchedulerAction_ChooseNewThread)
    \<and> (ksSchedulerAction (possibleSwitchTo t s) = SchedulerAction_ResumeCurrentThread \<longrightarrow> ksSchedulerAction s = SchedulerAction_ResumeCurrentThread)"
    if "t \<noteq> NULL" for s t
    using that by (auto simp: possibleSwitchTo_def reschedule_state action_codes)
  note ps = this [where s = "tcbReleaseRemove (head (ksReleaseQueue s)) s" and t = "head (ksReleaseQueue s)", unfolded action_ops]
  show ?case
  proof (cases "release_q_non_empty_and_ready s")
    case False
    then show ?thesis using 1 by simp
  next
    case True
    then have "f (possibleSwitchTo (head (ksReleaseQueue s)) (tcbReleaseRemove (head (ksReleaseQueue s)) s)) = Some s'"
      "head (ksReleaseQueue s) \<noteq> NULL" using 1(2) by (simp_all add: tcbReleaseDequeue_def Let_def release_q_non_empty_and_ready_def)
    then show ?thesis using 1(1) ps by blast
  qed
qed

text \<open>
  \<open>exit_ok\<close>: the invariants of the queues and of the domain schedule hold; every thread the scheduler knows can run, the
  candidate is not waiting for its release; active scheduling contexts have usable refills; the idle thread exists; and when no
  reschedule is asked for, the current thread can run.
\<close>

definition exit_ok :: "(word64 \<Rightarrow> word64 \<Rightarrow> ptr list) \<Rightarrow> ptr list \<Rightarrow> kstate \<Rightarrow> bool" where
  "exit_ok Q R s \<longleftrightarrow> valid_sched Q R s \<and> valid_dom_schedule s \<and> SchedulerAction_ChooseNewThread \<notin> set R
     \<and> ksCurThread s \<noteq> NULL \<and> (\<forall>u. known u s \<longrightarrow> able u s) \<and> cand_ok s \<and> (\<forall>sc. sc_active sc s \<longrightarrow> sc_ok sc s)
     \<and> ksIdleThread s \<noteq> NULL \<and> tsType (tcbState (tcbs s (ksIdleThread s))) = ThreadState_IdleThreadState
     \<and> sc_active (tcbSchedContext (tcbs s (ksIdleThread s))) s
     \<and> (ksSchedulerAction s = SchedulerAction_ResumeCurrentThread \<longrightarrow> able (ksCurThread s) s \<or> ksCurThread s = ksIdleThread s)"

lemma checkDomainTime_facts:
  assumes v: "valid_sched Q R s" and c: "cand_ok s"
  defines "s' \<equiv> checkDomainTime s"
  shows "sched_core s s'" "\<exists>Q'. valid_sched Q' R s'" "cand_ok s'" "known u s' \<Longrightarrow> known u s"
    "ksSchedulerAction s' = ksSchedulerAction s \<or> ksSchedulerAction s' = SchedulerAction_ChooseNewThread"
proof -
  let ?s = "s\<lparr>ksReprogram := True\<rparr>"
  have s': "s' = (if isCurDomainExpired s then rescheduleRequired ?s else s)" by (simp add: s'_def checkDomainTime_def)
  have "sched_core s ?s" by (simp add: sched_core_def erase_sched_def)
  then show "sched_core s s'" unfolding s' by (auto intro: sched_core_trans [OF _ sched_core_reschedule])
  have "valid_sched Q R ?s" by (rule valid_sched_cong [OF v]) simp_all
  then show "\<exists>Q'. valid_sched Q' R s'" unfolding s' using rescheduleRequired_valid v by auto
  show "cand_ok s'" using c by (auto simp: s' cand_ok_def candidate_def reschedule_state)
  show "known u s' \<Longrightarrow> known u s"
    by (auto simp: s' known_def candidate_def reschedule_state split: if_splits)
  show "ksSchedulerAction s' = ksSchedulerAction s \<or> ksSchedulerAction s' = SchedulerAction_ChooseNewThread"
    by (simp add: s' reschedule_state)
qed

lemma schedule_returns:
  assumes ok: "exit_ok Q R s"
  shows "\<exists>s'. schedule s = Some s' \<and> ksCurThread s' \<noteq> NULL
    \<and> tsType (tcbState (tcbs s' (ksCurThread s'))) \<in> {ThreadState_Running, ThreadState_Restart, ThreadState_IdleThreadState}
    \<and> (ksSchedulerAction s = SchedulerAction_ChooseNewThread \<longrightarrow> best_current s')"
proof -
  note O = ok [unfolded exit_ok_def]
  obtain s1 Q1 R1 where s1: "awaken s = Some s1" "valid_sched Q1 R1 s1" "sched_core s s1"
    using awaken_total [of Q R s "{}"] O by auto
  have k1: "cand_ok s1" "\<And>u. known u s1 \<Longrightarrow> known u s" using awaken_known [OF s1(1)] O by blast+
  define s2 where "s2 = checkDomainTime s1"
  note s2 = checkDomainTime_facts [OF s1(2) k1(1), folded s2_def]
  obtain Q2 where v2: "valid_sched Q2 R1 s2" using s2(2) by blast
  have core2: "sched_core s s2" using sched_core_trans [OF s1(3) s2(1)] .
  note E2 = core_eq_core [OF core2]
  define s3 where "s3 = schedule_action s2"
  have s3: "core_eq s2 s3 \<and> ksCurThread s3 \<noteq> NULL
    \<and> (ksCurThread s3 = ksIdleThread s2 \<or> able (ksCurThread s3) s2
       \<or> ksSchedulerAction s2 = SchedulerAction_ResumeCurrentThread \<and> ksCurThread s3 = ksCurThread s2)
    \<and> (ksSchedulerAction s2 = SchedulerAction_ChooseNewThread \<longrightarrow> best_current s3)"
    unfolding s3_def
  proof (rule schedule_action_current [OF v2])
    show "valid_dom_schedule s2" using O valid_dom_core [OF core2] by simp
    show "ksCurThread s2 \<noteq> NULL" "ksIdleThread s2 \<noteq> NULL" using O sched_coreD [OF core2] by simp_all
    show "able u s2" if "known u s2" for u using s2(4) [OF that] k1(2) O able_core [OF E2] by blast
    show "cand_ok s2" by (rule s2(3))
  qed
  have E3: "core_eq s s3" using core_eq_trans [OF E2] s3 by blast
  have act: "ksSchedulerAction s2 = SchedulerAction_ResumeCurrentThread \<Longrightarrow> ksSchedulerAction s = SchedulerAction_ResumeCurrentThread"
    "ksSchedulerAction s = SchedulerAction_ChooseNewThread \<Longrightarrow> ksSchedulerAction s2 = SchedulerAction_ChooseNewThread"
    using awaken_action [OF s1(1)] s2(5) by (auto simp: action_codes)
  have cur: "ksCurThread s3 = ksIdleThread s \<or> able (ksCurThread s3) s"
    using s3 act(1) O E2 able_core [OF E2] sched_coreD(5) [OF core2] by (auto simp: core_eq_def)
  have active: "sc_active (tcbSchedContext (tcbs s3 (ksCurThread s3))) s3"
    using cur O E3 by (auto simp: able_def core_eq_def sc_active_def)
  have okk: "sc_active sc s3 \<Longrightarrow> sc_ok sc s3" for sc
    using O E3 sc_ok_cong [of s3 sc s] by (auto simp: core_eq_def sc_active_def)
  let ?s3 = "s3\<lparr>ksSchedulerAction := SchedulerAction_ResumeCurrentThread\<rparr>"
  have a3: "sc_active sc ?s3 = sc_active sc s3" "sc_ok sc ?s3 = sc_ok sc s3" for sc
    using sc_ok_cong [of ?s3 sc s3] by (simp_all add: sc_active_def)
  obtain s4 s5 where s4: "switchSchedContext ?s3 = Some s4" "time_only ?s3 s5" "s4 = s5\<lparr>ksCurSC := ksCurSC s4\<rparr>"
    using switchSchedContext_returns [of ?s3] active okk a3 by auto
  have f4: "tcbs s4 = tcbs s3" "ksCurThread s4 = ksCurThread s3" "ksCurDomain s4 = ksCurDomain s3" "ksIdleThread s4 = ksIdleThread s3"
    using time_only_fields [OF s4(2)] arg_cong [OF s4(3), of tcbs] arg_cong [OF s4(3), of ksCurThread]
      arg_cong [OF s4(3), of ksCurDomain] arg_cong [OF s4(3), of ksIdleThread] by simp_all
  define s' where "s' = (if ksReprogram s4 then (setNextInterrupt s4)\<lparr>ksReprogram := False\<rparr> else s4)"
  have f: "tcbs s' = tcbs s3" "ksCurThread s' = ksCurThread s3" "ksCurDomain s' = ksCurDomain s3" "ksIdleThread s' = ksIdleThread s3"
    using f4 by (simp_all add: s'_def setNextInterrupt_def setDeadline_def Let_def)
  have "schedule s = Some s'" using s1(1) s4(1) by (simp add: schedule_def s2_def [symmetric] s3_def [symmetric] s'_def)
  moreover have "tsType (tcbState (tcbs s3 (ksCurThread s3))) \<in> {ThreadState_Running, ThreadState_Restart, ThreadState_IdleThreadState}"
    using cur O E3 by (auto simp: able_def isRunnable_def core_eq_def split: tstate.splits)
  moreover have "best_current s' = best_current s3" by (rule best_current_cong) (simp_all add: f)
  ultimately show ?thesis using s3 act(2) f by auto
qed

text \<open>
  C13. The kernel always finds a thread to run. In a state that satisfies the invariants, leaving the kernel returns, with a thread that is
  running or idle and has no yield pending; after a request to choose a new thread, no queued thread of the domain has a higher priority.
\<close>

theorem leave_kernel_runs_thread:
  assumes "exit_ok Q R s"
  shows "\<exists>s'. leave_kernel s = Some s'
    \<and> tsType (tcbState (tcbs s' (ksCurThread s'))) \<in> {ThreadState_Running, ThreadState_IdleThreadState}
    \<and> tcbYieldTo (tcbs s' (ksCurThread s')) = NULL
    \<and> (ksSchedulerAction s = SchedulerAction_ChooseNewThread \<longrightarrow> best_current s')"
proof -
  obtain s1 where s1: "schedule s = Some s1" "ksCurThread s1 \<noteq> NULL"
    "tsType (tcbState (tcbs s1 (ksCurThread s1))) \<in> {ThreadState_Running, ThreadState_Restart, ThreadState_IdleThreadState}"
    "ksSchedulerAction s = SchedulerAction_ChooseNewThread \<longrightarrow> best_current s1" using schedule_returns [OF assms] by blast
  obtain s' where s': "activateThread s1 = Some s'" "ksCurThread s' = ksCurThread s1" "tcbYieldTo (tcbs s' (ksCurThread s1)) = NULL"
    "tsType (tcbState (tcbs s' (ksCurThread s1))) \<in> {ThreadState_Running, ThreadState_IdleThreadState}"
    "best_current s' = best_current s1" using activateThread_runs [OF s1(2,3)] by blast
  show ?thesis using s1(1,4) s' by (simp add: leave_kernel_def)
qed

text \<open>A queued thread, an idle thread and a request to choose.\<close>

definition example_exit :: kstate where
  "example_exit = example_choose\<lparr>ksIdleThread := 4096, scs := \<lambda>_. sc0\<lparr>scRefillMax := 2\<rparr>,
     tcbs := \<lambda>t. (tcbs example_choose t)\<lparr>tcbSchedContext := 0x2000,
       tcbState := (tcbState (tcbs example_choose t))\<lparr>tsType := if t = 4096 then ThreadState_IdleThreadState else ThreadState_Running\<rparr>\<rparr>\<rparr>"

lemma example_exit_ok: "exit_ok ((\<lambda>_ _. [])(0 := (\<lambda>_. [])(0 := [example_tcb]))) [] example_exit"
proof -
  let ?Q = "(\<lambda>_ _. [])(0 := (\<lambda>_. [])(0 := [example_tcb]))"
  have v: "valid_sched ?Q [] example_exit"
    by (rule valid_sched_parts [OF example_choose_valid(1)]) (simp_all add: example_exit_def sched_part_def)
  have "tcbQueued (tcbState (tcbs example_exit u)) \<Longrightarrow> u = example_tcb" for u
    using valid_schedD(6) [OF v, of u "tcbDomain (tcbs example_exit u)" "tcbPriority (tcbs example_exit u)"]
    by (auto split: if_splits)
  moreover have "\<not> tcbInReleaseQueue (tcbState (tcbs example_exit u))" for u using valid_schedD(7) [OF v, of u] by simp
  moreover have "sc_active sc example_exit" "sc_ok sc example_exit" for sc
    by (simp_all add: example_exit_def sc_active_def sc_ok_def isRoundRobin_def sc0_def)
  moreover have "valid_dom_schedule example_exit"
    using example_choose_valid(2) by (simp add: valid_dom_schedule_def example_exit_def)
  moreover have "ksSchedulerAction example_exit = SchedulerAction_ChooseNewThread" "ksCurThread example_exit = 2048"
    "ksIdleThread example_exit = 4096" by (simp_all add: example_exit_def example_choose_def)
  moreover have "isRunnable example_tcb example_exit" "tsType (tcbState (tcbs example_exit 4096)) = ThreadState_IdleThreadState"
    by (simp_all add: isRunnable_def example_exit_def example_tcb_def)
  ultimately show ?thesis using v by (auto simp: exit_ok_def known_def able_def cand_ok_def candidate_def action_codes)
qed

theorem leave_kernel_runs_thread_witness: "\<exists>s'. leave_kernel example_exit = Some s' \<and> best_current s'"
proof -
  have "ksSchedulerAction example_exit = SchedulerAction_ChooseNewThread" by (simp add: example_exit_def example_choose_def)
  then show ?thesis using leave_kernel_runs_thread [OF example_exit_ok] by blast
qed

end
