(* ===== verification/BootMem.thy ===== *)
theory BootMem
  imports Untyped
begin

text \<open>
  Memory at boot: the code of \<^verbatim>\<open>src/kernel/kernel/boot.c\<close> from the table of reserved regions to the untyped capabilities of the
  initial thread, and the theory of reserved regions.

  The boot code keeps a sorted table of reserved physical regions and a table of free regions; the state \<open>bstate\<close> has them beside
  the kernel's own state. An array is a list of its fixed length. A region is a half-open interval, which may wrap around the end of the
  address space; \<open>rset\<close> is the set of its addresses. What the build generates (the available memory, the device frames of the kernel, the
  addresses of its image and static objects) is the record \<open>boot_config\<close>. The boot information page is an object of its own,
  \<open>bi_frame\<close>.

  Reserving a region keeps the table in order, without regions that touch, and the reserved memory is exactly the union of
  what was reserved.
\<close>


section \<open>Regions and the state of the boot code\<close>

record region =
  rstart :: word64
  rend :: word64

definition REG_EMPTY :: region where "REG_EMPTY = \<lparr>rstart = 0, rend = 0\<rparr>"

definition is_reg_empty :: "region \<Rightarrow> bool" where
  "is_reg_empty reg \<longleftrightarrow> rstart reg = rend reg"

definition paddr_to_pptr_reg :: "region \<Rightarrow> region" where
  "paddr_to_pptr_reg reg = \<lparr>rstart = ptrFromPAddr (rstart reg), rend = ptrFromPAddr (rend reg)\<rparr>"

definition pptr_to_paddr_reg :: "region \<Rightarrow> region" where
  "pptr_to_paddr_reg reg = \<lparr>rstart = addrFromPPtr (rstart reg), rend = addrFromPPtr (rend reg)\<rparr>"

record seL4_UntypedDesc =
  paddr :: word64
  sizeBits :: "8 word"
  isDevice :: bool

record seL4_BootInfo =
  extraLen :: word64
  nodeID :: word64
  numNodes :: word64
  numIOPTLevels :: word64
  ipcBuffer :: ptr
  empty :: region
  sharedFrames :: region
  userImageFrames :: region
  userImagePaging :: region
  ioSpaceCaps :: region
  extraBIPages :: region
  initThreadCNodeSizeBits :: word64
  initThreadDomain :: word64
  schedcontrol :: region
  untyped :: region
  untypedList :: "word64 \<Rightarrow> seL4_UntypedDesc"

record rootserver_mem =
  rs_cnode :: ptr
  rs_vspace :: ptr
  rs_asid_pool :: ptr
  rs_ipc_buf :: ptr
  rs_boot_info :: ptr
  rs_extra_bi :: ptr
  rs_tcb :: ptr
  rs_sc :: ptr
  rs_paging :: region

record kernel_frame =
  kf_paddr :: word64
  kf_pptr :: ptr
  kf_userAvailable :: bool

record boot_config =
  CONFIG_ROOT_CNODE_SIZE_BITS :: word64
  CONFIG_MAX_NUM_BOOTINFO_UNTYPED_CAPS :: word64
  CONFIG_PADDR_USER_DEVICE_TOP :: word64
  CONFIG_BOOT_THREAD_TIME_SLICE :: word64
  KERNEL_ELF_PADDR_BASE :: word64
  ki_boot_end :: ptr
  ki_end :: ptr
  idle_thread :: ptr
  ksIdleThreadTCB :: ptr
  ksIdleThreadSC :: ptr
  kernel_image_level1_pt :: ptr
  kernel_image_level1_dev_pt :: ptr
  avail_p_regs :: "region list"
  kernel_device_frames :: "kernel_frame list"

record bstate =
  cfg :: boot_config
  ks :: kstate
  reserved :: "region list"
  resv_count :: nat
  freemem :: "region list"
  bi_frame :: seL4_BootInfo
  slot_pos_cur :: word64
  rootserver :: rootserver_mem
  rootserver_mem :: region

definition MAX_NUM_FREEMEM_REG :: nat where "MAX_NUM_FREEMEM_REG = 16"
definition NUM_RESERVED_REGIONS :: nat where "NUM_RESERVED_REGIONS = 3"

definition MAX_NUM_RESV_REG :: "boot_config \<Rightarrow> nat" where
  "MAX_NUM_RESV_REG c = MAX_NUM_FREEMEM_REG + length (kernel_device_frames c) + NUM_RESERVED_REGIONS"

section \<open>Reserved regions\<close>

text \<open>The arrays are lists of their fixed length, beside the number of entries in use.\<close>

type_synonym regions = "region list \<times> nat"

function move_down :: "nat \<Rightarrow> nat \<Rightarrow> region list \<Rightarrow> region list" where
  "move_down j n xs = (if j < n then move_down (j + 1) n (xs[j - 1 := xs ! j]) else xs)"
  by pat_completeness auto
termination by (relation "measure (\<lambda>(j, n, xs). n - j)") auto

declare move_down.simps [simp del]

fun move_up :: "nat \<Rightarrow> nat \<Rightarrow> region list \<Rightarrow> region list" where
  "move_up i j xs = (if i < j then move_up i (j - 1) (xs[j := xs ! (j - 1)]) else xs)"

declare move_up.simps [simp del]

function merge_regions_loop :: "nat \<Rightarrow> regions \<Rightarrow> regions" where
  "merge_regions_loop i (xs, n) =
     (if i < n then
        if rend (xs ! (i - 1)) = rstart (xs ! i)
        then merge_regions_loop i
          (move_down (i + 1) n (xs[i - 1 := (xs ! (i - 1))\<lparr>rend := rend (xs ! i)\<rparr>]), n - 1)
        else merge_regions_loop (i + 1) (xs, n)
      else (xs, n))"
  by pat_completeness auto
termination by (relation "measure (\<lambda>(i, xs, n). n - i)") auto

declare merge_regions_loop.simps [simp del]

function reserve_region_loop :: "nat \<Rightarrow> nat \<Rightarrow> region \<Rightarrow> regions \<Rightarrow> bool \<times> regions" where
  "reserve_region_loop limit i reg (xs, n) =
     (if i < n then
        if rstart (xs ! i) = rend reg
        then (True, merge_regions_loop 1 (xs[i := (xs ! i)\<lparr>rstart := rstart reg\<rparr>], n))
        else if rend (xs ! i) = rstart reg
        then (True, merge_regions_loop 1 (xs[i := (xs ! i)\<lparr>rend := rend reg\<rparr>], n))
        else if rstart (xs ! i) > rend reg
        then if n + 1 \<ge> limit then (False, xs, n)
             else (True, (move_up i n xs)[i := reg], n + 1)
        else reserve_region_loop limit (i + 1) reg (xs, n)
      else if i + 1 = limit then (False, xs, n)
      else (True, xs[i := reg], n + 1))"
  by pat_completeness auto
termination by (relation "measure (\<lambda>(limit, i, reg, xs, n). n - i)") auto

declare reserve_region_loop.simps [simp del]

definition reserve_region :: "region \<Rightarrow> bstate \<Rightarrow> bool \<times> bstate" where
  "reserve_region reg b =
     (if rstart reg = rend reg then (True, b)
      else let (r, xs, n) = reserve_region_loop (MAX_NUM_RESV_REG (cfg b)) 0 reg (reserved b, resv_count b)
           in (r, b\<lparr>reserved := xs, resv_count := n\<rparr>))"

section \<open>Free regions\<close>

text \<open>The loop ends at the first empty entry. The result of reserving the region is not looked at.\<close>

function insert_region_loop :: "nat \<Rightarrow> region \<Rightarrow> bstate \<Rightarrow> bool \<times> bstate" where
  "insert_region_loop i reg b =
     (if i < length (freemem b) then
        if is_reg_empty (freemem b ! i)
        then let (_, b) = reserve_region (pptr_to_paddr_reg reg) b
             in (True, b\<lparr>freemem := (freemem b)[i := reg]\<rparr>)
        else insert_region_loop (i + 1) reg b
      else (False, b))"
  by pat_completeness auto
termination by (relation "measure (\<lambda>(i, reg, b). length (freemem b) - i)") auto

declare insert_region_loop.simps [simp del]

definition insert_region :: "region \<Rightarrow> bstate \<Rightarrow> bool \<times> bstate" where
  "insert_region reg b = (if is_reg_empty reg then (True, b) else insert_region_loop 0 reg b)"

section \<open>Objects of the initial thread\<close>

definition IT_ASID :: word64 where "IT_ASID = 1"
definition seL4_BootInfoFrameBits :: word64 where "seL4_BootInfoFrameBits = seL4_PageBits"
definition seL4_VSpaceBits :: word64 where "seL4_VSpaceBits = 12"

definition get_n_paging :: "region \<Rightarrow> word64 \<Rightarrow> word64" where
  "get_n_paging v_reg bits =
     (let start = ROUND_DOWN (rstart v_reg) bits; en = ROUND_UP (rend v_reg) bits
      in (en - start) div BIT bits)"

definition arch_get_n_paging :: "region \<Rightarrow> word64" where
  "arch_get_n_paging it_v_reg =
     fold (\<lambda>i n. n + get_n_paging it_v_reg (RISCV_GET_LVL_PGSIZE_BITS (of_nat i))) [0..<unat (CONFIG_PT_LEVELS - 1)] 0"

definition alloc_rootserver_obj :: "word64 \<Rightarrow> word64 \<Rightarrow> bstate \<Rightarrow> ptr \<times> bstate" where
  "alloc_rootserver_obj size_bits n b =
     (let allocated = rstart (rootserver_mem b);
          b = b\<lparr>rootserver_mem := (rootserver_mem b)\<lparr>rstart := allocated + n * BIT size_bits\<rparr>\<rparr>;
          b = b\<lparr>ks := fold (\<lambda>i. clearMemory (allocated + of_nat i * BIT size_bits) size_bits) [0..<unat n] (ks b)\<rparr>
      in (allocated, b))"

definition rootserver_max_size_bits :: "boot_config \<Rightarrow> word64 \<Rightarrow> word64" where
  "rootserver_max_size_bits c extra_bi_size_bits =
     max (max (CONFIG_ROOT_CNODE_SIZE_BITS c + seL4_SlotBits) seL4_VSpaceBits) extra_bi_size_bits"

definition calculate_rootserver_size :: "boot_config \<Rightarrow> region \<Rightarrow> word64 \<Rightarrow> word64" where
  "calculate_rootserver_size c it_v_reg extra_bi_size_bits =
     (let size = BIT (CONFIG_ROOT_CNODE_SIZE_BITS c + seL4_SlotBits);
          size = size + BIT seL4_TCBBits;
          size = size + BIT seL4_PageBits;
          size = size + BIT seL4_BootInfoFrameBits;
          size = size + BIT seL4_ASIDPoolBits;
          size = size + (if extra_bi_size_bits > 0 then BIT extra_bi_size_bits else 0);
          size = size + BIT seL4_VSpaceBits;
          size = size + BIT seL4_MinSchedContextBits
      in size + arch_get_n_paging it_v_reg * BIT seL4_PageTableBits)"

definition maybe_alloc_extra_bi :: "word64 \<Rightarrow> word64 \<Rightarrow> bstate \<Rightarrow> bstate" where
  "maybe_alloc_extra_bi cmp_size_bits extra_bi_size_bits b =
     (if extra_bi_size_bits \<ge> cmp_size_bits \<and> rs_extra_bi (rootserver b) = 0
      then let (p, b) = alloc_rootserver_obj extra_bi_size_bits 1 b in b\<lparr>rootserver := (rootserver b)\<lparr>rs_extra_bi := p\<rparr>\<rparr>
      else b)"

text \<open>Allocating one object and storing its address.\<close>

definition alloc_into :: "(ptr \<Rightarrow> rootserver_mem \<Rightarrow> rootserver_mem) \<Rightarrow> word64 \<Rightarrow> bstate \<Rightarrow> bstate" where
  "alloc_into f size_bits b = (let (p, b) = alloc_rootserver_obj size_bits 1 b in b\<lparr>rootserver := f p (rootserver b)\<rparr>)"

definition create_rootserver_objects :: "ptr \<Rightarrow> region \<Rightarrow> word64 \<Rightarrow> bstate \<Rightarrow> bstate" where
  "create_rootserver_objects start it_v_reg extra_bi_size_bits b =
     (let cnode_size_bits = CONFIG_ROOT_CNODE_SIZE_BITS (cfg b) + seL4_SlotBits;
          mx = rootserver_max_size_bits (cfg b) extra_bi_size_bits;
          size = calculate_rootserver_size (cfg b) it_v_reg extra_bi_size_bits;
          b = b\<lparr>rootserver_mem := \<lparr>rstart = start, rend = start + size\<rparr>\<rparr>;
          b = maybe_alloc_extra_bi mx extra_bi_size_bits b;
          b = (if cnode_size_bits > seL4_VSpaceBits
               then alloc_into (\<lambda>p. rs_vspace_update (\<lambda>_. p)) seL4_VSpaceBits
                 (maybe_alloc_extra_bi seL4_VSpaceBits extra_bi_size_bits
                   (alloc_into (\<lambda>p. rs_cnode_update (\<lambda>_. p)) cnode_size_bits b))
               else alloc_into (\<lambda>p. rs_cnode_update (\<lambda>_. p)) cnode_size_bits
                 (maybe_alloc_extra_bi cnode_size_bits extra_bi_size_bits
                   (alloc_into (\<lambda>p. rs_vspace_update (\<lambda>_. p)) seL4_VSpaceBits b)));
          b = maybe_alloc_extra_bi seL4_PageBits extra_bi_size_bits b;
          b = alloc_into (\<lambda>p. rs_asid_pool_update (\<lambda>_. p)) seL4_ASIDPoolBits b;
          b = alloc_into (\<lambda>p. rs_ipc_buf_update (\<lambda>_. p)) seL4_PageBits b;
          b = alloc_into (\<lambda>p. rs_boot_info_update (\<lambda>_. p)) seL4_BootInfoFrameBits b;
          n = arch_get_n_paging it_v_reg;
          (p, b) = alloc_rootserver_obj seL4_PageTableBits n b;
          b = b\<lparr>rootserver := (rootserver b)\<lparr>rs_paging := \<lparr>rstart = p, rend = p + n * BIT seL4_PageTableBits\<rparr>\<rparr>\<rparr>;
          b = alloc_into (\<lambda>p. rs_tcb_update (\<lambda>_. p)) seL4_TCBBits b
      in alloc_into (\<lambda>p. rs_sc_update (\<lambda>_. p)) seL4_MinSchedContextBits b)"

section \<open>Finding free memory\<close>

definition PPTR_TOP :: word64 where "PPTR_TOP = 0xFFFFFFFF80000000"
definition PADDR_TOP :: word64 where "PADDR_TOP = PPTR_TOP - PPTR_BASE_OFFSET"

definition ceiling_kernel_window :: "ptr \<Rightarrow> ptr" where
  "ceiling_kernel_window p = (if addrFromPPtr p > PADDR_TOP then PPTR_TOP else p)"

text \<open>The loop over the available regions, with the end of the region before.\<close>

fun check_available_loop :: "word64 option \<Rightarrow> region list \<Rightarrow> bool" where
  "check_available_loop prev [] = True"
| "check_available_loop prev (r # rs) =
     (if rstart r > rend r then False
      else if rstart r = rend r then False
      else if (case prev of Some e \<Rightarrow> rstart r < e | None \<Rightarrow> False) then False
      else check_available_loop (Some (rend r)) rs)"

definition check_available_memory :: "region list \<Rightarrow> bool" where
  "check_available_memory available = (if available = [] then False else check_available_loop None available)"

fun check_reserved_loop :: "word64 option \<Rightarrow> region list \<Rightarrow> bool" where
  "check_reserved_loop prev [] = True"
| "check_reserved_loop prev (r # rs) =
     (if rstart r > rend r then False
      else if (case prev of Some e \<Rightarrow> rstart r < e | None \<Rightarrow> False) then False
      else check_reserved_loop (Some (rend r)) rs)"

definition check_reserved_memory :: "region list \<Rightarrow> bool" where
  "check_reserved_memory resv = check_reserved_loop None resv"

text \<open>
  The loop that cuts the reserved regions out of the available ones, on what is left of the two arrays; the region that is being cut
  is the first. It stops when one of them is used up.
\<close>

function init_freemem_loop :: "region list \<Rightarrow> region list \<Rightarrow> bstate \<Rightarrow> region list \<times> region list \<times> bstate" where
  "init_freemem_loop (a # av) (r # rs) b =
     (if rstart r = rend r then init_freemem_loop (a # av) rs b
      else if rstart a \<ge> rend a then init_freemem_loop av (r # rs) b
      else if rend r \<le> rstart a then init_freemem_loop (a # av) rs (snd (reserve_region (pptr_to_paddr_reg r) b))
      else if rstart r \<ge> rend a then init_freemem_loop av (r # rs) (snd (insert_region a b))
      else if rstart r \<le> rstart a then init_freemem_loop (a\<lparr>rstart := min (rend a) (rend r)\<rparr> # av) (r # rs) b
      else let b = snd (insert_region (a\<lparr>rend := rstart r\<rparr>) b)
           in if rend a > rend r then init_freemem_loop (a\<lparr>rstart := rend r\<rparr> # av) (r # rs) b
              else init_freemem_loop av (r # rs) b)"
| "init_freemem_loop [] rs b = ([], rs, b)"
| "init_freemem_loop (a # av) [] b = (a # av, [], b)"
  by pat_completeness auto
termination
proof (relation "(\<lambda>(av, rs, b). length av + length rs) <*mlex*> measure (\<lambda>(av, rs, b). case av of [] \<Rightarrow> 0 | a # _ \<Rightarrow> unat (rend a) - unat (rstart a))", goal_cases)
  case 1
  show ?case by (simp add: wf_mlex)
qed (auto intro: mlex_less mlex_leq simp: mlex_prod_def word_less_nat_alt word_le_nat_alt min_def)

definition init_freemem_rest :: "region list \<Rightarrow> region list \<Rightarrow> bstate \<Rightarrow> bstate" where
  "init_freemem_rest av rs b =
     (let b = fold (\<lambda>r b. if rstart r < rend r then snd (reserve_region (pptr_to_paddr_reg r) b) else b) rs b
      in fold (\<lambda>a b. if rstart a < rend a then snd (insert_region a b) else b) av b)"

text \<open>The loop that looks for a region for the objects of the initial thread, with the number of regions left to try.\<close>

primrec fit_rootserver_loop :: "nat \<Rightarrow> region \<Rightarrow> word64 \<Rightarrow> bstate \<Rightarrow> bool \<times> bstate" where
  "fit_rootserver_loop 0 it_v_reg extra_bi_size_bits b = (False, b)"
| "fit_rootserver_loop (Suc i) it_v_reg extra_bi_size_bits b =
     (let size = calculate_rootserver_size (cfg b) it_v_reg extra_bi_size_bits;
          mx = rootserver_max_size_bits (cfg b) extra_bi_size_bits;
          reg = freemem b ! i;
          unaligned_start = rend reg - size;
          start = ROUND_DOWN unaligned_start mx
      in if unaligned_start \<le> rend reg \<and> start \<ge> rstart reg
         then let b = create_rootserver_objects start it_v_reg extra_bi_size_bits b;
                  b = b\<lparr>freemem := (freemem b)[i + 1 := \<lparr>rstart = start + size, rend = rend reg\<rparr>]\<rparr>
              in (True, b\<lparr>freemem := (freemem b)[i := reg\<lparr>rend := start\<rparr>]\<rparr>)
         else fit_rootserver_loop i it_v_reg extra_bi_size_bits
                (b\<lparr>freemem := (freemem b)[i + 1 := reg, i := REG_EMPTY]\<rparr>))"

text \<open>The number of entries up to the last one in use.\<close>

primrec skip_empty :: "nat \<Rightarrow> region list \<Rightarrow> nat" where
  "skip_empty 0 xs = 0"
| "skip_empty (Suc i) xs = (if is_reg_empty (xs ! i) then skip_empty i xs else Suc i)"

definition init_freemem :: "region list \<Rightarrow> region list \<Rightarrow> region \<Rightarrow> word64 \<Rightarrow> bstate \<Rightarrow> bool \<times> bstate" where
  "init_freemem available resv it_v_reg extra_bi_size_bits b =
     (if \<not> check_available_memory available then (False, b)
      else if \<not> check_reserved_memory resv then (False, b)
      else let b = b\<lparr>freemem := map (\<lambda>_. REG_EMPTY) (freemem b)\<rparr>;
               avail_reg = map (\<lambda>r. let r = paddr_to_pptr_reg r
                  in \<lparr>rstart = ceiling_kernel_window (rstart r), rend = ceiling_kernel_window (rend r)\<rparr>) available;
               (av, rs, b) = init_freemem_loop avail_reg resv b;
               b = init_freemem_rest av rs b;
               i = length (freemem b) - 1
           in if \<not> is_reg_empty (freemem b ! i) then (False, b)
              else fit_rootserver_loop (skip_empty (i + 1) (freemem b)) it_v_reg extra_bi_size_bits b)"

section \<open>Capabilities for the initial thread\<close>

definition write_slot :: "ptr \<Rightarrow> cap \<Rightarrow> bstate \<Rightarrow> bstate" where
  "write_slot slot_ptr cap b =
     b\<lparr>ks := upd_cte slot_ptr (\<lambda>_. (nullMDBNode cap)\<lparr>mdbRevocable := True, mdbFirstBadged := True\<rparr>) (ks b)\<rparr>"

definition provide_cap :: "cap \<Rightarrow> cap \<Rightarrow> bstate \<Rightarrow> bool \<times> bstate" where
  "provide_cap root_cnode_cap cap b =
     (if slot_pos_cur b \<ge> BIT (CONFIG_ROOT_CNODE_SIZE_BITS (cfg b)) then (False, b)
      else let b = write_slot (cte_at (cap_get_capPtr root_cnode_cap) (slot_pos_cur b)) cap b
           in (True, b\<lparr>slot_pos_cur := slot_pos_cur b + 1\<rparr>))"

definition pptr_in_kernel_window :: "ptr \<Rightarrow> bool" where
  "pptr_in_kernel_window pptr \<longleftrightarrow> pptr \<ge> PPTR_BASE \<and> pptr < PPTR_TOP"

definition provide_untyped_cap :: "cap \<Rightarrow> bool \<Rightarrow> ptr \<Rightarrow> word64 \<Rightarrow> word64 \<Rightarrow> bstate \<Rightarrow> bool \<times> bstate" where
  "provide_untyped_cap root_cnode_cap device_memory pptr size_bits first_untyped_slot b =
     (if size_bits > seL4_MaxUntypedBits \<or> size_bits < seL4_MinUntypedBits then (False, b)
      else if \<not> IS_ALIGNED pptr size_bits then (False, b)
      else if \<not> device_memory \<and> \<not> pptr_in_kernel_window pptr then (False, b)
      else if \<not> device_memory \<and> \<not> pptr_in_kernel_window (pptr + MASK size_bits) then (False, b)
      else let i = slot_pos_cur b - first_untyped_slot
           in if i < CONFIG_MAX_NUM_BOOTINFO_UNTYPED_CAPS (cfg b)
              then let b = b\<lparr>bi_frame := (bi_frame b)\<lparr>untypedList := (untypedList (bi_frame b))
                          (i := \<lparr>paddr = addrFromPPtr pptr, sizeBits = ucast size_bits, isDevice = device_memory\<rparr>)\<rparr>\<rparr>
                   in provide_cap root_cnode_cap (UntypedCap (MAX_FREE_INDEX size_bits) device_memory size_bits pptr) b
              else (True, b))"

definition ctzl :: "word64 \<Rightarrow> word64" where
  "ctzl x = ucast (ctz64 x)"

text \<open>The size of the next untyped object: as large as the rest of the region and the alignment of its start allow.\<close>

definition untyped_size_bits :: "region \<Rightarrow> word64" where
  "untyped_size_bits reg =
     (let size_bits = 64 - 1 - clzl (rend reg - rstart reg);
          size_bits = (if size_bits > seL4_MaxUntypedBits then seL4_MaxUntypedBits else size_bits)
      in if rstart reg \<noteq> 0
         then let align_bits = ctzl (rstart reg) in if size_bits > align_bits then align_bits else size_bits
         else size_bits)"

lemma clzl_of_pos: assumes "x \<noteq> 0" shows "\<exists>k < 64. clzl x = of_nat (63 - k) \<and> 2 ^ k \<le> unat x \<and> unat x < 2 ^ (k + 1)"
proof -
  obtain k where k: "k < 64" "clz64 x = of_nat (63 - k)" "unat x div 2 ^ k = 1" using clz64_of_pos [OF assms] by blast
  have "unat (of_nat (63 - k) :: 32 word) = 63 - k" by (simp add: unat_of_nat take_bit_nat_eq_self)
  then have "clzl x = of_nat (63 - k)" unfolding clzl_def k(2) by (metis of_nat_unat)
  then show ?thesis using k(1) log_bound [OF k(3)] by blast
qed

lemma ctzl_of_pos: assumes "x \<noteq> 0" shows "\<exists>k < 64. ctzl x = of_nat k \<and> 2 ^ k dvd unat x \<and> odd (unat x div 2 ^ k)"
proof -
  obtain k where k: "k < 64" "ctz64 x = of_nat k" "2 ^ k dvd unat x" "odd (unat x div 2 ^ k)" using ctz64_of_pos [OF assms] by blast
  have "unat (of_nat k :: 32 word) = k" using k(1) by (simp add: unat_of_nat take_bit_nat_eq_self)
  then have "ctzl x = of_nat k" unfolding ctzl_def k(2) by (metis of_nat_unat)
  then show ?thesis using k by blast
qed

lemma of_nat_small_less: "(of_nat a :: word64) < of_nat b \<longleftrightarrow> a < b" if "a < 2 ^ 64" "b < 2 ^ 64"
  using that by (simp only: word_less_nat_alt unat_of_small)

lemma untyped_size:
  assumes "\<not> is_reg_empty reg"
  obtains k where "untyped_size_bits reg = of_nat k" "k \<le> 38" "2 ^ k \<le> unat (rend reg - rstart reg)" "2 ^ k dvd unat (rstart reg)"
    "k = 38 \<or> unat (rend reg - rstart reg) < 2 ^ (k + 1) \<or> \<not> 2 ^ (k + 1) dvd unat (rstart reg)"
proof -
  let ?n = "rend reg - rstart reg"
  have "?n \<noteq> 0" using assms by (simp add: is_reg_empty_def)
  then obtain j where j: "j < 64" "clzl ?n = of_nat (63 - j)" "2 ^ j \<le> unat ?n" "unat ?n < 2 ^ (j + 1)" using clzl_of_pos by blast
  have c: "64 - 1 - clzl ?n = of_nat j" using j(1,2) by (simp add: of_nat_diff)
  define m where "m = min j 38"
  have m: "(if 64 - 1 - clzl ?n > seL4_MaxUntypedBits then seL4_MaxUntypedBits else 64 - 1 - clzl ?n) = of_nat m"
    unfolding c seL4_MaxUntypedBits_def m_def using of_nat_small_less [of 38 j] j(1) by (auto simp: min_def)
  have mn: "(2::nat) ^ m \<le> unat ?n" using le_trans [OF power_increasing [of m j "2::nat"] j(3)] by (simp add: m_def)
  have mx: "m = 38 \<or> unat ?n < 2 ^ (m + 1)" using j(4) by (auto simp: m_def min_def)
  show thesis
  proof (cases "rstart reg = 0")
    case True
    then have "untyped_size_bits reg = of_nat m" unfolding untyped_size_bits_def Let_def m by simp
    then show thesis using that [of m] mn mx True by (simp add: m_def)
  next
    case False
    obtain l where l: "l < 64" "ctzl (rstart reg) = of_nat l" "2 ^ l dvd unat (rstart reg)" "odd (unat (rstart reg) div 2 ^ l)"
      using ctzl_of_pos [OF False] by blast
    have n: "\<not> 2 ^ (l + 1) dvd unat (rstart reg)"
    proof
      assume "2 ^ (l + 1) dvd unat (rstart reg)"
      then obtain q where "unat (rstart reg) = 2 ^ l * (2 * q)" by (auto simp: dvd_def)
      then have "unat (rstart reg) div 2 ^ l = 2 * q" by simp
      then show False using l(4) by simp
    qed
    have u: "untyped_size_bits reg = of_nat (min m l)"
      unfolding untyped_size_bits_def Let_def m l(2) using False of_nat_small_less [of l m] l(1) by (auto simp: min_def m_def)
    have "(2::nat) ^ min m l \<le> unat ?n" using le_trans [OF power_increasing [of "min m l" m "2::nat"] mn] by simp
    moreover have "(2::nat) ^ min m l dvd unat (rstart reg)" using l(3) by (meson dvd_trans le_imp_power_dvd min.cobounded2)
    ultimately show thesis using that [OF u] mx n by (auto simp: m_def min_def)
  qed
qed

lemma BIT_of_nat: "k < 64 \<Longrightarrow> BIT (of_nat k) = 2 ^ k" "k < 64 \<Longrightarrow> unat (BIT (of_nat k)) = 2 ^ k"
proof -
  assume "k < 64"
  then have "unat (of_nat k :: word64) = k" by (simp add: unat_of_small)
  then show "BIT (of_nat k) = 2 ^ k" by (simp add: BIT_def push_bit_eq_mult)
  show "unat (BIT (of_nat k)) = 2 ^ k" using \<open>k < 64\<close> \<open>unat (of_nat k :: word64) = k\<close> unat_BIT [of "of_nat k"]
    by (simp add: word_less_nat_alt)
qed

lemma untyped_step:
  assumes "\<not> is_reg_empty reg"
  shows "unat (rend reg - (rstart reg + BIT (untyped_size_bits reg))) = unat (rend reg - rstart reg) - 2 ^ unat (untyped_size_bits reg)"
    "2 ^ unat (untyped_size_bits reg) \<le> unat (rend reg - rstart reg)"
proof -
  obtain k where k: "untyped_size_bits reg = of_nat k" "k \<le> 38" "2 ^ k \<le> unat (rend reg - rstart reg)" using untyped_size [OF assms] .
  have u: "unat (of_nat k :: word64) = k" using k(2) by (simp add: unat_of_small)
  have b: "unat (BIT (of_nat k)) = 2 ^ k" using BIT_of_nat k(2) by simp
  have "unat (rend reg - rstart reg - BIT (of_nat k)) = unat (rend reg - rstart reg) - 2 ^ k"
    using k(3) b by (subst unat_sub_nowrap) (simp_all add: word_le_nat_alt)
  then show "unat (rend reg - (rstart reg + BIT (untyped_size_bits reg))) = unat (rend reg - rstart reg) - 2 ^ unat (untyped_size_bits reg)"
    unfolding k(1) u by (simp add: algebra_simps)
  show "2 ^ unat (untyped_size_bits reg) \<le> unat (rend reg - rstart reg)" using k u by simp
qed

function create_untypeds_for_region :: "cap \<Rightarrow> bool \<Rightarrow> region \<Rightarrow> word64 \<Rightarrow> bstate \<Rightarrow> bool \<times> bstate" where
  "create_untypeds_for_region root_cnode_cap device_memory reg first_untyped_slot b =
     (if \<not> is_reg_empty reg
      then let size_bits = untyped_size_bits reg;
               (r, b) = (if size_bits \<ge> seL4_MinUntypedBits
                  then provide_untyped_cap root_cnode_cap device_memory (rstart reg) size_bits first_untyped_slot b
                  else (True, b))
           in if \<not> r then (False, b)
              else create_untypeds_for_region root_cnode_cap device_memory (reg\<lparr>rstart := rstart reg + BIT size_bits\<rparr>)
                     first_untyped_slot b
      else (True, b))"
  by pat_completeness auto
termination
proof (relation "measure (\<lambda>(c, d, reg, f, b). unat (rend reg - rstart reg))", goal_cases)
  case 1
  show ?case by simp
next
  case (2 c d reg f b x y r b')
  have "(0::nat) < 2 ^ unat (untyped_size_bits reg)" by simp
  moreover note untyped_step [OF 2(1)]
  ultimately have "unat (rend reg - (rstart reg + BIT (untyped_size_bits reg))) < unat (rend reg - rstart reg)" by linarith
  then show ?case unfolding 2(2) by simp
qed

declare create_untypeds_for_region.simps [simp del]

definition KERNEL_ELF_BASE :: "boot_config \<Rightarrow> ptr" where
  "KERNEL_ELF_BASE c = PPTR_TOP + (KERNEL_ELF_PADDR_BASE c AND MASK 30)"

definition get_p_reg_kernel_img_boot :: "bstate \<Rightarrow> region" where
  "get_p_reg_kernel_img_boot b = \<lparr>rstart = addrFromKPPtr (KERNEL_ELF_BASE (cfg b)) (ks b), rend = addrFromKPPtr (ki_boot_end (cfg b)) (ks b)\<rparr>"

definition get_p_reg_kernel_img :: "bstate \<Rightarrow> region" where
  "get_p_reg_kernel_img b = \<lparr>rstart = addrFromKPPtr (KERNEL_ELF_BASE (cfg b)) (ks b), rend = addrFromKPPtr (ki_end (cfg b)) (ks b)\<rparr>"

text \<open>The untyped objects over device memory: the gaps between the reserved regions that are left, from \<open>start\<close> on.\<close>

primrec create_device_untypeds :: "cap \<Rightarrow> word64 \<Rightarrow> word64 \<Rightarrow> region list \<Rightarrow> bstate \<Rightarrow> bool \<times> word64 \<times> bstate" where
  "create_device_untypeds root_cnode_cap first_untyped_slot start [] b = (True, start, b)"
| "create_device_untypeds root_cnode_cap first_untyped_slot start (r # rs) b =
     (let (ok, b) = (if start < rstart r
          then create_untypeds_for_region root_cnode_cap True (paddr_to_pptr_reg \<lparr>rstart = start, rend = rstart r\<rparr>) first_untyped_slot b
          else (True, b))
      in if \<not> ok then (False, start, b) else create_device_untypeds root_cnode_cap first_untyped_slot (rend r) rs b)"

text \<open>The untyped objects over free memory, for the regions with the given numbers.\<close>

primrec create_free_untypeds :: "cap \<Rightarrow> word64 \<Rightarrow> nat list \<Rightarrow> bstate \<Rightarrow> bool \<times> bstate" where
  "create_free_untypeds root_cnode_cap first_untyped_slot [] b = (True, b)"
| "create_free_untypeds root_cnode_cap first_untyped_slot (i # is) b =
     (let reg = freemem b ! i;
          b = b\<lparr>freemem := (freemem b)[i := REG_EMPTY]\<rparr>;
          (ok, b) = create_untypeds_for_region root_cnode_cap False reg first_untyped_slot b
      in if \<not> ok then (False, b) else create_free_untypeds root_cnode_cap first_untyped_slot is b)"

definition create_untypeds :: "cap \<Rightarrow> bstate \<Rightarrow> bool \<times> bstate" where
  "create_untypeds root_cnode_cap b =
     (let first_untyped_slot = slot_pos_cur b;
          (ok, start, b) = create_device_untypeds root_cnode_cap first_untyped_slot 0 (take (resv_count b) (reserved b)) b
      in if \<not> ok then (False, b)
         else let (ok, b) = (if start < CONFIG_PADDR_USER_DEVICE_TOP (cfg b)
                then create_untypeds_for_region root_cnode_cap True
                  (paddr_to_pptr_reg \<lparr>rstart = start, rend = CONFIG_PADDR_USER_DEVICE_TOP (cfg b)\<rparr>) first_untyped_slot b
                else (True, b))
         in if \<not> ok then (False, b)
            else let (ok, b) = create_untypeds_for_region root_cnode_cap False (paddr_to_pptr_reg (get_p_reg_kernel_img_boot b))
                       first_untyped_slot b
            in if \<not> ok then (False, b)
               else let (ok, b) = create_free_untypeds root_cnode_cap first_untyped_slot [0..<length (freemem b)] b
               in if \<not> ok then (False, b)
                  else (True, b\<lparr>bi_frame := (bi_frame b)\<lparr>untyped := \<lparr>rstart = first_untyped_slot, rend = slot_pos_cur b\<rparr>\<rparr>\<rparr>))"

definition bi_finalise :: "bstate \<Rightarrow> bstate" where
  "bi_finalise b = b\<lparr>bi_frame := (bi_frame b)\<lparr>empty := \<lparr>rstart = slot_pos_cur b, rend = BIT (CONFIG_ROOT_CNODE_SIZE_BITS (cfg b))\<rparr>\<rparr>\<rparr>"

section \<open>Regions as sets of addresses\<close>

text \<open>The addresses of a region, also of one that wraps around the end of the address space.\<close>

definition rset :: "region \<Rightarrow> word64 set" where
  "rset r = {x. x - rstart r < rend r - rstart r}"

definition covered :: "region list \<Rightarrow> word64 set" where
  "covered xs = \<Union> (rset ` set xs)"

text \<open>The reserved regions are not empty, in order, and do not touch.\<close>

definition separated :: "region list \<Rightarrow> bool" where
  "separated xs \<longleftrightarrow> (\<forall>r \<in> set xs. rstart r < rend r) \<and> sorted_wrt (\<lambda>a b. rend a < rstart b) xs"

lemma rset_iff: "rstart r \<le> rend r \<Longrightarrow> x \<in> rset r \<longleftrightarrow> rstart r \<le> x \<and> x < rend r"
proof -
  assume r: "rstart r \<le> rend r"
  have u: "unat (rend r - rstart r) = unat (rend r) - unat (rstart r)" using r by (rule unat_sub_nowrap)
  show ?thesis
  proof (cases "rstart r \<le> x")
    case True
    have "unat (x - rstart r) = unat x - unat (rstart r)" using True by (rule unat_sub_nowrap)
    then show ?thesis using True r u by (auto simp: rset_def word_less_nat_alt word_le_nat_alt)
  next
    case False
    then have l: "unat x < unat (rstart r)" by (simp add: word_le_nat_alt)
    have "x \<notin> rset r"
    proof
      assume "x \<in> rset r"
      then have "unat (x - rstart r) + unat (rstart r) < unat (rend r)" using u r by (auto simp: rset_def word_less_nat_alt word_le_nat_alt)
      moreover then have "unat (x - rstart r + rstart r) = unat (x - rstart r) + unat (rstart r)"
        using unat_lt_64 [of "rend r"] by (intro unat_add_nowrap) linarith
      ultimately show False using l by simp
    qed
    then show ?thesis using False by simp
  qed
qed

lemma covered_simps [simp]: "covered [] = {}" "covered (r # rs) = rset r \<union> covered rs" "covered (xs @ ys) = covered xs \<union> covered ys"
  by (auto simp: covered_def)

lemma rset_disjoint_order:
  assumes "rstart a < rend a" "rstart b < rend b" "rset a \<inter> rset b = {}"
  shows "rend a \<le> rstart b \<or> rend b \<le> rstart a"
proof (rule ccontr)
  assume "\<not> ?thesis"
  then have "max (rstart a) (rstart b) \<in> rset a" "max (rstart a) (rstart b) \<in> rset b"
    using assms(1,2) by (auto simp: rset_iff less_imp_le max_def)
  then show False using assms(3) by blast
qed

lemma separated_Nil [simp]: "separated []"
  by (simp add: separated_def)

lemma separated_append:
  "separated (xs @ ys) \<longleftrightarrow> separated xs \<and> separated ys \<and> (\<forall>a \<in> set xs. \<forall>b \<in> set ys. rend a < rstart b)"
  by (auto simp: separated_def sorted_wrt_append)

lemma separated_Cons: "separated (x # xs) \<longleftrightarrow> rstart x < rend x \<and> separated xs \<and> (\<forall>b \<in> set xs. rend x < rstart b)"
  by (auto simp: separated_def)

section \<open>The arrays\<close>

lemma move_down_nth:
  assumes "1 \<le> j" "j \<le> n" "n \<le> length xs" "p < length xs"
  shows "move_down j n xs ! p = (if j - 1 \<le> p \<and> p < n - 1 then xs ! (p + 1) else xs ! p)"
  using assms
proof (induction j n xs rule: move_down.induct)
  case (1 j n xs)
  show ?case
  proof (cases "j < n")
    case True
    then have "move_down j n xs ! p = move_down (j + 1) n (xs[j - 1 := xs ! j]) ! p" by (subst move_down.simps) simp
    also have "\<dots> = (if j \<le> p \<and> p < n - 1 then xs[j - 1 := xs ! j] ! (p + 1) else xs[j - 1 := xs ! j] ! p)"
      using 1 True by simp
    also have "\<dots> = (if j - 1 \<le> p \<and> p < n - 1 then xs ! (p + 1) else xs ! p)"
      using 1 True by (auto simp: nth_list_update)
    finally show ?thesis .
  next
    case False
    then show ?thesis using 1 by (subst move_down.simps) auto
  qed
qed

lemma length_move_down [simp]: "length (move_down j n xs) = length xs"
  by (induction j n xs rule: move_down.induct) (subst move_down.simps, simp)

lemma move_up_nth:
  assumes "i \<le> j" "j < length xs" "p < length xs"
  shows "move_up i j xs ! p = (if i < p \<and> p \<le> j then xs ! (p - 1) else xs ! p)"
  using assms
proof (induction i j xs rule: move_up.induct)
  case (1 i j xs)
  show ?case
  proof (cases "i < j")
    case True
    then have "move_up i j xs ! p = move_up i (j - 1) (xs[j := xs ! (j - 1)]) ! p" by (subst move_up.simps) simp
    also have "\<dots> = (if i < p \<and> p \<le> j - 1 then xs[j := xs ! (j - 1)] ! (p - 1) else xs[j := xs ! (j - 1)] ! p)"
      using 1 True by simp
    also have "\<dots> = (if i < p \<and> p \<le> j then xs ! (p - 1) else xs ! p)"
      using 1 True by (auto simp: nth_list_update)
    finally show ?thesis .
  next
    case False
    then show ?thesis using 1 by (subst move_up.simps) auto
  qed
qed

lemma length_move_up [simp]: "length (move_up i j xs) = length xs"
  by (induction i j xs rule: move_up.induct) (subst move_up.simps, simp)

lemma take_move_up:
  assumes "take n xs = us @ vs" "n < length xs"
  shows "take (n + 1) ((move_up (length us) n xs)[length us := r]) = us @ r # vs"
proof (rule nth_equalityI)
  have n: "n = length us + length vs" using arg_cong [OF assms(1), of length] assms(2) by simp
  then show l: "length (take (n + 1) ((move_up (length us) n xs)[length us := r])) = length (us @ r # vs)" using assms(2) by simp
  have x: "xs ! q = (us @ vs) ! q" if "q < n" for q using assms(1) that by (metis nth_take)
  fix p assume "p < length (take (n + 1) ((move_up (length us) n xs)[length us := r]))"
  then have p: "p < n + 1" by simp
  then show "take (n + 1) ((move_up (length us) n xs)[length us := r]) ! p = (us @ r # vs) ! p"
    using n assms(2) x [of p] x [of "p - 1"]
    by (auto simp: nth_list_update move_up_nth nth_append nth_Cons' not_less)
qed

lemma take_move_down:
  assumes "take n xs = us @ c # vs" "us \<noteq> []" "n \<le> length xs"
  shows "take (n - 1) (move_down (length us + 1) n xs) = us @ vs"
proof (rule nth_equalityI)
  have n: "n = Suc (length us + length vs)" using arg_cong [OF assms(1), of length] assms(3) by simp
  then show "length (take (n - 1) (move_down (length us + 1) n xs)) = length (us @ vs)" using assms(3) by simp
  have x: "xs ! q = (us @ c # vs) ! q" if "q < n" for q using assms(1) that by (metis nth_take)
  fix p assume "p < length (take (n - 1) (move_down (length us + 1) n xs))"
  then have p: "p < n - 1" by simp
  then show "take (n - 1) (move_down (length us + 1) n xs) ! p = (us @ vs) ! p"
    using n assms(3) x [of p] x [of "p + 1"] by (auto simp: move_down_nth nth_append)
qed

section \<open>Merging\<close>

definition adj_free :: "region list \<Rightarrow> bool" where
  "adj_free xs \<longleftrightarrow> (\<forall>k. Suc k < length xs \<longrightarrow> rend (xs ! k) \<noteq> rstart (xs ! Suc k))"

lemma separated_adj_free: "separated xs \<Longrightarrow> adj_free xs"
proof -
  assume "separated xs"
  then have "rend (xs ! k) < rstart (xs ! Suc k)" if "Suc k < length xs" for k
    using that by (auto simp: separated_def sorted_wrt_iff_nth_less)
  then show ?thesis unfolding adj_free_def by (metis less_irrefl)
qed

lemma merge_clean:
  assumes "adj_free (take n xs)" "1 \<le> i" "n \<le> length xs"
  shows "merge_regions_loop i (xs, n) = (xs, n)"
  using assms
proof (induction "n - i" arbitrary: i)
  case 0
  then show ?case by (subst merge_regions_loop.simps) simp
next
  case (Suc d)
  then have "rend (xs ! (i - 1)) \<noteq> rstart (xs ! i)"
    using Suc.prems by (auto simp: adj_free_def elim!: allE [of _ "i - 1"])
  then show ?case using Suc by (subst merge_regions_loop.simps) simp
qed

lemma merge_one:
  assumes "take n xs = us @ a # c # vs" "n \<le> length xs" "rend a = rstart c"
    and "adj_free (us @ [a])" "adj_free (us @ a\<lparr>rend := rend c\<rparr> # vs)" "1 \<le> i" "i \<le> length us + 1"
  shows "\<exists>xs'. merge_regions_loop i (xs, n) = (xs', n - 1) \<and> length xs' = length xs \<and> take (n - 1) xs' = us @ a\<lparr>rend := rend c\<rparr> # vs"
  using assms(6,7)
proof (induction "length us + 1 - i" arbitrary: i)
  case 0
  let ?k = "length us" and ?a = "a\<lparr>rend := rend c\<rparr>"
  have n: "n = length us + length vs + 2" using arg_cong [OF assms(1), of length] assms(2) by simp
  have i: "i = ?k + 1" using 0 by simp
  have x: "xs ! ?k = a" "xs ! (?k + 1) = c" using arg_cong [OF assms(1), of "\<lambda>l. l ! ?k"] arg_cong [OF assms(1), of "\<lambda>l. l ! (?k + 1)"] n
    by (simp_all add: nth_append)
  define ys where "ys = xs[?k := ?a]"
  have "take n ys = (us @ [?a]) @ c # vs" unfolding ys_def using assms(1) by (simp add: take_update_swap list_update_append)
  then have t: "take (n - 1) (move_down (i + 1) n ys) = us @ ?a # vs"
    using take_move_down [of n ys "us @ [?a]" c vs] assms(2) i by (simp add: ys_def)
  have "merge_regions_loop i (xs, n) = merge_regions_loop i (move_down (i + 1) n ys, n - 1)"
    using i x n assms(3) by (subst merge_regions_loop.simps) (simp add: ys_def)
  also have "\<dots> = (move_down (i + 1) n ys, n - 1)"
    using merge_clean [of "n - 1" "move_down (i + 1) n ys" i] t assms(2,5) i by (simp add: ys_def)
  finally show ?case using t by (simp add: ys_def)
next
  case (Suc d)
  have n: "n = length us + length vs + 2" using arg_cong [OF assms(1), of length] assms(2) by simp
  have i: "i \<le> length us" using Suc by simp
  have x: "xs ! q = (us @ [a]) ! q" if "q \<le> length us" for q
    using arg_cong [OF assms(1), of "\<lambda>l. l ! q"] n that by (auto simp: nth_append)
  have "rend ((us @ [a]) ! (i - 1)) \<noteq> rstart ((us @ [a]) ! i)" using assms(4) i Suc.prems by (auto simp: adj_free_def elim!: allE [of _ "i - 1"])
  then have "merge_regions_loop i (xs, n) = merge_regions_loop (i + 1) (xs, n)"
    using x [of "i - 1"] x [of i] i n by (subst merge_regions_loop.simps) simp
  then show ?case using Suc.hyps(1) [of "i + 1"] Suc.hyps(2) i by simp
qed

section \<open>Reserving a region\<close>

lemma rset_join:
  assumes "rstart a < rend a" "rend a = rstart c" "rstart c < rend c"
  shows "rset (a\<lparr>rend := rend c\<rparr>) = rset a \<union> rset c"
  using assms by (auto simp: rset_iff)

lemma separated_merge_left:
  assumes "separated (us @ x # vs)" "rstart reg < rend reg" "rend reg = rstart x" "\<forall>u \<in> set us. rend u < rstart reg"
  shows "separated (us @ x\<lparr>rstart := rstart reg\<rparr> # vs)" "rset (x\<lparr>rstart := rstart reg\<rparr>) = rset x \<union> rset reg"
proof -
  show "separated (us @ x\<lparr>rstart := rstart reg\<rparr> # vs)" using assms by (auto simp: separated_append separated_Cons)
  show "rset (x\<lparr>rstart := rstart reg\<rparr>) = rset x \<union> rset reg"
    using assms(1-3) by (auto simp: separated_append separated_Cons rset_iff)
qed

lemma reserve_merge_right:
  assumes "take n xs = us @ x # vs" "n \<le> length xs" "separated (us @ x # vs)" "rstart reg < rend reg" "rend x = rstart reg"
    and "rset reg \<inter> covered vs = {}"
  shows "\<exists>xs' n'. merge_regions_loop 1 (xs[length us := x\<lparr>rend := rend reg\<rparr>], n) = (xs', n') \<and> n' \<le> n \<and> length xs' = length xs
    \<and> separated (take n' xs') \<and> covered (take n' xs') = covered (us @ x # vs) \<union> rset reg"
proof -
  let ?x = "x\<lparr>rend := rend reg\<rparr>" and ?xs = "xs[length us := x\<lparr>rend := rend reg\<rparr>]"
  have t: "take n ?xs = us @ ?x # vs" using assms(1) by (simp add: take_update_swap list_update_append)
  have S: "separated us" "separated vs" "rstart x < rend x" "\<forall>a \<in> set us. rend a < rstart x \<and> (\<forall>b \<in> set vs. rend a < rstart b)"
    "\<forall>b \<in> set vs. rend x < rstart b" using assms(3) by (auto simp: separated_append separated_Cons)
  have r: "rset ?x = rset x \<union> rset reg" using rset_join [of x reg] S(3) assms(4,5) by simp
  have after: "rend reg \<le> rstart b" if "b \<in> set vs" for b
  proof -
    have "rset reg \<inter> rset b = {}" using assms(6) that by (auto simp: covered_def)
    moreover have "rstart b < rend b" using that S(2) by (simp add: separated_def)
    ultimately show ?thesis using rset_disjoint_order [of reg b] assms(4,5) S(5) that by force
  qed
  show ?thesis
  proof (cases "\<exists>c ws. vs = c # ws \<and> rend reg = rstart c")
    case False
    have "rend reg < rstart b" if "b \<in> set vs" for b
    proof (cases vs)
      case Nil
      then show ?thesis using that by simp
    next
      case (Cons c ws)
      then have "rend reg < rstart c" using False after [of c] by (auto simp: order_le_less)
      then show ?thesis using that Cons S(2) by (auto simp: separated_Cons)
    qed
    then have "separated (us @ ?x # vs)" using S assms(4,5) by (auto simp: separated_append separated_Cons)
    then show ?thesis using merge_clean [of n ?xs 1] t assms(2) r separated_adj_free by auto
  next
    case True
    then obtain c ws where vs: "vs = c # ws" "rend reg = rstart c" by blast
    have s: "separated (us @ ?x\<lparr>rend := rend c\<rparr> # ws)" "separated (us @ [?x])"
      using S assms(4,5) vs by (auto simp: separated_append separated_Cons)
    obtain xs' where "merge_regions_loop 1 (?xs, n) = (xs', n - 1)" "length xs' = length ?xs" "take (n - 1) xs' = us @ ?x\<lparr>rend := rend c\<rparr> # ws"
      using merge_one [of n ?xs us ?x c ws 1] t vs assms(2) s separated_adj_free by auto
    moreover have "rset (?x\<lparr>rend := rend c\<rparr>) = rset ?x \<union> rset c"
      using rset_join [of ?x c] S(2,3) vs assms(4,5) by (simp add: separated_Cons)
    ultimately show ?thesis using s(1) r vs(1) by auto
  qed
qed

lemma reserve_region_loop_spec:
  assumes "n < limit" "length xs = limit" "separated (take n xs)" "rstart reg < rend reg" "rset reg \<inter> covered (take n xs) = {}"
    and "\<forall>u \<in> set (take i xs). rend u < rstart reg" "i \<le> n"
  shows "\<exists>ok xs' n'. reserve_region_loop limit i reg (xs, n) = (ok, xs', n') \<and> length xs' = limit \<and> n' < limit
    \<and> n' \<le> n + 1 \<and> separated (take n' xs') \<and> (if ok then covered (take n' xs') = covered (take n xs) \<union> rset reg
       else xs' = xs \<and> n' = n \<and> n + 1 = limit)"
  using assms(6,7)
proof (induction "n - i" arbitrary: i)
  case 0
  then have i: "i = n" by simp
  have t: "take (Suc n) (xs[n := reg]) = take n xs @ [reg]" using assms(1,2) by (simp add: take_Suc_conv_app_nth)
  have "separated (take n xs @ [reg])" using assms(3,4) 0 i by (simp add: separated_append separated_Cons)
  then show ?case using i assms(1-3) t by (subst reserve_region_loop.simps) (auto simp: i)
next
  case (Suc d)
  then have i: "i < n" by simp
  let ?us = "take i xs" and ?vs = "drop (Suc i) (take n xs)" and ?x = "xs ! i"
  have l: "length ?us = i" using i assms(1,2) by simp
  have t: "take n xs = ?us @ ?x # ?vs"
    using id_take_nth_drop [of i "take n xs"] i assms(1,2) by (simp add: min_def)
  have s: "separated (?us @ ?x # ?vs)" using assms(3) t by simp
  have c: "covered (take n xs) = covered (?us @ ?x # ?vs)" using t by simp
  have d: "rset reg \<inter> rset ?x = {}" "rset reg \<inter> covered ?vs = {}" using assms(5) unfolding c by auto
  have x: "rstart ?x < rend ?x" using s by (simp add: separated_append separated_Cons)
  consider "rstart ?x = rend reg" | "rstart ?x \<noteq> rend reg" "rend ?x = rstart reg" | "rend reg < rstart ?x" "rend ?x \<noteq> rstart reg"
    | "\<not> rend reg < rstart ?x" "rend ?x \<noteq> rstart reg" "rstart ?x \<noteq> rend reg" by force
  then show ?case
  proof cases
    case 1
    note m = separated_merge_left [OF s assms(4) 1 [symmetric] Suc.prems(1)]
    let ?ys = "xs[i := ?x\<lparr>rstart := rstart reg\<rparr>]"
    have "take n ?ys = ?us @ ?x\<lparr>rstart := rstart reg\<rparr> # ?vs" using t l by (metis list_update_length take_update_swap)
    moreover from this have "merge_regions_loop 1 (?ys, n) = (?ys, n)" using merge_clean m(1) assms(1,2) separated_adj_free by simp
    ultimately show ?thesis using 1 i m assms(1,2) c by (subst reserve_region_loop.simps) auto
  next
    case 2
    have "n \<le> length xs" using assms(1,2) by simp
    from reserve_merge_right [OF t this s assms(4) 2(2) d(2)] show ?thesis
      using 2 i assms(1,2) c l by (subst reserve_region_loop.simps) auto
  next
    case 3
    have "rstart ?x \<noteq> rend reg" using 3 by auto
    moreover have "separated (?us @ reg # ?x # ?vs)"
      using s Suc.prems(1) assms(4) 3 by (auto simp: separated_append separated_Cons)
    moreover have "n < length xs" using assms(1,2) by simp
    note take_move_up [OF t this, of reg]
    ultimately show ?thesis using 3 i assms(1-3) c l by (subst reserve_region_loop.simps) auto
  next
    case 4
    have "rend ?x \<le> rstart reg" using rset_disjoint_order [OF assms(4) x d(1)] 4 by (auto simp: order_le_less)
    then have "\<forall>u \<in> set (take (i + 1) xs). rend u < rstart reg"
      using Suc.prems(1) 4 i assms(1,2) by (auto simp: take_Suc_conv_app_nth)
    have "reserve_region_loop limit i reg (xs, n) = reserve_region_loop limit (i + 1) reg (xs, n)"
      using 4 i by (subst reserve_region_loop.simps) simp
    then show ?thesis using Suc.hyps(1) [of "i + 1"] Suc.hyps(2) \<open>\<forall>u \<in> set (take (i + 1) xs). rend u < rstart reg\<close> i by simp
  qed
qed

definition resv_ok :: "bstate \<Rightarrow> bool" where
  "resv_ok b \<longleftrightarrow> length (reserved b) = MAX_NUM_RESV_REG (cfg b) \<and> resv_count b < MAX_NUM_RESV_REG (cfg b)
     \<and> separated (take (resv_count b) (reserved b))"

definition resv_set :: "bstate \<Rightarrow> word64 set" where
  "resv_set b = covered (take (resv_count b) (reserved b))"

lemma reserve_region_spec:
  assumes "resv_ok b" "rstart reg \<le> rend reg" "rset reg \<inter> resv_set b = {}"
  obtains ok n xs where "reserve_region reg b = (ok, b\<lparr>reserved := xs, resv_count := n\<rparr>)" "resv_ok (b\<lparr>reserved := xs, resv_count := n\<rparr>)"
    "n \<le> resv_count b + 1" "ok \<Longrightarrow> resv_set (b\<lparr>reserved := xs, resv_count := n\<rparr>) = resv_set b \<union> rset reg"
    "\<not> ok \<Longrightarrow> xs = reserved b \<and> n = resv_count b \<and> n + 1 = MAX_NUM_RESV_REG (cfg b)"
proof (cases "rstart reg = rend reg")
  case True
  then have "rset reg = {}" by (simp add: rset_def)
  then show thesis using that [of True "resv_count b" "reserved b"] True assms(1) by (simp add: reserve_region_def)
next
  case False
  then have "rstart reg < rend reg" using assms(2) by simp
  then obtain ok xs n where r: "reserve_region_loop (MAX_NUM_RESV_REG (cfg b)) 0 reg (reserved b, resv_count b) = (ok, xs, n)"
    "length xs = MAX_NUM_RESV_REG (cfg b)" "n < MAX_NUM_RESV_REG (cfg b)" "n \<le> resv_count b + 1" "separated (take n xs)"
    "if ok then covered (take n xs) = covered (take (resv_count b) (reserved b)) \<union> rset reg
     else xs = reserved b \<and> n = resv_count b \<and> resv_count b + 1 = MAX_NUM_RESV_REG (cfg b)"
    using reserve_region_loop_spec [of "resv_count b" "MAX_NUM_RESV_REG (cfg b)" "reserved b" reg 0] assms
    unfolding resv_ok_def resv_set_def by auto
  show thesis
    by (rule that [of ok n xs]) (use r False in \<open>auto simp: reserve_region_def resv_ok_def resv_set_def\<close>)
qed

text \<open>
  C21. Reserving memory at boot: a region that overlaps no reserved one is recorded, whatever regions it touches. Either the reserved memory
  becomes exactly what it was and the region, with the table in order, without gaps of no size and within its array; or the table is full
  and unchanged, and the function says so.
\<close>

theorem reserve_region_keeps_order:
  assumes "resv_ok b" "rstart reg \<le> rend reg" "rset reg \<inter> resv_set b = {}"
  defines "r \<equiv> reserve_region reg b"
  shows "resv_ok (snd r) \<and> (if fst r then resv_set (snd r) = resv_set b \<union> rset reg
      else snd r = b \<and> resv_count b + 1 = MAX_NUM_RESV_REG (cfg b))
    \<and> resv_count (snd r) \<le> resv_count b + 1"
proof -
  obtain ok n xs where o: "r = (ok, b\<lparr>reserved := xs, resv_count := n\<rparr>)" "resv_ok (b\<lparr>reserved := xs, resv_count := n\<rparr>)"
    "n \<le> resv_count b + 1" "ok \<Longrightarrow> resv_set (b\<lparr>reserved := xs, resv_count := n\<rparr>) = resv_set b \<union> rset reg"
    "\<not> ok \<Longrightarrow> xs = reserved b \<and> n = resv_count b \<and> n + 1 = MAX_NUM_RESV_REG (cfg b)"
    unfolding r_def using reserve_region_spec [OF assms(1-3)] by metis
  then show ?thesis by (cases ok) auto
qed

end
