(* ===== verification/BootFree.thy ===== *)
theory BootFree
  imports BootMem
begin

text \<open>
  Free memory at boot: the search of \<^verbatim>\<open>init_freemem\<close> in \<^verbatim>\<open>src/kernel/kernel/boot.c\<close>, which cuts the reserved regions out of the
  available ones and places the objects of the initial thread. \<open>freemem_inv\<close> is the invariant of the search: what is free, what is
  reserved and what has not been looked at are disjoint, and the table of reserved memory covers the first two and the devices.
\<close>


section \<open>Free memory\<close>

definition phys :: "word64 set \<Rightarrow> word64 set" where
  "phys S = addrFromPPtr ` S"

lemma phys_simps [simp]: "phys {} = {}" "phys (A \<union> B) = phys A \<union> phys B" "phys A \<inter> phys B = phys (A \<inter> B)" "phys A \<subseteq> phys B \<longleftrightarrow> A \<subseteq> B"
  "phys A = {} \<longleftrightarrow> A = {}"
proof -
  have i: "inj addrFromPPtr" by (auto simp: inj_def addrFromPPtr_def)
  show "phys {} = {}" "phys (A \<union> B) = phys A \<union> phys B" "phys A = {} \<longleftrightarrow> A = {}" by (auto simp: phys_def)
  show "phys A \<inter> phys B = phys (A \<inter> B)" "phys A \<subseteq> phys B \<longleftrightarrow> A \<subseteq> B"
    unfolding phys_def using i by (auto simp: image_Int inj_image_subset_iff)
qed

lemma phys_disjoint: "A \<inter> B = {} \<Longrightarrow> phys A \<inter> phys B = {}"
  by simp

lemma rset_phys: "rset (pptr_to_paddr_reg r) = phys (rset r)"
proof (intro set_eqI iffI)
  fix x assume "x \<in> rset (pptr_to_paddr_reg r)"
  then have "x + PPTR_BASE_OFFSET \<in> rset r" by (simp add: rset_def pptr_to_paddr_reg_def addrFromPPtr_def algebra_simps)
  then show "x \<in> phys (rset r)" unfolding phys_def by (intro image_eqI [of _ _ "x + PPTR_BASE_OFFSET"]) (simp_all add: addrFromPPtr_def)
next
  fix x assume "x \<in> phys (rset r)"
  then show "x \<in> rset (pptr_to_paddr_reg r)" by (auto simp: phys_def rset_def pptr_to_paddr_reg_def addrFromPPtr_def algebra_simps)
qed

lemma pptr_order:
  assumes "PPTR_BASE \<le> rstart r" "rstart r \<le> rend r"
  shows "rstart (pptr_to_paddr_reg r) \<le> rend (pptr_to_paddr_reg r)"
proof -
  have "PPTR_BASE \<le> rend r" using assms by simp
  then have "unat (rend r - PPTR_BASE) = unat (rend r) - unat PPTR_BASE" "unat (rstart r - PPTR_BASE) = unat (rstart r) - unat PPTR_BASE"
    using assms(1) unat_sub_nowrap by auto
  then show ?thesis using assms(2) by (simp add: pptr_to_paddr_reg_def addrFromPPtr_def PPTR_BASE_OFFSET_def PADDR_BASE_def word_le_nat_alt)
qed

text \<open>Regions of the kernel window in order.\<close>

definition in_order :: "region list \<Rightarrow> bool" where
  "in_order xs \<longleftrightarrow> (\<forall>r \<in> set xs. PPTR_BASE \<le> rstart r \<and> rstart r \<le> rend r) \<and> sorted_wrt (\<lambda>a b. rend a \<le> rstart b) xs"

lemma in_order_simps [simp]:
  "in_order []" "in_order (r # rs) \<longleftrightarrow> PPTR_BASE \<le> rstart r \<and> rstart r \<le> rend r \<and> in_order rs \<and> (\<forall>b \<in> set rs. rend r \<le> rstart b)"
  by (auto simp: in_order_def)

lemma rset_below: "rstart b \<le> rend b \<Longrightarrow> x \<in> rset b \<Longrightarrow> rstart b \<le> x \<and> x < rend b"
  by (simp add: rset_iff)

lemma covered_above:
  assumes "in_order rs" "\<forall>b \<in> set rs. e \<le> rstart b" "x \<in> covered rs" shows "e \<le> x"
proof -
  obtain b where b: "b \<in> set rs" "x \<in> rset b" using assms(3) by (auto simp: covered_def)
  then have "rstart b \<le> rend b" using assms(1) by (simp add: in_order_def)
  then have "rstart b \<le> x" using b(2) rset_below by blast
  then show ?thesis using assms(2) b(1) by (meson order_trans)
qed

lemma in_order_disjoint: "in_order (r # rs) \<Longrightarrow> rset r \<inter> covered rs = {}"
proof (rule equals0I)
  fix x assume i: "in_order (r # rs)" and "x \<in> rset r \<inter> covered rs"
  then have "x < rend r" "rend r \<le> x" using rset_below covered_above [of rs "rend r" x] by auto
  then show False by simp
qed

text \<open>The table of free regions: the entries in use come first and are disjoint.\<close>

definition disjoint_entries :: "region list \<Rightarrow> bool" where
  "disjoint_entries xs \<longleftrightarrow> (\<forall>i j. i < j \<longrightarrow> j < length xs \<longrightarrow> rset (xs ! i) \<inter> rset (xs ! j) = {})"

definition free_table :: "region list \<Rightarrow> nat \<Rightarrow> bool" where
  "free_table xs f \<longleftrightarrow> length xs = MAX_NUM_FREEMEM_REG \<and> f \<le> MAX_NUM_FREEMEM_REG
     \<and> (\<forall>i < length xs. is_reg_empty (xs ! i) \<longleftrightarrow> f \<le> i)
     \<and> (\<forall>i < f. PPTR_BASE \<le> rstart (xs ! i) \<and> rstart (xs ! i) < rend (xs ! i)) \<and> disjoint_entries xs"

lemma rset_empty: "is_reg_empty r \<Longrightarrow> rset r = {}"
  by (simp add: rset_def is_reg_empty_def)

lemma covered_nth: "covered xs = (\<Union>i < length xs. rset (xs ! i))"
  by (auto simp: covered_def set_conv_nth)

lemma disjoint_entries_update:
  assumes "disjoint_entries xs" "\<And>j. j < length xs \<Longrightarrow> j \<noteq> i \<Longrightarrow> rset r \<inter> rset (xs ! j) = {}"
  shows "disjoint_entries (xs[i := r])"
  unfolding disjoint_entries_def
proof (intro allI impI)
  fix k j assume kj: "k < j" "j < length (xs[i := r])"
  then have "rset (xs ! k) \<inter> rset (xs ! j) = {}" using assms(1) by (simp add: disjoint_entries_def)
  then show "rset (xs[i := r] ! k) \<inter> rset (xs[i := r] ! j) = {}"
    using kj assms(2) [of k] assms(2) [of j] by (cases "k = i"; cases "j = i") (simp_all add: Int_commute)
qed

lemma covered_update_empty:
  assumes "i < length xs" "rset (xs ! i) = {}"
  shows "covered (xs[i := r]) = covered xs \<union> rset r"
proof -
  have "covered xs = rset (xs ! i) \<union> (\<Union>j \<in> {..<length xs} - {i}. rset (xs ! j))" using assms(1) by (auto simp: covered_nth)
  moreover have "covered (xs[i := r]) = rset r \<union> (\<Union>j \<in> {..<length xs} - {i}. rset (xs ! j))"
    using assms(1) by (auto simp: covered_nth nth_list_update split: if_splits)
  ultimately show ?thesis using assms(2) by blast
qed

lemma insert_region_loop_first:
  assumes "free_table (freemem b) f" "i \<le> f" "f < MAX_NUM_FREEMEM_REG"
  shows "insert_region_loop i reg b = (let (_, b) = reserve_region (pptr_to_paddr_reg reg) b in (True, b\<lparr>freemem := (freemem b)[f := reg]\<rparr>))"
  using assms(2)
proof (induction "f - i" arbitrary: i)
  case 0
  then show ?case using assms by (subst insert_region_loop.simps) (simp add: free_table_def)
next
  case (Suc d)
  then have "\<not> is_reg_empty (freemem b ! i)" "i < length (freemem b)" using assms by (auto simp: free_table_def)
  then show ?case using Suc by (subst insert_region_loop.simps) simp
qed

lemma insert_region_loop_full:
  assumes "free_table (freemem b) MAX_NUM_FREEMEM_REG" shows "insert_region_loop i reg b = (False, b)"
proof (induction "MAX_NUM_FREEMEM_REG - i" arbitrary: i)
  case 0
  then show ?case using assms by (subst insert_region_loop.simps) (simp add: free_table_def)
next
  case (Suc d)
  then have "\<not> is_reg_empty (freemem b ! i)" "i < length (freemem b)" using assms by (auto simp: free_table_def)
  then show ?case using Suc by (subst insert_region_loop.simps) simp
qed

text \<open>
  The invariant of the search for free memory: \<open>D\<close> is the memory reserved before, \<open>A\<close> and \<open>R\<close> are the available and the reserved memory,
  \<open>av\<close> and \<open>rs\<close> what is left of them, and \<open>n\<close> bounds the number of entries that can be reserved.
\<close>

definition freemem_inv :: "word64 set \<Rightarrow> word64 set \<Rightarrow> word64 set \<Rightarrow> nat \<Rightarrow> region list \<Rightarrow> region list \<Rightarrow> nat \<Rightarrow> bstate \<Rightarrow> bool" where
  "freemem_inv D A R n av rs f b \<longleftrightarrow>
     resv_ok b \<and> free_table (freemem b) f \<and> in_order av \<and> in_order rs
     \<and> covered av \<subseteq> A \<and> covered rs \<subseteq> R \<and> D \<inter> phys (A \<union> R) = {}
     \<and> covered (freemem b) \<subseteq> A - R - covered av \<and> covered av \<inter> (R - covered rs) = {}
     \<and> resv_set b \<subseteq> D \<union> phys (covered (freemem b) \<union> (R - covered rs))
     \<and> (f < MAX_NUM_FREEMEM_REG \<longrightarrow> resv_set b = D \<union> phys (covered (freemem b) \<union> (R - covered rs)))
     \<and> resv_count b + length rs \<le> n + f \<and> n + MAX_NUM_FREEMEM_REG \<le> MAX_NUM_RESV_REG (cfg b)"

lemma freemem_inv_reserve:
  assumes i: "freemem_inv D A R n av (r # rs) f b" and d: "rset r \<inter> covered av = {}"
  shows "freemem_inv D A R n av rs f (snd (reserve_region (pptr_to_paddr_reg r) b))"
proof -
  note I = i [unfolded freemem_inv_def, simplified]
  have o: "rset r \<inter> covered rs = {}" using I in_order_disjoint [of r rs] by simp
  have R: "R - covered rs = (R - (rset r \<union> covered rs)) \<union> rset r" using I o by blast
  have "rset (pptr_to_paddr_reg r) \<inter> resv_set b = {}"
  proof -
    have rR: "rset r \<subseteq> R" using I by blast
    have "rset r \<inter> (covered (freemem b) \<union> (R - (rset r \<union> covered rs))) = {}" using I by blast
    note phys_disjoint [OF this]
    moreover have "D \<inter> (phys A \<union> phys R) = {}" using I by blast
    then have "phys (rset r) \<inter> D = {}" using rR phys_simps(4) [of "rset r" R] by blast
    moreover have "resv_set b \<subseteq> D \<union> phys (covered (freemem b) \<union> (R - (rset r \<union> covered rs)))"
      using i by (simp add: freemem_inv_def)
    ultimately show ?thesis unfolding rset_phys by blast
  qed
  then obtain ok k xs where b: "reserve_region (pptr_to_paddr_reg r) b = (ok, b\<lparr>reserved := xs, resv_count := k\<rparr>)"
    "resv_ok (b\<lparr>reserved := xs, resv_count := k\<rparr>)" "k \<le> resv_count b + 1"
    "ok \<Longrightarrow> resv_set (b\<lparr>reserved := xs, resv_count := k\<rparr>) = resv_set b \<union> phys (rset r)"
    "\<not> ok \<Longrightarrow> xs = reserved b \<and> k = resv_count b \<and> k + 1 = MAX_NUM_RESV_REG (cfg b)"
    using reserve_region_spec [of b "pptr_to_paddr_reg r"] I pptr_order [of r] unfolding rset_phys by metis
  have ok: "ok" if "f < MAX_NUM_FREEMEM_REG" using b(5) I that by fastforce
  have cc: "k + length rs \<le> n + f" using b(3) I by linarith
  have s1: "resv_set (b\<lparr>reserved := xs, resv_count := k\<rparr>) \<subseteq> D \<union> phys (covered (freemem b) \<union> (R - covered rs))"
  proof (cases ok)
    case True
    then show ?thesis using b(4) I unfolding R by auto
  next
    case False
    then have "b\<lparr>reserved := xs, resv_count := k\<rparr> = b" using b(5) by simp
    then show ?thesis using I unfolding R by auto
  qed
  have s2: "resv_set (b\<lparr>reserved := xs, resv_count := k\<rparr>) = D \<union> phys (covered (freemem b) \<union> (R - covered rs))" if "f < MAX_NUM_FREEMEM_REG"
    using b(4) [OF ok [OF that]] I that unfolding R by auto
  have s3: "covered av \<inter> (R - covered rs) = {}" using I d unfolding R by blast
  show ?thesis unfolding freemem_inv_def b(1) snd_conv using b(2) I cc s1 s2 s3 by simp
qed

lemma freemem_inv_shrink:
  "freemem_inv D A R n av rs f b \<Longrightarrow> in_order av' \<Longrightarrow> covered av' \<subseteq> covered av \<Longrightarrow> freemem_inv D A R n av' rs f b"
  unfolding freemem_inv_def by blast

lemma in_order_above: "in_order (a # av) \<Longrightarrow> x \<in> covered (a # av) \<Longrightarrow> rstart a \<le> x"
proof -
  assume o: "in_order (a # av)" and x: "x \<in> covered (a # av)"
  have "\<forall>c \<in> set av. rstart a \<le> rstart c" using o by (auto intro: order_trans)
  then show ?thesis using covered_above [of "a # av" "rstart a" x] o x by simp
qed

lemma freemem_inv_insert:
  assumes i: "freemem_inv D A R n av rs f b" and x: "PPTR_BASE \<le> rstart x" "rstart x < rend x" "rset x \<subseteq> covered av" "rset x \<inter> R = {}"
    and av': "in_order av'" "covered av' \<subseteq> covered av" "rset x \<inter> covered av' = {}"
  shows "\<exists>f'. freemem_inv D A R n av' rs f' (snd (insert_region x b))"
proof -
  note I = i [unfolded freemem_inv_def]
  have ne: "\<not> is_reg_empty x" using x(2) by (simp add: is_reg_empty_def)
  have F: "covered (freemem b) \<subseteq> A - R - covered av" "covered av \<subseteq> A" "D \<inter> phys (A \<union> R) = {}" "free_table (freemem b) f" using I by blast+
  show ?thesis
  proof (cases "f < MAX_NUM_FREEMEM_REG")
    case False
    then have "f = MAX_NUM_FREEMEM_REG" using F(4) by (simp add: free_table_def)
    then have "insert_region x b = (False, b)" using insert_region_loop_full [of b 0 x] F(4) ne by (simp add: insert_region_def)
    then show ?thesis using freemem_inv_shrink [OF i av'(1,2)] by auto
  next
    case True
    have S: "resv_set b = D \<union> phys (covered (freemem b) \<union> (R - covered rs))" using I True by blast
    have "phys (rset x) \<inter> phys (covered (freemem b) \<union> (R - covered rs)) = {}" using x(3,4) F(1) by (intro phys_disjoint) blast
    moreover have "phys (rset x) \<subseteq> phys (A \<union> R)" using x(3) F(2) by (simp only: phys_simps(4)) blast
    ultimately have "rset (pptr_to_paddr_reg x) \<inter> resv_set b = {}" using F(3) unfolding rset_phys S by blast
    then obtain ok k xs where b: "reserve_region (pptr_to_paddr_reg x) b = (ok, b\<lparr>reserved := xs, resv_count := k\<rparr>)"
      "resv_ok (b\<lparr>reserved := xs, resv_count := k\<rparr>)" "k \<le> resv_count b + 1"
      "ok \<Longrightarrow> resv_set (b\<lparr>reserved := xs, resv_count := k\<rparr>) = resv_set b \<union> phys (rset x)"
      "\<not> ok \<Longrightarrow> xs = reserved b \<and> k = resv_count b \<and> k + 1 = MAX_NUM_RESV_REG (cfg b)"
      using reserve_region_spec [of b "pptr_to_paddr_reg x"] I pptr_order [of x] x(1,2) unfolding rset_phys by (metis less_imp_le)
    let ?F = "(freemem b)[f := x]"
    define b' where "b' = b\<lparr>reserved := xs, resv_count := k, freemem := ?F\<rparr>"
    have r: "insert_region x b = (True, b')"
      using insert_region_loop_first [OF F(4) _ True, of 0 x] ne b(1) by (simp add: insert_region_def b'_def)
    have sets: "resv_set b' = resv_set (b\<lparr>reserved := xs, resv_count := k\<rparr>)" "resv_ok b'"
      using b(2) by (simp_all add: b'_def resv_set_def resv_ok_def)
    have len: "f < length (freemem b)" using F(4) True by (simp add: free_table_def)
    have "is_reg_empty (freemem b ! f)" using F(4) len by (simp add: free_table_def)
    then have cov: "covered ?F = covered (freemem b) \<union> rset x" using covered_update_empty [OF len] rset_empty by blast
    have "rset x \<inter> rset (freemem b ! j) = {}" if "j < length (freemem b)" for j
    proof -
      have "rset (freemem b ! j) \<subseteq> covered (freemem b)" using that by (auto simp: covered_nth)
      then show ?thesis using F(1) x(3) by blast
    qed
    then have "disjoint_entries ?F" using F(4) by (intro disjoint_entries_update) (simp_all add: free_table_def)
    then have table: "free_table ?F (Suc f)"
      using F(4) len x(1,2) ne by (auto simp: free_table_def nth_list_update less_Suc_eq)
    have ok: ok if "Suc f < MAX_NUM_FREEMEM_REG" using b(5) I that by fastforce
    have "resv_set b' \<subseteq> D \<union> phys (covered ?F \<union> (R - covered rs))"
      using b(4,5) S unfolding sets cov by (cases ok) (auto simp: resv_set_def)
    moreover have "resv_set b' = D \<union> phys (covered ?F \<union> (R - covered rs))" if "Suc f < MAX_NUM_FREEMEM_REG"
      using b(4) [OF ok [OF that]] S unfolding sets cov by auto
    moreover have "covered ?F \<subseteq> A - R - covered av'" using F x(3,4) av'(2,3) unfolding cov by blast
    moreover have "covered av' \<inter> (R - covered rs) = {}" "covered av' \<subseteq> A" using I av'(2) by blast+
    moreover have "resv_count b' + length rs \<le> n + Suc f" using b(3) I by (simp add: b'_def)
    ultimately have "freemem_inv D A R n av' rs (Suc f) b'"
      unfolding freemem_inv_def using I sets(2) table av'(1) by (simp add: b'_def)
    then show ?thesis using r by auto
  qed
qed

lemma init_freemem_loop_inv:
  assumes "freemem_inv D A R n av rs f b"
  shows "\<exists>av' rs' f' b'. init_freemem_loop av rs b = (av', rs', b') \<and> (av' = [] \<or> rs' = []) \<and> freemem_inv D A R n av' rs' f' b'"
  using assms
proof (induction av rs b arbitrary: f rule: init_freemem_loop.induct)
  case (1 a av r rs b)
  have o: "in_order (a # av)" "in_order (r # rs)" using 1(8) by (simp_all add: freemem_inv_def)
  have Rs: "covered (r # rs) \<subseteq> R" "covered (a # av) \<inter> (R - covered (r # rs)) = {}" using 1(8) unfolding freemem_inv_def by blast+
  have inR: "X \<inter> R = {}" if "X \<subseteq> covered (a # av)" "X \<inter> covered (r # rs) = {}" for X using that Rs by blast
  have rest: "covered av \<subseteq> covered (a # av)" "in_order av" using o by auto
  have order: "rstart a \<le> rend a" "rstart r \<le> rend r" "\<forall>c \<in> set rs. rend r \<le> rstart c" "\<forall>c \<in> set av. rend a \<le> rstart c" using o by auto
  have ne: "rstart r < rend r" if "rstart r \<noteq> rend r" using order that by simp
  consider (empty) "rstart r = rend r" | (used) "rstart r \<noteq> rend r" "rend a \<le> rstart a"
    | (below) "rstart r \<noteq> rend r" "\<not> rend a \<le> rstart a" "rend r \<le> rstart a"
    | (above) "rstart r \<noteq> rend r" "\<not> rend a \<le> rstart a" "\<not> rend r \<le> rstart a" "rend a \<le> rstart r"
    | (trim) "rstart r \<noteq> rend r" "\<not> rend a \<le> rstart a" "\<not> rend r \<le> rstart a" "\<not> rend a \<le> rstart r" "rstart r \<le> rstart a"
    | (cut) "rstart r \<noteq> rend r" "\<not> rend a \<le> rstart a" "\<not> rend r \<le> rstart a" "\<not> rend a \<le> rstart r" "\<not> rstart r \<le> rstart a"
    by blast
  then show ?case
  proof cases
    case empty
    then have "rset r = {}" by (simp add: rset_empty is_reg_empty_def)
    moreover have "reserve_region (pptr_to_paddr_reg r) b = (True, b)" using empty by (simp add: reserve_region_def pptr_to_paddr_reg_def)
    ultimately have "freemem_inv D A R n (a # av) rs f b" using freemem_inv_reserve [OF 1(8)] by simp
    then show ?thesis using 1(1) empty by simp
  next
    case used
    have "freemem_inv D A R n av (r # rs) f b" using freemem_inv_shrink [OF 1(8)] rest by blast
    then show ?thesis using 1(2) used by simp
  next
    case below
    note below' = below [unfolded not_le] ne [OF below(1)]
    have "rset r \<inter> covered (a # av) = {}"
    proof (rule equals0I)
      fix x assume "x \<in> rset r \<inter> covered (a # av)"
      then have "x < rend r" "rstart a \<le> x" using rset_below [of r x] order in_order_above [OF o(1)] by auto
      then show False using below' by simp
    qed
    then have "freemem_inv D A R n (a # av) rs f (snd (reserve_region (pptr_to_paddr_reg r) b))" using freemem_inv_reserve [OF 1(8)] by blast
    then show ?thesis using 1(3) below below' by simp
  next
    case above
    note above' = above [unfolded not_le] ne [OF above(1)]
    have "rset a \<inter> covered (r # rs) = {}"
    proof (rule equals0I)
      fix x assume "x \<in> rset a \<inter> covered (r # rs)"
      then have "x < rend a" "rstart r \<le> x" using rset_below [of a x] order in_order_above [OF o(2)] by auto
      then show False using above' by simp
    qed
    then have "rset a \<inter> R = {}" using inR [of "rset a"] by simp
    then obtain f' where "freemem_inv D A R n av (r # rs) f' (snd (insert_region a b))"
      using freemem_inv_insert [OF 1(8), of a av] above' o rest in_order_disjoint [OF o(1)] by auto
    then show ?thesis using 1(4) above above' by simp
  next
    case trim
    note trim' = trim [unfolded not_le] ne [OF trim(1)]
    let ?a = "a\<lparr>rstart := min (rend a) (rend r)\<rparr>"
    have "rset ?a \<subseteq> rset a" using trim' by (auto simp: rset_iff min_def split: if_splits)
    moreover have "PPTR_BASE \<le> rstart a" using o by simp
    then have "PPTR_BASE \<le> min (rend a) (rend r)" using trim' by (meson min.boundedI order_trans less_imp_le)
    ultimately have "freemem_inv D A R n (?a # av) (r # rs) f b" using freemem_inv_shrink [OF 1(8), of "?a # av"] o by auto
    then show ?thesis using 1(5) trim trim' by simp
  next
    case cut
    note cut' = cut [unfolded not_le] ne [OF cut(1)]
    let ?x = "a\<lparr>rend := rstart r\<rparr>"
    define av' where "av' = (if rend a > rend r then a\<lparr>rstart := rend r\<rparr> # av else av)"
    have x: "rset ?x \<subseteq> rset a" using cut' by (auto simp: rset_iff)
    have "rset ?x \<inter> covered (r # rs) = {}"
    proof (rule equals0I)
      fix y assume "y \<in> rset ?x \<inter> covered (r # rs)"
      then have "y < rstart r" "rstart r \<le> y" using cut' order in_order_above [OF o(2), of y] by (auto simp: rset_iff)
      then show False by simp
    qed
    then have "rset ?x \<inter> R = {}" using inR [of "rset ?x"] x by auto
    moreover have av': "in_order av'" "covered av' \<subseteq> covered (a # av)"
      using o cut' order by (auto simp: av'_def rset_iff intro: order_trans)
    moreover have "rset ?x \<inter> covered av' = {}"
    proof -
      have "rset ?x \<inter> covered av = {}" using x in_order_disjoint [OF o(1)] by blast
      moreover have "rset ?x \<inter> rset (a\<lparr>rstart := rend r\<rparr>) = {}" if "rend a > rend r" using that cut' by (auto simp: rset_iff)
      ultimately show ?thesis by (auto simp: av'_def)
    qed
    moreover have "rset ?x \<subseteq> covered (a # av)" using x by auto
    ultimately obtain f' where "freemem_inv D A R n av' (r # rs) f' (snd (insert_region ?x b))"
      using freemem_inv_insert [OF 1(8), of ?x av'] cut' o by auto
    then show ?thesis using 1(6,7) cut cut' by (auto simp: av'_def Let_def split: if_splits)
  qed
qed auto

lemma freemem_inv_rest_resv:
  assumes "freemem_inv D A R n [] rs f b"
  shows "freemem_inv D A R n [] [] f (fold (\<lambda>r b. if rstart r < rend r then snd (reserve_region (pptr_to_paddr_reg r) b) else b) rs b)"
  using assms
proof (induction rs arbitrary: b)
  case (Cons r rs)
  note s = freemem_inv_reserve [OF Cons(2)]
  have "rstart r \<le> rend r" using Cons(2) by (simp add: freemem_inv_def)
  then have "reserve_region (pptr_to_paddr_reg r) b = (True, b)" if "\<not> rstart r < rend r"
    using that by (simp add: reserve_region_def pptr_to_paddr_reg_def)
  then show ?case using s Cons.IH by (cases "rstart r < rend r") simp_all
qed simp

lemma freemem_inv_rest_av:
  assumes "freemem_inv D A R n av [] f b"
  shows "\<exists>f'. freemem_inv D A R n [] [] f' (fold (\<lambda>a b. if rstart a < rend a then snd (insert_region a b) else b) av b)"
  using assms
proof (induction av arbitrary: b f)
  case (Cons a av)
  have o: "in_order (a # av)" "covered (a # av) \<inter> R = {}" using Cons(2) by (simp_all add: freemem_inv_def)
  have "\<exists>f'. freemem_inv D A R n av [] f' (if rstart a < rend a then snd (insert_region a b) else b)"
  proof (cases "rstart a < rend a")
    case True
    then show ?thesis using freemem_inv_insert [OF Cons(2), of a av] o in_order_disjoint [OF o(1)] by auto
  next
    case False
    then show ?thesis using freemem_inv_shrink [OF Cons(2), of av] o by auto
  qed
  then show ?case using Cons.IH by fastforce
qed auto

lemma check_reserved_order:
  "check_reserved_loop prev xs \<Longrightarrow> (\<forall>r \<in> set xs. rstart r \<le> rend r) \<and> sorted_wrt (\<lambda>a b. rend a \<le> rstart b) xs
     \<and> (\<forall>e. prev = Some e \<longrightarrow> (\<forall>r \<in> set xs. e \<le> rstart r))"
proof (induction xs arbitrary: prev)
  case (Cons r rs)
  then have r: "rstart r \<le> rend r" "check_reserved_loop (Some (rend r)) rs" "prev = Some e \<Longrightarrow> e \<le> rstart r" for e
    by (auto simp: not_less split: if_splits option.splits)
  have rs: "\<forall>x \<in> set rs. rstart x \<le> rend x" "sorted_wrt (\<lambda>a b. rend a \<le> rstart b) rs" "\<forall>x \<in> set rs. rend r \<le> rstart x"
    using Cons.IH [OF r(2)] by blast+
  then have "e \<le> rstart x" if "prev = Some e" "x \<in> set rs" for e x
    using order_trans [OF r(3) [OF that(1)] order_trans [OF r(1)]] rs(3) that(2) by blast
  then show ?case using r rs by auto
qed simp

lemma check_available_reserved: "check_available_loop prev xs \<Longrightarrow> check_reserved_loop prev xs"
  by (induction xs arbitrary: prev) (auto split: if_splits)

definition window :: "region \<Rightarrow> region" where
  "window r = (let r = paddr_to_pptr_reg r in \<lparr>rstart = ceiling_kernel_window (rstart r), rend = ceiling_kernel_window (rend r)\<rparr>)"

lemma unat_window: "unat (ceiling_kernel_window (ptrFromPAddr p)) = unat PPTR_BASE + min (unat p) (unat PADDR_TOP)"
proof -
  have c: "unat PPTR_BASE + unat PADDR_TOP = unat PPTR_TOP" "unat PPTR_BASE + unat PADDR_TOP < 2 ^ 64"
    by (simp_all add: PPTR_BASE_def PADDR_TOP_def PPTR_TOP_def PPTR_BASE_OFFSET_def PADDR_BASE_def)
  have a: "addrFromPPtr (ptrFromPAddr p) = p" by (simp add: addrFromPPtr_def ptrFromPAddr_def)
  show ?thesis
  proof (cases "p > PADDR_TOP")
    case True
    then have "min (unat p) (unat PADDR_TOP) = unat PADDR_TOP" by (simp add: word_less_nat_alt)
    then show ?thesis using True c(1) by (simp only: ceiling_kernel_window_def a if_True)
  next
    case False
    then have "unat p \<le> unat PADDR_TOP" by (simp add: word_less_nat_alt)
    moreover from this have "unat (p + PPTR_BASE) = unat p + unat PPTR_BASE" using c(2) by (intro unat_add_nowrap) linarith
    moreover have "ceiling_kernel_window (ptrFromPAddr p) = p + PPTR_BASE"
      using False unfolding ceiling_kernel_window_def a by (simp add: ptrFromPAddr_def PPTR_BASE_OFFSET_def PADDR_BASE_def)
    ultimately show ?thesis by simp
  qed
qed

lemma window_bounds:
  "PPTR_BASE \<le> rstart (window r)" "rstart r \<le> rend r \<Longrightarrow> rstart (window r) \<le> rend (window r)"
  "rend a \<le> rstart b \<Longrightarrow> rend (window a) \<le> rstart (window b)"
  by (simp_all add: window_def paddr_to_pptr_reg_def word_le_nat_alt unat_window Let_def)

lemma window_phys: assumes "rstart r \<le> rend r" shows "phys (rset (window r)) \<subseteq> rset r"
proof
  fix y assume "y \<in> phys (rset (window r))"
  then obtain x where x: "x \<in> rset (window r)" "y = x - PPTR_BASE" by (auto simp: phys_def addrFromPPtr_def PPTR_BASE_OFFSET_def PADDR_BASE_def)
  have w: "rstart (window r) \<le> x" "x < rend (window r)" using x(1) rset_iff window_bounds(2) [OF assms] by blast+
  have u: "unat PPTR_BASE + min (unat (rstart r)) (unat PADDR_TOP) \<le> unat x" "unat x < unat PPTR_BASE + min (unat (rend r)) (unat PADDR_TOP)"
    using w by (simp_all add: window_def paddr_to_pptr_reg_def word_le_nat_alt word_less_nat_alt unat_window Let_def)
  have "PPTR_BASE \<le> x" using u(1) by (simp add: word_le_nat_alt)
  then have "unat y = unat x - unat PPTR_BASE" unfolding x(2) by (rule unat_sub_nowrap)
  then show "y \<in> rset r" using assms u by (auto simp: rset_iff word_le_nat_alt word_less_nat_alt min_def split: if_splits)
qed

lemma window_covered: "\<forall>r \<in> set xs. rstart r \<le> rend r \<Longrightarrow> phys (covered (map window xs)) \<subseteq> covered xs"
  using window_phys by (induction xs) (simp, force)

lemma init_freemem_regions:
  assumes ok: "resv_ok b" and len: "length (freemem b) = MAX_NUM_FREEMEM_REG"
    and cnt: "resv_count b \<le> length (kernel_device_frames (cfg b))" "length resv \<le> NUM_RESERVED_REGIONS"
    and base: "\<forall>r \<in> set resv. PPTR_BASE \<le> rstart r" and dis: "resv_set b \<inter> (covered available \<union> phys (covered resv)) = {}"
    and chk: "check_available_memory available" "check_reserved_memory resv"
  defines "b1 \<equiv> b\<lparr>freemem := map (\<lambda>_. REG_EMPTY) (freemem b)\<rparr>"
  shows "\<exists>av rs b2 f. init_freemem_loop (map window available) resv b1 = (av, rs, b2)
    \<and> freemem_inv (resv_set b) (covered (map window available)) (covered resv) (resv_count b + length resv) [] [] f (init_freemem_rest av rs b2)"
proof -
  have av: "check_available_loop None available" using chk(1) by (simp add: check_available_memory_def split: if_splits)
  note A = check_reserved_order [OF check_available_reserved [OF av]] and R = check_reserved_order [OF chk(2) [unfolded check_reserved_memory_def]]
  have o: "in_order (map window available)" "in_order resv"
    using A R base window_bounds by (auto simp: in_order_def sorted_wrt_map less_imp_le intro: sorted_wrt_mono_rel [rotated])
  have "phys (covered (map window available)) \<subseteq> covered available" using A by (intro window_covered) (auto intro: less_imp_le)
  then have D: "resv_set b \<inter> phys (covered (map window available) \<union> covered resv) = {}" using dis by auto
  have e: "\<forall>r \<in> set (freemem b1). r = REG_EMPTY" by (auto simp: b1_def)
  then have c: "covered (freemem b1) = {}" by (auto simp: covered_def REG_EMPTY_def rset_def)
  have "free_table (freemem b1) 0"
    using len by (auto simp: free_table_def b1_def is_reg_empty_def REG_EMPTY_def disjoint_entries_def rset_def)
  moreover have "resv_ok b1" "resv_set b1 = resv_set b" using ok by (simp_all add: b1_def resv_ok_def resv_set_def)
  moreover have "resv_count b + length resv + MAX_NUM_FREEMEM_REG \<le> MAX_NUM_RESV_REG (cfg b)" using cnt by (simp add: MAX_NUM_RESV_REG_def)
  ultimately have "freemem_inv (resv_set b) (covered (map window available)) (covered resv) (resv_count b + length resv) (map window available) resv 0 b1"
    unfolding freemem_inv_def using o D c by (simp add: b1_def)
  from init_freemem_loop_inv [OF this] obtain av rs f b2 where l: "init_freemem_loop (map window available) resv b1 = (av, rs, b2)" "av = [] \<or> rs = []"
    "freemem_inv (resv_set b) (covered (map window available)) (covered resv) (resv_count b + length resv) av rs f b2" by blast
  from l(2) have "\<exists>f. freemem_inv (resv_set b) (covered (map window available)) (covered resv) (resv_count b + length resv) [] [] f (init_freemem_rest av rs b2)"
  proof
    assume "av = []"
    then have "freemem_inv (resv_set b) (covered (map window available)) (covered resv) (resv_count b + length resv) [] [] f (init_freemem_rest av rs b2)"
      using freemem_inv_rest_resv l(3) by (simp add: init_freemem_rest_def)
    then show ?thesis by blast
  next
    assume "rs = []"
    then show ?thesis using freemem_inv_rest_av [of _ _ _ _ av f b2] l(3) by (simp add: init_freemem_rest_def)
  qed
  then show ?thesis using l(1) by blast
qed

section \<open>A region for the objects of the initial thread\<close>

text \<open>What allocating an object leaves alone.\<close>

definition regions_eq :: "bstate \<Rightarrow> bstate \<Rightarrow> bool" where
  "regions_eq b b' \<longleftrightarrow> cfg b' = cfg b \<and> reserved b' = reserved b \<and> resv_count b' = resv_count b \<and> freemem b' = freemem b"

lemma regions_eq_alloc:
  "regions_eq b (snd (alloc_rootserver_obj k n b))" "regions_eq b (maybe_alloc_extra_bi c x b)" "regions_eq b (alloc_into g k b)"
  by (simp_all add: regions_eq_def alloc_rootserver_obj_def maybe_alloc_extra_bi_def alloc_into_def Let_def)

lemma regions_eq_trans: "regions_eq a b \<Longrightarrow> regions_eq b c \<Longrightarrow> regions_eq a c"
  by (simp add: regions_eq_def)

lemmas alloc_fields = regions_eq_alloc [unfolded regions_eq_def]

lemma create_rootserver_objects_regions: "regions_eq b (create_rootserver_objects start v x b)"
  by (simp add: regions_eq_def create_rootserver_objects_def Let_def split_beta alloc_fields)

lemma rset_split:
  assumes "rstart r \<le> s" "s \<le> s'" "s' \<le> rend r"
  shows "rset r = rset (r\<lparr>rend := s\<rparr>) \<union> rset \<lparr>rstart = s, rend = s'\<rparr> \<union> rset \<lparr>rstart = s', rend = rend r\<rparr>"
    "rset (r\<lparr>rend := s\<rparr>) \<inter> rset \<lparr>rstart = s, rend = s'\<rparr> = {}" "rset (r\<lparr>rend := s\<rparr>) \<inter> rset \<lparr>rstart = s', rend = rend r\<rparr> = {}"
    "rset \<lparr>rstart = s, rend = s'\<rparr> \<inter> rset \<lparr>rstart = s', rend = rend r\<rparr> = {}"
proof -
  have "rstart r \<le> rend r" "rstart r \<le> s'" using assms by auto
  then show "rset r = rset (r\<lparr>rend := s\<rparr>) \<union> rset \<lparr>rstart = s, rend = s'\<rparr> \<union> rset \<lparr>rstart = s', rend = rend r\<rparr>"
    "rset (r\<lparr>rend := s\<rparr>) \<inter> rset \<lparr>rstart = s, rend = s'\<rparr> = {}" "rset (r\<lparr>rend := s\<rparr>) \<inter> rset \<lparr>rstart = s', rend = rend r\<rparr> = {}"
    "rset \<lparr>rstart = s, rend = s'\<rparr> \<inter> rset \<lparr>rstart = s', rend = rend r\<rparr> = {}"
    using assms by (auto simp: rset_iff)
qed

lemma round_down_fits:
  assumes "e - sz \<le> e"
  shows "ROUND_DOWN (e - sz) mx \<le> ROUND_DOWN (e - sz) mx + sz \<and> ROUND_DOWN (e - sz) mx + sz \<le> e
    \<and> 2 ^ unat mx dvd unat (ROUND_DOWN (e - sz) mx)"
proof -
  let ?s = "ROUND_DOWN (e - sz) mx"
  have s: "unat ?s = unat (e - sz) div 2 ^ unat mx * 2 ^ unat mx"
    using unat_clear_low [of "e - sz" "unat mx"] by (simp only: ROUND_DOWN_def and_not_mask)
  then have le: "unat ?s \<le> unat (e - sz)" by simp
  have "sz \<le> e"
  proof (rule ccontr)
    assume "\<not> sz \<le> e"
    then have l: "unat e < unat sz" by (simp add: word_le_nat_alt)
    moreover have "unat (e - sz) \<le> unat e" using assms by (simp add: word_le_nat_alt)
    ultimately have "e - sz \<noteq> 0" by auto
    then have "unat (e - sz + sz) \<noteq> unat (e - sz) + unat sz" using l by (metis diff_add_cancel le_add2 not_less)
    then have "2 ^ 64 \<le> unat (e - sz) + unat sz" using unat_add_nowrap [of "e - sz" sz] by linarith
    moreover have "unat (e - sz) + unat sz = unat e + 2 ^ 64"
      using calculation unat_lt_64 [of e] unat_lt_64 [of sz] unat_lt_64 [of "e - sz"] unat_word_ariths(1) [of "e - sz" sz]
      by (simp add: mod_if split: if_splits)
    ultimately show False using \<open>unat (e - sz) \<le> unat e\<close> unat_lt_64 [of sz] by linarith
  qed
  then have u: "unat (e - sz) = unat e - unat sz" by (rule unat_sub_nowrap)
  have "unat sz \<le> unat e" using \<open>sz \<le> e\<close> by (simp add: word_le_nat_alt)
  then have "unat (?s + sz) = unat ?s + unat sz" using le u unat_lt_64 [of e] by (intro unat_add_nowrap) linarith
  moreover have "unat ?s + unat sz \<le> unat e" using le u \<open>unat sz \<le> unat e\<close> by linarith
  moreover have "2 ^ unat mx dvd unat ?s" unfolding s by simp
  ultimately show ?thesis by (simp only: word_le_nat_alt) simp
qed

lemma covered_update: "i < length xs \<Longrightarrow> covered (xs[i := r]) \<subseteq> covered xs \<union> rset r"
  by (auto simp: covered_nth nth_list_update split: if_splits)

lemma disjoint_two_updates:
  assumes "disjoint_entries xs" "i < length xs" "k < length xs" "i \<noteq> k" "rset (xs ! k) = {}" "rset A \<subseteq> rset (xs ! i)" "rset B \<subseteq> rset (xs ! i)" "rset A \<inter> rset B = {}"
  shows "disjoint_entries (xs[k := B, i := A])" "covered (xs[k := B, i := A]) \<subseteq> covered xs"
    "X \<subseteq> rset (xs ! i) \<Longrightarrow> X \<inter> rset A = {} \<Longrightarrow> X \<inter> rset B = {} \<Longrightarrow> X \<inter> covered (xs[k := B, i := A]) = {}"
proof -
  have d: "rset (xs ! i) \<inter> rset (xs ! j) = {}" if "j < length xs" "j \<noteq> i" for j
    using assms(1,2) that unfolding disjoint_entries_def by (metis Int_commute linorder_neqE_nat)
  have sw: "xs[k := B, i := A] = xs[i := A, k := B]" using assms(4) by (simp add: list_update_swap)
  have A: "disjoint_entries (xs[i := A])" using assms(1) d assms(6) by (intro disjoint_entries_update) blast+
  have "rset B \<inter> rset (xs[i := A] ! j) = {}" if "j < length (xs[i := A])" "j \<noteq> k" for j
    using that d [of j] assms(2,7,8) by (cases "j = i") auto
  then show "disjoint_entries (xs[k := B, i := A])" unfolding sw using disjoint_entries_update [OF A, of k B] by blast
  have sub: "rset (xs ! i) \<subseteq> covered xs" using assms(2) by (auto simp: covered_nth)
  show "covered (xs[k := B, i := A]) \<subseteq> covered xs"
  proof -
    have "covered (xs[k := B, i := A]) \<subseteq> covered (xs[k := B]) \<union> rset A" using assms(2) by (intro covered_update) simp
    moreover have "covered (xs[k := B]) \<subseteq> covered xs \<union> rset B" using assms(3) by (rule covered_update)
    ultimately show ?thesis using assms(6,7) sub by blast
  qed
  assume X: "X \<subseteq> rset (xs ! i)" "X \<inter> rset A = {}" "X \<inter> rset B = {}"
  have "X \<inter> rset (xs[k := B, i := A] ! j) = {}" if "j < length xs" for j
    using that X d [of j] assms(2,3,4) by (cases "j = i"; cases "j = k") auto
  then show "X \<inter> covered (xs[k := B, i := A]) = {}" by (auto simp: covered_nth)
qed

lemma ends_update: "\<forall>r \<in> set xs. P r \<Longrightarrow> P A \<Longrightarrow> P B \<Longrightarrow> \<forall>r \<in> set (xs[k := B, i := A]). P r"
  using set_update_subset_insert [of "xs[k := B]" i A] set_update_subset_insert [of xs k B] by blast

definition fits :: "region \<Rightarrow> word64 \<Rightarrow> bstate \<Rightarrow> bstate \<Rightarrow> ptr \<Rightarrow> bool" where
  "fits v x b b' start \<longleftrightarrow> (let S = \<lparr>rstart = start, rend = start + calculate_rootserver_size (cfg b) v x\<rparr>
     in 2 ^ unat (rootserver_max_size_bits (cfg b) x) dvd unat start \<and> rstart S \<le> rend S \<and> rset S \<inter> covered (freemem b') = {}
      \<and> rset S \<union> covered (freemem b') \<subseteq> covered (freemem b) \<and> disjoint_entries (freemem b')
      \<and> (\<forall>r \<in> set (freemem b'). rstart r \<le> rend r) \<and> length (freemem b') = length (freemem b)
      \<and> cfg b' = cfg b \<and> reserved b' = reserved b \<and> resv_count b' = resv_count b
      \<and> (\<exists>xs ys. b' = (create_rootserver_objects start v x (b\<lparr>freemem := ys\<rparr>))\<lparr>freemem := xs\<rparr>))"

lemma fit_rootserver_loop_spec:
  assumes "fit_rootserver_loop k v x b = (True, b')" "k < length (freemem b)" "is_reg_empty (freemem b ! k)"
    and "disjoint_entries (freemem b)" "\<forall>r \<in> set (freemem b). rstart r \<le> rend r"
  shows "\<exists>start. fits v x b b' start"
  using assms
proof (induction k arbitrary: b)
  case (Suc i)
  let ?xs = "freemem b" and ?r = "freemem b ! i" and ?sz = "calculate_rootserver_size (cfg b) v x" and ?mx = "rootserver_max_size_bits (cfg b) x"
  let ?s = "ROUND_DOWN (rend ?r - ?sz) ?mx"
  have i: "i < length ?xs" "Suc i < length ?xs" using Suc.prems(2) by auto
  have e: "rset (?xs ! Suc i) = {}" using Suc.prems(3) by (rule rset_empty)
  note two = disjoint_two_updates [OF Suc.prems(4) i n_not_Suc_n e]
  show ?case
  proof (cases "rend ?r - ?sz \<le> rend ?r \<and> ?s \<ge> rstart ?r")
    case True
    let ?A = "?r\<lparr>rend := ?s\<rparr>" and ?B = "\<lparr>rstart = ?s + ?sz, rend = rend ?r\<rparr>" and ?S = "\<lparr>rstart = ?s, rend = ?s + ?sz\<rparr>"
    note f = round_down_fits [OF conjunct1 [OF True], of ?mx]
    note s = rset_split [OF conjunct2 [OF True] conjunct1 [OF f] conjunct1 [OF conjunct2 [OF f]]]
    have sub: "rset ?A \<subseteq> rset ?r" "rset ?B \<subseteq> rset ?r" "rset ?S \<subseteq> rset ?r" using s(1) by blast+
    note T = two [OF sub(1,2) s(3)]
    have "rset ?r \<subseteq> covered ?xs" unfolding covered_def using i(1) by (intro Union_upper imageI) simp
    then have "rset ?S \<subseteq> covered ?xs" using sub(3) by blast
    moreover have "rset ?S \<inter> covered (?xs[Suc i := ?B, i := ?A]) = {}" using T(3) [OF sub(3)] s(2,4) by blast
    moreover have "\<forall>r \<in> set (?xs[Suc i := ?B, i := ?A]). rstart r \<le> rend r" using Suc.prems(5) True f by (intro ends_update) auto
    moreover define b1 where "b1 = create_rootserver_objects ?s v x b"
    have "regions_eq b b1" unfolding b1_def by (rule create_rootserver_objects_regions)
    moreover from this have "b' = b1\<lparr>freemem := ?xs[Suc i := ?B, i := ?A]\<rparr>"
      using Suc.prems(1) True by (simp add: Let_def b1_def [symmetric] regions_eq_def)
    moreover from this have "\<exists>xs ys. b' = (create_rootserver_objects ?s v x (b\<lparr>freemem := ys\<rparr>))\<lparr>freemem := xs\<rparr>"
      by (intro exI [of _ "?xs[Suc i := ?B, i := ?A]"] exI [of _ ?xs]) (simp add: b1_def)
    ultimately have "fits v x b b' ?s" using T(1,2) f by (simp add: fits_def regions_eq_def)
    then show ?thesis by blast
  next
    case False
    let ?b = "b\<lparr>freemem := ?xs[Suc i := ?r, i := REG_EMPTY]\<rparr>"
    have z: "rset REG_EMPTY = {}" by (simp add: rset_def REG_EMPTY_def)
    note T = two [of REG_EMPTY ?r, unfolded z, simplified]
    have "fit_rootserver_loop i v x ?b = (True, b')" using Suc.prems(1) False by (simp add: Let_def)
    moreover have "is_reg_empty (freemem ?b ! i)" using i by (simp add: is_reg_empty_def REG_EMPTY_def)
    moreover have "\<forall>r \<in> set (freemem ?b). rstart r \<le> rend r"
      using ends_update [OF Suc.prems(5), of REG_EMPTY ?r] Suc.prems(5) i by (simp add: REG_EMPTY_def)
    ultimately obtain start where "fits v x ?b b' start" using Suc.IH [of ?b] T(1) i by auto
    then have "fits v x b b' start" using T(2) by (auto simp: fits_def Let_def)
    then show ?thesis by blast
  qed
qed simp

lemma skip_empty_bound: "k \<le> n \<Longrightarrow> skip_empty k xs \<le> k \<and> (skip_empty k xs < k \<longrightarrow> is_reg_empty (xs ! skip_empty k xs))"
  by (induction k) (auto simp: less_Suc_eq)

lemma freemem_inv_ends: "free_table xs f \<Longrightarrow> \<forall>r \<in> set xs. rstart r \<le> rend r"
  by (auto simp: free_table_def is_reg_empty_def in_set_conv_nth) (metis le_cases less_imp_le not_le order_refl)

text \<open>What looking for free memory leaves alone until the objects are created.\<close>

definition objs_eq :: "bstate \<Rightarrow> bstate \<Rightarrow> bool" where
  "objs_eq b b' \<longleftrightarrow> cfg b' = cfg b \<and> ks b' = ks b \<and> rootserver b' = rootserver b"

lemma objs_eq_refl [simp]: "objs_eq b b"
  by (simp add: objs_eq_def)

lemma objs_eq_trans [trans]: "objs_eq a b \<Longrightarrow> objs_eq b c \<Longrightarrow> objs_eq a c"
  by (simp add: objs_eq_def)

lemma objs_eq_reserve [simp]: "objs_eq b (snd (reserve_region r b))"
  by (simp add: objs_eq_def reserve_region_def split_beta)

lemma objs_eq_insert_loop: "objs_eq b (snd (insert_region_loop i r b))"
proof (induction i r b rule: insert_region_loop.induct)
  case (1 i r b)
  have "objs_eq b (b1\<lparr>freemem := xs\<rparr>)" if "objs_eq b b1" for b1 xs using that by (simp add: objs_eq_def)
  from this [OF objs_eq_reserve [of b "pptr_to_paddr_reg r"]] 1 show ?case by (subst insert_region_loop.simps) (simp add: Let_def split_beta)
qed

lemma objs_eq_insert [simp]: "objs_eq b (snd (insert_region r b))"
  using objs_eq_insert_loop by (simp add: insert_region_def)

lemma objs_eq_loop: "init_freemem_loop av rs b = (av', rs', b') \<Longrightarrow> objs_eq b b'"
  by (induction av rs b arbitrary: av' rs' b' rule: init_freemem_loop.induct)
    (auto simp: Let_def split: if_splits intro: objs_eq_trans [OF objs_eq_reserve] objs_eq_trans [OF objs_eq_insert])

lemma objs_eq_fold: "(\<And>r b. objs_eq b (f r b)) \<Longrightarrow> objs_eq b (fold f rs b)"
proof (induction rs arbitrary: b)
  case (Cons r rs)
  have "objs_eq b (f r b)" by (rule Cons.prems)
  also have "objs_eq (f r b) (fold f rs (f r b))" by (rule Cons.IH) (rule Cons.prems)
  finally show ?case by simp
qed simp

lemma objs_eq_rest: "objs_eq b (init_freemem_rest av rs b)"
  unfolding init_freemem_rest_def Let_def by (rule objs_eq_trans; rule objs_eq_fold) simp_all

lemma init_freemem_spec:
  assumes ok: "resv_ok b" and len: "length (freemem b) = MAX_NUM_FREEMEM_REG"
    and cnt: "resv_count b \<le> length (kernel_device_frames (cfg b))" "length resv \<le> NUM_RESERVED_REGIONS"
    and base: "\<forall>r \<in> set resv. PPTR_BASE \<le> rstart r" and dis: "resv_set b \<inter> (covered available \<union> phys (covered resv)) = {}"
    and r: "init_freemem available resv v x b = (True, b')"
  obtains b2 start f where "freemem_inv (resv_set b) (covered (map window available)) (covered resv) (resv_count b + length resv) [] [] f b2"
    "f < MAX_NUM_FREEMEM_REG" "fits v x b2 b' start" "phys (covered (map window available)) \<subseteq> covered available"
    "objs_eq b b2"
proof -
  have chk: "check_available_memory available" "check_reserved_memory resv" using r by (auto simp: init_freemem_def split: if_splits)
  let ?b1 = "b\<lparr>freemem := map (\<lambda>_. REG_EMPTY) (freemem b)\<rparr>"
  obtain av rs b1 f where l: "init_freemem_loop (map window available) resv ?b1 = (av, rs, b1)"
    "freemem_inv (resv_set b) (covered (map window available)) (covered resv) (resv_count b + length resv) [] [] f (init_freemem_rest av rs b1)"
    using init_freemem_regions [OF ok len cnt base dis chk] by blast
  define b2 where "b2 = init_freemem_rest av rs b1"
  have t: "free_table (freemem b2) f" using l(2) by (simp add: b2_def freemem_inv_def)
  have w: "(\<lambda>r. let r = paddr_to_pptr_reg r in \<lparr>rstart = ceiling_kernel_window (rstart r), rend = ceiling_kernel_window (rend r)\<rparr>) = window"
    by (simp add: fun_eq_iff window_def)
  have n: "length (freemem b2) = 16" using t by (simp add: free_table_def MAX_NUM_FREEMEM_REG_def)
  have e: "is_reg_empty (freemem b2 ! 15)" and s: "fit_rootserver_loop (skip_empty 16 (freemem b2)) v x b2 = (True, b')"
    using r chk l(1) n unfolding init_freemem_def w by (simp_all add: b2_def [symmetric] split: if_splits)
  have f: "f \<le> 15" using t e n by (simp add: free_table_def)
  have k: "skip_empty 16 (freemem b2) < 16" "is_reg_empty (freemem b2 ! skip_empty 16 (freemem b2))"
  proof -
    have "skip_empty 16 (freemem b2) = skip_empty 15 (freemem b2)" using e by (simp add: eval_nat_numeral)
    then show "skip_empty 16 (freemem b2) < 16" using skip_empty_bound [of 15 15 "freemem b2"] by simp
    then show "is_reg_empty (freemem b2 ! skip_empty 16 (freemem b2))" using skip_empty_bound [of 16 16 "freemem b2"] by simp
  qed
  have "disjoint_entries (freemem b2)" using t by (simp add: free_table_def)
  then obtain start where "fits v x b2 b' start"
    using fit_rootserver_loop_spec [OF s] k n freemem_inv_ends [OF t] by auto
  moreover have "phys (covered (map window available)) \<subseteq> covered available"
    using check_reserved_order [OF check_available_reserved] chk(1) by (intro window_covered) (auto simp: check_available_memory_def split: if_splits)
  moreover have "objs_eq b b2"
    unfolding b2_def using objs_eq_trans [OF objs_eq_trans [OF _ objs_eq_loop [OF l(1)]] objs_eq_rest] by (simp add: objs_eq_def)
  ultimately show thesis using that [of f b2 start] l(2) f by (simp add: b2_def MAX_NUM_FREEMEM_REG_def)
qed

lemma init_freemem_safe:
  assumes "resv_ok b" "length (freemem b) = MAX_NUM_FREEMEM_REG"
    and "resv_count b \<le> length (kernel_device_frames (cfg b))" "length resv \<le> NUM_RESERVED_REGIONS"
    and "\<forall>r \<in> set resv. PPTR_BASE \<le> rstart r" "resv_set b \<inter> (covered available \<union> phys (covered resv)) = {}"
    and "init_freemem available resv v x b = (True, b')"
  shows "\<exists>start. let S = \<lparr>rstart = start, rend = start + calculate_rootserver_size (cfg b') v x\<rparr>
    in rstart S \<le> rend S \<and> 2 ^ unat (rootserver_max_size_bits (cfg b') x) dvd unat start
     \<and> disjoint_entries (freemem b') \<and> rset S \<inter> covered (freemem b') = {}
     \<and> phys (rset S \<union> covered (freemem b')) \<subseteq> covered available \<and> (rset S \<union> covered (freemem b')) \<inter> covered resv = {}
     \<and> resv_ok b' \<and> resv_set b \<union> phys (covered resv \<union> rset S \<union> covered (freemem b')) \<subseteq> resv_set b'"
proof -
  obtain b2 start f where i: "freemem_inv (resv_set b) (covered (map window available)) (covered resv) (resv_count b + length resv) [] [] f b2"
    and f: "f < MAX_NUM_FREEMEM_REG" "fits v x b2 b' start" and w: "phys (covered (map window available)) \<subseteq> covered available"
    using init_freemem_spec [OF assms] by metis
  let ?S = "\<lparr>rstart = start, rend = start + calculate_rootserver_size (cfg b') v x\<rparr>"
  have F: "rset ?S \<union> covered (freemem b') \<subseteq> covered (freemem b2)" "cfg b' = cfg b2" "reserved b' = reserved b2" "resv_count b' = resv_count b2"
    using f(2) by (simp_all add: fits_def Let_def)
  have c: "covered (freemem b2) \<subseteq> covered (map window available)" "covered (freemem b2) \<inter> covered resv = {}"
    "resv_set b2 = resv_set b \<union> phys (covered (freemem b2) \<union> covered resv)" "resv_ok b2"
    using i f(1) by (auto simp: freemem_inv_def)
  have "resv_set b' = resv_set b2" "resv_ok b'" using F c(4) by (simp_all add: resv_set_def resv_ok_def)
  moreover have "phys (rset ?S \<union> covered (freemem b')) \<subseteq> covered available"
    using order_trans [OF _ w] F(1) c(1) by (metis order_trans phys_simps(4))
  moreover have "phys (covered resv \<union> rset ?S \<union> covered (freemem b')) \<subseteq> phys (covered (freemem b2) \<union> covered resv)"
    using F(1) by (simp only: phys_simps(4)) blast
  moreover have "(rset ?S \<union> covered (freemem b')) \<inter> covered resv = {}" using F(1) c(2) by blast
  ultimately show ?thesis using f(2) F(2) c(3) by (intro exI [of _ start]) (simp add: fits_def Let_def, blast)
qed


end
