(* ===== verification/BootUntyped.thy ===== *)
theory BootUntyped
  imports BootFree
begin

text \<open>
  The untyped capabilities of the initial thread: \<^verbatim>\<open>create_untypeds\<close> in \<^verbatim>\<open>src/kernel/kernel/boot.c\<close> covers the gaps between the
  reserved regions, the part of the kernel's image that only the boot code used, and the free regions with capabilities over blocks of a
  power of two. \<open>new_untypeds\<close> describes what a step of it adds, and composes. The theory ends with a small machine on which the boot
  theorems are applied.
\<close>


section \<open>Untyped capabilities of the initial thread\<close>

definition cap_set :: "cap \<Rightarrow> word64 set" where
  "cap_set c = rset \<lparr>rstart = capUtPtr c, rend = capUtPtr c + BIT (capBlockSize c)\<rparr>"

lemma rset_shift: "x \<in> rset r \<longleftrightarrow> x - c \<in> rset \<lparr>rstart = rstart r - c, rend = rend r - c\<rparr>"
  by (simp add: rset_def)

lemma rset_first:
  assumes "m \<le> rend r - rstart r"
  shows "rset r = rset \<lparr>rstart = rstart r, rend = rstart r + m\<rparr> \<union> rset (r\<lparr>rstart := rstart r + m\<rparr>)"
    "rset \<lparr>rstart = rstart r, rend = rstart r + m\<rparr> \<inter> rset (r\<lparr>rstart := rstart r + m\<rparr>) = {}"
proof -
  have "x \<in> rset r \<longleftrightarrow> x - rstart r < rend r - rstart r" for x by (simp add: rset_def)
  moreover have "x \<in> rset \<lparr>rstart = rstart r, rend = rstart r + m\<rparr> \<longleftrightarrow> x - rstart r < m" for x by (simp add: rset_def)
  moreover have "x \<in> rset (r\<lparr>rstart := rstart r + m\<rparr>) \<longleftrightarrow> m \<le> x - rstart r \<and> x - rstart r < rend r - rstart r" for x
    using rset_shift [of x "r\<lparr>rstart := rstart r + m\<rparr>" "rstart r"] rset_iff [of "\<lparr>rstart = m, rend = rend r - rstart r\<rparr>" "x - rstart r"] assms by simp
  ultimately show "rset r = rset \<lparr>rstart = rstart r, rend = rstart r + m\<rparr> \<union> rset (r\<lparr>rstart := rstart r + m\<rparr>)"
    "rset \<lparr>rstart = rstart r, rend = rstart r + m\<rparr> \<inter> rset (r\<lparr>rstart := rstart r + m\<rparr>) = {}"
    using assms by (auto simp: not_less)
qed

text \<open>
  The slots filled between two states hold untyped capabilities over disjoint parts of a set of addresses; nothing else has changed in
  the capability slots or the tables of regions.
\<close>

definition slots :: "bstate \<Rightarrow> bstate \<Rightarrow> nat set" where
  "slots b b' = {unat (slot_pos_cur b)..<unat (slot_pos_cur b')}"

abbreviation boot_cap :: "cap \<Rightarrow> nat \<Rightarrow> bstate \<Rightarrow> cap" where
  "boot_cap root i b \<equiv> cteCap (ctes (ks b) (cte_at (cap_get_capPtr root) (of_nat i)))"

definition new_untypeds :: "cap \<Rightarrow> bstate \<Rightarrow> bstate \<Rightarrow> word64 set \<Rightarrow> bool" where
  "new_untypeds root b b' X \<longleftrightarrow> unat (slot_pos_cur b) \<le> unat (slot_pos_cur b') \<and> cfg b' = cfg b
     \<and> reserved b' = reserved b \<and> resv_count b' = resv_count b
     \<and> plat (ks b') = plat (ks b) \<and> (\<forall>i \<in> slots b b'. i < unat (BIT (CONFIG_ROOT_CNODE_SIZE_BITS (cfg b))))
     \<and> (\<forall>p. (\<forall>i \<in> slots b b'. p \<noteq> cte_at (cap_get_capPtr root) (of_nat i)) \<longrightarrow> ctes (ks b') p = ctes (ks b) p)
     \<and> (\<forall>i \<in> slots b b'. (\<exists>k dev p. boot_cap root i b' = UntypedCap (MAX_FREE_INDEX k) dev k p \<and> 4 \<le> k \<and> k \<le> 38 \<and> IS_ALIGNED p k)
          \<and> cap_set (boot_cap root i b') \<subseteq> X \<and> (\<forall>j \<in> slots b b'. j < i \<longrightarrow> cap_set (boot_cap root j b') \<inter> cap_set (boot_cap root i b') = {}))"

lemma new_untypeds_refl: "new_untypeds root b b X"
  by (simp add: new_untypeds_def slots_def)

lemma new_untypeds_mono: "new_untypeds root b b' X \<Longrightarrow> X \<subseteq> Y \<Longrightarrow> new_untypeds root b b' Y"
  unfolding new_untypeds_def by blast

lemma slot_inj:
  assumes "unat (BIT (CONFIG_ROOT_CNODE_SIZE_BITS c)) \<le> 2 ^ 32" "i < unat (BIT (CONFIG_ROOT_CNODE_SIZE_BITS c))" "j < unat (BIT (CONFIG_ROOT_CNODE_SIZE_BITS c))"
  shows "cte_at p (of_nat i) = cte_at p (of_nat j) \<longleftrightarrow> i = j"
  using assms slots_distinct [of i j p 0] slots_distinct [of j i p 0] by (cases i j rule: linorder_cases) auto

lemma new_untypeds_trans:
  assumes a: "new_untypeds root b b1 X" and c: "new_untypeds root b1 b2 Y" and d: "X \<inter> Y = {}"
    and n: "unat (BIT (CONFIG_ROOT_CNODE_SIZE_BITS (cfg b))) \<le> 2 ^ 32"
  shows "new_untypeds root b b2 (X \<union> Y)"
proof -
  note A = a [unfolded new_untypeds_def] and C = c [unfolded new_untypeds_def]
  have le: "unat (slot_pos_cur b) \<le> unat (slot_pos_cur b1)" "unat (slot_pos_cur b1) \<le> unat (slot_pos_cur b2)" "cfg b1 = cfg b" using A C by blast+
  have S: "slots b b2 = slots b b1 \<union> slots b1 b2" "i \<in> slots b b1 \<Longrightarrow> j \<in> slots b1 b2 \<Longrightarrow> i < j" for i j
    using le by (auto simp: slots_def)
  have bound: "\<forall>i \<in> slots b b2. i < unat (BIT (CONFIG_ROOT_CNODE_SIZE_BITS (cfg b)))" using A C le(3) unfolding S by auto
  have same: "boot_cap root i b2 = boot_cap root i b1" if i: "i \<in> slots b b1" for i
  proof -
    have "cte_at (cap_get_capPtr root) (of_nat i) \<noteq> cte_at (cap_get_capPtr root) (of_nat j)" if j: "j \<in> slots b1 b2" for j
    proof -
      have "i < unat (BIT (CONFIG_ROOT_CNODE_SIZE_BITS (cfg b)))" "j < unat (BIT (CONFIG_ROOT_CNODE_SIZE_BITS (cfg b)))" using bound i j S(1) by blast+
      then show ?thesis using slot_inj [OF n] S(2) [OF i j] by blast
    qed
    then show ?thesis using C by simp
  qed
  have old: "boot_cap root i b2 = boot_cap root i b1" "cap_set (boot_cap root i b1) \<subseteq> X" if "i \<in> slots b b1" for i using same A that by blast+
  have new: "cap_set (boot_cap root i b2) \<subseteq> Y" if "i \<in> slots b1 b2" for i using C that by blast
  have dj: "cap_set (boot_cap root j b2) \<inter> cap_set (boot_cap root i b2) = {}" if ij: "i \<in> slots b b2" "j \<in> slots b b2" "j < i" for i j
  proof -
    consider "i \<in> slots b b1" "j \<in> slots b b1" | "i \<in> slots b1 b2" "j \<in> slots b1 b2" | "i \<in> slots b1 b2" "j \<in> slots b b1"
      using ij S by (metis UnE less_asym)
    then show ?thesis
    proof cases
      case 1
      then have "cap_set (boot_cap root j b1) \<inter> cap_set (boot_cap root i b1) = {}" using A ij(3) by blast
      then show ?thesis using old 1 by simp
    next
      case 2
      then show ?thesis using C ij(3) by blast
    next
      case 3
      then show ?thesis using old new d by (metis Int_mono subset_empty)
    qed
  qed
  have ctes: "ctes (ks b2) p = ctes (ks b) p" if "\<forall>i \<in> slots b b2. p \<noteq> cte_at (cap_get_capPtr root) (of_nat i)" for p
    using A C that S(1) by (metis UnI1 UnI2)
  have caps: "(\<exists>k dev p. boot_cap root i b2 = UntypedCap (MAX_FREE_INDEX k) dev k p \<and> 4 \<le> k \<and> k \<le> 38 \<and> IS_ALIGNED p k)
      \<and> cap_set (boot_cap root i b2) \<subseteq> X \<union> Y" if "i \<in> slots b b2" for i
    using that unfolding S
  proof
    assume "i \<in> slots b b1"
    then show ?thesis using A old by auto
  next
    assume "i \<in> slots b1 b2"
    then show ?thesis using C by blast
  qed
  show ?thesis unfolding new_untypeds_def using A C le bound ctes caps dj by simp
qed

lemma provide_cap_new:
  assumes "provide_cap root (UntypedCap (MAX_FREE_INDEX k) dev k p) b = (True, b')" "4 \<le> k" "k \<le> 38" "IS_ALIGNED p k"
  shows "new_untypeds root b b' (rset \<lparr>rstart = p, rend = p + BIT k\<rparr>) \<and> freemem b' = freemem b"
proof -
  let ?s = "slot_pos_cur b"
  have l: "unat ?s < unat (BIT (CONFIG_ROOT_CNODE_SIZE_BITS (cfg b)))"
    using assms(1) by (auto simp: provide_cap_def word_less_nat_alt word_le_nat_alt split: if_splits)
  note u = unat_suc_nowrap [OF l]
  have b': "b' = (write_slot (cte_at (cap_get_capPtr root) ?s) (UntypedCap (MAX_FREE_INDEX k) dev k p) b)\<lparr>slot_pos_cur := ?s + 1\<rparr>"
    using assms(1) by (auto simp: provide_cap_def Let_def write_slot_def split: if_splits)
  have s: "slots b b' = {unat ?s}" using u by (auto simp: slots_def b')
  show ?thesis unfolding new_untypeds_def s using u l assms(2-4)
    by (simp add: b' write_slot_def upd_cte_def nullMDBNode_def cap_set_def)
qed

lemma provide_untyped_cap_new:
  assumes "provide_untyped_cap root dev p k first b = (True, b')"
  shows "new_untypeds root b b' (rset \<lparr>rstart = p, rend = p + BIT k\<rparr>) \<and> freemem b' = freemem b"
proof -
  have k: "4 \<le> k" "k \<le> 38" "IS_ALIGNED p k"
    using assms by (auto simp: provide_untyped_cap_def seL4_MinUntypedBits_def seL4_MaxUntypedBits_def not_less split: if_splits)
  show ?thesis
  proof (cases "slot_pos_cur b - first < CONFIG_MAX_NUM_BOOTINFO_UNTYPED_CAPS (cfg b)")
    case False
    then have "b' = b" using assms by (auto simp: provide_untyped_cap_def split: if_splits)
    then show ?thesis using new_untypeds_refl by simp
  next
    case True
    then obtain d where d: "provide_cap root (UntypedCap (MAX_FREE_INDEX k) dev k p) (b\<lparr>bi_frame := d\<rparr>) = (True, b')"
      using assms by (auto simp: provide_untyped_cap_def Let_def split: if_splits)
    show ?thesis using provide_cap_new [OF d k] by (simp add: new_untypeds_def slots_def)
  qed
qed

lemma create_untypeds_for_region_new:
  assumes "create_untypeds_for_region root dev reg first b = (True, b')" "unat (BIT (CONFIG_ROOT_CNODE_SIZE_BITS (cfg b))) \<le> 2 ^ 32"
  shows "new_untypeds root b b' (rset reg) \<and> freemem b' = freemem b"
  using assms
proof (induction root dev reg first b rule: create_untypeds_for_region.induct)
  case (1 root dev reg first b)
  show ?case
  proof (cases "is_reg_empty reg")
    case True
    then show ?thesis using 1(2) new_untypeds_refl by (simp add: create_untypeds_for_region.simps)
  next
    case False
    let ?k = "untyped_size_bits reg"
    let ?rest = "reg\<lparr>rstart := rstart reg + BIT ?k\<rparr>" and ?chunk = "\<lparr>rstart = rstart reg, rend = rstart reg + BIT ?k\<rparr>"
    define q where "q = (if ?k \<ge> seL4_MinUntypedBits then provide_untyped_cap root dev (rstart reg) ?k first b else (True, b))"
    obtain r b1 where q1: "q = (r, b1)" by force
    have "create_untypeds_for_region root dev reg first b =
        (if \<not> r then (False, b1) else create_untypeds_for_region root dev ?rest first b1)"
      using False q1 unfolding q_def by (subst create_untypeds_for_region.simps) (simp add: Let_def)
    then have r: r "create_untypeds_for_region root dev ?rest first b1 = (True, b')" using 1(2) by (auto split: if_splits)
    have p: "new_untypeds root b b1 (rset ?chunk) \<and> freemem b1 = freemem b"
      using q1 r(1) provide_untyped_cap_new [of root dev "rstart reg" ?k first b b1] new_untypeds_refl
      unfolding q_def by (auto split: if_splits)
    have "unat (BIT (CONFIG_ROOT_CNODE_SIZE_BITS (cfg b1))) \<le> 2 ^ 32" using p 1(3) by (simp add: new_untypeds_def)
    then have rest: "new_untypeds root b1 b' (rset ?rest) \<and> freemem b' = freemem b1"
      using 1(1) [OF False refl q1 [unfolded q_def, symmetric] refl] r by blast
    have "BIT ?k \<le> rend reg - rstart reg"
    proof -
      obtain j where j: "?k = of_nat j" "j \<le> 38" using untyped_size [OF False] by metis
      then have "unat (BIT ?k) = 2 ^ unat ?k" using BIT_of_nat(2) [of j] by (simp add: unat_of_small)
      then show ?thesis using untyped_step(2) [OF False] by (simp add: word_le_nat_alt)
    qed
    note s = rset_first [OF this]
    show ?thesis using new_untypeds_trans [OF conjunct1 [OF p] conjunct1 [OF rest] s(2) 1(3)] s(1) p rest by simp
  qed
qed

lemma rset_pptr: "rset (paddr_to_pptr_reg r) = addrFromPPtr -` rset r"
  by (auto simp: rset_def paddr_to_pptr_reg_def ptrFromPAddr_def addrFromPPtr_def algebra_simps)

lemma covered_bounds:
  assumes "\<forall>r \<in> set rs. rstart r \<le> rend r" "x \<in> covered rs"
  shows "\<forall>r \<in> set rs. e \<le> rstart r \<Longrightarrow> e \<le> x" "\<forall>r \<in> set rs. rend r \<le> e \<Longrightarrow> x < e"
proof -
  obtain r where "r \<in> set rs" "rstart r \<le> x" "x < rend r" using assms by (auto simp: covered_def rset_iff)
  then show "\<forall>r \<in> set rs. e \<le> rstart r \<Longrightarrow> e \<le> x" "\<forall>r \<in> set rs. rend r \<le> e \<Longrightarrow> x < e"
    by (meson order_trans, meson less_le_trans)
qed

lemma create_device_untypeds_new:
  assumes "create_device_untypeds root first start rs b = (True, start', b')" "separated rs" "\<forall>r \<in> set rs. start \<le> rstart r"
    and "unat (BIT (CONFIG_ROOT_CNODE_SIZE_BITS (cfg b))) \<le> 2 ^ 32"
  shows "new_untypeds root b b' (addrFromPPtr -` {x. start \<le> x \<and> x < start' \<and> x \<notin> covered rs}) \<and> freemem b' = freemem b
    \<and> start \<le> start' \<and> (\<forall>r \<in> set rs. rend r \<le> start')"
  using assms
proof (induction rs arbitrary: start b)
  case (Cons r rs)
  let ?G = "\<lparr>rstart = start, rend = rstart r\<rparr>"
  obtain ok b1 where q: "(if start < rstart r then create_untypeds_for_region root True (paddr_to_pptr_reg ?G) first b else (True, b)) = (ok, b1)" by force
  have s: "rstart r < rend r" "separated rs" "\<forall>b \<in> set rs. rend r < rstart b" using Cons.prems(2) by (auto simp: separated_Cons)
  have o: ok "create_device_untypeds root first (rend r) rs b1 = (True, start', b')" using Cons.prems(1) q by (auto simp: Let_def split: if_splits)
  have g: "new_untypeds root b b1 (addrFromPPtr -` rset ?G) \<and> freemem b1 = freemem b"
    using q o(1) create_untypeds_for_region_new [of root True "paddr_to_pptr_reg ?G" first b b1] Cons.prems(4) new_untypeds_refl
    unfolding rset_pptr by (auto split: if_splits)
  let ?T = "{x. rend r \<le> x \<and> x < start' \<and> x \<notin> covered rs}"
  have t: "new_untypeds root b1 b' (addrFromPPtr -` ?T) \<and> freemem b' = freemem b1 \<and> rend r \<le> start' \<and> (\<forall>r \<in> set rs. rend r \<le> start')"
    using Cons.IH [OF o(2) s(2)] s(3) g Cons.prems(4) by (simp add: new_untypeds_def less_imp_le)
  have G: "x \<in> rset ?G \<longleftrightarrow> start \<le> x \<and> x < rstart r" for x using Cons.prems(3) by (intro rset_iff [of ?G, simplified]) simp
  have sub: "addrFromPPtr -` rset ?G \<union> addrFromPPtr -` ?T \<subseteq> addrFromPPtr -` {x. start \<le> x \<and> x < start' \<and> x \<notin> covered (r # rs)}"
  proof -
    have "x \<notin> covered rs" if "x < rstart r" for x
    proof
      assume "x \<in> covered rs"
      then have "rend r \<le> x" using covered_bounds(1) [of rs x "rend r"] s by (auto simp: separated_def less_imp_le)
      then have "rstart r \<le> x" using s(1) by simp
      then show False using that by simp
    qed
    moreover have "x \<notin> rset r" if "x < rstart r \<or> rend r \<le> x" for x using that s(1) by (auto simp: rset_iff)
    moreover have "start \<le> rend r" "rstart r \<le> start'" using Cons.prems(3) s(1) t by auto
    ultimately show ?thesis using G by (auto dest: less_le_trans order_trans)
  qed
  have "addrFromPPtr -` rset ?G \<inter> addrFromPPtr -` ?T = {}"
  proof (rule equals0I)
    fix y assume "y \<in> addrFromPPtr -` rset ?G \<inter> addrFromPPtr -` ?T"
    then have "addrFromPPtr y < rstart r" "rend r \<le> addrFromPPtr y" using G by auto
    then show False using s(1) by simp
  qed
  then have "new_untypeds root b b' (addrFromPPtr -` rset ?G \<union> addrFromPPtr -` ?T)" using new_untypeds_trans g t Cons.prems(4) by blast
  moreover have "start \<le> start'" using Cons.prems(3) s(1) t by (auto intro: order_trans less_imp_le)
  ultimately show ?case using new_untypeds_mono [OF _ sub] g t by simp
qed (simp add: new_untypeds_refl)

lemma create_free_untypeds_new:
  assumes "create_free_untypeds root first is b = (True, b')" "distinct is" "\<forall>i \<in> set is. i < length (freemem b)" "disjoint_entries (freemem b)"
    and "unat (BIT (CONFIG_ROOT_CNODE_SIZE_BITS (cfg b))) \<le> 2 ^ 32"
  shows "new_untypeds root b b' (\<Union>i \<in> set is. rset (freemem b ! i))"
  using assms
proof (induction "is" arbitrary: b)
  case (Cons i "is")
  let ?r = "freemem b ! i"
  let ?b = "b\<lparr>freemem := (freemem b)[i := REG_EMPTY]\<rparr>"
  obtain ok b1 where q: "create_untypeds_for_region root False ?r first ?b = (ok, b1)" by force
  have o: ok "create_free_untypeds root first is b1 = (True, b')" using Cons.prems(1) q by (auto simp: Let_def split: if_splits)
  have g: "new_untypeds root ?b b1 (rset ?r)" "freemem b1 = (freemem b)[i := REG_EMPTY]"
    using q o(1) create_untypeds_for_region_new [of root False ?r first ?b b1] Cons.prems(5) by auto
  then have g': "new_untypeds root b b1 (rset ?r)" by (simp add: new_untypeds_def slots_def)
  have "disjoint_entries (freemem b1)" unfolding g(2) using Cons.prems(4)
    by (rule disjoint_entries_update) (simp add: rset_def REG_EMPTY_def)
  then have t: "new_untypeds root b1 b' (\<Union>j \<in> set is. rset (freemem b1 ! j))"
    using Cons.IH [OF o(2)] Cons.prems(2,3,5) g by (simp add: new_untypeds_def)
  have e: "freemem b1 ! j = freemem b ! j" if "j \<in> set is" for j using that Cons.prems(2) g(2) by (cases "i = j") auto
  have "rset ?r \<inter> rset (freemem b ! j) = {}" if "j \<in> set is" for j
    using that Cons.prems(2,3,4) unfolding disjoint_entries_def by (metis Int_commute distinct.simps(2) linorder_neqE_nat list.set_intros)
  then have "rset ?r \<inter> (\<Union>j \<in> set is. rset (freemem b ! j)) = {}" by blast
  moreover have "new_untypeds root b1 b' (\<Union>j \<in> set is. rset (freemem b ! j))" using t e by simp
  ultimately show ?case using new_untypeds_trans [OF g'] Cons.prems(5) by simp
qed (simp add: new_untypeds_refl)

lemma create_untypeds_new:
  assumes c: "create_untypeds root b = (True, b')" and ok: "resv_ok b" "disjoint_entries (freemem b)"
    and n: "unat (BIT (CONFIG_ROOT_CNODE_SIZE_BITS (cfg b))) \<le> 2 ^ 32"
  defines "boot \<equiv> rset (paddr_to_pptr_reg (get_p_reg_kernel_img_boot b))"
  assumes m: "phys boot \<subseteq> resv_set b" "phys (covered (freemem b)) \<subseteq> resv_set b" "boot \<inter> covered (freemem b) = {}"
  shows "new_untypeds root b b' (addrFromPPtr -` (- resv_set b) \<union> boot \<union> covered (freemem b))
    \<and> untyped (bi_frame b') = \<lparr>rstart = slot_pos_cur b, rend = slot_pos_cur b'\<rparr>"
proof -
  let ?rs = "take (resv_count b) (reserved b)" and ?f = "slot_pos_cur b"
  let ?top = "CONFIG_PADDR_USER_DEVICE_TOP (cfg b)"
  obtain start b1 where d: "create_device_untypeds root ?f 0 ?rs b = (True, start, b1)"
    using c by (auto simp: create_untypeds_def Let_def split: prod.splits if_splits)
  have sep: "separated ?rs" using ok(1) by (simp add: resv_ok_def)
  note D = create_device_untypeds_new [OF d sep _ n, simplified]
  let ?G = "\<lparr>rstart = start, rend = ?top\<rparr>"
  have c1: "cfg b1 = cfg b" using D by (simp add: new_untypeds_def)
  obtain b2 where t: "(if start < ?top then create_untypeds_for_region root True (paddr_to_pptr_reg ?G) ?f b1 else (True, b1)) = (True, b2)"
    using c d c1 by (auto simp: create_untypeds_def Let_def split: prod.splits if_splits)
  have T: "new_untypeds root b1 b2 (addrFromPPtr -` {x. start \<le> x \<and> x < ?top}) \<and> freemem b2 = freemem b1"
  proof (cases "start < ?top")
    case True
    then have "rset ?G = {x. start \<le> x \<and> x < ?top}" by (auto simp: rset_iff)
    then show ?thesis using create_untypeds_for_region_new [of root True "paddr_to_pptr_reg ?G" ?f b1 b2] t True n c1 rset_pptr [of ?G] by simp
  next
    case False
    then show ?thesis using t new_untypeds_refl by simp
  qed
  have bnd: "x < start" if "x \<in> resv_set b" for x
    using covered_bounds(2) [of ?rs x start] that sep D by (auto simp: resv_set_def separated_def less_imp_le)
  have DT: "new_untypeds root b b2 (addrFromPPtr -` (- resv_set b))"
  proof -
    have "new_untypeds root b b2 (addrFromPPtr -` {x. x < start \<and> x \<notin> covered ?rs} \<union> addrFromPPtr -` {x. start \<le> x \<and> x < ?top})"
      using D T n by (intro new_untypeds_trans [of root b b1]) auto
    moreover have "addrFromPPtr -` {x. x < start \<and> x \<notin> covered ?rs} \<union> addrFromPPtr -` {x. start \<le> x \<and> x < ?top} \<subseteq> addrFromPPtr -` (- resv_set b)"
      using bnd by (force simp: resv_set_def)
    ultimately show ?thesis by (rule new_untypeds_mono)
  qed
  have c2: "cfg b2 = cfg b" "plat (ks b2) = plat (ks b)" using DT by (auto simp: new_untypeds_def)
  then have bt: "get_p_reg_kernel_img_boot b2 = get_p_reg_kernel_img_boot b" by (simp add: get_p_reg_kernel_img_boot_def addrFromKPPtr_def)
  obtain b3 where b3: "create_untypeds_for_region root False (paddr_to_pptr_reg (get_p_reg_kernel_img_boot b)) ?f b2 = (True, b3)"
    using c d t c1 bt by (auto simp: create_untypeds_def Let_def split: prod.splits if_splits)
  have B: "new_untypeds root b2 b3 boot \<and> freemem b3 = freemem b"
    using create_untypeds_for_region_new [OF b3] n c2 D T by (simp add: boot_def)
  have dB: "addrFromPPtr -` (- resv_set b) \<inter> boot = {}" "addrFromPPtr -` (- resv_set b) \<inter> covered (freemem b) = {}"
    using m(1,2) unfolding phys_def by blast+
  have DTB: "new_untypeds root b b3 (addrFromPPtr -` (- resv_set b) \<union> boot)" using new_untypeds_trans [OF DT _ dB(1) n] B by blast
  obtain b4 where b4: "create_free_untypeds root ?f [0..<length (freemem b3)] b3 = (True, b4)"
    "b' = b4\<lparr>bi_frame := (bi_frame b4)\<lparr>untyped := \<lparr>rstart = ?f, rend = slot_pos_cur b4\<rparr>\<rparr>\<rparr>"
    using c d t c1 bt b3 by (auto simp: create_untypeds_def Let_def split: prod.splits if_splits)
  have "new_untypeds root b3 b4 (\<Union>i \<in> set [0..<length (freemem b3)]. rset (freemem b3 ! i))"
    using create_free_untypeds_new [OF b4(1)] ok(2) B n DTB by (auto simp: new_untypeds_def)
  moreover have "(\<Union>i \<in> set [0..<length (freemem b3)]. rset (freemem b3 ! i)) = covered (freemem b)" using B by (auto simp: covered_nth)
  ultimately have "new_untypeds root b b4 (addrFromPPtr -` (- resv_set b) \<union> boot \<union> covered (freemem b))"
    using new_untypeds_trans [OF DTB _ _ n, of b4 "covered (freemem b)"] dB(2) m(3) by (simp add: Int_Un_distrib2)
  then show ?thesis by (simp add: b4(2) new_untypeds_def slots_def)
qed


section \<open>A small machine\<close>

text \<open>
  Memory of 320 kilobytes from \<open>0x80000000\<close> on, the first 64 of them the kernel's image, of which 16 are used by the boot code only; a root
  capability node of 4096 slots.
\<close>

definition bootinfo0 :: seL4_BootInfo where
  "bootinfo0 = \<lparr>extraLen = 0, nodeID = 0, numNodes = 0, numIOPTLevels = 0, ipcBuffer = 0, empty = REG_EMPTY, sharedFrames = REG_EMPTY,
     userImageFrames = REG_EMPTY, userImagePaging = REG_EMPTY, ioSpaceCaps = REG_EMPTY, extraBIPages = REG_EMPTY, initThreadCNodeSizeBits = 0,
     initThreadDomain = 0, schedcontrol = REG_EMPTY, untyped = REG_EMPTY, untypedList = (\<lambda>_. \<lparr>paddr = 0, sizeBits = 0, isDevice = False\<rparr>)\<rparr>"

definition example_config :: boot_config where
  "example_config = \<lparr>CONFIG_ROOT_CNODE_SIZE_BITS = 12, CONFIG_MAX_NUM_BOOTINFO_UNTYPED_CAPS = 64, CONFIG_PADDR_USER_DEVICE_TOP = 0x80050000,
     CONFIG_BOOT_THREAD_TIME_SLICE = 5, KERNEL_ELF_PADDR_BASE = 0x80000000, ki_boot_end = 0xFFFFFFFF80004000, ki_end = 0xFFFFFFFF80010000,
     idle_thread = 0xFFFFFFFF80001000, ksIdleThreadTCB = 0xFFFFFFFF80005000, ksIdleThreadSC = 0xFFFFFFFF80006000,
     kernel_image_level1_pt = 0xFFFFFFFF80007000, kernel_image_level1_dev_pt = 0xFFFFFFFF80008000,
     avail_p_regs = [\<lparr>rstart = 0x80000000, rend = 0x80050000\<rparr>], kernel_device_frames = []\<rparr>"

definition example_boot :: bstate where
  "example_boot = \<lparr>cfg = example_config, ks = kstate0\<lparr>plat := (plat kstate0)\<lparr>pKernelELFOffset := 0xFFFFFFFF00000000\<rparr>\<rparr>,
     reserved = replicate 19 REG_EMPTY, resv_count = 0, freemem = replicate 16 REG_EMPTY, bi_frame = bootinfo0, slot_pos_cur = 16,
     rootserver = \<lparr>rs_cnode = 0, rs_vspace = 0, rs_asid_pool = 0, rs_ipc_buf = 0, rs_boot_info = 0, rs_extra_bi = 0, rs_tcb = 0, rs_sc = 0,
       rs_paging = REG_EMPTY\<rparr>, rootserver_mem = REG_EMPTY\<rparr>"

definition example_resv :: "region list" where
  "example_resv = [\<lparr>rstart = 0xFFFFFFC080000000, rend = 0xFFFFFFC080010000\<rparr>]"

definition example_boot1 :: bstate where
  "example_boot1 = example_boot\<lparr>reserved := (replicate 19 REG_EMPTY)[0 := \<lparr>rstart = 0x80000000, rend = 0x80010000\<rparr>], resv_count := 1\<rparr>"

definition example_boot2 :: bstate where
  "example_boot2 = example_boot\<lparr>reserved := (replicate 19 REG_EMPTY)[0 := \<lparr>rstart = 0x80000000, rend = 0x80050000\<rparr>], resv_count := 1,
      freemem := (replicate 16 REG_EMPTY)[0 := \<lparr>rstart = 0xFFFFFFC080010000, rend = 0xFFFFFFC080050000\<rparr>]\<rparr>"

lemma example_loop:
  "init_freemem_loop (map window (avail_p_regs example_config)) example_resv example_boot =
     ([\<lparr>rstart = 0xFFFFFFC080010000, rend = 0xFFFFFFC080050000\<rparr>], [], example_boot1)"
  by (simp add: example_boot1_def example_config_def window_def paddr_to_pptr_reg_def ptrFromPAddr_def PPTR_BASE_OFFSET_def PPTR_BASE_def PADDR_BASE_def
      ceiling_kernel_window_def addrFromPPtr_def PADDR_TOP_def PPTR_TOP_def example_resv_def reserve_region_def pptr_to_paddr_reg_def
      reserve_region_loop.simps example_boot_def MAX_NUM_RESV_REG_def MAX_NUM_FREEMEM_REG_def NUM_RESERVED_REGIONS_def)

lemma example_rest:
  "init_freemem_rest [\<lparr>rstart = 0xFFFFFFC080010000, rend = 0xFFFFFFC080050000\<rparr>] [] example_boot1 = example_boot2"
  by (simp add: example_boot1_def example_boot2_def init_freemem_rest_def insert_region_def is_reg_empty_def insert_region_loop.simps example_boot_def REG_EMPTY_def
      reserve_region_def pptr_to_paddr_reg_def addrFromPPtr_def PPTR_BASE_OFFSET_def PPTR_BASE_def PADDR_BASE_def
      reserve_region_loop.simps merge_regions_loop.simps)

definition example_v :: region where "example_v = \<lparr>rstart = 0x10000, rend = 0x14000\<rparr>"

lemma example_size: "calculate_rootserver_size example_config example_v 0 = 0x26480"
  by (simp add: calculate_rootserver_size_def example_config_def example_v_def BIT_def seL4_SlotBits_def seL4_TCBBits_def seL4_PageBits_def
      seL4_BootInfoFrameBits_def seL4_ASIDPoolBits_def seL4_VSpaceBits_def seL4_MinSchedContextBits_def arch_get_n_paging_def get_n_paging_def
      CONFIG_PT_LEVELS_def RISCV_GET_LVL_PGSIZE_BITS_def PT_INDEX_BITS_def ROUND_DOWN_def ROUND_UP_def seL4_PageTableBits_def upt_rec)

definition example_freemem :: "region list" where
  "example_freemem = (replicate 16 REG_EMPTY)[1 := \<lparr>rstart = 0xFFFFFFC080046480, rend = 0xFFFFFFC080050000\<rparr>,
     0 := \<lparr>rstart = 0xFFFFFFC080010000, rend = 0xFFFFFFC080020000\<rparr>]"

lemma example_init_freemem:
  "\<exists>b. init_freemem (avail_p_regs example_config) example_resv example_v 0 example_boot = (True, b) \<and> cfg b = example_config
     \<and> freemem b = example_freemem \<and> take (resv_count b) (reserved b) = [\<lparr>rstart = 0x80000000, rend = 0x80050000\<rparr>]"
proof -
  let ?a = "\<lparr>rstart = 0xFFFFFFC080010000, rend = 0xFFFFFFC080050000\<rparr>"
  have c: "check_available_memory (avail_p_regs example_config)" "check_reserved_memory example_resv"
    by (simp_all add: check_available_memory_def check_reserved_memory_def example_config_def example_resv_def)
  have w: "(\<lambda>r. let r = paddr_to_pptr_reg r in \<lparr>rstart = ceiling_kernel_window (rstart r), rend = ceiling_kernel_window (rend r)\<rparr>) = window"
    by (simp add: fun_eq_iff window_def)
  have b: "example_boot\<lparr>freemem := map (\<lambda>_. REG_EMPTY) (freemem example_boot)\<rparr> = example_boot" by (simp add: example_boot_def map_replicate_const)
  let ?e = example_boot2
  have f: "freemem ?e = (replicate 16 REG_EMPTY)[0 := ?a]" "cfg ?e = example_config" by (simp_all add: example_boot2_def example_boot_def)
  have l: "length (freemem ?e) = 16" "is_reg_empty (freemem ?e ! 15)" by (simp_all add: f is_reg_empty_def REG_EMPTY_def)
  have "init_freemem (avail_p_regs example_config) example_resv example_v 0 example_boot = fit_rootserver_loop (skip_empty 16 (freemem ?e)) example_v 0 ?e"
    using c l unfolding init_freemem_def w b by (simp add: example_loop example_rest Let_def)
  also have "skip_empty (Suc n) (freemem ?e) = Suc 0" if "n < 16" for n
    using that by (induction n) (simp_all add: f is_reg_empty_def REG_EMPTY_def)
  from this [of 15] have "skip_empty 16 (freemem ?e) = Suc 0" by simp
  finally have i: "init_freemem (avail_p_regs example_config) example_resv example_v 0 example_boot = fit_rootserver_loop (Suc 0) example_v 0 ?e" .
  have mx: "rootserver_max_size_bits example_config 0 = 17"
    by (simp add: rootserver_max_size_bits_def example_config_def seL4_SlotBits_def seL4_VSpaceBits_def max_def)
  define ob where "ob = create_rootserver_objects 0xFFFFFFC080020000 example_v 0 ?e"
  have q: "regions_eq ?e ob" unfolding ob_def by (rule create_rootserver_objects_regions)
  have sw: "xs[0 := a, Suc 0 := c, 0 := d] = xs[Suc 0 := c, 0 := d]" for xs :: "region list" and a c d
    by (cases xs; cases "tl xs") auto
  have "fit_rootserver_loop (Suc 0) example_v 0 ?e = (True, ob\<lparr>freemem := example_freemem\<rparr>)"
    using q by (simp add: f example_size mx ROUND_DOWN_def ob_def [symmetric] regions_eq_def example_freemem_def Let_def sw)
  note j = i [unfolded this]
  have r: "take (resv_count ?e) (reserved ?e) = [\<lparr>rstart = 0x80000000, rend = 0x80050000\<rparr>]"
    by (simp add: example_boot2_def take_Suc_conv_app_nth)
  show ?thesis by (intro exI conjI, rule j) (use q r in \<open>simp_all add: regions_eq_def f\<close>)
qed

text \<open>How the untyped capabilities of a region come out, with their sizes.\<close>

fun run_ok :: "bool \<Rightarrow> region \<Rightarrow> nat list \<Rightarrow> bool" where
  "run_ok dev reg [] \<longleftrightarrow> is_reg_empty reg"
| "run_ok dev reg (k # ls) \<longleftrightarrow> 2 ^ k \<le> unat (rend reg - rstart reg) \<and> 2 ^ k dvd unat (rstart reg)
     \<and> (unat (rend reg - rstart reg) < 2 ^ (k + 1) \<or> \<not> 2 ^ (k + 1) dvd unat (rstart reg)) \<and> 4 \<le> k \<and> k \<le> 38
     \<and> (dev \<or> pptr_in_kernel_window (rstart reg) \<and> pptr_in_kernel_window (rstart reg + 2 ^ k - 1))
     \<and> run_ok dev (reg\<lparr>rstart := rstart reg + 2 ^ k\<rparr>) ls"

definition keeps :: "bstate \<Rightarrow> bstate \<Rightarrow> nat \<Rightarrow> bool" where
  "keeps b b' n \<longleftrightarrow> regions_eq b b' \<and> slot_pos_cur b' = slot_pos_cur b + of_nat n \<and> plat (ks b') = plat (ks b)"

lemma untyped_size_is:
  assumes "2 ^ k \<le> unat (rend reg - rstart reg)" "2 ^ k dvd unat (rstart reg)" "k \<le> 38"
    "k = 38 \<or> unat (rend reg - rstart reg) < 2 ^ (k + 1) \<or> \<not> 2 ^ (k + 1) dvd unat (rstart reg)"
  shows "\<not> is_reg_empty reg" "untyped_size_bits reg = of_nat k"
proof -
  show ne: "\<not> is_reg_empty reg" using assms(1) by (auto simp: is_reg_empty_def)
  obtain j where j: "untyped_size_bits reg = of_nat j" "j \<le> 38" "2 ^ j \<le> unat (rend reg - rstart reg)" "2 ^ j dvd unat (rstart reg)"
    "j = 38 \<or> unat (rend reg - rstart reg) < 2 ^ (j + 1) \<or> \<not> 2 ^ (j + 1) dvd unat (rstart reg)" using untyped_size [OF ne] by metis
  have le: "c \<le> a" if "a = 38 \<or> unat (rend reg - rstart reg) < 2 ^ (a + 1) \<or> \<not> 2 ^ (a + 1) dvd unat (rstart reg)"
    "2 ^ c \<le> unat (rend reg - rstart reg)" "2 ^ c dvd unat (rstart reg)" "c \<le> 38" for a c
  proof (rule ccontr)
    assume "\<not> c \<le> a"
    then have "(2::nat) ^ (a + 1) dvd 2 ^ c" "(2::nat) ^ (a + 1) \<le> 2 ^ c" "a \<noteq> 38"
      using that(4) le_imp_power_dvd [of "a + 1" c "2::nat"] power_increasing [of "a + 1" c "2::nat"] by auto
    then show False using that by (meson dvd_trans le_trans not_less)
  qed
  have "j = k" using le [OF assms(4) j(3,4,2)] le [OF j(5) assms(1,2,3)] by simp
  then show "untyped_size_bits reg = of_nat k" using j(1) by simp
qed

lemma run_ok_creates:
  assumes "run_ok dev reg ls" "cfg b = example_config" "16 \<le> unat (slot_pos_cur b)" "unat (slot_pos_cur b) + length ls \<le> 80"
  shows "\<exists>b'. create_untypeds_for_region root dev reg 16 b = (True, b') \<and> keeps b b' (length ls)"
  using assms
proof (induction ls arbitrary: reg b)
  case Nil
  then show ?case by (simp add: create_untypeds_for_region.simps keeps_def regions_eq_def)
next
  case (Cons k ls)
  have r: "2 ^ k \<le> unat (rend reg - rstart reg)" "2 ^ k dvd unat (rstart reg)" "4 \<le> k" "k \<le> 38"
    "unat (rend reg - rstart reg) < 2 ^ (k + 1) \<or> \<not> 2 ^ (k + 1) dvd unat (rstart reg)" using Cons.prems(1) by auto
  note k = untyped_size_is [OF r(1,2,4) disjI2 [OF r(5)]] r(3,4)
  have al: "IS_ALIGNED (rstart reg) (of_nat k)"
    using aligned_word [OF r(2)] BIT_of_nat(1) [of k] k(4) by (simp add: IS_ALIGNED_def MASK_def mask_eq_exp_minus_1)
  have sz: "\<not> (of_nat k :: word64) > seL4_MaxUntypedBits" "\<not> (of_nat k :: word64) < seL4_MinUntypedBits" "seL4_MinUntypedBits \<le> (of_nat k :: word64)"
    using of_nat_small_less [of 38 k] of_nat_small_less [of k 4] k(3,4) by (simp_all add: seL4_MaxUntypedBits_def seL4_MinUntypedBits_def not_less)
  have B: "BIT (of_nat k) = 2 ^ k" using BIT_of_nat(1) [of k] k(4) by simp
  have s: "slot_pos_cur b - 16 < 64" "slot_pos_cur b < BIT 12"
  proof -
    have "unat (slot_pos_cur b) < 80" using Cons.prems(4) by simp
    moreover have "(16::word64) \<le> slot_pos_cur b" using Cons.prems(3) by (simp add: word_le_nat_alt)
    then have "unat (slot_pos_cur b - 16) = unat (slot_pos_cur b) - 16" by (simp add: unat_sub_nowrap)
    ultimately show "slot_pos_cur b - 16 < 64" "slot_pos_cur b < BIT 12" by (simp_all add: word_less_nat_alt BIT_def)
  qed
  have "\<exists>b1. provide_untyped_cap root dev (rstart reg) (of_nat k) 16 b = (True, b1) \<and> keeps b b1 1"
    using Cons.prems(1,2) sz al s unfolding provide_untyped_cap_def provide_cap_def
    by (auto simp: Let_def example_config_def B MASK_def keeps_def regions_eq_def write_slot_def upd_cte_def add_diff_eq)
  then obtain b1 where p: "provide_untyped_cap root dev (rstart reg) (of_nat k) 16 b = (True, b1)" "keeps b b1 1" by blast
  have u: "unat (slot_pos_cur b1) = unat (slot_pos_cur b) + 1"
    using p(2) unat_suc_nowrap [of "slot_pos_cur b" 80] Cons.prems(4) by (simp add: keeps_def)
  have "create_untypeds_for_region root dev reg 16 b = create_untypeds_for_region root dev (reg\<lparr>rstart := rstart reg + 2 ^ k\<rparr>) 16 b1"
    using k(1) sz(3) p(1) by (subst create_untypeds_for_region.simps) (simp add: Let_def k(2) B)
  moreover obtain b' where "create_untypeds_for_region root dev (reg\<lparr>rstart := rstart reg + 2 ^ k\<rparr>) 16 b1 = (True, b')" "keeps b1 b' (length ls)"
    using Cons.IH [of "reg\<lparr>rstart := rstart reg + 2 ^ k\<rparr>" b1] Cons.prems u p(2) by (auto simp: keeps_def regions_eq_def)
  ultimately show ?case using p(2) by (auto simp: keeps_def regions_eq_def)
qed

lemma example_runs:
  "run_ok True \<lparr>rstart = 0xFFFFFFC000000000, rend = 0xFFFFFFC080000000\<rparr> [31]"
  "run_ok False \<lparr>rstart = 0xFFFFFFC080000000, rend = 0xFFFFFFC080004000\<rparr> [14]"
  "run_ok False \<lparr>rstart = 0xFFFFFFC080010000, rend = 0xFFFFFFC080020000\<rparr> [16]"
  "run_ok False \<lparr>rstart = 0xFFFFFFC080046480, rend = 0xFFFFFFC080050000\<rparr> [7, 8, 9, 11, 12, 15]"
  by (simp_all add: is_reg_empty_def pptr_in_kernel_window_def PPTR_BASE_def PPTR_TOP_def)

lemma example_empty_runs: "cfg b = example_config \<Longrightarrow> \<forall>i \<in> set is. is_reg_empty (freemem b ! i) \<Longrightarrow>
  \<exists>b'. create_free_untypeds root 16 is b = (True, b')"
proof (induction "is" arbitrary: b)
  case (Cons i "is")
  let ?b = "b\<lparr>freemem := (freemem b)[i := REG_EMPTY]\<rparr>"
  have "create_untypeds_for_region root False (freemem b ! i) 16 ?b = (True, ?b)" using Cons.prems(2) by (simp add: create_untypeds_for_region.simps)
  moreover have "is_reg_empty ((freemem b)[i := REG_EMPTY] ! j)" if "j \<in> set is" for j
    using that Cons.prems(2) by (cases "j = i"; cases "i < length (freemem b)") (auto simp: is_reg_empty_def REG_EMPTY_def list_update_beyond)
  ultimately show ?case using Cons.IH [of ?b] Cons.prems(1) by simp
qed simp

lemma example_create_untypeds:
  assumes b: "cfg b = example_config" "freemem b = example_freemem" "take (resv_count b) (reserved b) = [\<lparr>rstart = 0x80000000, rend = 0x80050000\<rparr>]"
    "slot_pos_cur b = 16" "pKernelELFOffset (plat (ks b)) = 0xFFFFFFFF00000000"
  shows "\<exists>b'. create_untypeds root b = (True, b')"
proof -
  note d = ptrFromPAddr_def PPTR_BASE_OFFSET_def PPTR_BASE_def PADDR_BASE_def paddr_to_pptr_reg_def
  obtain b1 where b1: "create_untypeds_for_region root True \<lparr>rstart = 0xFFFFFFC000000000, rend = 0xFFFFFFC080000000\<rparr> 16 b = (True, b1)" "keeps b b1 1"
    using run_ok_creates [OF example_runs(1), of b root] b by auto
  have c1: "cfg b1 = example_config" "slot_pos_cur b1 = 17" "freemem b1 = example_freemem" "pKernelELFOffset (plat (ks b1)) = 0xFFFFFFFF00000000"
    using b1(2) b by (auto simp: keeps_def regions_eq_def)
  obtain b2 where b2: "create_untypeds_for_region root False \<lparr>rstart = 0xFFFFFFC080000000, rend = 0xFFFFFFC080004000\<rparr> 16 b1 = (True, b2)" "keeps b1 b2 1"
    using run_ok_creates [OF example_runs(2), of b1 root] c1 by auto
  have c2: "cfg b2 = example_config" "slot_pos_cur b2 = 18" "freemem b2 = example_freemem"
    using b2(2) c1 by (auto simp: keeps_def regions_eq_def)
  let ?b2 = "b2\<lparr>freemem := example_freemem[0 := REG_EMPTY]\<rparr>"
  obtain b3 where b3: "create_untypeds_for_region root False \<lparr>rstart = 0xFFFFFFC080010000, rend = 0xFFFFFFC080020000\<rparr> 16 ?b2 = (True, b3)" "keeps ?b2 b3 1"
    using run_ok_creates [OF example_runs(3), of ?b2 root] c2 by auto
  have c3: "cfg b3 = example_config" "slot_pos_cur b3 = 19" "freemem b3 = example_freemem[0 := REG_EMPTY]"
    using b3(2) c2 by (auto simp: keeps_def regions_eq_def)
  let ?b3 = "b3\<lparr>freemem := example_freemem[0 := REG_EMPTY, 1 := REG_EMPTY]\<rparr>"
  obtain b4 where b4: "create_untypeds_for_region root False \<lparr>rstart = 0xFFFFFFC080046480, rend = 0xFFFFFFC080050000\<rparr> 16 ?b3 = (True, b4)" "keeps ?b3 b4 (length [7, 8, 9, 11, 12, 15 :: nat])"
    using run_ok_creates [OF example_runs(4), of ?b3 root] c3 by auto
  have c4: "cfg b4 = example_config" "freemem b4 = example_freemem[0 := REG_EMPTY, 1 := REG_EMPTY]" using b4(2) c3 by (auto simp: keeps_def regions_eq_def)
  define zs where "zs = [2..<16::nat]"
  have "is_reg_empty (freemem b4 ! i)" if "i \<in> set zs" for i
    using that unfolding c4 zs_def by (auto simp: example_freemem_def is_reg_empty_def REG_EMPTY_def nth_list_update)
  then obtain b5 where b5: "create_free_untypeds root 16 zs b4 = (True, b5)" using example_empty_runs [of b4 zs root] c4(1) by blast
  have u: "[0..<16] = 0 # Suc 0 # zs" by (simp add: upt_rec zs_def)
  have f: "example_freemem ! 0 = \<lparr>rstart = 0xFFFFFFC080010000, rend = 0xFFFFFFC080020000\<rparr>"
    "example_freemem ! Suc 0 = \<lparr>rstart = 0xFFFFFFC080046480, rend = 0xFFFFFFC080050000\<rparr>" "length example_freemem = 16"
    by (simp_all add: example_freemem_def)
  have fr: "create_free_untypeds root 16 [0..<16] b2 = (True, b5)"
    unfolding u using b3(1) b4(1) b5 by (simp add: f c2 c3)
  have dv: "create_device_untypeds root 16 0 [\<lparr>rstart = 0x80000000, rend = 0x80050000\<rparr>] b = (True, 0x80050000, b1)"
    using b1(1) by (simp add: d)
  have bt: "paddr_to_pptr_reg (get_p_reg_kernel_img_boot b1) = \<lparr>rstart = 0xFFFFFFC080000000, rend = 0xFFFFFFC080004000\<rparr>"
    by (simp add: get_p_reg_kernel_img_boot_def addrFromKPPtr_def c1 d KERNEL_ELF_BASE_def example_config_def PPTR_TOP_def MASK_def BIT_def)
  show ?thesis unfolding create_untypeds_def b(3,4) Let_def dv
    using b2(1) fr c1(1) by (simp add: bt c2 f example_config_def)
qed

lemma example_boot_regions:
  "resv_ok example_boot" "length (freemem example_boot) = MAX_NUM_FREEMEM_REG"
  "resv_count example_boot \<le> length (kernel_device_frames (cfg example_boot))" "length example_resv \<le> NUM_RESERVED_REGIONS"
  "\<forall>r \<in> set example_resv. PPTR_BASE \<le> rstart r" "resv_set example_boot \<inter> X = {}"
  by (simp_all add: example_boot_def example_config_def example_resv_def resv_ok_def resv_set_def MAX_NUM_RESV_REG_def
      MAX_NUM_FREEMEM_REG_def NUM_RESERVED_REGIONS_def PPTR_BASE_def)

theorem reserve_region_keeps_order_witness:
  "resv_set (snd (reserve_region \<lparr>rstart = 0x80000000, rend = 0x80010000\<rparr> example_boot)) = rset \<lparr>rstart = 0x80000000, rend = 0x80010000\<rparr>"
proof -
  let ?r = "\<lparr>rstart = 0x80000000, rend = 0x80010000\<rparr>"
  have "resv_count example_boot + 1 \<noteq> MAX_NUM_RESV_REG (cfg example_boot)" "resv_set example_boot = {}"
    by (simp_all add: example_boot_def example_config_def MAX_NUM_RESV_REG_def MAX_NUM_FREEMEM_REG_def NUM_RESERVED_REGIONS_def resv_set_def)
  then show ?thesis using reserve_region_keeps_order [OF example_boot_regions(1), of ?r] by (auto split: if_splits)
qed



end
