(* ===== verification/Boot.thy ===== *)
theory Boot
  imports BootUntyped KernelExit
begin

text \<open>
  Booting: \<^verbatim>\<open>src/kernel/arch/riscv/kernel/boot.c\<close>, the rest of \<^verbatim>\<open>src/kernel/kernel/boot.c\<close> and the boot part of
  \<^verbatim>\<open>src/kernel/arch/riscv/kernel/vspace.c\<close>: the mappings of the kernel, the address space of the initial thread, its capabilities, the idle
  and the initial thread, and \<^verbatim>\<open>try_init_kernel\<close> and \<^verbatim>\<open>init_kernel\<close>, which compose them. Setting up the trap vector, the
  interrupt enable bits and the interrupt controller writes device registers that the model does not have. A function that returns a
  status beside changing the boot state returns the pair of both.
\<close>


section \<open>Kernel mappings\<close>

definition KDEV_BASE :: ptr where "KDEV_BASE = 0xFFFFFFFFC0000000"

definition RISCV_GET_LVL_PGSIZE :: "word64 \<Rightarrow> word64" where
  "RISCV_GET_LVL_PGSIZE n = BIT (RISCV_GET_LVL_PGSIZE_BITS n)"

definition pte_next :: "word64 \<Rightarrow> bool \<Rightarrow> pte" where
  "pte_next phys_addr is_leaf =
     (let ppn = drop_bit 12 phys_addr
      in pte_new ppn 0 is_leaf is_leaf True False is_leaf is_leaf is_leaf True)"

definition upd_ks :: "(kstate \<Rightarrow> kstate) \<Rightarrow> bstate \<Rightarrow> bstate" where
  "upd_ks f b = b\<lparr>ks := f (ks b)\<rparr>"

definition map_kernel_frame :: "word64 \<Rightarrow> ptr \<Rightarrow> bstate \<Rightarrow> bstate" where
  "map_kernel_frame pa vaddr b =
     (if vaddr \<ge> KDEV_BASE
      then let pa = ROUND_DOWN pa (RISCV_GET_LVL_PGSIZE_BITS 1)
           in upd_ks (upd_pte (pte_at (kernel_image_level1_dev_pt (cfg b)) (RISCV_GET_PT_INDEX vaddr 1)) (pte_next pa True)) b
      else let pa = ROUND_DOWN pa (RISCV_GET_LVL_PGSIZE_BITS 0)
           in upd_ks (upd_pte (pte_at (pKernelRootPT (plat (ks b))) (RISCV_GET_PT_INDEX vaddr 0)) (pte_next pa True)) b)"

definition map_kernel_devices :: "bstate \<Rightarrow> bstate" where
  "map_kernel_devices b =
     fold (\<lambda>frame b.
         let b = map_kernel_frame (kf_paddr frame) (kf_pptr frame) b
         in if \<not> kf_userAvailable frame
            then snd (reserve_region \<lparr>rstart = kf_paddr frame, rend = kf_paddr frame + BIT seL4_LargePageBits\<rparr> b)
            else b)
       (kernel_device_frames (cfg b)) b"

text \<open>The two loops of \<^verbatim>\<open>map_kernel_window\<close>: the window of physical memory in the root table, and the kernel's image in its own table.\<close>

function map_window_loop :: "ptr \<Rightarrow> word64 \<Rightarrow> kstate \<Rightarrow> ptr \<times> kstate" where
  "map_window_loop pptr pa s =
     (if pptr < PPTR_TOP
      then map_window_loop (pptr + RISCV_GET_LVL_PGSIZE 0) (pa + RISCV_GET_LVL_PGSIZE 0)
             (upd_pte (pte_at (pKernelRootPT (plat s)) (RISCV_GET_PT_INDEX pptr 0)) (pte_next pa True) s)
      else (pptr, s))"
  by pat_completeness auto
termination
proof (relation "measure (\<lambda>(pptr, pa, s). unat PPTR_TOP + 2 ^ 30 - unat pptr)", goal_cases)
  case 1
  show ?case by simp
next
  case (2 pptr pa s)
  have sz: "RISCV_GET_LVL_PGSIZE 0 = 2 ^ 30"
    by (simp add: RISCV_GET_LVL_PGSIZE_def RISCV_GET_LVL_PGSIZE_BITS_def PT_INDEX_BITS_def CONFIG_PT_LEVELS_def seL4_PageBits_def BIT_def)
  have l: "unat pptr < unat PPTR_TOP" "unat PPTR_TOP = 0xFFFFFFFF80000000" using 2 by (simp_all add: word_less_nat_alt PPTR_TOP_def)
  then have "unat (pptr + 2 ^ 30) = unat pptr + 2 ^ 30" by (subst unat_add_nowrap) simp_all
  then show ?case using l by (simp add: sz)
qed

declare map_window_loop.simps [simp del]

function map_image_loop :: "word64 \<Rightarrow> ptr \<Rightarrow> word64 \<Rightarrow> ptr \<Rightarrow> kstate \<Rightarrow> kstate" where
  "map_image_loop index pptr pa level1_pt s =
     (if pptr < PPTR_TOP + RISCV_GET_LVL_PGSIZE 0
      then map_image_loop (index + 1) (pptr + RISCV_GET_LVL_PGSIZE 1) (pa + RISCV_GET_LVL_PGSIZE 1) level1_pt
             (upd_pte (pte_at level1_pt index) (pte_next pa True) s)
      else s)"
  by pat_completeness auto
termination
proof (relation "measure (\<lambda>(index, pptr, pa, pt, s). 2 ^ 64 - unat pptr)", goal_cases)
  case 1
  show ?case by simp
next
  case (2 index pptr pa pt s)
  have sz: "RISCV_GET_LVL_PGSIZE 1 = 2 ^ 21" "RISCV_GET_LVL_PGSIZE 0 = 2 ^ 30"
    by (simp_all add: RISCV_GET_LVL_PGSIZE_def RISCV_GET_LVL_PGSIZE_BITS_def PT_INDEX_BITS_def CONFIG_PT_LEVELS_def seL4_PageBits_def BIT_def)
  have "unat (PPTR_TOP + 2 ^ 30) = 0xFFFFFFFFC0000000" by (simp add: PPTR_TOP_def)
  then have l: "unat pptr < 0xFFFFFFFFC0000000" using 2 by (simp add: word_less_nat_alt sz)
  then have "unat (pptr + 2 ^ 21) = unat pptr + 2 ^ 21" by (subst unat_add_nowrap) simp_all
  then show ?case using l unat_lt_64 [of pptr] by (simp add: sz)
qed

declare map_image_loop.simps [simp del]

definition map_kernel_window :: "bstate \<Rightarrow> bstate" where
  "map_kernel_window b =
     (let (pptr, s) = map_window_loop PPTR_BASE PADDR_BASE (ks b);
          root = pKernelRootPT (plat s);
          elf_paddr = KERNEL_ELF_PADDR_BASE (cfg b);
          level1 = kernel_image_level1_pt (cfg b);
          pptr = ROUND_DOWN (KERNEL_ELF_BASE (cfg b)) (RISCV_GET_LVL_PGSIZE_BITS 0);
          pa = ROUND_DOWN elf_paddr (RISCV_GET_LVL_PGSIZE_BITS 0);
          s = upd_pte (pte_at root (RISCV_GET_PT_INDEX (elf_paddr + PPTR_BASE_OFFSET) 0)) (pte_next (addrFromKPPtr level1 s) False) s;
          s = upd_pte (pte_at root (RISCV_GET_PT_INDEX pptr 0)) (pte_next (addrFromKPPtr level1 s) False) s;
          s = map_image_loop 0 pptr pa level1 s;
          s = upd_pte (pte_at root (RISCV_GET_PT_INDEX KDEV_BASE 0))
                (pte_next (addrFromKPPtr (kernel_image_level1_dev_pt (cfg b)) s) False) s
      in map_kernel_devices (b\<lparr>ks := s\<rparr>))"

definition activate_kernel_vspace :: "kstate \<Rightarrow> kstate" where
  "activate_kernel_vspace s = setVSpaceRoot (addrFromKPPtr (pKernelRootPT (plat s)) s) 0 s"

text \<open>Setting up the processor and the interrupt controller changes only the translation register and the active interrupt of the model.\<close>

definition init_cpu :: "kstate \<Rightarrow> kstate" where
  "init_cpu s = activate_kernel_vspace s"

definition init_plat :: "kstate \<Rightarrow> kstate" where
  "init_plat s = s\<lparr>active_irq := irqInvalid\<rparr>"

section \<open>The address space of the initial thread\<close>

definition seL4_CapInitThreadTCB :: word64 where "seL4_CapInitThreadTCB = 1"
definition seL4_CapInitThreadCNode :: word64 where "seL4_CapInitThreadCNode = 2"
definition seL4_CapInitThreadVSpace :: word64 where "seL4_CapInitThreadVSpace = 3"
definition seL4_CapIRQControl :: word64 where "seL4_CapIRQControl = 4"
definition seL4_CapASIDControl :: word64 where "seL4_CapASIDControl = 5"
definition seL4_CapInitThreadASIDPool :: word64 where "seL4_CapInitThreadASIDPool = 6"
definition seL4_CapBootInfoFrame :: word64 where "seL4_CapBootInfoFrame = 9"
definition seL4_CapInitThreadIPCBuffer :: word64 where "seL4_CapInitThreadIPCBuffer = 10"
definition seL4_CapDomain :: word64 where "seL4_CapDomain = 11"
definition seL4_CapInitThreadSC :: word64 where "seL4_CapInitThreadSC = 14"
definition seL4_NumInitialCaps :: word64 where "seL4_NumInitialCaps = 16"

definition SLOT_PTR :: "ptr \<Rightarrow> word64 \<Rightarrow> ptr" where
  "SLOT_PTR pptr pos = cte_at pptr pos"

definition pptr_of_cap :: "cap \<Rightarrow> ptr" where
  "pptr_of_cap cap = cap_get_capPtr cap"

definition it_alloc_paging :: "bstate \<Rightarrow> ptr \<times> bstate" where
  "it_alloc_paging b =
     (let paging = rs_paging (rootserver b);
          allocated = rstart paging
      in (allocated, b\<lparr>rootserver := (rootserver b)\<lparr>rs_paging := paging\<lparr>rstart := allocated + BIT seL4_PageTableBits\<rparr>\<rparr>\<rparr>))"

definition map_it_pt_cap :: "cap \<Rightarrow> cap \<Rightarrow> bstate \<Rightarrow> bstate" where
  "map_it_pt_cap vspace_cap pt_cap b =
     (let vptr = capPTMappedAddress pt_cap;
          lvl1pt = pptr_of_cap vspace_cap;
          pt = pptr_of_cap pt_cap;
          (_, targetSlot) = lookupPTSlot lvl1pt vptr (ks b)
      in upd_ks (upd_pte targetSlot
           (pte_new (drop_bit (unat seL4_PageBits) (addrFromPPtr pt)) 0 False False False False False False False True)) b)"

definition map_it_frame_cap :: "cap \<Rightarrow> cap \<Rightarrow> bstate \<Rightarrow> bstate" where
  "map_it_frame_cap vspace_cap frame_cap b =
     (let lvl1pt = pptr_of_cap vspace_cap;
          frame_pptr = pptr_of_cap frame_cap;
          frame_vptr = capFMappedAddress frame_cap;
          (_, targetSlot) = lookupPTSlot lvl1pt frame_vptr (ks b)
      in upd_ks (upd_pte targetSlot
           (pte_new (drop_bit (unat seL4_PageBits) (addrFromPPtr frame_pptr)) 0 True True False True True True True True)) b)"

definition create_unmapped_it_frame_cap :: "ptr \<Rightarrow> bool \<Rightarrow> cap" where
  "create_unmapped_it_frame_cap pptr use_large = FrameCap asidInvalid pptr 0 0 False 0"

definition create_it_pt_cap :: "cap \<Rightarrow> ptr \<Rightarrow> word64 \<Rightarrow> word64 \<Rightarrow> bstate \<Rightarrow> cap \<times> bstate" where
  "create_it_pt_cap vspace_cap pptr vptr asid b =
     (let cap = PageTableCap asid pptr True vptr in (cap, map_it_pt_cap vspace_cap cap b))"

definition create_mapped_it_frame_cap :: "cap \<Rightarrow> ptr \<Rightarrow> word64 \<Rightarrow> word64 \<Rightarrow> bool \<Rightarrow> bool \<Rightarrow> bstate \<Rightarrow> cap \<times> bstate" where
  "create_mapped_it_frame_cap pd_cap pptr vptr asid use_large executable b =
     (let frame_size = (if use_large then RISCV_Mega_Page else RISCV_4K_Page);
          cap = FrameCap asid pptr frame_size VMReadWrite False vptr
      in (cap, map_it_frame_cap pd_cap cap b))"

text \<open>Every turn of the two loops that create capabilities uses a slot of the root node, which has finitely many.\<close>

definition free_slots :: "bstate \<Rightarrow> nat" where
  "free_slots b = unat (BIT (CONFIG_ROOT_CNODE_SIZE_BITS (cfg b))) - unat (slot_pos_cur b)"

lemma provide_cap_slots:
  assumes "provide_cap root c b = (True, b')"
  shows "free_slots b' < free_slots b" "cfg b' = cfg b" "slot_pos_cur b' = slot_pos_cur b + 1"
proof -
  have l: "slot_pos_cur b < BIT (CONFIG_ROOT_CNODE_SIZE_BITS (cfg b))" and b': "slot_pos_cur b' = slot_pos_cur b + 1" "cfg b' = cfg b"
    using assms by (auto simp: provide_cap_def write_slot_def Let_def split: if_splits)
  have "unat (slot_pos_cur b + 1) = unat (slot_pos_cur b) + 1" using unat_suc_nowrap l by (simp add: word_less_nat_alt)
  then show "free_slots b' < free_slots b" "cfg b' = cfg b" "slot_pos_cur b' = slot_pos_cur b + 1"
    using l b' by (simp_all add: free_slots_def word_less_nat_alt)
qed

lemma map_it_slots [simp]:
  "cfg (map_it_pt_cap v c b) = cfg b" "slot_pos_cur (map_it_pt_cap v c b) = slot_pos_cur b"
  "cfg (map_it_frame_cap v c b) = cfg b" "slot_pos_cur (map_it_frame_cap v c b) = slot_pos_cur b"
  by (simp_all add: map_it_pt_cap_def map_it_frame_cap_def upd_ks_def split: prod.splits)

lemma it_caps_slots:
  "create_it_pt_cap v p a i b = (c, b1) \<Longrightarrow> free_slots b1 = free_slots b"
  "create_mapped_it_frame_cap v p a i l x b = (c, b1) \<Longrightarrow> free_slots b1 = free_slots b"
  "it_alloc_paging b = (p, b1) \<Longrightarrow> free_slots b1 = free_slots b"
  by (auto simp: create_it_pt_cap_def create_mapped_it_frame_cap_def it_alloc_paging_def free_slots_def Let_def)

text \<open>The inner loop of \<^verbatim>\<open>create_it_address_space\<close>: the page tables of one level.\<close>

function create_it_pts_loop :: "cap \<Rightarrow> cap \<Rightarrow> word64 \<Rightarrow> word64 \<Rightarrow> word64 \<Rightarrow> bstate \<Rightarrow> bool \<times> bstate" where
  "create_it_pts_loop root_cnode_cap lvl1pt_cap i pt_vptr v_end b =
     (if pt_vptr < v_end
      then let (pt, b) = it_alloc_paging b;
               (cap, b) = create_it_pt_cap lvl1pt_cap pt pt_vptr IT_ASID b;
               (r, b) = provide_cap root_cnode_cap cap b
           in if \<not> r then (False, b)
              else create_it_pts_loop root_cnode_cap lvl1pt_cap i (pt_vptr + RISCV_GET_LVL_PGSIZE i) v_end b
      else (True, b))"
  by pat_completeness auto
termination
  by (relation "measure (\<lambda>(root, lvl1, i, v, e, b). free_slots b)")
    (simp_all, metis it_caps_slots(1,3) provide_cap_slots(1))

declare create_it_pts_loop.simps [simp del]

text \<open>The outer loop, over the levels that are left.\<close>

primrec create_it_levels :: "word64 list \<Rightarrow> cap \<Rightarrow> cap \<Rightarrow> region \<Rightarrow> bstate \<Rightarrow> bool \<times> bstate" where
  "create_it_levels [] root_cnode_cap lvl1pt_cap it_v_reg b = (True, b)"
| "create_it_levels (i # is) root_cnode_cap lvl1pt_cap it_v_reg b =
     (let (r, b) = create_it_pts_loop root_cnode_cap lvl1pt_cap i
            (ROUND_DOWN (rstart it_v_reg) (RISCV_GET_LVL_PGSIZE_BITS i)) (rend it_v_reg) b
      in if \<not> r then (False, b) else create_it_levels is root_cnode_cap lvl1pt_cap it_v_reg b)"

definition create_it_address_space :: "cap \<Rightarrow> region \<Rightarrow> bstate \<Rightarrow> cap \<times> bstate" where
  "create_it_address_space root_cnode_cap it_v_reg b =
     (let b = upd_ks (copyGlobalMappings (rs_vspace (rootserver b))) b;
          lvl1pt_cap = PageTableCap IT_ASID (rs_vspace (rootserver b)) True (rs_vspace (rootserver b));
          slot_pos_before = slot_pos_cur b;
          b = write_slot (SLOT_PTR (pptr_of_cap root_cnode_cap) seL4_CapInitThreadVSpace) lvl1pt_cap b;
          (r, b) = create_it_levels (map of_nat [0..<unat (CONFIG_PT_LEVELS - 1)]) root_cnode_cap lvl1pt_cap it_v_reg b
      in if \<not> r then (NullCap, b)
         else (lvl1pt_cap, b\<lparr>bi_frame := (bi_frame b)\<lparr>userImagePaging := \<lparr>rstart = slot_pos_before, rend = slot_pos_cur b\<rparr>\<rparr>\<rparr>))"

definition write_it_asid_pool :: "cap \<Rightarrow> cap \<Rightarrow> bstate \<Rightarrow> bstate" where
  "write_it_asid_pool it_ap_cap it_lvl1pt_cap b =
     (let ap = pptr_of_cap it_ap_cap
      in upd_ks (\<lambda>s. s\<lparr>asid_pools := (asid_pools s)(ap := (asid_pools s ap)(ASID_LOW IT_ASID := pptr_of_cap it_lvl1pt_cap)),
           riscvKSASIDTable := (riscvKSASIDTable s)(ASID_HIGH IT_ASID := ap)\<rparr>) b)"

section \<open>The capabilities of the initial thread\<close>

definition create_root_cnode :: "bstate \<Rightarrow> cap \<times> bstate" where
  "create_root_cnode b =
     (let cap = CNodeCap (CONFIG_ROOT_CNODE_SIZE_BITS (cfg b)) (64 - CONFIG_ROOT_CNODE_SIZE_BITS (cfg b)) 0 (rs_cnode (rootserver b))
      in (cap, write_slot (SLOT_PTR (rs_cnode (rootserver b)) seL4_CapInitThreadCNode) cap b))"

definition create_domain_cap :: "cap \<Rightarrow> bstate \<Rightarrow> bstate" where
  "create_domain_cap root_cnode_cap b = write_slot (SLOT_PTR (pptr_of_cap root_cnode_cap) seL4_CapDomain) DomainCap b"

definition create_ipcbuf_frame_cap :: "cap \<Rightarrow> cap \<Rightarrow> word64 \<Rightarrow> bstate \<Rightarrow> cap \<times> bstate" where
  "create_ipcbuf_frame_cap root_cnode_cap pd_cap vptr b =
     (let b = upd_ks (clearMemory (rs_ipc_buf (rootserver b)) seL4_PageBits) b;
          (cap, b) = create_mapped_it_frame_cap pd_cap (rs_ipc_buf (rootserver b)) vptr IT_ASID False False b
      in (cap, write_slot (SLOT_PTR (pptr_of_cap root_cnode_cap) seL4_CapInitThreadIPCBuffer) cap b))"

definition create_bi_frame_cap :: "cap \<Rightarrow> cap \<Rightarrow> word64 \<Rightarrow> bstate \<Rightarrow> bstate" where
  "create_bi_frame_cap root_cnode_cap pd_cap vptr b =
     (let (cap, b) = create_mapped_it_frame_cap pd_cap (rs_boot_info (rootserver b)) vptr IT_ASID False False b
      in write_slot (SLOT_PTR (pptr_of_cap root_cnode_cap) seL4_CapBootInfoFrame) cap b)"

definition calculate_extra_bi_size_bits :: "word64 \<Rightarrow> word64" where
  "calculate_extra_bi_size_bits extra_size =
     (if extra_size = 0 then 0
      else let clzl_ret = clzl (ROUND_UP extra_size seL4_PageBits);
               msb = 64 - 1 - clzl_ret
           in if extra_size > BIT msb then msb + 1 else msb)"

definition populate_bi_frame :: "word64 \<Rightarrow> word64 \<Rightarrow> word64 \<Rightarrow> word64 \<Rightarrow> bstate \<Rightarrow> bstate" where
  "populate_bi_frame node_id num_nodes ipcbuf_vptr extra_bi_size b =
     (let b = upd_ks (clearMemory (rs_boot_info (rootserver b)) seL4_BootInfoFrameBits) b;
          b = (if extra_bi_size \<noteq> 0
               then upd_ks (clearMemory (rs_extra_bi (rootserver b)) (calculate_extra_bi_size_bits extra_bi_size)) b else b);
          bi = bootinfo0\<lparr>nodeID := node_id, numNodes := num_nodes, numIOPTLevels := 0, ipcBuffer := ipcbuf_vptr,
            initThreadCNodeSizeBits := CONFIG_ROOT_CNODE_SIZE_BITS (cfg b), initThreadDomain := 0, extraLen := extra_bi_size\<rparr>
      in b\<lparr>bi_frame := bi, slot_pos_cur := seL4_NumInitialCaps\<rparr>)"

function create_frames_loop :: "cap \<Rightarrow> cap \<Rightarrow> ptr \<Rightarrow> ptr \<Rightarrow> bool \<Rightarrow> word64 \<Rightarrow> bstate \<Rightarrow> bool \<times> bstate" where
  "create_frames_loop root_cnode_cap pd_cap f f_end do_map pv_offset b =
     (if f < f_end
      then let (frame_cap, b) = (if do_map
                 then create_mapped_it_frame_cap pd_cap f (addrFromPPtr (f - pv_offset)) IT_ASID False True b
                 else (create_unmapped_it_frame_cap f False, b));
               (r, b) = provide_cap root_cnode_cap frame_cap b
           in if \<not> r then (False, b)
              else create_frames_loop root_cnode_cap pd_cap (f + BIT seL4_PageBits) f_end do_map pv_offset b
      else (True, b))"
  by pat_completeness auto
termination
  by (relation "measure (\<lambda>(root, pd, f, e, m, p, b). free_slots b)")
    (auto split: if_splits, metis it_caps_slots(2) provide_cap_slots(1), metis provide_cap_slots(1))

declare create_frames_loop.simps [simp del]

definition create_frames_of_region :: "cap \<Rightarrow> cap \<Rightarrow> region \<Rightarrow> bool \<Rightarrow> word64 \<Rightarrow> bstate \<Rightarrow> (region \<times> bool) \<times> bstate" where
  "create_frames_of_region root_cnode_cap pd_cap reg do_map pv_offset b =
     (let slot_pos_before = slot_pos_cur b;
          (r, b) = create_frames_loop root_cnode_cap pd_cap (rstart reg) (rend reg) do_map pv_offset b
      in if \<not> r then ((REG_EMPTY, False), b)
         else ((\<lparr>rstart = slot_pos_before, rend = slot_pos_cur b\<rparr>, True), b))"

definition create_it_asid_pool :: "cap \<Rightarrow> bstate \<Rightarrow> cap \<times> bstate" where
  "create_it_asid_pool root_cnode_cap b =
     (let ap_cap = ASIDPoolCap (push_bit (unat asidLowBits) (ASID_HIGH IT_ASID)) (rs_asid_pool (rootserver b));
          b = write_slot (SLOT_PTR (pptr_of_cap root_cnode_cap) seL4_CapInitThreadASIDPool) ap_cap b
      in (ap_cap, write_slot (SLOT_PTR (pptr_of_cap root_cnode_cap) seL4_CapASIDControl) ASIDControlCap b))"

definition configure_sched_context :: "ptr \<Rightarrow> ptr \<Rightarrow> ticks \<Rightarrow> kstate \<Rightarrow> kstate" where
  "configure_sched_context tcb sc_pptr timeslice s =
     (let s = upd_tcb tcb (tcbSchedContext_update (\<lambda>_. sc_pptr)) s;
          s = refill_new (tcbSchedContext (tcbs s tcb)) MIN_REFILLS timeslice 0 s
      in upd_sc (tcbSchedContext (tcbs s tcb)) (scTcb_update (\<lambda>_. tcb)) s)"

definition init_sched_control :: "cap \<Rightarrow> word64 \<Rightarrow> bstate \<Rightarrow> bool \<times> bstate" where
  "init_sched_control root_cnode_cap num_nodes b =
     (let slot_pos_before = slot_pos_cur b;
          (r, b) = fold (\<lambda>i (r, b). if r then provide_cap root_cnode_cap (SchedControlCap (of_nat i)) b else (r, b)) [0..<unat num_nodes] (True, b)
      in if \<not> r then (False, b)
         else (True, b\<lparr>bi_frame := (bi_frame b)\<lparr>schedcontrol := \<lparr>rstart = slot_pos_before, rend = slot_pos_cur b\<rparr>\<rparr>\<rparr>))"

section \<open>The idle thread and the initial thread\<close>

definition US_IN_MS :: word64 where "US_IN_MS = 1000"
definition SSTATUS_SPP :: word64 where "SSTATUS_SPP = 0x100"
definition seL4_TCBFlag_fpuDisabled :: word64 where "seL4_TCBFlag_fpuDisabled = 1"
definition seL4_MaxPrio :: word64 where "seL4_MaxPrio = CONFIG_NUM_PRIORITIES - 1"

definition Arch_configureIdleThread :: "ptr \<Rightarrow> ptr \<Rightarrow> kstate \<Rightarrow> kstate" where
  "Arch_configureIdleThread idle tcb s =
     (let s = setRegister tcb NextIP idle s in setRegister tcb SSTATUS (SSTATUS_SPP OR SSTATUS_SPIE) s)"

definition configureIdleThread :: "ptr \<Rightarrow> ptr \<Rightarrow> kstate \<Rightarrow> kstate" where
  "configureIdleThread idle tcb s =
     (let s = upd_tcb tcb (tcbFlags_update (\<lambda>_. seL4_TCBFlag_fpuDisabled)) s;
          s = Arch_configureIdleThread idle tcb s
      in setThreadState tcb ThreadState_IdleThreadState s)"

definition create_idle_thread :: "bstate \<Rightarrow> bstate" where
  "create_idle_thread b =
     (let pptr = ksIdleThreadTCB (cfg b);
          b = upd_ks (\<lambda>s. s\<lparr>ksIdleThread := pptr + TCB_OFFSET\<rparr>) b;
          b = upd_ks (configureIdleThread (idle_thread (cfg b)) (ksIdleThread (ks b))) b;
          b = upd_ks (configure_sched_context (ksIdleThread (ks b)) (ksIdleThreadSC (cfg b))
                (usToTicks (CONFIG_BOOT_THREAD_TIME_SLICE (cfg b) * US_IN_MS) (ks b))) b
      in upd_ks (\<lambda>s. s\<lparr>ksIdleSC := ksIdleThreadSC (cfg b)\<rparr>) b)"

definition create_initial_thread :: "cap \<Rightarrow> cap \<Rightarrow> word64 \<Rightarrow> word64 \<Rightarrow> word64 \<Rightarrow> cap \<Rightarrow> bstate \<Rightarrow> ptr \<times> bstate" where
  "create_initial_thread root_cnode_cap it_pd_cap ui_v_entry bi_frame_vptr ipcbuf_vptr ipcbuf_cap b =
     (let tcb = rs_tcb (rootserver b) + TCB_OFFSET;
          root = pptr_of_cap root_cnode_cap;
          b = upd_ks (upd_tcb tcb (tcbContext_update Arch_initContext)) b
      in case deriveCap (SLOT_PTR root seL4_CapInitThreadIPCBuffer) ipcbuf_cap (ks b) of
           Inl _ \<Rightarrow> (NULL, b)
         | Inr dc_cap \<Rightarrow>
             let b = upd_ks (cteInsert root_cnode_cap (SLOT_PTR root seL4_CapInitThreadCNode) (SLOT_PTR (rs_tcb (rootserver b)) tcbCTable)) b;
                 b = upd_ks (cteInsert it_pd_cap (SLOT_PTR root seL4_CapInitThreadVSpace) (SLOT_PTR (rs_tcb (rootserver b)) tcbVTable)) b;
                 b = upd_ks (cteInsert dc_cap (SLOT_PTR root seL4_CapInitThreadIPCBuffer) (SLOT_PTR (rs_tcb (rootserver b)) tcbBuffer)) b;
                 b = upd_ks (upd_tcb tcb (tcbIPCBuffer_update (\<lambda>_. ipcbuf_vptr))) b;
                 b = upd_ks (setRegister tcb capRegister bi_frame_vptr) b;
                 b = upd_ks (setNextPC tcb ui_v_entry) b;
                 b = upd_ks (configure_sched_context tcb (rs_sc (rootserver b))
                       (usToTicks (CONFIG_BOOT_THREAD_TIME_SLICE (cfg b) * US_IN_MS) (ks b))) b;
                 b = upd_ks (upd_tcb tcb (tcbPriority_update (\<lambda>_. seL4_MaxPrio))) b;
                 b = upd_ks (upd_tcb tcb (tcbMCP_update (\<lambda>_. seL4_MaxPrio))) b;
                 b = upd_ks (upd_tcb tcb (tcbDomain_update (\<lambda>_. 0))) b;
                 b = upd_ks (setThreadState tcb ThreadState_Running) b;
                 b = write_slot (SLOT_PTR root seL4_CapInitThreadTCB) (ThreadCap tcb) b;
                 b = write_slot (SLOT_PTR root seL4_CapInitThreadSC)
                       (SchedContextCap (tcbSchedContext (tcbs (ks b) tcb)) seL4_MinSchedContextBits) b
             in (tcb, b))"

definition init_core_state :: "ptr \<Rightarrow> kstate \<Rightarrow> kstate" where
  "init_core_state scheduler_action s =
     (let s = s\<lparr>ksSchedulerAction := scheduler_action\<rparr>;
          s = s\<lparr>ksCurThread := ksIdleThread s\<rparr>;
          s = s\<lparr>ksCurSC := tcbSchedContext (tcbs s (ksCurThread s))\<rparr>;
          s = s\<lparr>ksConsumed := 0\<rparr>;
          s = s\<lparr>ksReprogram := True\<rparr>;
          s = s\<lparr>ksReleaseQueue := \<lparr>head = NULL, qend = NULL\<rparr>\<rparr>;
          (t, s) = getCurrentTime s;
          s = s\<lparr>ksCurTime := t\<rparr>;
          s = s\<lparr>ksCurDomain := 0\<rparr>;
          s = s\<lparr>ksDomainTime := DSCHED_MAX_DURATION\<rparr>
      in s\<lparr>ksDomSchedule := (ksDomSchedule s)(0 := dschedule_make 0 DSCHED_MAX_DURATION)\<rparr>)"

section \<open>The main function\<close>

definition arch_init_freemem :: "region \<Rightarrow> region \<Rightarrow> region \<Rightarrow> word64 \<Rightarrow> bstate \<Rightarrow> bool \<times> bstate" where
  "arch_init_freemem ui_reg dtb_p_reg it_v_reg extra_bi_size_bits b =
     (let res_reg = [paddr_to_pptr_reg (get_p_reg_kernel_img b)];
          res_reg = (if rstart dtb_p_reg \<noteq> 0 then res_reg @ [paddr_to_pptr_reg dtb_p_reg] else res_reg);
          res_reg = res_reg @ [ui_reg]
      in init_freemem (avail_p_regs (cfg b)) res_reg it_v_reg extra_bi_size_bits b)"

definition init_irqs :: "cap \<Rightarrow> bstate \<Rightarrow> bstate" where
  "init_irqs root_cnode_cap b =
     (let b = upd_ks (fold (\<lambda>i s. if i \<noteq> irqInvalid then setIRQState IRQInactive i s else s)
            (map of_nat [0..<Suc (unat (pMaxIRQ (plat (ks b))))])) b;
          b = upd_ks (setIRQState IRQTimer (pKernelTimerIRQ (plat (ks b)))) b
      in write_slot (SLOT_PTR (pptr_of_cap root_cnode_cap) seL4_CapIRQControl) IRQControlCap b)"

text \<open>
  The memory of user frames is kept in words; \<^verbatim>\<open>memcpy\<close> copies bytes. The bytes of a word are in little-endian order.
\<close>

definition mem_bytes :: "(ptr \<Rightarrow> word64) \<Rightarrow> bytes" where
  "mem_bytes m a = ucast (drop_bit (8 * unat (a AND MASK 3)) (m (a AND NOT (MASK 3))))"

definition bytes_word :: "bytes \<Rightarrow> ptr \<Rightarrow> word64" where
  "bytes_word f p = fold (\<lambda>i w. w OR push_bit (8 * i) (ucast (f (p + of_nat i)))) [0..<8] 0"

definition copy_bytes :: "ptr \<Rightarrow> ptr \<Rightarrow> word64 \<Rightarrow> kstate \<Rightarrow> kstate" where
  "copy_bytes dst src n s =
     (let f = memcpy dst src n (mem_bytes (mem s))
      in s\<lparr>mem := \<lambda>p. if p AND MASK 3 = 0 then bytes_word f p else mem s p\<rparr>)"

definition SEL4_BOOTINFO_HEADER_PADDING :: word64 where "SEL4_BOOTINFO_HEADER_PADDING = 0"
definition SEL4_BOOTINFO_HEADER_FDT :: word64 where "SEL4_BOOTINFO_HEADER_FDT = 6"
definition sizeof_seL4_BootInfoHeader :: word64 where "sizeof_seL4_BootInfoHeader = 16"

text \<open>Writing a header and copying the device tree behind it.\<close>

definition write_bi_header :: "ptr \<Rightarrow> word64 \<Rightarrow> word64 \<Rightarrow> kstate \<Rightarrow> kstate" where
  "write_bi_header p header_id header_len s = store p 1 header_len (store p 0 header_id s)"

definition write_extra_bi :: "word64 \<Rightarrow> word64 \<Rightarrow> word64 \<Rightarrow> ptr \<Rightarrow> kstate \<Rightarrow> kstate" where
  "write_extra_bi dtb_phys_addr dtb_size extra_bi_size extra_bi s =
     (let (extra_bi_offset, s) =
            (if dtb_size > 0
             then let s = write_bi_header extra_bi SEL4_BOOTINFO_HEADER_FDT (sizeof_seL4_BootInfoHeader + dtb_size) s;
                      s = copy_bytes (extra_bi + sizeof_seL4_BootInfoHeader) (ptrFromPAddr dtb_phys_addr) dtb_size s
                  in (sizeof_seL4_BootInfoHeader + dtb_size, s)
             else (0, s))
      in if extra_bi_size > extra_bi_offset
         then write_bi_header (extra_bi + extra_bi_offset) SEL4_BOOTINFO_HEADER_PADDING (extra_bi_size - extra_bi_offset) s
         else s)"

text \<open>
  \<^verbatim>\<open>try_init_kernel\<close> in three parts: where the initial thread will be in virtual memory, with the device tree that is passed on to
  it; the capabilities and the address space of the initial thread; the threads and the remaining memory. Counting the processors
  (\<^verbatim>\<open>ksNumCPUs\<close>) is part of the multiprocessor configuration.
\<close>

record boot_layout =
  ui_reg :: region
  dtb_p_reg :: region
  it_v_reg :: region
  ipcbuf_vptr :: word64
  bi_frame_vptr :: word64
  extra_bi_frame_vptr :: word64
  extra_bi_size :: word64

definition boot_regions :: "word64 \<Rightarrow> word64 \<Rightarrow> word64 \<Rightarrow> word64 \<Rightarrow> word64 \<Rightarrow> boot_layout option" where
  "boot_regions ui_p_reg_start ui_p_reg_end pv_offset dtb_phys_addr dtb_size =
     (let ui_v_start = ui_p_reg_start - pv_offset;
          ui_v_end = ui_p_reg_end - pv_offset;
          ipcbuf = ui_v_end;
          bi_frame_v = ipcbuf + BIT seL4_PageBits;
          extra_bi_frame = bi_frame_v + BIT seL4_BootInfoFrameBits;
          dtb_phys_end = dtb_phys_addr + dtb_size
      in if dtb_size > 0 \<and> dtb_phys_end < dtb_phys_addr then None
         else if dtb_size > 0 \<and> dtb_phys_end \<ge> PADDR_TOP then None
         else let dtb = (if dtb_size > 0 then \<lparr>rstart = dtb_phys_addr, rend = dtb_phys_end\<rparr> else REG_EMPTY);
                  extra = (if dtb_size > 0 then sizeof_seL4_BootInfoHeader + dtb_size else 0);
                  extra_bi_size_bits = calculate_extra_bi_size_bits extra;
                  it_v = \<lparr>rstart = ui_v_start,
                    rend = extra_bi_frame + (if extra_bi_size_bits > 0 then BIT extra_bi_size_bits else 0)\<rparr>
              in if rend it_v \<ge> USER_TOP then None
                 else Some \<lparr>ui_reg = paddr_to_pptr_reg \<lparr>rstart = ui_p_reg_start, rend = ui_p_reg_end\<rparr>, dtb_p_reg = dtb, it_v_reg = it_v,
                   ipcbuf_vptr = ipcbuf, bi_frame_vptr = bi_frame_v, extra_bi_frame_vptr = extra_bi_frame, extra_bi_size = extra\<rparr>)"

definition map_extra_bi :: "cap \<Rightarrow> cap \<Rightarrow> boot_layout \<Rightarrow> bstate \<Rightarrow> bool \<times> bstate" where
  "map_extra_bi root_cnode_cap it_pd_cap l b =
     (if extra_bi_size l > 0
      then let p = rs_extra_bi (rootserver b);
               ((reg, ok), b) = create_frames_of_region root_cnode_cap it_pd_cap \<lparr>rstart = p, rend = p + extra_bi_size l\<rparr> True
                   (addrFromPPtr p - extra_bi_frame_vptr l) b
           in if \<not> ok then (False, b) else (True, b\<lparr>bi_frame := (bi_frame b)\<lparr>extraBIPages := reg\<rparr>\<rparr>)
      else (True, b))"

definition boot_caps :: "boot_layout \<Rightarrow> word64 \<Rightarrow> word64 \<Rightarrow> word64 \<Rightarrow> bstate \<Rightarrow> (cap \<times> cap \<times> cap) option \<times> bstate" where
  "boot_caps l pv_offset dtb_phys_addr dtb_size b =
     (let (root_cnode_cap, b) = create_root_cnode b
      in if root_cnode_cap = NullCap then (None, b)
         else let b = create_domain_cap root_cnode_cap b;
                  b = init_irqs root_cnode_cap b;
                  b = populate_bi_frame 0 1 (ipcbuf_vptr l) (extra_bi_size l) b;
                  b = upd_ks (write_extra_bi dtb_phys_addr dtb_size (extra_bi_size l) (rs_extra_bi (rootserver b))) b;
                  (it_pd_cap, b) = create_it_address_space root_cnode_cap (it_v_reg l) b
              in if it_pd_cap = NullCap then (None, b)
                 else let b = create_bi_frame_cap root_cnode_cap it_pd_cap (bi_frame_vptr l) b;
                          (r, b) = map_extra_bi root_cnode_cap it_pd_cap l b
                      in if \<not> r then (None, b)
                         else let (_, b) = init_sched_control root_cnode_cap 1 b;
                                  (ipcbuf_cap, b) = create_ipcbuf_frame_cap root_cnode_cap it_pd_cap (ipcbuf_vptr l) b
                              in if ipcbuf_cap = NullCap then (None, b)
                                 else let ((reg, ok), b) = create_frames_of_region root_cnode_cap it_pd_cap (ui_reg l) True pv_offset b
                                      in if \<not> ok then (None, b)
                                         else let b = b\<lparr>bi_frame := (bi_frame b)\<lparr>userImageFrames := reg\<rparr>\<rparr>;
                                                  (it_ap_cap, b) = create_it_asid_pool root_cnode_cap b
                                              in if it_ap_cap = NullCap then (None, b)
                                                 else (Some (root_cnode_cap, it_pd_cap, ipcbuf_cap), write_it_asid_pool it_ap_cap it_pd_cap b))"

definition boot_threads :: "boot_layout \<Rightarrow> word64 \<Rightarrow> cap \<Rightarrow> cap \<Rightarrow> cap \<Rightarrow> bstate \<Rightarrow> bool \<times> bstate" where
  "boot_threads l v_entry root_cnode_cap it_pd_cap ipcbuf_cap b =
     (let (t, s) = getCurrentTime (ks b);
          b = b\<lparr>ks := s\<lparr>ksCurTime := t\<rparr>\<rparr>;
          b = create_idle_thread b;
          (initial, b) = create_initial_thread root_cnode_cap it_pd_cap v_entry (bi_frame_vptr l) (ipcbuf_vptr l) ipcbuf_cap b
      in if initial = NULL then (False, b)
         else let b = upd_ks (init_core_state initial) b;
                  (r, b) = create_untypeds root_cnode_cap b
              in if \<not> r then (False, b)
                 else let b = b\<lparr>bi_frame := (bi_frame b)\<lparr>sharedFrames := REG_EMPTY\<rparr>\<rparr>
                      in (True, bi_finalise b))"

definition try_init_kernel :: "word64 \<Rightarrow> word64 \<Rightarrow> word64 \<Rightarrow> word64 \<Rightarrow> word64 \<Rightarrow> word64 \<Rightarrow> bstate \<Rightarrow> bool \<times> bstate" where
  "try_init_kernel ui_p_reg_start ui_p_reg_end pv_offset v_entry dtb_phys_addr dtb_size b =
     (let b = map_kernel_window b;
          b = upd_ks init_cpu b;
          b = upd_ks init_plat b
      in case boot_regions ui_p_reg_start ui_p_reg_end pv_offset dtb_phys_addr dtb_size of
           None \<Rightarrow> (False, b)
         | Some l \<Rightarrow>
             let (r, b) = arch_init_freemem (ui_reg l) (dtb_p_reg l) (it_v_reg l) (calculate_extra_bi_size_bits (extra_bi_size l)) b
             in if \<not> r then (False, b)
                else let (caps, b) = boot_caps l pv_offset dtb_phys_addr dtb_size b
                     in case caps of
                          None \<Rightarrow> (False, b)
                        | Some (root_cnode_cap, it_pd_cap, ipcbuf_cap) \<Rightarrow>
                            boot_threads l v_entry root_cnode_cap it_pd_cap ipcbuf_cap b)"

definition init_kernel :: "word64 \<Rightarrow> word64 \<Rightarrow> word64 \<Rightarrow> word64 \<Rightarrow> word64 \<Rightarrow> 32 word \<Rightarrow> bstate \<Rightarrow> kstate option" where
  "init_kernel ui_p_reg_start ui_p_reg_end pv_offset v_entry dtb_addr_p dtb_size b =
     (let (result, b) = try_init_kernel ui_p_reg_start ui_p_reg_end pv_offset v_entry dtb_addr_p (ucast dtb_size) b
      in if \<not> result then None
         else let (t, s) = getCurrentTime (ks b);
                  s = s\<lparr>ksCurTime := t\<rparr>;
                  s = s\<lparr>ksConsumed := 0\<rparr>
              in do { s \<leftarrow> schedule s; activateThread s })"

end
