(* ===== verification/BootObjects.thy ===== *)
theory BootObjects
  imports Boot "HOL-Library.Multiset"
begin

text \<open>
  The layout of the objects of the initial thread. \<open>place\<close> puts objects of given sizes one behind the other; what
  \<^verbatim>\<open>create_rootserver_objects\<close> in \<^verbatim>\<open>src/kernel/kernel/boot.c\<close> allocates is such a sequence with sizes that do not
  grow, so that the objects are aligned, disjoint and fill their region.
\<close>


section \<open>The objects of the initial thread\<close>

text \<open>Placing objects of the given sizes one behind the other.\<close>

fun place :: "ptr \<Rightarrow> word64 list \<Rightarrow> (ptr \<times> word64) list" where
  "place p [] = []"
| "place p (k # zs) = (p, k) # place (p + BIT k) zs"

definition bytes_of :: "word64 list \<Rightarrow> nat" where
  "bytes_of zs = sum_list (map (\<lambda>k. 2 ^ unat k) zs)"

abbreviation obj_region :: "ptr \<times> word64 \<Rightarrow> region" where
  "obj_region x \<equiv> \<lparr>rstart = fst x, rend = fst x + BIT (snd x)\<rparr>"

abbreviation apart :: "ptr \<times> word64 \<Rightarrow> ptr \<times> word64 \<Rightarrow> bool" where
  "apart x y \<equiv> rset (obj_region x) \<inter> rset (obj_region y) = {}"

lemma bytes_of_simps [simp]: "bytes_of [] = 0" "bytes_of (k # zs) = 2 ^ unat k + bytes_of zs" "bytes_of (zs @ ls) = bytes_of zs + bytes_of ls"
  "bytes_of (replicate n k) = n * 2 ^ unat k"
  by (simp_all add: bytes_of_def sum_list_replicate)

lemma place_append: "place p (zs @ ls) = place p zs @ place (p + of_nat (bytes_of zs)) ls" if "\<forall>k \<in> set zs. k < 64"
  using that
proof (induction zs arbitrary: p)
  case (Cons k zs)
  have "BIT k = (of_nat (2 ^ unat k) :: word64)" by (simp add: BIT_def push_bit_eq_mult)
  then show ?case using Cons by (simp add: add.assoc)
qed simp

lemma place_replicate: "k < 64 \<Longrightarrow> place p (replicate n k) = map (\<lambda>i. (p + of_nat i * BIT k, k)) [0..<n]"
proof (induction n arbitrary: p)
  case (Suc n)
  have "map (\<lambda>i. (p + of_nat i * BIT k, k)) [0..<Suc n] = (p, k) # map (\<lambda>i. (p + BIT k + of_nat i * BIT k, k)) [0..<n]"
    unfolding upt_conv_Cons [OF zero_less_Suc] map_Suc_upt [symmetric] by (simp add: algebra_simps comp_def)
  then show ?case using Suc by simp
qed simp

lemma obj_rset:
  assumes "k < 64" "unat p + 2 ^ unat k < 2 ^ 64"
  shows "rset (obj_region (p, k)) = {x. unat p \<le> unat x \<and> unat x < unat p + 2 ^ unat k}" "unat (p + BIT k) = unat p + 2 ^ unat k"
proof -
  show u: "unat (p + BIT k) = unat p + 2 ^ unat k" using assms by (subst unat_add_nowrap) (simp_all add: unat_BIT)
  then show "rset (obj_region (p, k)) = {x. unat p \<le> unat x \<and> unat x < unat p + 2 ^ unat k}"
    by (auto simp: rset_iff word_le_nat_alt word_less_nat_alt)
qed

text \<open>Objects placed so are disjoint, fill the region, and are aligned when the sizes do not grow.\<close>

lemma place_fills:
  assumes "\<forall>k \<in> set zs. k < 64" "unat p + bytes_of zs < 2 ^ 64"
  shows "(\<Union>x \<in> set (place p zs). rset (obj_region x)) = {x. unat p \<le> unat x \<and> unat x < unat p + bytes_of zs}"
    "sorted_wrt apart (place p zs)"
  using assms
proof (induction zs arbitrary: p)
  case (Cons k zs)
  have step: "(\<Union>x \<in> set (place p (k # zs)). rset (obj_region x)) = {x. unat p \<le> unat x \<and> unat x < unat p + bytes_of (k # zs)}"
      "sorted_wrt apart (place p (k # zs))" if k: "\<forall>k \<in> set (k # zs). k < 64" "unat p + bytes_of (k # zs) < 2 ^ 64" for p
  proof -
    have o: "rset (obj_region (p, k)) = {x. unat p \<le> unat x \<and> unat x < unat p + 2 ^ unat k}" and u: "unat (p + BIT k) = unat p + 2 ^ unat k"
      using obj_rset [of k p] k by auto
    have r: "\<forall>k \<in> set zs. k < 64" "unat (p + BIT k) + bytes_of zs < 2 ^ 64" using k u by auto
    note IH = Cons.IH(1) [OF r, unfolded u] Cons.IH(2) [OF r]
    have "(\<Union>x \<in> set (place p (k # zs)). rset (obj_region x)) = {x. unat p \<le> unat x \<and> unat x < unat p + bytes_of (k # zs)}"
      unfolding place.simps list.set UN_insert o IH(1) bytes_of_simps by auto
    moreover have "apart (p, k) y" if "y \<in> set (place (p + BIT k) zs)" for y
    proof -
      have "rset (obj_region y) \<subseteq> {x. unat p + 2 ^ unat k \<le> unat x}" using IH(1) that by blast
      then show ?thesis unfolding o by force
    qed
    ultimately show "(\<Union>x \<in> set (place p (k # zs)). rset (obj_region x)) = {x. unat p \<le> unat x \<and> unat x < unat p + bytes_of (k # zs)}"
      "sorted_wrt apart (place p (k # zs))" using IH(2) by simp_all
  qed
  case 1
  then show ?case by (rule step(1))
  case 2
  then show ?case by (rule step(2))
qed simp_all

lemma place_aligned:
  assumes "\<forall>k \<in> set zs. k < 64 \<and> 2 ^ unat k dvd unat p" "unat p + bytes_of zs < 2 ^ 64" "sorted_wrt (\<lambda>k l. l \<le> k) zs" "(q, k) \<in> set (place p zs)"
  shows "2 ^ unat k dvd unat q"
  using assms
proof (induction zs arbitrary: p)
  case (Cons j zs)
  have u: "unat (p + BIT j) = unat p + 2 ^ unat j" using obj_rset(2) [of j p] Cons.prems by simp
  have "2 ^ unat l dvd unat (p + BIT j)" if "l \<in> set zs" for l
  proof -
    have "(2::nat) ^ unat l dvd 2 ^ unat j" using Cons.prems(3) that by (simp add: le_imp_power_dvd word_le_nat_alt)
    then show ?thesis using Cons.prems(1) that u by (simp add: dvd_add)
  qed
  then show ?case using Cons.IH [of "p + BIT j"] Cons.prems u by auto
qed simp

lemma sorted_wrt_perm:
  assumes "\<And>x y. R x y \<Longrightarrow> R y x"
  shows "mset xs = mset ys \<Longrightarrow> sorted_wrt R xs \<Longrightarrow> sorted_wrt R ys"
proof (induction xs arbitrary: ys)
  case (Cons x xs)
  have "x \<in> set ys" using Cons.prems(1) by (metis list.set_intros(1) set_mset_mset)
  then obtain us vs where ys: "ys = us @ x # vs" by (meson split_list)
  then have m: "mset xs = mset (us @ vs)" using Cons.prems(1) by simp
  have "sorted_wrt R (us @ vs)" "\<forall>y \<in> set (us @ vs). R x y"
    using Cons.IH [OF m] Cons.prems(2) m by (auto simp flip: set_mset_mset simp del: set_mset_mset)
  then show ?case using assms unfolding ys by (auto simp: sorted_wrt_append)
qed simp

definition rs_objects :: "word64 \<Rightarrow> word64 \<Rightarrow> nat \<Rightarrow> rootserver_mem \<Rightarrow> (ptr \<times> word64) list" where
  "rs_objects cnode_bits x n r =
     [(rs_cnode r, cnode_bits), (rs_vspace r, 12)] @ (if x > 0 then [(rs_extra_bi r, x)] else [])
      @ [(rs_asid_pool r, 12), (rs_ipc_buf r, 12), (rs_boot_info r, 12)]
      @ map (\<lambda>i. (rstart (rs_paging r) + of_nat i * BIT 12, 12)) [0..<n] @ [(rs_tcb r, 10), (rs_sc r, 7)]"

lemma alloc_into_simps:
  "cfg (alloc_into g k b) = cfg b" "rootserver (alloc_into g k b) = g (rstart (rootserver_mem b)) (rootserver b)"
  "rootserver_mem (alloc_into g k b) = (rootserver_mem b)\<lparr>rstart := rstart (rootserver_mem b) + BIT k\<rparr>"
  by (simp_all add: alloc_into_def alloc_rootserver_obj_def Let_def)

lemma maybe_alloc_simps:
  "maybe_alloc_extra_bi c x b =
     (if x \<ge> c \<and> rs_extra_bi (rootserver b) = 0 then alloc_into (\<lambda>p r. r\<lparr>rs_extra_bi := p\<rparr>) x b else b)"
  by (simp add: maybe_alloc_extra_bi_def alloc_into_def Let_def split_beta)

lemma rs_bits: "seL4_VSpaceBits = 12" "seL4_ASIDPoolBits = 12" "seL4_PageBits = 12" "seL4_BootInfoFrameBits = 12" "seL4_PageTableBits = 12"
  "seL4_TCBBits = 10" "seL4_MinSchedContextBits = 7" "seL4_SlotBits = 5"
  by (simp_all add: seL4_VSpaceBits_def seL4_ASIDPoolBits_def seL4_PageBits_def seL4_BootInfoFrameBits_def seL4_PageTableBits_def
      seL4_TCBBits_def seL4_MinSchedContextBits_def seL4_SlotBits_def)

text \<open>The tail of the allocation, the same in every order of the large objects.\<close>

definition alloc_small :: "region \<Rightarrow> bstate \<Rightarrow> bstate" where
  "alloc_small v b =
     (let b = alloc_into (\<lambda>p. rs_asid_pool_update (\<lambda>_. p)) 12 b;
          b = alloc_into (\<lambda>p. rs_ipc_buf_update (\<lambda>_. p)) 12 b;
          b = alloc_into (\<lambda>p. rs_boot_info_update (\<lambda>_. p)) 12 b;
          n = arch_get_n_paging v;
          (p, b) = alloc_rootserver_obj 12 n b;
          b = b\<lparr>rootserver := (rootserver b)\<lparr>rs_paging := \<lparr>rstart = p, rend = p + n * BIT 12\<rparr>\<rparr>\<rparr>;
          b = alloc_into (\<lambda>p. rs_tcb_update (\<lambda>_. p)) 10 b
      in alloc_into (\<lambda>p. rs_sc_update (\<lambda>_. p)) 7 b)"

lemma alloc_small_simps:
  fixes b v
  defines "p \<equiv> rstart (rootserver_mem b)" and "n \<equiv> arch_get_n_paging v"
  shows "rootserver (alloc_small v b) = (rootserver b)\<lparr>rs_asid_pool := p, rs_ipc_buf := p + 2 ^ 12, rs_boot_info := p + 2 * 2 ^ 12,
      rs_paging := \<lparr>rstart = p + 3 * 2 ^ 12, rend = p + 3 * 2 ^ 12 + n * 2 ^ 12\<rparr>, rs_tcb := p + 3 * 2 ^ 12 + n * 2 ^ 12,
      rs_sc := p + 3 * 2 ^ 12 + n * 2 ^ 12 + 2 ^ 10\<rparr>"
    "rootserver_mem (alloc_small v b) = (rootserver_mem b)\<lparr>rstart := p + 3 * 2 ^ 12 + n * 2 ^ 12 + 2 ^ 10 + 2 ^ 7\<rparr>"
    "cfg (alloc_small v b) = cfg b"
  by (simp_all add: alloc_small_def Let_def split_beta alloc_into_simps alloc_rootserver_obj_def p_def n_def BIT_def)

text \<open>
  The head of the allocation: the root node, the top page table of \<open>2 ^ q\<close> bytes and the extra boot information, the largest first.
\<close>

definition alloc_large :: "word64 \<Rightarrow> word64 \<Rightarrow> word64 \<Rightarrow> bstate \<Rightarrow> bstate" where
  "alloc_large q cb x b =
     (let b = maybe_alloc_extra_bi (max (max cb q) x) x b;
          b = (if cb > q
               then alloc_into (\<lambda>p. rs_vspace_update (\<lambda>_. p)) q (maybe_alloc_extra_bi q x (alloc_into (\<lambda>p. rs_cnode_update (\<lambda>_. p)) cb b))
               else alloc_into (\<lambda>p. rs_cnode_update (\<lambda>_. p)) cb (maybe_alloc_extra_bi cb x (alloc_into (\<lambda>p. rs_vspace_update (\<lambda>_. p)) q b)))
      in maybe_alloc_extra_bi q x b)"

lemma create_rootserver_objects_eq:
  "create_rootserver_objects start v x b =
     alloc_small v (alloc_large 12 (CONFIG_ROOT_CNODE_SIZE_BITS (cfg b) + 5) x
       (b\<lparr>rootserver_mem := \<lparr>rstart = start, rend = start + calculate_rootserver_size (cfg b) v x\<rparr>\<rparr>))"
  by (simp only: create_rootserver_objects_def alloc_small_def alloc_large_def Let_def rs_bits rootserver_max_size_bits_def)

lemma of_nat_bytes: "(of_nat (bytes_of (k # zs)) :: word64) = BIT k + of_nat (bytes_of zs)" "(of_nat (bytes_of []) :: word64) = 0"
  by (simp_all add: BIT_def push_bit_eq_mult)

lemma alloc_large_spec:
  assumes "rs_extra_bi (rootserver b) = 0" "start \<noteq> 0" "0 < q" "q \<le> cb" "x = 0 \<or> q \<le> x" "cb < 64"
    and "unat start + 2 ^ unat cb < 2 ^ 64" and p: "rstart (rootserver_mem b) = start"
  defines "b' \<equiv> alloc_large q cb x b" and "xs \<equiv> if x > 0 then [x] else []"
  shows "\<exists>zs. mset ([(rs_cnode (rootserver b'), cb), (rs_vspace (rootserver b'), q)] @ map (Pair (rs_extra_bi (rootserver b'))) xs)
      = mset (place start zs) \<and> sorted_wrt (\<lambda>k l. l \<le> k) zs \<and> mset zs = mset ([cb, q] @ xs)
    \<and> rootserver_mem b' = (rootserver_mem b)\<lparr>rstart := start + of_nat (bytes_of zs)\<rparr> \<and> cfg b' = cfg b"
proof -
  note d = b'_def xs_def alloc_large_def maybe_alloc_simps alloc_into_simps Let_def p assms(1)
  note w = of_nat_bytes less_imp_le
  have n: "start + BIT cb \<noteq> 0" using obj_rset(2) [OF assms(6), of start] assms(7) by auto
  consider (none) "x = 0" | (first) "x > 0" "cb \<le> x" | (second) "x > 0" "x < cb"
    by (cases "x = 0"; cases "cb \<le> x") (auto simp: word_greater_zero_iff not_le)
  then show ?thesis
  proof cases
    case none
    then have nx: "\<not> max (max cb q) x \<le> x" "\<not> q \<le> x" "\<not> cb \<le> x" using assms(3,4) by auto
    show ?thesis
    proof (cases "cb > q")
      case True
      then show ?thesis using none nx
        by (intro exI [of _ "[cb, q]"]) (simp add: d w add.assoc del: bytes_of_simps)
    next
      case False
      then have "cb = q" using assms(4) by simp
      then show ?thesis using none nx by (intro exI [of _ "[q, cb]"]) (simp add: d w add.assoc del: bytes_of_simps)
    qed
  next
    case first
    have x: "q \<le> x" using assms(5) first by auto
    then have mx: "max (max cb q) x = x" using first by simp
    show ?thesis
    proof (cases "cb > q")
      case True
      then show ?thesis using first x mx assms(2,4)
        by (intro exI [of _ "[x, cb, q]"]) (auto simp: d w add.assoc simp del: bytes_of_simps)
    next
      case False
      then have "cb = q" using assms(4) by simp
      then show ?thesis using first x mx assms(2) by (intro exI [of _ "[x, q, cb]"]) (auto simp: d w add.assoc simp del: bytes_of_simps)
    qed
  next
    case second
    have x: "q \<le> x" "cb > q" using assms(5) second by auto
    then have mx: "\<not> max (max cb q) x \<le> x" using second by simp
    show ?thesis using second x mx n
      by (intro exI [of _ "[cb, x, q]"]) (auto simp: d w add.assoc simp del: bytes_of_simps)
  qed
qed

lemma alloc_large_extra: "rs_extra_bi (rootserver (alloc_small v b)) = rs_extra_bi (rootserver b)"
  "rs_cnode (rootserver (alloc_small v b)) = rs_cnode (rootserver b)" "rs_vspace (rootserver (alloc_small v b)) = rs_vspace (rootserver b)"
  by (simp_all add: alloc_small_simps)

lemma unat_bits: "unat (12 :: word64) = 12" "unat (10 :: word64) = 10" "unat (7 :: word64) = 7"
  by simp_all

text \<open>The sizes of the objects behind the large ones, and all of them together.\<close>

definition small_bits :: "nat \<Rightarrow> word64 list" where
  "small_bits n = [12, 12, 12] @ replicate n 12 @ [10, 7]"

definition rs_size :: "word64 \<Rightarrow> word64 \<Rightarrow> nat \<Rightarrow> nat" where
  "rs_size cnode_bits x n = 2 ^ unat cnode_bits + (if x > 0 then 2 ^ unat x else 0) + 2 ^ 12 + 3 * 2 ^ 12 + n * 2 ^ 12 + 2 ^ 10 + 2 ^ 7"

lemma place_small:
  assumes "n = unat m"
  shows "place p (small_bits n) = [(p, 12), (p + 2 ^ 12, 12), (p + 2 * 2 ^ 12, 12)]
    @ map (\<lambda>i. (p + 3 * 2 ^ 12 + of_nat i * BIT 12, 12)) [0..<n] @ [(p + 3 * 2 ^ 12 + m * 2 ^ 12, 10), (p + 3 * 2 ^ 12 + m * 2 ^ 12 + 2 ^ 10, 7)]"
proof -
  have "p + 3 * 2 ^ 12 + of_nat (bytes_of (replicate n 12)) = p + 3 * 2 ^ 12 + m * 2 ^ 12" by (simp add: assms)
  then show ?thesis
    using place_append [of "replicate n 12" "p + 3 * 2 ^ 12" "[10, 7]"] by (simp add: small_bits_def place_replicate BIT_def add.assoc)
qed

lemma bytes_small: "bytes_of (small_bits n) = 3 * 2 ^ 12 + n * 2 ^ 12 + 2 ^ 10 + 2 ^ 7"
  unfolding small_bits_def bytes_of_simps unat_bits by simp

lemma bytes_of_perm: "mset xs = mset ys \<Longrightarrow> bytes_of xs = bytes_of ys"
  unfolding bytes_of_def sum_mset_sum_list [symmetric] mset_map by simp

lemma rootserver_size_sum:
  "calculate_rootserver_size c v x = of_nat (rs_size (CONFIG_ROOT_CNODE_SIZE_BITS c + 5) x (unat (arch_get_n_paging v)))"
  by (simp add: calculate_rootserver_size_def Let_def rs_bits rs_size_def BIT_def push_bit_eq_mult)

lemma rootserver_objects:
  fixes v :: region
  assumes c: "7 \<le> CONFIG_ROOT_CNODE_SIZE_BITS (cfg b)" "CONFIG_ROOT_CNODE_SIZE_BITS (cfg b) < 27"
    and x: "x = 0 \<or> 12 \<le> x" "x < 64" and s: "rs_extra_bi (rootserver b) = 0" "start \<noteq> 0"
    and al: "2 ^ unat (rootserver_max_size_bits (cfg b) x) dvd unat start"
  defines "n \<equiv> unat (arch_get_n_paging v)" and "cb \<equiv> CONFIG_ROOT_CNODE_SIZE_BITS (cfg b) + 5" and "b' \<equiv> create_rootserver_objects start v x b"
  assumes fit: "unat start + rs_size cb x n < 2 ^ 64"
  shows "\<exists>zs. mset (rs_objects cb x n (rootserver b')) = mset (place start zs) \<and> (\<forall>k \<in> set zs. k < 64 \<and> 2 ^ unat k dvd unat start)
    \<and> sorted_wrt (\<lambda>k l. l \<le> k) zs \<and> bytes_of zs = rs_size cb x n \<and> is_reg_empty (rootserver_mem b')"
proof -
  let ?b = "b\<lparr>rootserver_mem := \<lparr>rstart = start, rend = start + calculate_rootserver_size (cfg b) v x\<rparr>\<rparr>"
  let ?l = "alloc_large 12 cb x ?b" and ?xs = "if x > 0 then [x] else []"
  have ucb: "unat cb = unat (CONFIG_ROOT_CNODE_SIZE_BITS (cfg b)) + 5"
    unfolding cb_def using c by (subst unat_add_nowrap) (simp_all add: word_less_nat_alt)
  have cb: "12 \<le> cb" "cb < 64" using c ucb by (simp_all add: word_le_nat_alt word_less_nat_alt)
  have "unat start + 2 ^ unat cb < 2 ^ 64" using fit by (simp add: rs_size_def)
  then obtain zs where zs: "mset ([(rs_cnode (rootserver ?l), cb), (rs_vspace (rootserver ?l), 12)] @ map (Pair (rs_extra_bi (rootserver ?l))) ?xs)
      = mset (place start zs)" "sorted_wrt (\<lambda>k l. l \<le> k) zs" "mset zs = mset ([cb, 12] @ ?xs)"
    "rootserver_mem ?l = (rootserver_mem ?b)\<lparr>rstart := start + of_nat (bytes_of zs)\<rparr>"
    using alloc_large_spec [of ?b start 12 cb x] s cb x(1) by fastforce
  have b': "b' = alloc_small v ?l" unfolding b'_def cb_def by (rule create_rootserver_objects_eq)
  have set: "set zs = set ([cb, 12] @ ?xs)" using zs(3) by (metis set_mset_mset)
  have bz: "bytes_of zs = 2 ^ unat cb + 2 ^ 12 + (if x > 0 then 2 ^ unat x else 0)"
    unfolding bytes_of_perm [OF zs(3)] by (cases "x > 0") (simp_all only: append.simps if_True if_False bytes_of_simps unat_bits)
  have m: "n = unat (arch_get_n_paging v)" by (simp add: n_def)
  have objs: "mset (rs_objects cb x n (rootserver b')) = mset (place start (zs @ small_bits n))"
  proof -
    have "\<forall>k \<in> set zs. k < 64" unfolding set using cb(2) x(2) by (cases "x > 0") simp_all
    then have "place start (zs @ small_bits n) = place start zs @ place (start + of_nat (bytes_of zs)) (small_bits n)" by (rule place_append)
    moreover have "(if x > 0 then [(e, x)] else []) = map (Pair e) ?xs" for e :: ptr by simp
    ultimately show ?thesis
      unfolding rs_objects_def b' alloc_small_simps zs(4) place_small [OF m] mset_append using zs(1) by (cases "x > 0") (simp_all add: add_mset_commute)
  qed
  have al: "2 ^ unat k dvd unat start" if "k \<le> rootserver_max_size_bits (cfg b) x" for k
    using al that by (meson dvd_trans le_imp_power_dvd word_le_nat_alt)
  have mx: "cb \<le> rootserver_max_size_bits (cfg b) x" "x \<le> rootserver_max_size_bits (cfg b) x"
    by (simp_all add: rootserver_max_size_bits_def cb_def rs_bits le_max_iff_disj)
  have le: "k \<le> cb" if "k \<in> set (small_bits n)" for k
    using that cb(1) by (auto simp: small_bits_def word_le_nat_alt)
  have aligned: "\<forall>k \<in> set (zs @ small_bits n). k < 64 \<and> 2 ^ unat k dvd unat start"
  proof
    fix k assume k: "k \<in> set (zs @ small_bits n)"
    then have "k \<le> cb \<or> k = x" using le cb(1) unfolding set_append set by (cases "x > 0") auto
    then show "k < 64 \<and> 2 ^ unat k dvd unat start" using al [of k] mx cb(2) x(2) by (auto intro: order_trans le_less_trans)
  qed
  have sorted: "sorted_wrt (\<lambda>k l. l \<le> k) (zs @ small_bits n)"
  proof -
    have "12 \<le> k" if "k \<in> set zs" for k using that cb(1) x(1) unfolding set by (cases "x > 0") auto
    then have "\<forall>k \<in> set zs. \<forall>l \<in> set (small_bits n). l \<le> k"
      by (auto simp: small_bits_def intro: order_trans [of _ 12])
    moreover have "sorted_wrt (\<lambda>k l. l \<le> k) (replicate n (12 :: word64))" by (induction n) simp_all
    ultimately show ?thesis using zs(2) by (simp add: small_bits_def sorted_wrt_append)
  qed
  have sz: "bytes_of (zs @ small_bits n) = rs_size cb x n"
    unfolding bytes_of_simps(3) bz bytes_small rs_size_def by simp
  have "is_reg_empty (rootserver_mem b')"
  proof -
    have "of_nat (bytes_of zs) + (3 * 2 ^ 12 + arch_get_n_paging v * 2 ^ 12 + 2 ^ 10 + 2 ^ 7) = calculate_rootserver_size (cfg b) v x"
      unfolding rootserver_size_sum cb_def [symmetric] m [symmetric] sz [symmetric] bytes_of_simps(3) bytes_small by (simp add: m)
    then show ?thesis unfolding b' is_reg_empty_def alloc_small_simps zs(4) by (simp add: add.assoc)
  qed
  then show ?thesis using objs aligned sorted sz by blast
qed

lemma rootserver_objects_placed:
  fixes v :: region
  assumes "7 \<le> CONFIG_ROOT_CNODE_SIZE_BITS (cfg b)" "CONFIG_ROOT_CNODE_SIZE_BITS (cfg b) < 27"
    and "x = 0 \<or> 12 \<le> x" "x < 64" "rs_extra_bi (rootserver b) = 0" "start \<noteq> 0"
    and "2 ^ unat (rootserver_max_size_bits (cfg b) x) dvd unat start"
  defines "n \<equiv> unat (arch_get_n_paging v)" and "cb \<equiv> CONFIG_ROOT_CNODE_SIZE_BITS (cfg b) + 5" and "b' \<equiv> create_rootserver_objects start v x b"
  defines "objs \<equiv> rs_objects cb x n (rootserver b')"
  assumes "unat start + rs_size cb x n < 2 ^ 64"
  shows "(\<forall>(p, k) \<in> set objs. 2 ^ unat k dvd unat p) \<and> sorted_wrt apart objs
    \<and> (\<Union>y \<in> set objs. rset (obj_region y)) = {y. unat start \<le> unat y \<and> unat y < unat start + rs_size cb x n}
    \<and> is_reg_empty (rootserver_mem b')"
proof -
  note d = n_def cb_def b'_def
  obtain zs where zs: "mset objs = mset (place start zs)" "\<forall>k \<in> set zs. k < 64 \<and> 2 ^ unat k dvd unat start"
    "sorted_wrt (\<lambda>k l. l \<le> k) zs" "bytes_of zs = rs_size cb x n" "is_reg_empty (rootserver_mem b')"
    using rootserver_objects [OF assms(1-7), of v, folded d] assms(12) unfolding objs_def by blast
  have z: "\<forall>k \<in> set zs. k < 64" "unat start + bytes_of zs < 2 ^ 64" using zs assms(12) by auto
  have set: "set objs = set (place start zs)" using zs(1) by (metis set_mset_mset)
  note f = place_fills [OF z]
  have "\<forall>(p, k) \<in> set objs. 2 ^ unat k dvd unat p" unfolding set using place_aligned [OF zs(2) z(2) zs(3)] by auto
  moreover have "sorted_wrt apart objs" by (rule sorted_wrt_perm [OF _ zs(1) [symmetric] f(2)]) (simp add: Int_commute)
  ultimately show ?thesis using f(1) zs(4,5) unfolding set by simp
qed

text \<open>
  C19. The objects of the initial thread are laid out exactly. For every configuration the build accepts, allocating the root
  capability node, the page tables, the identifier pool, the buffer, the boot information with its extra part, the thread and its
  scheduling context from an aligned region of the computed size gives objects that are aligned to their sizes and pairwise
  disjoint and that fill the region: nothing overlaps and nothing is left over.
\<close>

theorem rootserver_objects_fill:
  fixes v :: region
  assumes "7 \<le> CONFIG_ROOT_CNODE_SIZE_BITS (cfg b)" "CONFIG_ROOT_CNODE_SIZE_BITS (cfg b) < 27"
    and "x = 0 \<or> 12 \<le> x" "x < 64" "rs_extra_bi (rootserver b) = 0" "start \<noteq> 0"
    and "2 ^ unat (rootserver_max_size_bits (cfg b) x) dvd unat start"
  defines "n \<equiv> unat (arch_get_n_paging v)" and "cb \<equiv> CONFIG_ROOT_CNODE_SIZE_BITS (cfg b) + 5" and "b' \<equiv> create_rootserver_objects start v x b"
  defines "objs \<equiv> rs_objects cb x n (rootserver b')"
  assumes "unat start + rs_size cb x n < 2 ^ 64"
  shows "(\<forall>(p, k) \<in> set objs. 2 ^ unat k dvd unat p) \<and> sorted_wrt apart objs
    \<and> (\<Union>y \<in> set objs. rset (obj_region y)) = {y. unat start \<le> unat y \<and> unat y < unat start + unat (calculate_rootserver_size (cfg b) v x)}
    \<and> is_reg_empty (rootserver_mem b')"
proof -
  have "unat (calculate_rootserver_size (cfg b) v x) = rs_size cb x n"
    unfolding rootserver_size_sum cb_def n_def using assms(12) [unfolded cb_def n_def] by (simp add: unat_of_nat)
  then show ?thesis using rootserver_objects_placed [OF assms(1-7), of v] assms(12) unfolding objs_def n_def cb_def b'_def by simp
qed

theorem rootserver_objects_fill_witness:
  "is_reg_empty (rootserver_mem (create_rootserver_objects 0xFFFFFFC080020000 example_v 0 example_boot))"
proof -
  have "unat (rootserver_max_size_bits (cfg example_boot) 0) = 17"
    by (simp add: rootserver_max_size_bits_def example_boot_def example_config_def rs_bits)
  moreover have "(2::nat) ^ 17 dvd unat (0xFFFFFFC080020000 :: word64)" by simp
  ultimately have al: "2 ^ unat (rootserver_max_size_bits (cfg example_boot) 0) dvd unat (0xFFFFFFC080020000 :: word64)" by simp
  have "arch_get_n_paging example_v = 2"
    by (simp add: arch_get_n_paging_def get_n_paging_def example_v_def CONFIG_PT_LEVELS_def upt_rec ROUND_DOWN_def ROUND_UP_def
        RISCV_GET_LVL_PGSIZE_BITS_def PT_INDEX_BITS_def rs_bits BIT_def Let_def)
  then show ?thesis
    using rootserver_objects_fill [where b = example_boot and x = 0 and start = "0xFFFFFFC080020000" and v = example_v] al
    by (simp add: example_boot_def example_config_def rs_size_def)
qed

end
