(* ===== verification/Spec2Isabelle.thy ===== *)
theory Spec2Isabelle
  imports Prelude Structures Util Sporadic TcbQueue Machine AddrSpace Scheduler Caps CSpace CNode
    Invocation Domain SchedContext Reply Notification IpcTransfer Endpoint Thread VSpace Finalise Untyped
    Interrupt TcbInv Syscall KernelExit BootMem BootFree BootUntyped Boot BootObjects
begin

text \<open>
  A verification of the core of the microkernel under \<^verbatim>\<open>src/kernel\<close>.

  \<^bold>\<open>Configuration.\<close> The C sources are one kernel for many configurations. The development follows the
  MCS kernel (scheduling contexts, explicit reply objects) on 64-bit RISC-V with one core, no
  FPU, 256 priorities and the release build, where \<^verbatim>\<open>assert\<close> is empty and \<^verbatim>\<open>fail\<close> halts. What the build
  or the platform chooses (worst-case execution time, number of domains, length of the domain schedule,
  timer precision) is the record \<open>platform\<close> inside the state.

  \<^bold>\<open>State and effects.\<close> \<open>Structures\<close> holds one record \<open>kstate\<close> with a heap per object type (\<open>tcbs\<close>,
  \<open>scs\<close>, \<open>refills\<close>, \<open>replies\<close>, \<open>eps\<close>, \<open>ntfns\<close>, \<open>ctes\<close>, \<open>ptes\<close>, \<open>asid_pools\<close>, and the words \<open>mem\<close> of user frames) and the
  globals of \<^verbatim>\<open>include/model/statedata.h\<close>. A C function becomes a definition of the same name that takes
  and returns the state; a function that returns an exception returns a sum whose left side is
  the error; a loop over pointers is a \<open>partial_function\<close> into \<open>option\<close>, so that \<open>None\<close> stands for not
  returning (or for \<^verbatim>\<open>fail\<close>), and that the code returns is proved. Machine words are 64-bit words and wrap.
  A failed capability lookup returns its fault as a value where the C code stores it in
  \<^verbatim>\<open>current_lookup_fault\<close> and returns a status. An operation that can be preempted returns the exception beside the state.

  \<^bold>\<open>Parameters.\<close> What the hardware answers is a field of the state that no operation chooses: \<open>hwTime\<close> the readings of the clock,
  \<open>hwSIP\<close> and \<open>hwClaim\<close> the readings of the interrupt controller. The numbers of system calls and invocations are generated
  by the build; the functions \<open>labels\<close> and \<open>syscalls\<close> that read them are arguments of the definitions that use them, and the theorems hold for all of them.

  \<^bold>\<open>Theories.\<close>
  \<^item> \<open>Prelude\<close>: macros of \<^verbatim>\<open>util.h\<close>, lists threaded through a heap, and the locale \<open>dlinks\<close>, the
    interface of a doubly linked heap, interpreted for the scheduler links, the endpoint links and the
    links of the mapping database.
  \<^item> \<open>Structures\<close>: data types of \<^verbatim>\<open>object/structures.h\<close> and the bitfield files, and the state.
  \<^item> \<open>Util\<close>: \<^verbatim>\<open>util.c\<close> and \<^verbatim>\<open>string.c\<close>: bit counting, memory and string routines. The bit scans equal their
    specification, \<open>memset\<close> fills exactly its bytes, the bounded string copies stay in bounds.
  \<^item> \<open>Sporadic\<close>: \<^verbatim>\<open>kernel/sporadic.c\<close>: the ring buffer of refills. The ring refines a list of refills;
    charging, unblocking, configuring and updating keep it well formed and conserve the budget.
  \<^item> \<open>TcbQueue\<close>: the queues of \<^verbatim>\<open>object/tcb.c\<close>: ready queues with their two-level bitmaps, the release
    queue and endpoint queues. They refine lists; \<open>valid_sched\<close> is the invariant.
  \<^item> \<open>Machine\<close>: registers, messages, rights, IPC buffers and error values.
  \<^item> \<open>AddrSpace\<close>: the slots of a thread, address space identifiers and the translation register.
  \<^item> \<open>Scheduler\<close>: the scheduling half of \<^verbatim>\<open>kernel/thread.c\<close> and the domain schedule: choosing the
    highest-priority thread, waking threads from the release queue, stepping through domains.
  \<^item> \<open>Caps\<close>: the capability functions of \<^verbatim>\<open>object/objecttype.c\<close> and of the architecture: comparison,
    derivation and masking; authority is never amplified.
  \<^item> \<open>CSpace\<close>: \<^verbatim>\<open>kernel/cspace.c\<close>: capability lookup, which refines lookup in a bit trie.
  \<^item> \<open>CNode\<close>: \<^verbatim>\<open>object/cnode.c\<close>: capability slots and the mapping database as doubly linked chains.
  \<^item> \<open>Invocation\<close>: labels and results of decoding, and how the scheduler operations preserve \<open>sched_ok\<close>, the
    invariant without the clauses on the current thread.
  \<^item> \<open>Domain\<close>: \<^verbatim>\<open>object/domain.c\<close>: no invocation breaks the domain schedule.
  \<^item> \<open>SchedContext\<close>: \<^verbatim>\<open>object/schedcontext.c\<close> and \<^verbatim>\<open>object/schedcontrol.c\<close>: binding and donating scheduling
    contexts keeps the two directions of the binding consistent; accepted parameters are in range.
  \<^item> \<open>Reply\<close>: \<^verbatim>\<open>object/reply.c\<close>: the call stack of reply objects as a list.
  \<^item> \<open>Notification\<close>: \<^verbatim>\<open>object/notification.c\<close> and the cancelling half of \<^verbatim>\<open>object/endpoint.c\<close>: signals
    accumulate or wake the first waiter.
  \<^item> \<open>IpcTransfer\<close>: message transfer (\<^verbatim>\<open>doIPCTransfer\<close> in \<^verbatim>\<open>kernel/thread.c\<close>) and \<^verbatim>\<open>api/faults.c\<close>: a message arrives as
    it was sent, at most one capability goes with it, and a fault message that is answered unchanged restores the registers.
  \<^item> \<open>Endpoint\<close>: \<^verbatim>\<open>object/endpoint.c\<close>: sending, receiving and cancelling, over the endpoint as a queue of threads.
  \<^item> \<open>Thread\<close>: the rest of \<^verbatim>\<open>kernel/thread.c\<close> and \<^verbatim>\<open>kernel/faulthandler.c\<close>: suspending, replying, changing priority,
    billing and fault delivery.
  \<^item> \<open>VSpace\<close>: \<^verbatim>\<open>arch/riscv/kernel/vspace.c\<close>: page tables, identifier pools and their invocations, against the page walk of the
    hardware: a mapping shows exactly the frame with no more rights than its capability, unmapping hides it, and no deleted address space stays in use.
  \<^item> \<open>Finalise\<close>: deletion and revocation with zombies and preemption (\<^verbatim>\<open>object/cnode.c\<close>, \<^verbatim>\<open>finaliseCap\<close>, \<^verbatim>\<open>model/preemption.c\<close>) and the
    invocations of capability nodes: revoking returns and removes the derived capabilities; copying and moving create no authority.
  \<^item> \<open>Untyped\<close>: \<^verbatim>\<open>object/untyped.c\<close> and the creation of objects: new objects are aligned, disjoint, cleared and in the free part.
  \<^item> \<open>Interrupt\<close>: \<^verbatim>\<open>object/interrupt.c\<close> and the interrupt controller: one handler for an interrupt, reported until acknowledged.
  \<^item> \<open>TcbInv\<close>: the invocations of threads in \<^verbatim>\<open>object/tcb.c\<close>: priorities stay within the authority, registers round trip.
  \<^item> \<open>Syscall\<close>: \<^verbatim>\<open>api/syscall.c\<close>, \<^verbatim>\<open>decodeInvocation\<close> and the trap handlers: a refused invocation changes nothing but its answer, a
    thread without budget does no work in the kernel.
  \<^item> \<open>KernelExit\<close>: the composition of the scheduler's parts at the end of every entry: it returns, and a thread runs.
  \<^item> \<open>BootMem\<close>: \<^verbatim>\<open>kernel/boot.c\<close>: the state of booting, the tables of reserved and free memory, the objects of the initial thread and
    its untyped capabilities; the table of reserved memory stays in order and loses nothing.
  \<^item> \<open>BootFree\<close>: the search for free memory: what it finds is available, disjoint and avoids what is reserved.
  \<^item> \<open>BootUntyped\<close>: the untyped capabilities of the initial thread are disjoint and leave the memory of the kernel and of its objects alone.
  \<^item> \<open>Boot\<close>: the rest of \<^verbatim>\<open>kernel/boot.c\<close> and \<^verbatim>\<open>arch/riscv/kernel/boot.c\<close>: the mappings of the kernel, the capabilities and the address
    space of the initial thread, the two first threads, and \<^verbatim>\<open>init_kernel\<close>.
  \<^item> \<open>BootObjects\<close>: the objects of the initial thread are aligned and disjoint and fill the memory set aside for them.

  \<^bold>\<open>Bounds.\<close> No fuel is used: bounded loops are functions with a measure, unbounded ones are partial
  functions whose termination is a theorem under the invariant of the data they walk.

  \<^bold>\<open>Not modelled.\<close> The ARM and x86 ports, multiprocessor support, the
  fastpath, IOMMU, drivers, debugging and benchmarking code, the user libraries, and the SDK tools in \<^verbatim>\<open>src/root\<close>.
\<close>

end
